(* ===== verification/Prelude.thy ===== *)
theory Prelude
  imports Main
begin

text \<open>
  Shared vocabulary of the development: Python exceptions as the left component of a sum
  (\<open>bindE\<close>, \<open>mapE\<close>, \<open>checkE\<close>, \<open>catchE\<close>), the lemmas that carry the component proofs over
  these combinators, a few facts on association lists and \<open>takeWhile\<close>, and two generic
  interfaces that several components implement: \<open>partial_codec\<close> (an encoder with a decoder
  that may fail) and \<open>guarded_machine\<close> (a partial step function with an invariant).
\<close>

named_theorems result_simps \<open>equations that evaluate the exception combinators\<close>
named_theorems result_elims \<open>inversion rules for successful computations\<close>

section \<open>Computations that may raise\<close>

definition bindE :: "'e + 'a \<Rightarrow> ('a \<Rightarrow> 'e + 'b) \<Rightarrow> 'e + 'b" where
  "bindE m f = (case m of Inl e \<Rightarrow> Inl e | Inr x \<Rightarrow> f x)"

definition checkE :: "bool \<Rightarrow> 'e \<Rightarrow> 'e + unit" where
  "checkE ok e = (if ok then Inr () else Inl e)"

definition catchE :: "'e + 'a \<Rightarrow> ('e \<Rightarrow> 'f + 'a) \<Rightarrow> 'f + 'a" where
  "catchE m h = (case m of Inl e \<Rightarrow> h e | Inr x \<Rightarrow> Inr x)"

fun mapE :: "('a \<Rightarrow> 'e + 'b) \<Rightarrow> 'a list \<Rightarrow> 'e + 'b list" where
  "mapE f [] = Inr []"
| "mapE f (x # xs) = bindE (f x) (\<lambda>y. bindE (mapE f xs) (\<lambda>ys. Inr (y # ys)))"

definition iterE :: "('a \<Rightarrow> 'e + unit) \<Rightarrow> 'a list \<Rightarrow> 'e + unit" where
  "iterE f xs = bindE (mapE f xs) (\<lambda>_. Inr ())"

lemma bindE_simps [simp, result_simps]:
  "bindE (Inl e) f = Inl e"
  "bindE (Inr x) f = f x"
  by (simp_all add: bindE_def)

lemma bindE_assoc [result_simps]: "bindE (bindE m f) g = bindE m (\<lambda>x. bindE (f x) g)"
  by (simp add: bindE_def split: sum.splits)

lemma bindE_eq_Inr [result_elims]: "bindE m f = Inr y \<longleftrightarrow> (\<exists>x. m = Inr x \<and> f x = Inr y)"
  by (cases m) auto

lemma bindE_eq_Inl: "bindE m f = Inl e \<longleftrightarrow> m = Inl e \<or> (\<exists>x. m = Inr x \<and> f x = Inl e)"
  by (cases m) auto

lemma bindE_cong [fundef_cong]:
  "m = m' \<Longrightarrow> (\<And>x. m' = Inr x \<Longrightarrow> f x = g x) \<Longrightarrow> bindE m f = bindE m' g"
  by (cases m') auto

lemma checkE_simps [simp, result_simps]:
  "checkE True e = Inr ()"
  "checkE False e = Inl e"
  by (simp_all add: checkE_def)

lemma checkE_eq_Inr [simp, result_elims]: "checkE ok e = Inr u \<longleftrightarrow> ok"
  by (cases u) (simp add: checkE_def)

lemma checkE_eq_Inl [simp]: "checkE ok e = Inl e' \<longleftrightarrow> \<not> ok \<and> e' = e"
  by (auto simp: checkE_def)

lemma catchE_simps [simp, result_simps]:
  "catchE (Inl e) h = h e"
  "catchE (Inr x) h = Inr x"
  by (simp_all add: catchE_def)

lemma catchE_eq_Inr: "catchE m h = Inr y \<longleftrightarrow> m = Inr y \<or> (\<exists>e. m = Inl e \<and> h e = Inr y)"
  by (cases m) auto

lemma mapE_cong [fundef_cong]:
  "xs = ys \<Longrightarrow> (\<And>x. x \<in> set ys \<Longrightarrow> f x = g x) \<Longrightarrow> mapE f xs = mapE g ys"
  by (induction ys arbitrary: xs) auto

lemma mapE_eq_Inr_list_all2:
  "mapE f xs = Inr ys \<longleftrightarrow> list_all2 (\<lambda>x y. f x = Inr y) xs ys"
  by (induction xs arbitrary: ys) (auto simp: bindE_eq_Inr list_all2_Cons1)

lemma mapE_length: "mapE f xs = Inr ys \<Longrightarrow> length ys = length xs"
  by (simp add: mapE_eq_Inr_list_all2 list_all2_lengthD)

lemma mapE_all:
  assumes "mapE f xs = Inr ys" and "\<And>x y. x \<in> set xs \<Longrightarrow> f x = Inr y \<Longrightarrow> P y" and "y \<in> set ys"
  shows "P y"
proof -
  from assms(1,3) have "\<exists>x. x \<in> set xs \<and> f x = Inr y"
    by (induction xs arbitrary: ys) (fastforce simp: bindE_eq_Inr)+
  then obtain x where "x \<in> set xs" and "f x = Inr y" by blast
  then show ?thesis by (rule assms(2))
qed

lemma mapE_member:
  assumes "mapE f xs = Inr ys" and "x \<in> set xs"
  obtains y where "f x = Inr y" and "y \<in> set ys"
proof -
  from assms have "\<exists>y. f x = Inr y \<and> y \<in> set ys"
    by (induction xs arbitrary: ys) (auto simp: bindE_eq_Inr)
  with that show thesis by blast
qed

lemma mapE_Inr_exists: "(\<exists>ys. mapE f xs = Inr ys) \<longleftrightarrow> (\<forall>x \<in> set xs. \<exists>y. f x = Inr y)"
  by (induction xs) (auto simp: bindE_eq_Inr)

lemma mapE_total: "(\<And>x. x \<in> set xs \<Longrightarrow> f x = Inr (g x)) \<Longrightarrow> mapE f xs = Inr (map g xs)"
  by (induction xs) auto

lemma mapE_Inl_member: "mapE f xs = Inl e \<Longrightarrow> \<exists>x \<in> set xs. f x = Inl e"
  by (induction xs) (auto simp: bindE_eq_Inl)

lemma iterE_eq_Inr [result_elims]: "iterE f xs = Inr u \<longleftrightarrow> (\<forall>x \<in> set xs. f x = Inr ())"
  by (simp add: iterE_def bindE_eq_Inr mapE_Inr_exists)

lemma iterE_simps [simp, result_simps]:
  "iterE f [] = Inr ()"
  "iterE f (x # xs) = bindE (f x) (\<lambda>_. iterE f xs)"
  by (simp_all add: iterE_def bindE_assoc)

lemma iterE_cong [fundef_cong]:
  "xs = ys \<Longrightarrow> (\<And>x. x \<in> set ys \<Longrightarrow> f x = g x) \<Longrightarrow> iterE f xs = iterE g ys"
  by (simp add: iterE_def cong: mapE_cong)

lemma iterE_Inl_member:
  "iterE f xs = Inl e \<Longrightarrow> \<exists>x \<in> set xs. f x = Inl e"
  by (induction xs) (auto simp: bindE_eq_Inl)

section \<open>Lists related element by element\<close>

lemma list_all2_set2: "list_all2 P xs ys \<Longrightarrow> y \<in> set ys \<Longrightarrow> \<exists>x \<in> set xs. P x y"
  by (induction rule: list_all2_induct) auto

lemma list_all2_set1: "list_all2 P xs ys \<Longrightarrow> x \<in> set xs \<Longrightarrow> \<exists>y \<in> set ys. P x y"
  by (induction rule: list_all2_induct) auto

lemma list_all2_map_eq:
  "list_all2 P xs ys \<Longrightarrow> (\<And>x y. x \<in> set xs \<Longrightarrow> P x y \<Longrightarrow> f x = g y) \<Longrightarrow> map f xs = map g ys"
  by (induction rule: list_all2_induct) auto

lemma list_all2_same2:
  "list_all2 P xs ys \<Longrightarrow> (\<And>x y. x \<in> set xs \<Longrightarrow> P x y \<Longrightarrow> Q y y) \<Longrightarrow> list_all2 Q ys ys"
  by (induction rule: list_all2_induct) auto

section \<open>Association lists\<close>

text \<open>A Python dict keeps insertion order; an assignment to a present key keeps its position.\<close>

fun al_set :: "'k \<Rightarrow> 'v \<Rightarrow> ('k \<times> 'v) list \<Rightarrow> ('k \<times> 'v) list" where
  "al_set k v [] = [(k, v)]"
| "al_set k v ((k', v') # kvs) = (if k' = k then (k, v) # kvs else (k', v') # al_set k v kvs)"

lemma map_of_al_set [simp]: "map_of (al_set k v kvs) = (map_of kvs)(k \<mapsto> v)"
  by (induction kvs) auto

lemma keys_al_set [simp]: "fst ` set (al_set k v kvs) = insert k (fst ` set kvs)"
  by (induction k v kvs rule: al_set.induct) (simp_all add: insert_commute)

lemma distinct_al_set [simp]:
  "distinct (map fst kvs) \<Longrightarrow> distinct (map fst (al_set k v kvs))"
  by (induction k v kvs rule: al_set.induct) auto

lemma al_set_fresh: "k \<notin> fst ` set kvs \<Longrightarrow> al_set k v kvs = kvs @ [(k, v)]"
  by (induction kvs) auto

section \<open>Generic interfaces\<close>

text \<open>
  An encoder together with a decoder that may reject its input. Its clients need that decoding
  what was encoded returns the value, hence that no two values share an encoding.
\<close>

locale partial_codec =
  fixes enc :: "'a \<Rightarrow> 'b" and dec :: "'b \<Rightarrow> 'a option" and ok :: "'a \<Rightarrow> bool"
  assumes dec_enc: "ok x \<Longrightarrow> dec (enc x) = Some x"
begin

lemma enc_inj: "ok x \<Longrightarrow> ok y \<Longrightarrow> enc x = enc y \<Longrightarrow> x = y"
  by (metis dec_enc option.inject)

lemma enc_eq_iff: "ok x \<Longrightarrow> ok y \<Longrightarrow> enc x = enc y \<longleftrightarrow> x = y"
  using enc_inj by blast

lemma dec_inverts: "ok x \<Longrightarrow> dec (enc x) = Some y \<Longrightarrow> y = x"
  by (simp add: dec_enc)

end

text \<open>
  A machine whose step may refuse an input. An invariant of every accepted step holds after
  every accepted sequence of inputs, and a refusal is stable under longer inputs.
\<close>

fun runE :: "('s \<Rightarrow> 'i \<Rightarrow> 'e + 's) \<Rightarrow> 's \<Rightarrow> 'i list \<Rightarrow> 'e + 's" where
  "runE f s [] = Inr s"
| "runE f s (i # is) = bindE (f s i) (\<lambda>t. runE f t is)"

lemma runE_append: "runE f s (xs @ ys) = bindE (runE f s xs) (\<lambda>t. runE f t ys)"
  by (induction xs arbitrary: s) (simp_all add: bindE_assoc)

locale guarded_machine =
  fixes step :: "'s \<Rightarrow> 'i \<Rightarrow> 'e + 's" and inv :: "'s \<Rightarrow> bool"
  assumes step_inv: "inv s \<Longrightarrow> step s i = Inr t \<Longrightarrow> inv t"
begin

lemma run_inv: "inv s \<Longrightarrow> runE step s is = Inr t \<Longrightarrow> inv t"
  by (induction "is" arbitrary: s) (auto simp: bindE_eq_Inr intro: step_inv)

lemma run_prefix_inv:
  assumes "inv s" and "runE step s (xs @ ys) = Inr t"
  shows "\<exists>u. runE step s xs = Inr u \<and> inv u"
  using assms by (auto simp: runE_append bindE_eq_Inr intro: run_inv)

end

end
