(* ===== verification/Py_Text.thy ===== *)
theory Py_Text
  imports Prelude "HOL-Library.List_Lexorder"
begin

text \<open>
  Python text and byte strings as the agent uses them. A \<open>str\<close> is its list of code points
  (surrogates included, so that every \<open>UnicodeEncodeError\<close> branch of the sources is a branch
  here), a \<open>bytes\<close> is a list of numbers below 256. The theory holds UTF-8 in both directions,
  substring search, ASCII classes, \<open>lower\<close>, \<open>strip\<close>, decimal and hexadecimal text. What
  Python reads from the Unicode character database for code points beyond ASCII is a field of
  the record \<open>ucd\<close>.
\<close>

type_synonym pystr = "nat list"
type_synonym pybytes = "nat list"

section \<open>Definitions\<close>

subsection \<open>Literals, classes and case\<close>

definition py :: "string \<Rightarrow> pystr" where
  "py s = map of_char s"

definition ascii_digit :: "nat \<Rightarrow> bool" where
  "ascii_digit c \<longleftrightarrow> 48 \<le> c \<and> c \<le> 57"

definition ascii_upper :: "nat \<Rightarrow> bool" where
  "ascii_upper c \<longleftrightarrow> 65 \<le> c \<and> c \<le> 90"

definition ascii_lower :: "nat \<Rightarrow> bool" where
  "ascii_lower c \<longleftrightarrow> 97 \<le> c \<and> c \<le> 122"

definition ascii_alnum :: "nat \<Rightarrow> bool" where
  "ascii_alnum c \<longleftrightarrow> ascii_digit c \<or> ascii_upper c \<or> ascii_lower c"

definition isascii :: "pystr \<Rightarrow> bool" where
  "isascii s \<longleftrightarrow> list_all (\<lambda>c. c < 128) s"

record ucd =
  uc_lower :: "nat \<Rightarrow> nat list"
  uc_space :: "nat \<Rightarrow> bool"
  uc_word :: "nat \<Rightarrow> bool"
  uc_decimal :: "nat \<Rightarrow> bool"

definition lower_ascii_char :: "nat \<Rightarrow> nat" where
  "lower_ascii_char c = (if ascii_upper c then c + 32 else c)"

definition upper_ascii_char :: "nat \<Rightarrow> nat" where
  "upper_ascii_char c = (if ascii_lower c then c - 32 else c)"

definition py_lower :: "ucd \<Rightarrow> pystr \<Rightarrow> pystr" where
  "py_lower u s = concat (map (\<lambda>c. if c < 128 then [lower_ascii_char c] else uc_lower u c) s)"

definition ascii_space :: "nat \<Rightarrow> bool" where
  "ascii_space c \<longleftrightarrow> c = 32 \<or> (9 \<le> c \<and> c \<le> 13) \<or> (28 \<le> c \<and> c \<le> 31)"

definition py_space :: "ucd \<Rightarrow> nat \<Rightarrow> bool" where
  "py_space u c = (if c < 128 then ascii_space c else uc_space u c)"

definition re_word :: "ucd \<Rightarrow> nat \<Rightarrow> bool" where
  "re_word u c = (if c < 128 then ascii_alnum c \<or> c = 95 else uc_word u c)"

definition re_decimal :: "ucd \<Rightarrow> nat \<Rightarrow> bool" where
  "re_decimal u c = (if c < 128 then ascii_digit c else uc_decimal u c)"

subsection \<open>Searching\<close>

fun starts_with :: "'a list \<Rightarrow> 'a list \<Rightarrow> bool" where
  "starts_with [] ys = True"
| "starts_with (x # xs) [] = False"
| "starts_with (x # xs) (y # ys) = (x = y \<and> starts_with xs ys)"

fun has_sub :: "'a list \<Rightarrow> 'a list \<Rightarrow> bool" where
  "has_sub p [] = (p = [])"
| "has_sub p (y # ys) = (starts_with p (y # ys) \<or> has_sub p ys)"

definition ends_with :: "'a list \<Rightarrow> 'a list \<Rightarrow> bool" where
  "ends_with p s = starts_with (rev p) (rev s)"

fun partition_at :: "'a \<Rightarrow> 'a list \<Rightarrow> 'a list \<times> bool \<times> 'a list" where
  "partition_at c [] = ([], False, [])"
| "partition_at c (x # xs) =
     (if x = c then ([], True, xs)
      else (case partition_at c xs of (a, found, b) \<Rightarrow> (x # a, found, b)))"

fun split_on :: "'a \<Rightarrow> 'a list \<Rightarrow> 'a list list" where
  "split_on c [] = [[]]"
| "split_on c (x # xs) =
     (if x = c then [] # split_on c xs
      else (case split_on c xs of [] \<Rightarrow> [[x]] | w # ws \<Rightarrow> (x # w) # ws))"

definition py_strip :: "ucd \<Rightarrow> pystr \<Rightarrow> pystr" where
  "py_strip u s = rev (dropWhile (py_space u) (rev (dropWhile (py_space u) s)))"

subsection \<open>UTF-8\<close>

definition surrogate :: "nat \<Rightarrow> bool" where
  "surrogate c \<longleftrightarrow> 55296 \<le> c \<and> c \<le> 57343"

definition scalar :: "nat \<Rightarrow> bool" where
  "scalar c \<longleftrightarrow> c < 1114112 \<and> \<not> surrogate c"

definition utf8_char :: "nat \<Rightarrow> pybytes" where
  "utf8_char c =
     (if c < 128 then [c]
      else if c < 2048 then [192 + c div 64, 128 + c mod 64]
      else if c < 65536 then [224 + c div 4096, 128 + c div 64 mod 64, 128 + c mod 64]
      else [240 + c div 262144, 128 + c div 4096 mod 64, 128 + c div 64 mod 64, 128 + c mod 64])"

definition utf8_bytes :: "pystr \<Rightarrow> pybytes" where
  "utf8_bytes s = concat (map utf8_char s)"

text \<open>\<open>s.encode("utf-8")\<close>; \<open>None\<close> is the \<open>UnicodeEncodeError\<close> a lone surrogate raises.\<close>

definition utf8_encode :: "pystr \<Rightarrow> pybytes option" where
  "utf8_encode s = (if list_ex surrogate s then None else Some (utf8_bytes s))"

text \<open>\<open>s.encode("utf-8", "replace")\<close>: a surrogate becomes a question mark.\<close>

definition utf8_encode_replace :: "pystr \<Rightarrow> pybytes" where
  "utf8_encode_replace s = concat (map (\<lambda>c. if surrogate c then [63] else utf8_char c) s)"

definition cont :: "nat \<Rightarrow> bool" where
  "cont b \<longleftrightarrow> 128 \<le> b \<and> b < 192"

text \<open>The code point at the head of a byte string and the number of bytes after the first.\<close>

definition utf8_head :: "nat \<Rightarrow> pybytes \<Rightarrow> (nat \<times> nat) option" where
  "utf8_head b bs =
     (if b < 128 then Some (b, 0)
      else if 194 \<le> b \<and> b < 224 then
        (case bs of b1 # _ \<Rightarrow>
           if cont b1 then Some ((b - 192) * 64 + (b1 - 128), 1) else None
         | _ \<Rightarrow> None)
      else if 224 \<le> b \<and> b < 240 then
        (case bs of b1 # b2 # _ \<Rightarrow>
           let c = (b - 224) * 4096 + (b1 - 128) * 64 + (b2 - 128)
           in if cont b1 \<and> cont b2 \<and> 2048 \<le> c \<and> \<not> surrogate c then Some (c, 2) else None
         | _ \<Rightarrow> None)
      else if 240 \<le> b \<and> b < 245 then
        (case bs of b1 # b2 # b3 # _ \<Rightarrow>
           let c = (b - 240) * 262144 + (b1 - 128) * 4096 + (b2 - 128) * 64 + (b3 - 128)
           in if cont b1 \<and> cont b2 \<and> cont b3 \<and> 65536 \<le> c \<and> c < 1114112 then Some (c, 3) else None
         | _ \<Rightarrow> None)
      else None)"

fun utf8_decode :: "pybytes \<Rightarrow> pystr option" where
  "utf8_decode [] = Some []"
| "utf8_decode (b # bs) =
     (case utf8_head b bs of
        None \<Rightarrow> None
      | Some (c, n) \<Rightarrow> map_option (Cons c) (utf8_decode (drop n bs)))"

text \<open>\<open>b.decode("utf-8", "ignore")\<close>: bytes that start no code point are dropped.\<close>

fun utf8_decode_ignore :: "pybytes \<Rightarrow> pystr" where
  "utf8_decode_ignore [] = []"
| "utf8_decode_ignore (b # bs) =
     (case utf8_head b bs of
        None \<Rightarrow> utf8_decode_ignore bs
      | Some (c, n) \<Rightarrow> c # utf8_decode_ignore (drop n bs))"

text \<open>
  \<open>b.decode("utf-8", "replace")\<close>: the longest start of a code point that cannot be completed becomes one replacement
  character; \<open>utf8_skip\<close> is its number of bytes after the first.
\<close>

definition second_ok :: "nat \<Rightarrow> nat \<Rightarrow> bool" where
  "second_ok b b1 \<longleftrightarrow> cont b1 \<and> (b = 224 \<longrightarrow> 160 \<le> b1) \<and> (b = 237 \<longrightarrow> b1 < 160) \<and> (b = 240 \<longrightarrow> 144 \<le> b1) \<and> (b = 244 \<longrightarrow> b1 < 144)"

definition utf8_skip :: "nat \<Rightarrow> pybytes \<Rightarrow> nat" where
  "utf8_skip b bs = (case bs of
      [] \<Rightarrow> 0
    | b1 # rest \<Rightarrow>
        if 224 \<le> b \<and> b < 245 \<and> second_ok b b1
        then (if 240 \<le> b \<and> rest \<noteq> [] \<and> cont (hd rest) then 2 else 1)
        else 0)"

fun utf8_decode_replace :: "pybytes \<Rightarrow> pystr" where
  "utf8_decode_replace [] = []"
| "utf8_decode_replace (b # bs) =
     (case utf8_head b bs of
        None \<Rightarrow> 65533 # utf8_decode_replace (drop (utf8_skip b bs) bs)
      | Some (c, n) \<Rightarrow> c # utf8_decode_replace (drop n bs))"

subsection \<open>Numerals\<close>

fun dec :: "nat \<Rightarrow> pystr" where
  "dec n = (if n < 10 then [48 + n] else dec (n div 10) @ [48 + n mod 10])"

declare dec.simps [simp del]

definition dec_int :: "int \<Rightarrow> pystr" where
  "dec_int i = (if i < 0 then 45 # dec (nat (- i)) else dec (nat i))"

definition undec :: "pystr \<Rightarrow> nat" where
  "undec s = foldl (\<lambda>a c. 10 * a + (c - 48)) 0 s"

definition hex_digit :: "nat \<Rightarrow> nat" where
  "hex_digit n = (if n < 10 then 48 + n else 87 + n)"

definition lower_hex :: "nat \<Rightarrow> bool" where
  "lower_hex c \<longleftrightarrow> ascii_digit c \<or> (97 \<le> c \<and> c \<le> 102)"

section \<open>Lemmas\<close>

lemma py_inject [simp]: "py a = py b \<longleftrightarrow> a = b"
  by (auto simp: py_def inj_map_eq_map inj_on_def)

lemma py_Nil [simp]: "py [] = []" "py a = [] \<longleftrightarrow> a = []"
  by (simp_all add: py_def)

lemma length_py [simp]: "length (py s) = length s"
  by (simp add: py_def)

lemma starts_with_iff: "starts_with p s \<longleftrightarrow> (\<exists>t. s = p @ t)"
  by (induction p s rule: starts_with.induct) auto

lemma has_sub_iff: "has_sub p s \<longleftrightarrow> (\<exists>a b. s = a @ p @ b)"
proof (induction p s rule: has_sub.induct)
  case (2 p y ys)
  have "(\<exists>a b. y # ys = a @ p @ b) \<longleftrightarrow> (\<exists>b. y # ys = p @ b) \<or> (\<exists>a b. ys = a @ p @ b)"
    by (metis append_Cons append_Nil append_eq_Cons_conv)
  with 2 show ?case by (simp add: starts_with_iff)
qed simp

lemma has_sub_self [simp]: "has_sub s s"
  by (auto simp: has_sub_iff intro: exI [of _ "[]"])

lemma has_sub_subset: "has_sub p s \<Longrightarrow> set p \<subseteq> set s"
  by (auto simp: has_sub_iff)

lemma partition_at_spec:
  "partition_at c s = (a, found, b) \<Longrightarrow>
     c \<notin> set a \<and> (if found then s = a @ c # b else s = a \<and> b = [])"
  by (induction s arbitrary: a found b) (auto split: prod.splits if_splits)

lemma isascii_simps [simp]:
  "isascii []"
  "isascii (c # s) \<longleftrightarrow> c < 128 \<and> isascii s"
  "isascii (s @ t) \<longleftrightarrow> isascii s \<and> isascii t"
  by (simp_all add: isascii_def)

lemma isascii_iff: "isascii s \<longleftrightarrow> (\<forall>c \<in> set s. c < 128)"
  by (simp add: isascii_def list_all_iff)

lemma py_lower_ascii: "isascii s \<Longrightarrow> py_lower u s = map lower_ascii_char s"
  by (induction s) (simp_all add: py_lower_def)

lemma isascii_not_surrogate: "isascii s \<Longrightarrow> \<not> list_ex surrogate s"
  by (induction s) (auto simp: surrogate_def)

lemma utf8_bytes_simps [simp]:
  "utf8_bytes [] = []"
  "utf8_bytes (c # s) = utf8_char c @ utf8_bytes s"
  "utf8_bytes (s @ t) = utf8_bytes s @ utf8_bytes t"
  by (simp_all add: utf8_bytes_def)

lemma utf8_bytes_ascii [simp]: "isascii s \<Longrightarrow> utf8_bytes s = s"
  by (induction s) (simp_all add: utf8_char_def)

lemma utf8_encode_ascii [simp]: "isascii s \<Longrightarrow> utf8_encode s = Some s"
  by (simp add: utf8_encode_def isascii_not_surrogate)

lemma length_utf8_char: "1 \<le> length (utf8_char c)" "length (utf8_char c) \<le> 4"
  by (simp_all add: utf8_char_def)

lemma length_utf8_bytes: "length s \<le> length (utf8_bytes s)"
proof (induction s)
  case (Cons c s)
  then show ?case using length_utf8_char(1) [of c] by simp
qed simp

lemma utf8_char_bytes: "c < 1114112 \<Longrightarrow> b \<in> set (utf8_char c) \<Longrightarrow> b < 256"
  by (auto simp: utf8_char_def split: if_splits)

lemma utf8_head_cont2:
  assumes "128 \<le> c" and "c < 2048"
  shows "utf8_head (192 + c div 64) ((128 + c mod 64) # bs) = Some (c, 1)"
proof -
  have "2 \<le> c div 64" "c div 64 < 32" using assms by auto
  then show ?thesis by (auto simp: utf8_head_def cont_def)
qed

lemma split3: "c div 4096 * 4096 + c div 64 mod 64 * 64 + c mod 64 = (c::nat)"
proof -
  have "c div 4096 = c div 64 div 64" by (simp add: div_mult2_eq [symmetric])
  moreover have "c div 64 div 64 * 4096 + c div 64 mod 64 * 64 + c mod 64 = c"
    using div_mult_mod_eq [of c 64] div_mult_mod_eq [of "c div 64" 64] by linarith
  ultimately show ?thesis by simp
qed

lemma utf8_head_cont3:
  assumes "2048 \<le> c" and "c < 65536" and "\<not> surrogate c"
  shows "utf8_head (224 + c div 4096) ((128 + c div 64 mod 64) # (128 + c mod 64) # bs) = Some (c, 2)"
proof -
  have "c div 4096 < 16" using assms by auto
  then show ?thesis using assms split3 [of c] by (auto simp: utf8_head_def cont_def Let_def)
qed

lemma split4: "c div 262144 * 262144 + c div 4096 mod 64 * 4096 + c div 64 mod 64 * 64 + c mod 64 = (c::nat)"
proof -
  have "c div 262144 = c div 4096 div 64" by (simp add: div_mult2_eq [symmetric])
  moreover have "c div 4096 div 64 * 262144 + c div 4096 mod 64 * 4096 = c div 4096 * 4096"
    using div_mult_mod_eq [of "c div 4096" 64] by linarith
  ultimately show ?thesis using split3 [of c] by simp
qed

lemma utf8_head_cont4:
  assumes "65536 \<le> c" and "c < 1114112"
  shows "utf8_head (240 + c div 262144)
           ((128 + c div 4096 mod 64) # (128 + c div 64 mod 64) # (128 + c mod 64) # bs) = Some (c, 3)"
proof -
  have "c div 262144 < 5" using assms by auto
  then show ?thesis using assms split4 [of c] by (auto simp: utf8_head_def cont_def Let_def)
qed

lemma utf8_decode_char:
  assumes "scalar c"
  shows "utf8_decode (utf8_char c @ bs) = map_option (Cons c) (utf8_decode bs)"
  using assms
  by (auto simp: utf8_char_def scalar_def utf8_head_cont2 utf8_head_cont3 utf8_head_cont4
      simp: utf8_head_def [of c])

lemma utf8_decode_bytes: "list_all scalar s \<Longrightarrow> utf8_decode (utf8_bytes s) = Some s"
  by (induction s) (simp_all add: utf8_decode_char)

interpretation utf8: partial_codec utf8_bytes utf8_decode "list_all scalar"
  by unfold_locales (rule utf8_decode_bytes)

lemma dec_digits: "c \<in> set (dec n) \<Longrightarrow> ascii_digit c"
  by (induction n rule: dec.induct) (subst (asm) (2) dec.simps, auto simp: ascii_digit_def split: if_splits)

lemma dec_not_Nil [simp]: "dec n \<noteq> []"
  by (subst dec.simps) simp

lemma undec_append: "undec (s @ [c]) = 10 * undec s + (c - 48)"
  by (simp add: undec_def)

lemma undec_dec [simp]: "undec (dec n) = n"
proof (induction n rule: dec.induct)
  case (1 n)
  show ?case
  proof (cases "n < 10")
    case True
    then show ?thesis by (subst dec.simps) (simp add: undec_def)
  next
    case False
    then show ?thesis using 1 by (subst dec.simps) (simp add: undec_append)
  qed
qed

lemma dec_inject [simp]: "dec m = dec n \<longleftrightarrow> m = n"
  by (metis undec_dec)

lemma isascii_dec [simp]: "isascii (dec n)"
  by (auto simp: isascii_iff ascii_digit_def dest!: dec_digits)

lemma isascii_dec_int [simp]: "isascii (dec_int i)"
  by (simp add: dec_int_def)

end
