(* ===== verification/Py_Values.thy ===== *)
theory Py_Values
  imports Complex_Main Py_Text
begin

text \<open>
  Python values as the agent's validators see them: the arguments the sources annotate with
  \<open>Any\<close>. A dict is its item list in insertion order, tagged with its class (\<open>dict\<close>, the
  sources' \<open>_FrozenDict\<close>, or a mapping that is no dict). A key is a string or an object that
  \<open>json.dumps\<close> refuses as a key. A float is its exact value, with the signed zero and the three
  non-finite values apart. The theory holds the type tests, the equality \<open>==\<close>, the identity of
  types, and the numeric order of ints and floats.
\<close>

datatype pyfloat = FFin rat | FNegZero | FPosInf | FNegInf | FNaN

datatype pykey = SKey pystr | OKey nat

datatype dkind = Plain | Frozen | OtherMapping

datatype pyval =
    PNone
  | PBool bool
  | PInt int
  | PFloat pyfloat
  | PStr pystr
  | PBytes pybytes
  | PList "pyval list"
  | PTuple "pyval list"
  | PDict dkind "(pykey \<times> pyval) list"
  | PObj nat

type_synonym items = "(pykey \<times> pyval) list"

section \<open>Type tests\<close>

definition is_str :: "pyval \<Rightarrow> bool" where
  "is_str v = (case v of PStr _ \<Rightarrow> True | _ \<Rightarrow> False)"

definition is_bool :: "pyval \<Rightarrow> bool" where
  "is_bool v = (case v of PBool _ \<Rightarrow> True | _ \<Rightarrow> False)"

text \<open>\<open>isinstance(v, int)\<close> holds of the booleans too; the sources test \<open>bool\<close> beside it.\<close>

definition is_int :: "pyval \<Rightarrow> bool" where
  "is_int v = (case v of PInt _ \<Rightarrow> True | PBool _ \<Rightarrow> True | _ \<Rightarrow> False)"

definition is_float :: "pyval \<Rightarrow> bool" where
  "is_float v = (case v of PFloat _ \<Rightarrow> True | _ \<Rightarrow> False)"

definition is_mapping :: "pyval \<Rightarrow> bool" where
  "is_mapping v = (case v of PDict _ _ \<Rightarrow> True | _ \<Rightarrow> False)"

definition is_dict :: "pyval \<Rightarrow> bool" where
  "is_dict v = (case v of PDict k _ \<Rightarrow> k \<noteq> OtherMapping | _ \<Rightarrow> False)"

definition is_list :: "pyval \<Rightarrow> bool" where
  "is_list v = (case v of PList _ \<Rightarrow> True | _ \<Rightarrow> False)"

definition is_seq :: "pyval \<Rightarrow> bool" where
  "is_seq v = (case v of PList _ \<Rightarrow> True | PTuple _ \<Rightarrow> True | _ \<Rightarrow> False)"

definition finite_float :: "pyfloat \<Rightarrow> bool" where
  "finite_float f = (case f of FFin _ \<Rightarrow> True | FNegZero \<Rightarrow> True | _ \<Rightarrow> False)"

definition elems :: "pyval \<Rightarrow> pyval list" where
  "elems v = (case v of PList xs \<Rightarrow> xs | PTuple xs \<Rightarrow> xs | _ \<Rightarrow> [])"

definition items_of :: "pyval \<Rightarrow> items" where
  "items_of v = (case v of PDict _ kvs \<Rightarrow> kvs | _ \<Rightarrow> [])"

definition dget :: "items \<Rightarrow> string \<Rightarrow> pyval option" where
  "dget kvs k = map_of kvs (SKey (py k))"

definition dhas :: "items \<Rightarrow> string \<Rightarrow> bool" where
  "dhas kvs k \<longleftrightarrow> dget kvs k \<noteq> None"

definition keyset_within :: "items \<Rightarrow> string list \<Rightarrow> bool" where
  "keyset_within kvs allowed \<longleftrightarrow> list_all (\<lambda>(k, v). k \<in> (\<lambda>s. SKey (py s)) ` set allowed) kvs"

definition has_all :: "items \<Rightarrow> string list \<Rightarrow> bool" where
  "has_all kvs required \<longleftrightarrow> list_all (dhas kvs) required"

text \<open>The truth value of an object, as \<open>if\<close>, \<open>and\<close> and \<open>not\<close> read it.\<close>

definition truthy :: "pyval \<Rightarrow> bool" where
  "truthy v = (case v of PNone \<Rightarrow> False | PBool b \<Rightarrow> b | PInt i \<Rightarrow> i \<noteq> 0 | PFloat f \<Rightarrow> f \<noteq> FFin 0 \<and> f \<noteq> FNegZero | PStr s \<Rightarrow> s \<noteq> []
    | PBytes b \<Rightarrow> b \<noteq> [] | PList xs \<Rightarrow> xs \<noteq> [] | PTuple xs \<Rightarrow> xs \<noteq> [] | PDict _ kvs \<Rightarrow> kvs \<noteq> [] | PObj _ \<Rightarrow> True)"

text \<open>\<open>type(v)\<close>, for the sources' \<open>type(a) is type(b)\<close>.\<close>

datatype pytype = TNone | TBool | TInt | TFloat | TStr | TBytes | TList | TTuple | TDict dkind | TObj

definition py_type :: "pyval \<Rightarrow> pytype" where
  "py_type v = (case v of
      PNone \<Rightarrow> TNone | PBool _ \<Rightarrow> TBool | PInt _ \<Rightarrow> TInt | PFloat _ \<Rightarrow> TFloat | PStr _ \<Rightarrow> TStr
    | PBytes _ \<Rightarrow> TBytes | PList _ \<Rightarrow> TList | PTuple _ \<Rightarrow> TTuple | PDict k _ \<Rightarrow> TDict k | PObj _ \<Rightarrow> TObj)"

section \<open>Numbers\<close>

text \<open>A number as its place on the extended line; \<open>None\<close> is \<open>nan\<close>.\<close>

datatype extended = NegInf | Fin rat | PosInf

definition float_extended :: "pyfloat \<Rightarrow> extended option" where
  "float_extended f = (case f of
      FFin r \<Rightarrow> Some (Fin r) | FNegZero \<Rightarrow> Some (Fin 0)
    | FPosInf \<Rightarrow> Some PosInf | FNegInf \<Rightarrow> Some NegInf | FNaN \<Rightarrow> None)"

text \<open>The outer \<open>None\<close> says that the value is no number.\<close>

definition number_of :: "pyval \<Rightarrow> extended option option" where
  "number_of v = (case v of
      PBool b \<Rightarrow> Some (Some (Fin (if b then 1 else 0)))
    | PInt i \<Rightarrow> Some (Some (Fin (of_int i)))
    | PFloat f \<Rightarrow> Some (float_extended f)
    | _ \<Rightarrow> None)"

fun ext_less :: "extended \<Rightarrow> extended \<Rightarrow> bool" where
  "ext_less NegInf y = (y \<noteq> NegInf)"
| "ext_less (Fin a) y = (case y of NegInf \<Rightarrow> False | Fin b \<Rightarrow> a < b | PosInf \<Rightarrow> True)"
| "ext_less PosInf y = False"

text \<open>\<open>a < b\<close> on two numbers; a comparison with \<open>nan\<close> is false.\<close>

definition num_less :: "pyval \<Rightarrow> pyval \<Rightarrow> bool" where
  "num_less a b = (case (number_of a, number_of b) of
      (Some (Some x), Some (Some y)) \<Rightarrow> ext_less x y
    | _ \<Rightarrow> False)"

section \<open>Equality\<close>

fun py_eq :: "pyval \<Rightarrow> pyval \<Rightarrow> bool"
  and py_eq_list :: "pyval list \<Rightarrow> pyval list \<Rightarrow> bool"
  and py_eq_items :: "items \<Rightarrow> items \<Rightarrow> bool" where
  "py_eq PNone b = (b = PNone)"
| "py_eq (PStr s) b = (b = PStr s)"
| "py_eq (PBytes s) b = (b = PBytes s)"
| "py_eq (PObj n) b = (b = PObj n)"
| "py_eq (PBool x) b = (case number_of b of Some (Some y) \<Rightarrow> y = Fin (if x then 1 else 0) | _ \<Rightarrow> False)"
| "py_eq (PInt i) b = (case number_of b of Some (Some y) \<Rightarrow> y = Fin (of_int i) | _ \<Rightarrow> False)"
| "py_eq (PFloat f) b =
     (case (float_extended f, number_of b) of (Some x, Some (Some y)) \<Rightarrow> x = y | _ \<Rightarrow> False)"
| "py_eq (PList xs) b = (case b of PList ys \<Rightarrow> py_eq_list xs ys | _ \<Rightarrow> False)"
| "py_eq (PTuple xs) b = (case b of PTuple ys \<Rightarrow> py_eq_list xs ys | _ \<Rightarrow> False)"
| "py_eq (PDict k kvs) b =
     (case b of PDict k' kvs' \<Rightarrow> length kvs = length kvs' \<and> py_eq_items kvs kvs' | _ \<Rightarrow> False)"
| "py_eq_list [] ys = (ys = [])"
| "py_eq_list (x # xs) ys = (case ys of [] \<Rightarrow> False | y # ys' \<Rightarrow> py_eq x y \<and> py_eq_list xs ys')"
| "py_eq_items [] kvs' = True"
| "py_eq_items ((k, v) # kvs) kvs' =
     ((case map_of kvs' k of None \<Rightarrow> False | Some v' \<Rightarrow> py_eq v v') \<and> py_eq_items kvs kvs')"

section \<open>Well-formed values\<close>

text \<open>What Python guarantees of every dict: no key occurs twice.\<close>

fun wf_val :: "pyval \<Rightarrow> bool" where
  "wf_val (PList xs) = list_all wf_val xs"
| "wf_val (PTuple xs) = list_all wf_val xs"
| "wf_val (PDict k kvs) = (distinct (map fst kvs) \<and> list_all (\<lambda>(k, v). wf_val v) kvs)"
| "wf_val _ = True"

lemmas type_test_defs = is_str_def is_bool_def is_int_def is_float_def is_mapping_def is_dict_def
  is_list_def is_seq_def

lemma type_tests [simp]:
  "is_str (PStr s)" "\<not> is_str PNone" "\<not> is_str (PBool b)" "\<not> is_str (PInt i)" "\<not> is_str (PFloat f)"
  "\<not> is_str (PList xs)" "\<not> is_str (PTuple xs)" "\<not> is_str (PDict k kvs)"
  "is_bool (PBool b)" "\<not> is_bool (PInt i)" "is_int (PInt i)" "is_int (PBool b)"
  "is_mapping (PDict k kvs)" "is_dict (PDict k kvs) \<longleftrightarrow> k \<noteq> OtherMapping"
  "is_list (PList xs)" "\<not> is_list (PTuple xs)" "is_seq (PList xs)" "is_seq (PTuple xs)"
  by (simp_all add: type_test_defs)

lemma is_str_iff: "is_str v \<longleftrightarrow> (\<exists>s. v = PStr s)"
  by (simp add: is_str_def split: pyval.splits)

lemma is_bool_iff: "is_bool v \<longleftrightarrow> (\<exists>b. v = PBool b)"
  by (simp add: is_bool_def split: pyval.splits)

lemma is_int_iff: "is_int v \<and> \<not> is_bool v \<longleftrightarrow> (\<exists>i. v = PInt i)"
  by (simp add: is_int_def is_bool_def split: pyval.splits)

lemma is_dict_iff: "is_dict v \<longleftrightarrow> (\<exists>k kvs. v = PDict k kvs \<and> k \<noteq> OtherMapping)"
  by (simp add: is_dict_def split: pyval.splits)

lemma is_mapping_iff: "is_mapping v \<longleftrightarrow> (\<exists>k kvs. v = PDict k kvs)"
  by (simp add: is_mapping_def split: pyval.splits)

lemma is_seq_iff: "is_seq v \<longleftrightarrow> (\<exists>xs. v = PList xs \<or> v = PTuple xs)"
  by (simp add: is_seq_def split: pyval.splits)

lemma is_dict_is_mapping: "is_dict v \<Longrightarrow> is_mapping v"
  by (auto simp: is_dict_iff)

lemma elems_simps [simp]: "elems (PList xs) = xs" "elems (PTuple xs) = xs"
  by (simp_all add: elems_def)

lemma items_of_simps [simp]: "items_of (PDict k kvs) = kvs"
  by (simp add: items_of_def)

lemma dget_Nil [simp]: "dget [] k = None"
  by (simp add: dget_def)

lemma dget_Cons [simp]:
  "dget ((SKey (py a), v) # kvs) k = (if a = k then Some v else dget kvs k)"
  "dget ((OKey n, v) # kvs) k = dget kvs k"
  by (simp_all add: dget_def)

lemma dget_member: "dget kvs k = Some v \<Longrightarrow> (SKey (py k), v) \<in> set kvs"
  by (simp add: dget_def map_of_SomeD)

lemma keyset_within_simps [simp]:
  "keyset_within [] allowed"
  "keyset_within ((SKey (py a), v) # kvs) allowed \<longleftrightarrow> a \<in> set allowed \<and> keyset_within kvs allowed"
  "\<not> keyset_within ((OKey n, v) # kvs) allowed"
  by (auto simp: keyset_within_def)

lemma keyset_within_dget:
  "keyset_within kvs allowed \<Longrightarrow> k \<notin> set allowed \<Longrightarrow> dget kvs k = None"
  by (force simp: keyset_within_def list_all_iff dget_def map_of_eq_None_iff)

lemma has_all_simps [simp]:
  "has_all kvs []"
  "has_all kvs (r # rs) \<longleftrightarrow> dhas kvs r \<and> has_all kvs rs"
  by (simp_all add: has_all_def)

lemma has_all_dget: "has_all kvs required \<Longrightarrow> r \<in> set required \<Longrightarrow> \<exists>v. dget kvs r = Some v"
  by (auto simp: has_all_def list_all_iff dhas_def)

lemma size_items [termination_simp]: "(k, v) \<in> set kvs \<Longrightarrow> size v < Suc (size_list (size_prod (\<lambda>_. 0) size) kvs)"
  by (induction kvs) auto

end
