(* ===== verification/Failures.thy ===== *)
theory Failures
  imports Py_Values
begin

text \<open>
  The failure taxonomy of \<open>errors.py\<close>: the classes, the normalising constructor of
  \<open>ClassifiedFailure\<close> (a failure never retains provider text and its numbers stay in their
  ranges), \<open>retryable\<close>, \<open>safe_text\<close> and the classification of HTTP statuses. The exceptions
  that cross the agent's functions are the datatype \<open>exn\<close>: a \<open>ProviderError\<close> with its failure, or
  one of the built-in exceptions the sources catch by name.
\<close>

section \<open>Definitions\<close>

datatype failure_class =
    INVALID_PROVIDER_CONFIGURATION
  | CREDENTIAL_UNAVAILABLE
  | ENDPOINT_POLICY_REJECTION
  | INSECURE_SCHEME
  | TLS_VERIFICATION_FAILURE
  | REDIRECT_REJECTED
  | DNS_OR_CONNECTION_FAILURE
  | CONNECT_TIMEOUT
  | READ_TIMEOUT
  | TOTAL_REQUEST_TIMEOUT
  | INVALID_CONTENT_TYPE
  | REQUEST_TOO_LARGE
  | HTTP_400_INVALID_REQUEST
  | HTTP_401_AUTHENTICATION_FAILURE
  | HTTP_403_AUTHORIZATION_FAILURE
  | HTTP_404_ENDPOINT_OR_MODEL_NOT_FOUND
  | HTTP_408_REQUEST_TIMEOUT
  | HTTP_413_PAYLOAD_TOO_LARGE
  | HTTP_422_SEMANTIC_REJECTION
  | OTHER_PERMANENT_4XX
  | HTTP_429_RATE_LIMITED
  | TRANSIENT_5XX
  | PERMANENT_PROVIDER_FAILURE
  | MALFORMED_JSON
  | DUPLICATE_KEY_JSON
  | TRUNCATED_RESPONSE
  | OVERSIZED_RESPONSE
  | UNSUPPORTED_PROVIDER_CONTENT
  | INVALID_TOOL_PROPOSAL
  | REPLAY_OR_DUPLICATE_PROPOSAL
  | RETRY_EXHAUSTED
  | CANCELLED
  | LOCAL_VALIDATION_FAILURE
  | LOCAL_AUTHORIZATION_FAILURE
  | LOCAL_POLICY_FAILURE
  | MALFORMED_HTTP_RESPONSE
  | MCP_PROTOCOL_FAILURE
  | MCP_TIMEOUT
  | MCP_PROCESS_EXIT
  | MCP_AMBIGUOUS_COMPLETION

fun failure_value :: "failure_class \<Rightarrow> string" where
  "failure_value INVALID_PROVIDER_CONFIGURATION = ''invalid_provider_configuration''"
| "failure_value CREDENTIAL_UNAVAILABLE = ''credential_unavailable''"
| "failure_value ENDPOINT_POLICY_REJECTION = ''endpoint_policy_rejection''"
| "failure_value INSECURE_SCHEME = ''insecure_scheme''"
| "failure_value TLS_VERIFICATION_FAILURE = ''tls_verification_failure''"
| "failure_value REDIRECT_REJECTED = ''redirect_rejected''"
| "failure_value DNS_OR_CONNECTION_FAILURE = ''dns_or_connection_failure''"
| "failure_value CONNECT_TIMEOUT = ''connect_timeout''"
| "failure_value READ_TIMEOUT = ''read_timeout''"
| "failure_value TOTAL_REQUEST_TIMEOUT = ''total_request_timeout''"
| "failure_value INVALID_CONTENT_TYPE = ''invalid_content_type''"
| "failure_value REQUEST_TOO_LARGE = ''request_too_large_before_transmission''"
| "failure_value HTTP_400_INVALID_REQUEST = ''http_400_invalid_request''"
| "failure_value HTTP_401_AUTHENTICATION_FAILURE = ''http_401_authentication_failure''"
| "failure_value HTTP_403_AUTHORIZATION_FAILURE = ''http_403_authorization_failure''"
| "failure_value HTTP_404_ENDPOINT_OR_MODEL_NOT_FOUND = ''http_404_endpoint_or_model_not_found''"
| "failure_value HTTP_408_REQUEST_TIMEOUT = ''http_408_request_timeout''"
| "failure_value HTTP_413_PAYLOAD_TOO_LARGE = ''http_413_payload_too_large''"
| "failure_value HTTP_422_SEMANTIC_REJECTION = ''http_422_semantic_request_rejection''"
| "failure_value OTHER_PERMANENT_4XX = ''other_permanent_4xx''"
| "failure_value HTTP_429_RATE_LIMITED = ''http_429_rate_limited''"
| "failure_value TRANSIENT_5XX = ''transient_5xx_provider_failure''"
| "failure_value PERMANENT_PROVIDER_FAILURE = ''permanent_provider_failure''"
| "failure_value MALFORMED_JSON = ''malformed_json''"
| "failure_value DUPLICATE_KEY_JSON = ''duplicate_key_json''"
| "failure_value TRUNCATED_RESPONSE = ''truncated_response''"
| "failure_value OVERSIZED_RESPONSE = ''oversized_response''"
| "failure_value UNSUPPORTED_PROVIDER_CONTENT = ''unsupported_provider_content''"
| "failure_value INVALID_TOOL_PROPOSAL = ''invalid_tool_proposal''"
| "failure_value REPLAY_OR_DUPLICATE_PROPOSAL = ''replay_or_duplicate_proposal''"
| "failure_value RETRY_EXHAUSTED = ''retry_exhausted''"
| "failure_value CANCELLED = ''cancelled''"
| "failure_value LOCAL_VALIDATION_FAILURE = ''local_validation_failure''"
| "failure_value LOCAL_AUTHORIZATION_FAILURE = ''local_authorization_failure''"
| "failure_value LOCAL_POLICY_FAILURE = ''local_policy_failure''"
| "failure_value MALFORMED_HTTP_RESPONSE = ''malformed_http_response''"
| "failure_value MCP_PROTOCOL_FAILURE = ''mcp_protocol_failure''"
| "failure_value MCP_TIMEOUT = ''mcp_timeout''"
| "failure_value MCP_PROCESS_EXIT = ''mcp_process_exit''"
| "failure_value MCP_AMBIGUOUS_COMPLETION = ''mcp_ambiguous_completion''"

definition failure_classes :: "failure_class list" where
  "failure_classes =
    [INVALID_PROVIDER_CONFIGURATION, CREDENTIAL_UNAVAILABLE, ENDPOINT_POLICY_REJECTION, INSECURE_SCHEME,
     TLS_VERIFICATION_FAILURE, REDIRECT_REJECTED, DNS_OR_CONNECTION_FAILURE, CONNECT_TIMEOUT, READ_TIMEOUT,
     TOTAL_REQUEST_TIMEOUT, INVALID_CONTENT_TYPE, REQUEST_TOO_LARGE, HTTP_400_INVALID_REQUEST,
     HTTP_401_AUTHENTICATION_FAILURE, HTTP_403_AUTHORIZATION_FAILURE, HTTP_404_ENDPOINT_OR_MODEL_NOT_FOUND,
     HTTP_408_REQUEST_TIMEOUT, HTTP_413_PAYLOAD_TOO_LARGE, HTTP_422_SEMANTIC_REJECTION, OTHER_PERMANENT_4XX,
     HTTP_429_RATE_LIMITED, TRANSIENT_5XX, PERMANENT_PROVIDER_FAILURE, MALFORMED_JSON, DUPLICATE_KEY_JSON,
     TRUNCATED_RESPONSE, OVERSIZED_RESPONSE, UNSUPPORTED_PROVIDER_CONTENT, INVALID_TOOL_PROPOSAL,
     REPLAY_OR_DUPLICATE_PROPOSAL, RETRY_EXHAUSTED, CANCELLED, LOCAL_VALIDATION_FAILURE,
     LOCAL_AUTHORIZATION_FAILURE, LOCAL_POLICY_FAILURE, MALFORMED_HTTP_RESPONSE, MCP_PROTOCOL_FAILURE,
     MCP_TIMEOUT, MCP_PROCESS_EXIT, MCP_AMBIGUOUS_COMPLETION]"

text \<open>\<open>FailureClass(value)\<close>: the member with that value, if there is one.\<close>

definition failure_of_value :: "pystr \<Rightarrow> failure_class option" where
  "failure_of_value s = find (\<lambda>c. py (failure_value c) = s) failure_classes"

record classified_failure =
  classification :: failure_class
  detail :: pystr
  status_code :: "int option"
  retry_after_of :: "int option"
  attempt_of :: "int option"

text \<open>An optional integer field keeps a plain int inside its range and drops anything else.\<close>

definition ranged :: "int \<Rightarrow> int \<Rightarrow> pyval option \<Rightarrow> int option" where
  "ranged lo hi v = (case v of
      Some (PInt i) \<Rightarrow> if lo \<le> i \<and> i \<le> hi then Some i else None
    | _ \<Rightarrow> None)"

text \<open>
  \<open>ClassifiedFailure(...)\<close> with its \<open>__post_init__\<close>. The class argument is \<open>None\<close> for a value that
  is no \<open>FailureClass\<close>.
\<close>

definition ClassifiedFailure ::
    "failure_class option \<Rightarrow> pystr \<Rightarrow> pyval option \<Rightarrow> pyval option \<Rightarrow> pyval option \<Rightarrow> classified_failure" where
  "ClassifiedFailure c d status retry attempt =
     \<lparr> classification = (case c of Some k \<Rightarrow> k | None \<Rightarrow> LOCAL_VALIDATION_FAILURE),
       detail = [],
       status_code = ranged 100 599 status,
       retry_after_of = ranged 0 5000 retry,
       attempt_of = ranged 0 5 attempt \<rparr>"

definition retryable :: "classified_failure \<Rightarrow> bool" where
  "retryable f \<longleftrightarrow> classification f \<in>
     {HTTP_408_REQUEST_TIMEOUT, HTTP_429_RATE_LIMITED, DNS_OR_CONNECTION_FAILURE, CONNECT_TIMEOUT,
      TRANSIENT_5XX}"

definition safe_text :: "classified_failure \<Rightarrow> pystr" where
  "safe_text f =
     py (failure_value (classification f))
     @ (case status_code f of None \<Rightarrow> [] | Some n \<Rightarrow> py '': status='' @ dec_int n)
     @ (case attempt_of f of None \<Rightarrow> [] | Some n \<Rightarrow> py '': attempt='' @ dec_int n)"

datatype exn =
    ProviderError classified_failure
  | AttributeError
  | KeyError
  | TypeError
  | ValueError
  | UnicodeEncodeError
  | OverflowError
  | RecursionError
  | OSError
  | TimeoutError
  | SSLCertVerificationError
  | HTTPException
  | IncompleteRead
  | AssertionError
  | IndexError
  | DemoFailure
  | PatternError
  | DemoError
  | RuntimeError
  | TimeoutExpired

type_synonym 'a outcome = "exn + 'a"

text \<open>\<open>ProviderError(arg)\<close>: an argument that is no failure becomes a local validation failure.\<close>

definition provider_error :: "classified_failure option \<Rightarrow> exn" where
  "provider_error arg = ProviderError (case arg of
      Some f \<Rightarrow> f
    | None \<Rightarrow> ClassifiedFailure (Some LOCAL_VALIDATION_FAILURE) (py ''invalid project failure'') None None None)"

definition failure :: "failure_class \<Rightarrow> classified_failure" where
  "failure c = ClassifiedFailure (Some c) [] None None None"

definition failure_with :: "failure_class \<Rightarrow> int option \<Rightarrow> int option \<Rightarrow> int option \<Rightarrow> classified_failure" where
  "failure_with c status retry attempt =
     ClassifiedFailure (Some c) [] (map_option PInt status) (map_option PInt retry) (map_option PInt attempt)"

abbreviation raises :: "failure_class \<Rightarrow> exn" where
  "raises c \<equiv> ProviderError (failure c)"

definition http_mapping :: "(int \<times> failure_class) list" where
  "http_mapping =
    [(400, HTTP_400_INVALID_REQUEST), (401, HTTP_401_AUTHENTICATION_FAILURE),
     (403, HTTP_403_AUTHORIZATION_FAILURE), (404, HTTP_404_ENDPOINT_OR_MODEL_NOT_FOUND),
     (408, HTTP_408_REQUEST_TIMEOUT), (413, HTTP_413_PAYLOAD_TOO_LARGE),
     (422, HTTP_422_SEMANTIC_REJECTION), (429, HTTP_429_RATE_LIMITED)]"

definition http_failure :: "pyval \<Rightarrow> int option \<Rightarrow> classified_failure" where
  "http_failure status retry =
     (case status of
        PInt n \<Rightarrow>
          if 100 \<le> n \<and> n \<le> 599 then
            failure_with
              (case map_of http_mapping n of
                 Some c \<Rightarrow> c
               | None \<Rightarrow> if 500 \<le> n \<and> n \<le> 599 then TRANSIENT_5XX else OTHER_PERMANENT_4XX)
              (Some n) retry None
          else failure MALFORMED_HTTP_RESPONSE
      | _ \<Rightarrow> failure MALFORMED_HTTP_RESPONSE)"

text \<open>\<open>except ProviderError\<close>: the failure an exception carries, if it is a \<open>ProviderError\<close>.\<close>

definition provider_failure :: "exn \<Rightarrow> classified_failure option" where
  "provider_failure e = (case e of ProviderError f \<Rightarrow> Some f | _ \<Rightarrow> None)"

text \<open>
  The exceptions that the clauses \<open>except ProviderError\<close>, \<open>except OSError\<close>, \<open>except ValueError\<close> and \<open>except HTTPException\<close> catch,
  subclasses included: a failed certificate check is both an \<open>OSError\<close> and a \<open>ValueError\<close>.
\<close>

definition is_provider_error :: "exn \<Rightarrow> bool" where
  "is_provider_error e = (case e of ProviderError _ \<Rightarrow> True | _ \<Rightarrow> False)"

definition is_os_error :: "exn \<Rightarrow> bool" where
  "is_os_error e \<longleftrightarrow> e \<in> {OSError, TimeoutError, SSLCertVerificationError}"

definition is_value_error :: "exn \<Rightarrow> bool" where
  "is_value_error e \<longleftrightarrow> e \<in> {ValueError, UnicodeEncodeError, SSLCertVerificationError}"

definition is_http_error :: "exn \<Rightarrow> bool" where
  "is_http_error e \<longleftrightarrow> e \<in> {HTTPException, IncompleteRead}"

section \<open>Well-formed failures\<close>

definition in_range :: "int \<Rightarrow> int \<Rightarrow> int option \<Rightarrow> bool" where
  "in_range lo hi v = (case v of None \<Rightarrow> True | Some i \<Rightarrow> lo \<le> i \<and> i \<le> hi)"

definition wf_failure :: "classified_failure \<Rightarrow> bool" where
  "wf_failure f \<longleftrightarrow> detail f = [] \<and> in_range 100 599 (status_code f)
     \<and> in_range 0 5000 (retry_after_of f) \<and> in_range 0 5 (attempt_of f)"

lemma ranged_in_range: "in_range lo hi (ranged lo hi v)"
  by (simp add: ranged_def in_range_def split: option.splits pyval.splits)

lemma ClassifiedFailure_wf: "wf_failure (ClassifiedFailure c d s r a)"
  by (simp add: wf_failure_def ClassifiedFailure_def ranged_in_range)

lemma failure_sel [simp]: "classification (failure c) = c" "wf_failure (failure c)"
  by (simp add: failure_def ClassifiedFailure_def) (simp add: failure_def ClassifiedFailure_wf)

lemma failure_inject [simp]: "failure c = failure d \<longleftrightarrow> c = d"
  by (metis failure_sel(1))

lemma failure_class_listed: "c \<in> set failure_classes"
  by (cases c) (simp_all add: failure_classes_def)

lemma failure_value_distinct: "distinct (map failure_value failure_classes)"
  unfolding failure_classes_def by code_simp

lemma failure_value_inject: "failure_value c = failure_value d \<longleftrightarrow> c = d"
  using failure_value_distinct failure_class_listed by (meson distinct_map inj_on_eq_iff)

lemma failure_of_value_value: "failure_of_value (py (failure_value c)) = Some c"
proof -
  obtain d where d: "failure_of_value (py (failure_value c)) = Some d"
    using failure_class_listed [of c] by (force simp: failure_of_value_def find_None_iff)
  then have "failure_value d = failure_value c"
    by (auto simp: failure_of_value_def find_Some_iff)
  with d show ?thesis by (simp add: failure_value_inject)
qed

lemma failure_of_value_Some: "failure_of_value s = Some c \<Longrightarrow> s = py (failure_value c)"
  by (auto simp: failure_of_value_def find_Some_iff)

interpretation failure_names: partial_codec "\<lambda>c. py (failure_value c)" failure_of_value "\<lambda>_. True"
  by unfold_locales (rule failure_of_value_value)

end
