(* ===== verification/Agent_Limits.thy ===== *)
theory Agent_Limits
  imports Failures
begin

text \<open>
  The bounds of \<open>limits.py\<close>: the frozen dataclass \<open>Limits\<close> as a record, its table of defaults and
  hard maxima, the validating constructor, and \<open>dataclasses.replace\<close>, which validates again. A
  record that the constructor returned satisfies \<open>wf_limits\<close>; the lemmas give every bound the
  components use.
\<close>

section \<open>Definitions\<close>

record limits =
  provider_request_bytes :: int
  provider_response_bytes :: int
  json_nesting_depth :: int
  object_array_items :: int
  message_count :: int
  message_bytes :: int
  advertised_tool_count :: int
  tool_definition_bytes :: int
  proposed_tool_call_count :: int
  tool_argument_bytes :: int
  transcript_bytes :: int
  transcript_event_count :: int
  provider_connect_timeout_ms :: int
  provider_read_inactivity_timeout_ms :: int
  provider_total_timeout_ms :: int
  provider_attempt_count :: int
  retry_backoff_ms :: int
  retry_after_ms :: int
  orchestration_total_timeout_ms :: int
  provider_turn_count :: int
  mcp_calls_per_turn :: int
  mcp_total_calls :: int
  mcp_evidence_items :: int
  mcp_evidence_response_bytes :: int
  mcp_request_bytes :: int
  mcp_response_bytes :: int
  child_stdout_bytes :: int
  child_stderr_bytes :: int
  process_startup_timeout_ms :: int
  mcp_initialize_timeout_ms :: int
  mcp_tools_list_timeout_ms :: int
  mcp_call_timeout_ms :: int
  graceful_shutdown_timeout_ms :: int

text \<open>Field name, default and hard maximum, in the order of the dataclass.\<close>

definition limit_table :: "(string \<times> int \<times> int) list" where
  "limit_table =
    [(''provider_request_bytes'', 32768, 262144),
     (''provider_response_bytes'', 65536, 524288),
     (''json_nesting_depth'', 12, 24),
     (''object_array_items'', 32, 128),
     (''message_count'', 8, 32),
     (''message_bytes'', 8192, 32768),
     (''advertised_tool_count'', 8, 32),
     (''tool_definition_bytes'', 4096, 16384),
     (''proposed_tool_call_count'', 4, 16),
     (''tool_argument_bytes'', 4096, 16384),
     (''transcript_bytes'', 32768, 131072),
     (''transcript_event_count'', 128, 128),
     (''provider_connect_timeout_ms'', 500, 5000),
     (''provider_read_inactivity_timeout_ms'', 1000, 10000),
     (''provider_total_timeout_ms'', 5000, 30000),
     (''provider_attempt_count'', 3, 5),
     (''retry_backoff_ms'', 50, 500),
     (''retry_after_ms'', 1000, 5000),
     (''orchestration_total_timeout_ms'', 15000, 120000),
     (''provider_turn_count'', 4, 16),
     (''mcp_calls_per_turn'', 4, 16),
     (''mcp_total_calls'', 12, 64),
     (''mcp_evidence_items'', 64, 128),
     (''mcp_evidence_response_bytes'', 524288, 524288),
     (''mcp_request_bytes'', 16384, 131072),
     (''mcp_response_bytes'', 65536, 524288),
     (''child_stdout_bytes'', 524288, 1048576),
     (''child_stderr_bytes'', 65536, 524288),
     (''process_startup_timeout_ms'', 1000, 10000),
     (''mcp_initialize_timeout_ms'', 1000, 10000),
     (''mcp_tools_list_timeout_ms'', 1000, 10000),
     (''mcp_call_timeout_ms'', 2000, 30000),
     (''graceful_shutdown_timeout_ms'', 500, 5000)]"

definition as_dict :: "limits \<Rightarrow> (string \<times> int) list" where
  "as_dict l =
    [(''provider_request_bytes'', provider_request_bytes l),
     (''provider_response_bytes'', provider_response_bytes l),
     (''json_nesting_depth'', json_nesting_depth l),
     (''object_array_items'', object_array_items l),
     (''message_count'', message_count l),
     (''message_bytes'', message_bytes l),
     (''advertised_tool_count'', advertised_tool_count l),
     (''tool_definition_bytes'', tool_definition_bytes l),
     (''proposed_tool_call_count'', proposed_tool_call_count l),
     (''tool_argument_bytes'', tool_argument_bytes l),
     (''transcript_bytes'', transcript_bytes l),
     (''transcript_event_count'', transcript_event_count l),
     (''provider_connect_timeout_ms'', provider_connect_timeout_ms l),
     (''provider_read_inactivity_timeout_ms'', provider_read_inactivity_timeout_ms l),
     (''provider_total_timeout_ms'', provider_total_timeout_ms l),
     (''provider_attempt_count'', provider_attempt_count l),
     (''retry_backoff_ms'', retry_backoff_ms l),
     (''retry_after_ms'', retry_after_ms l),
     (''orchestration_total_timeout_ms'', orchestration_total_timeout_ms l),
     (''provider_turn_count'', provider_turn_count l),
     (''mcp_calls_per_turn'', mcp_calls_per_turn l),
     (''mcp_total_calls'', mcp_total_calls l),
     (''mcp_evidence_items'', mcp_evidence_items l),
     (''mcp_evidence_response_bytes'', mcp_evidence_response_bytes l),
     (''mcp_request_bytes'', mcp_request_bytes l),
     (''mcp_response_bytes'', mcp_response_bytes l),
     (''child_stdout_bytes'', child_stdout_bytes l),
     (''child_stderr_bytes'', child_stderr_bytes l),
     (''process_startup_timeout_ms'', process_startup_timeout_ms l),
     (''mcp_initialize_timeout_ms'', mcp_initialize_timeout_ms l),
     (''mcp_tools_list_timeout_ms'', mcp_tools_list_timeout_ms l),
     (''mcp_call_timeout_ms'', mcp_call_timeout_ms l),
     (''graceful_shutdown_timeout_ms'', graceful_shutdown_timeout_ms l)]"

definition limits_of_values :: "(string \<Rightarrow> int) \<Rightarrow> limits" where
  "limits_of_values g =
    \<lparr> provider_request_bytes = g ''provider_request_bytes'',
      provider_response_bytes = g ''provider_response_bytes'',
      json_nesting_depth = g ''json_nesting_depth'',
      object_array_items = g ''object_array_items'',
      message_count = g ''message_count'',
      message_bytes = g ''message_bytes'',
      advertised_tool_count = g ''advertised_tool_count'',
      tool_definition_bytes = g ''tool_definition_bytes'',
      proposed_tool_call_count = g ''proposed_tool_call_count'',
      tool_argument_bytes = g ''tool_argument_bytes'',
      transcript_bytes = g ''transcript_bytes'',
      transcript_event_count = g ''transcript_event_count'',
      provider_connect_timeout_ms = g ''provider_connect_timeout_ms'',
      provider_read_inactivity_timeout_ms = g ''provider_read_inactivity_timeout_ms'',
      provider_total_timeout_ms = g ''provider_total_timeout_ms'',
      provider_attempt_count = g ''provider_attempt_count'',
      retry_backoff_ms = g ''retry_backoff_ms'',
      retry_after_ms = g ''retry_after_ms'',
      orchestration_total_timeout_ms = g ''orchestration_total_timeout_ms'',
      provider_turn_count = g ''provider_turn_count'',
      mcp_calls_per_turn = g ''mcp_calls_per_turn'',
      mcp_total_calls = g ''mcp_total_calls'',
      mcp_evidence_items = g ''mcp_evidence_items'',
      mcp_evidence_response_bytes = g ''mcp_evidence_response_bytes'',
      mcp_request_bytes = g ''mcp_request_bytes'',
      mcp_response_bytes = g ''mcp_response_bytes'',
      child_stdout_bytes = g ''child_stdout_bytes'',
      child_stderr_bytes = g ''child_stderr_bytes'',
      process_startup_timeout_ms = g ''process_startup_timeout_ms'',
      mcp_initialize_timeout_ms = g ''mcp_initialize_timeout_ms'',
      mcp_tools_list_timeout_ms = g ''mcp_tools_list_timeout_ms'',
      mcp_call_timeout_ms = g ''mcp_call_timeout_ms'',
      graceful_shutdown_timeout_ms = g ''graceful_shutdown_timeout_ms'' \<rparr>"

definition DEFAULT_LIMITS :: limits where
  "DEFAULT_LIMITS =
    \<lparr> provider_request_bytes = 32768,
      provider_response_bytes = 65536,
      json_nesting_depth = 12,
      object_array_items = 32,
      message_count = 8,
      message_bytes = 8192,
      advertised_tool_count = 8,
      tool_definition_bytes = 4096,
      proposed_tool_call_count = 4,
      tool_argument_bytes = 4096,
      transcript_bytes = 32768,
      transcript_event_count = 128,
      provider_connect_timeout_ms = 500,
      provider_read_inactivity_timeout_ms = 1000,
      provider_total_timeout_ms = 5000,
      provider_attempt_count = 3,
      retry_backoff_ms = 50,
      retry_after_ms = 1000,
      orchestration_total_timeout_ms = 15000,
      provider_turn_count = 4,
      mcp_calls_per_turn = 4,
      mcp_total_calls = 12,
      mcp_evidence_items = 64,
      mcp_evidence_response_bytes = 524288,
      mcp_request_bytes = 16384,
      mcp_response_bytes = 65536,
      child_stdout_bytes = 524288,
      child_stderr_bytes = 65536,
      process_startup_timeout_ms = 1000,
      mcp_initialize_timeout_ms = 1000,
      mcp_tools_list_timeout_ms = 1000,
      mcp_call_timeout_ms = 2000,
      graceful_shutdown_timeout_ms = 500 \<rparr>"

definition HARD_LIMITS :: limits where
  "HARD_LIMITS =
    \<lparr> provider_request_bytes = 262144,
      provider_response_bytes = 524288,
      json_nesting_depth = 24,
      object_array_items = 128,
      message_count = 32,
      message_bytes = 32768,
      advertised_tool_count = 32,
      tool_definition_bytes = 16384,
      proposed_tool_call_count = 16,
      tool_argument_bytes = 16384,
      transcript_bytes = 131072,
      transcript_event_count = 128,
      provider_connect_timeout_ms = 5000,
      provider_read_inactivity_timeout_ms = 10000,
      provider_total_timeout_ms = 30000,
      provider_attempt_count = 5,
      retry_backoff_ms = 500,
      retry_after_ms = 5000,
      orchestration_total_timeout_ms = 120000,
      provider_turn_count = 16,
      mcp_calls_per_turn = 16,
      mcp_total_calls = 64,
      mcp_evidence_items = 128,
      mcp_evidence_response_bytes = 524288,
      mcp_request_bytes = 131072,
      mcp_response_bytes = 524288,
      child_stdout_bytes = 1048576,
      child_stderr_bytes = 524288,
      process_startup_timeout_ms = 10000,
      mcp_initialize_timeout_ms = 10000,
      mcp_tools_list_timeout_ms = 10000,
      mcp_call_timeout_ms = 30000,
      graceful_shutdown_timeout_ms = 5000 \<rparr>"

definition limit_arg :: "(string \<times> pyval) list \<Rightarrow> string \<Rightarrow> int \<Rightarrow> pyval" where
  "limit_arg kw name dflt = (case map_of kw name of Some v \<Rightarrow> v | None \<Rightarrow> PInt dflt)"

definition limit_ok :: "pyval \<Rightarrow> int \<Rightarrow> bool" where
  "limit_ok v maximum = (case v of PInt i \<Rightarrow> 0 < i \<and> i \<le> maximum | _ \<Rightarrow> False)"

definition int_of :: "pyval \<Rightarrow> int" where
  "int_of v = (case v of PInt i \<Rightarrow> i | PBool b \<Rightarrow> (if b then 1 else 0) | _ \<Rightarrow> 0)"

text \<open>
  \<open>Limits(**kw)\<close>: an unknown keyword is a \<open>TypeError\<close> of the generated \<open>__init__\<close>; then
  \<open>__post_init__\<close> checks every field against its maximum and the two response limits together.
\<close>

definition Limits :: "(string \<times> pyval) list \<Rightarrow> limits outcome" where
  "Limits kw =
     bindE (checkE (list_all (\<lambda>(k, v). k \<in> fst ` set limit_table) kw) TypeError) (\<lambda>_.
     bindE (iterE (\<lambda>(name, dflt, maximum).
              checkE (limit_ok (limit_arg kw name dflt) maximum) (raises INVALID_PROVIDER_CONFIGURATION))
            limit_table) (\<lambda>_.
     let l = limits_of_values (\<lambda>name. case map_of limit_table name of
                 Some (dflt, _) \<Rightarrow> int_of (limit_arg kw name dflt) | None \<Rightarrow> 0)
     in bindE (checkE (\<not> child_stdout_bytes l < mcp_evidence_response_bytes l)
                 (raises INVALID_PROVIDER_CONFIGURATION)) (\<lambda>_. Inr l)))"

definition replace_limits :: "limits \<Rightarrow> (string \<times> pyval) list \<Rightarrow> limits outcome" where
  "replace_limits l kw = Limits (kw @ map (\<lambda>(n, i). (n, PInt i)) (as_dict l))"

definition wf_limits :: "limits \<Rightarrow> bool" where
  "wf_limits l \<longleftrightarrow>
     list_all2 (\<lambda>(n, i) (n', dflt, maximum). 0 < i \<and> i \<le> maximum) (as_dict l) limit_table
     \<and> mcp_evidence_response_bytes l \<le> child_stdout_bytes l"

section \<open>Lemmas\<close>

lemma wf_limits_bounds:
  assumes "wf_limits l"
  shows
    "0 < provider_request_bytes l" "provider_request_bytes l \<le> 262144"
    "0 < provider_response_bytes l" "provider_response_bytes l \<le> 524288"
    "0 < json_nesting_depth l" "json_nesting_depth l \<le> 24"
    "0 < object_array_items l" "object_array_items l \<le> 128"
    "0 < message_count l" "message_count l \<le> 32"
    "0 < message_bytes l" "message_bytes l \<le> 32768"
    "0 < advertised_tool_count l" "advertised_tool_count l \<le> 32"
    "0 < tool_definition_bytes l" "tool_definition_bytes l \<le> 16384"
    "0 < proposed_tool_call_count l" "proposed_tool_call_count l \<le> 16"
    "0 < tool_argument_bytes l" "tool_argument_bytes l \<le> 16384"
    "0 < transcript_bytes l" "transcript_bytes l \<le> 131072"
    "0 < transcript_event_count l" "transcript_event_count l \<le> 128"
    "0 < provider_connect_timeout_ms l" "provider_connect_timeout_ms l \<le> 5000"
    "0 < provider_read_inactivity_timeout_ms l" "provider_read_inactivity_timeout_ms l \<le> 10000"
    "0 < provider_total_timeout_ms l" "provider_total_timeout_ms l \<le> 30000"
    "0 < provider_attempt_count l" "provider_attempt_count l \<le> 5"
    "0 < retry_backoff_ms l" "retry_backoff_ms l \<le> 500"
    "0 < retry_after_ms l" "retry_after_ms l \<le> 5000"
    "0 < orchestration_total_timeout_ms l" "orchestration_total_timeout_ms l \<le> 120000"
    "0 < provider_turn_count l" "provider_turn_count l \<le> 16"
    "0 < mcp_calls_per_turn l" "mcp_calls_per_turn l \<le> 16"
    "0 < mcp_total_calls l" "mcp_total_calls l \<le> 64"
    "0 < mcp_evidence_items l" "mcp_evidence_items l \<le> 128"
    "0 < mcp_evidence_response_bytes l" "mcp_evidence_response_bytes l \<le> 524288"
    "0 < mcp_request_bytes l" "mcp_request_bytes l \<le> 131072"
    "0 < mcp_response_bytes l" "mcp_response_bytes l \<le> 524288"
    "0 < child_stdout_bytes l" "child_stdout_bytes l \<le> 1048576"
    "0 < child_stderr_bytes l" "child_stderr_bytes l \<le> 524288"
    "0 < process_startup_timeout_ms l" "process_startup_timeout_ms l \<le> 10000"
    "0 < mcp_initialize_timeout_ms l" "mcp_initialize_timeout_ms l \<le> 10000"
    "0 < mcp_tools_list_timeout_ms l" "mcp_tools_list_timeout_ms l \<le> 10000"
    "0 < mcp_call_timeout_ms l" "mcp_call_timeout_ms l \<le> 30000"
    "0 < graceful_shutdown_timeout_ms l" "graceful_shutdown_timeout_ms l \<le> 5000"
    "mcp_evidence_response_bytes l \<le> child_stdout_bytes l"
  using assms by (simp_all add: wf_limits_def as_dict_def limit_table_def)

lemma Limits_wf:
  assumes "Limits kw = Inr l"
  shows "wf_limits l"
proof -
  have ok: "\<And>v m. limit_ok v m \<Longrightarrow> 0 < int_of v \<and> int_of v \<le> m"
    by (auto simp: limit_ok_def int_of_def split: pyval.splits)
  from assms have fields: "\<forall>(name, dflt, maximum) \<in> set limit_table. limit_ok (limit_arg kw name dflt) maximum"
    and l: "l = limits_of_values (\<lambda>name. case map_of limit_table name of
                 Some (dflt, _) \<Rightarrow> int_of (limit_arg kw name dflt) | None \<Rightarrow> 0)"
    and stdout: "mcp_evidence_response_bytes l \<le> child_stdout_bytes l"
    by (auto simp: Limits_def bindE_eq_Inr iterE_eq_Inr Let_def split: prod.splits)
  from fields have "\<forall>(name, dflt, maximum) \<in> set limit_table.
      0 < int_of (limit_arg kw name dflt) \<and> int_of (limit_arg kw name dflt) \<le> maximum"
    using ok by fastforce
  with l stdout show ?thesis
    by (simp add: wf_limits_def as_dict_def limits_of_values_def limit_table_def)
qed

lemma limits_of_as_dict: "limits_of_values (\<lambda>n. the (map_of (as_dict l) n)) = l"
  by (simp add: limits_of_values_def as_dict_def)

lemma DEFAULT_LIMITS_sel [simp]:
  "provider_request_bytes DEFAULT_LIMITS = 32768"
  "provider_response_bytes DEFAULT_LIMITS = 65536"
  "json_nesting_depth DEFAULT_LIMITS = 12"
  "object_array_items DEFAULT_LIMITS = 32"
  "message_count DEFAULT_LIMITS = 8"
  "message_bytes DEFAULT_LIMITS = 8192"
  "advertised_tool_count DEFAULT_LIMITS = 8"
  "tool_definition_bytes DEFAULT_LIMITS = 4096"
  "proposed_tool_call_count DEFAULT_LIMITS = 4"
  "tool_argument_bytes DEFAULT_LIMITS = 4096"
  "transcript_bytes DEFAULT_LIMITS = 32768"
  "transcript_event_count DEFAULT_LIMITS = 128"
  "provider_connect_timeout_ms DEFAULT_LIMITS = 500"
  "provider_read_inactivity_timeout_ms DEFAULT_LIMITS = 1000"
  "provider_total_timeout_ms DEFAULT_LIMITS = 5000"
  "provider_attempt_count DEFAULT_LIMITS = 3"
  "retry_backoff_ms DEFAULT_LIMITS = 50"
  "retry_after_ms DEFAULT_LIMITS = 1000"
  "orchestration_total_timeout_ms DEFAULT_LIMITS = 15000"
  "provider_turn_count DEFAULT_LIMITS = 4"
  "mcp_calls_per_turn DEFAULT_LIMITS = 4"
  "mcp_total_calls DEFAULT_LIMITS = 12"
  "mcp_evidence_items DEFAULT_LIMITS = 64"
  "mcp_evidence_response_bytes DEFAULT_LIMITS = 524288"
  "mcp_request_bytes DEFAULT_LIMITS = 16384"
  "mcp_response_bytes DEFAULT_LIMITS = 65536"
  "child_stdout_bytes DEFAULT_LIMITS = 524288"
  "child_stderr_bytes DEFAULT_LIMITS = 65536"
  "process_startup_timeout_ms DEFAULT_LIMITS = 1000"
  "mcp_initialize_timeout_ms DEFAULT_LIMITS = 1000"
  "mcp_tools_list_timeout_ms DEFAULT_LIMITS = 1000"
  "mcp_call_timeout_ms DEFAULT_LIMITS = 2000"
  "graceful_shutdown_timeout_ms DEFAULT_LIMITS = 500"
  by (simp_all add: DEFAULT_LIMITS_def)

lemma HARD_LIMITS_sel [simp]:
  "provider_request_bytes HARD_LIMITS = 262144"
  "provider_response_bytes HARD_LIMITS = 524288"
  "json_nesting_depth HARD_LIMITS = 24"
  "object_array_items HARD_LIMITS = 128"
  "message_count HARD_LIMITS = 32"
  "message_bytes HARD_LIMITS = 32768"
  "advertised_tool_count HARD_LIMITS = 32"
  "tool_definition_bytes HARD_LIMITS = 16384"
  "proposed_tool_call_count HARD_LIMITS = 16"
  "tool_argument_bytes HARD_LIMITS = 16384"
  "transcript_bytes HARD_LIMITS = 131072"
  "transcript_event_count HARD_LIMITS = 128"
  "provider_connect_timeout_ms HARD_LIMITS = 5000"
  "provider_read_inactivity_timeout_ms HARD_LIMITS = 10000"
  "provider_total_timeout_ms HARD_LIMITS = 30000"
  "provider_attempt_count HARD_LIMITS = 5"
  "retry_backoff_ms HARD_LIMITS = 500"
  "retry_after_ms HARD_LIMITS = 5000"
  "orchestration_total_timeout_ms HARD_LIMITS = 120000"
  "provider_turn_count HARD_LIMITS = 16"
  "mcp_calls_per_turn HARD_LIMITS = 16"
  "mcp_total_calls HARD_LIMITS = 64"
  "mcp_evidence_items HARD_LIMITS = 128"
  "mcp_evidence_response_bytes HARD_LIMITS = 524288"
  "mcp_request_bytes HARD_LIMITS = 131072"
  "mcp_response_bytes HARD_LIMITS = 524288"
  "child_stdout_bytes HARD_LIMITS = 1048576"
  "child_stderr_bytes HARD_LIMITS = 524288"
  "process_startup_timeout_ms HARD_LIMITS = 10000"
  "mcp_initialize_timeout_ms HARD_LIMITS = 10000"
  "mcp_tools_list_timeout_ms HARD_LIMITS = 10000"
  "mcp_call_timeout_ms HARD_LIMITS = 30000"
  "graceful_shutdown_timeout_ms HARD_LIMITS = 5000"
  by (simp_all add: HARD_LIMITS_def)

lemma DEFAULT_LIMITS_wf [simp]: "wf_limits DEFAULT_LIMITS"
  by (simp add: wf_limits_def as_dict_def limit_table_def DEFAULT_LIMITS_def)

lemma HARD_LIMITS_wf [simp]: "wf_limits HARD_LIMITS"
  by (simp add: wf_limits_def as_dict_def limit_table_def HARD_LIMITS_def)

lemma limits_of_values_cong:
  "(\<And>n. n \<in> fst ` set limit_table \<Longrightarrow> g n = h n) \<Longrightarrow> limits_of_values g = limits_of_values h"
  by (simp add: limits_of_values_def limit_table_def)

lemma as_dict_names: "map fst (as_dict l) = map fst limit_table"
  by (simp add: as_dict_def limit_table_def)

lemma limit_table_distinct: "distinct (map fst limit_table)"
  unfolding limit_table_def by code_simp

lemma wf_limits_entry:
  assumes "wf_limits l" and "(name, dflt, maximum) \<in> set limit_table"
  obtains i where "map_of (as_dict l) name = Some i" and "0 < i" and "i \<le> maximum"
proof -
  from assms(2) obtain k where k: "k < length limit_table" "limit_table ! k = (name, dflt, maximum)"
    by (auto simp: in_set_conv_nth)
  have len: "length (as_dict l) = length limit_table"
    using as_dict_names [of l] by (metis length_map)
  obtain n' i where ni: "as_dict l ! k = (n', i)" by fastforce
  have "n' = name"
    using arg_cong [OF as_dict_names [of l], of "\<lambda>xs. xs ! k"] k ni len by simp
  with ni k len have mem: "(name, i) \<in> set (as_dict l)" by (auto simp: in_set_conv_nth)
  have "distinct (map fst (as_dict l))" by (simp add: as_dict_names limit_table_distinct)
  with mem have "map_of (as_dict l) name = Some i" by simp
  moreover have "0 < i \<and> i \<le> maximum"
    using assms(1) k ni len by (auto simp: wf_limits_def list_all2_conv_all_nth)
  ultimately show thesis using that by blast
qed

lemma map_of_map_PInt: "map_of (map (\<lambda>(n, i). (n, PInt i)) xs) k = map_option PInt (map_of xs k)"
  by (induction xs) auto

lemma as_dict_object_array_items:
  "n \<in> fst ` set limit_table \<Longrightarrow> the (map_of (as_dict (l\<lparr>object_array_items := v\<rparr>)) n)
     = (if n = ''object_array_items'' then v else the (map_of (as_dict l) n))"
  by (auto simp: as_dict_def)

lemma replace_object_array_items:
  assumes wf: "wf_limits l" and n: "0 < n" "n \<le> 128"
  shows "replace_limits l [(''object_array_items'', PInt n)] = Inr (l\<lparr>object_array_items := n\<rparr>)"
proof -
  let ?kw = "[(''object_array_items'', PInt n)] @ map (\<lambda>(n, i). (n, PInt i)) (as_dict l)"
  let ?g = "\<lambda>name. case map_of limit_table name of
              Some (dflt, _) \<Rightarrow> int_of (limit_arg ?kw name dflt) | None \<Rightarrow> 0"
  let ?l = "l\<lparr>object_array_items := n\<rparr>"
  have arg: "limit_arg ?kw name dflt = PInt (the (map_of (as_dict ?l) name))
      \<and> limit_ok (limit_arg ?kw name dflt) maximum"
    if mem: "(name, dflt, maximum) \<in> set limit_table" for name dflt maximum
  proof -
    from wf mem obtain i where i: "map_of (as_dict l) name = Some i" "0 < i" "i \<le> maximum"
      by (rule wf_limits_entry)
    have "maximum = 128" if "name = ''object_array_items''"
      using mem that by (simp add: limit_table_def)
    moreover have "name \<in> fst ` set limit_table" using mem by force
    ultimately show ?thesis
      using n i as_dict_object_array_items [of name n l]
      by (auto simp: limit_arg_def limit_ok_def map_of_map_PInt)
  qed
  have known: "list_all (\<lambda>(k, v). k \<in> fst ` set limit_table) ?kw"
  proof -
    have "fst ` set (as_dict l) = fst ` set limit_table"
      by (metis as_dict_names list.set_map)
    moreover have "''object_array_items'' \<in> fst ` set limit_table"
      by (simp add: limit_table_def)
    ultimately show ?thesis by (force simp: list_all_iff)
  qed
  have "limits_of_values ?g = limits_of_values (\<lambda>name. the (map_of (as_dict ?l) name))"
  proof (rule limits_of_values_cong)
    fix name assume "name \<in> fst ` set limit_table"
    then obtain dflt maximum where mem: "(name, dflt, maximum) \<in> set limit_table" by force
    then have "map_of limit_table name = Some (dflt, maximum)"
      using limit_table_distinct by simp
    with arg [OF mem] show "?g name = the (map_of (as_dict ?l) name)" by (simp add: int_of_def)
  qed
  then have vals: "limits_of_values ?g = ?l" by (simp only: limits_of_as_dict)
  have "iterE (\<lambda>(name, dflt, maximum). checkE (limit_ok (limit_arg ?kw name dflt) maximum)
          (raises INVALID_PROVIDER_CONFIGURATION)) limit_table = Inr ()"
    using arg by (fastforce simp: iterE_eq_Inr)
  moreover have "\<not> child_stdout_bytes ?l < mcp_evidence_response_bytes ?l"
    using wf_limits_bounds(67) [OF wf] by simp
  ultimately show ?thesis
    unfolding replace_limits_def Limits_def Let_def vals using known
    by (simp only: checkE_simps bindE_simps simp_thms)
qed

lemma wf_limits_object_array_items:
  "wf_limits l \<Longrightarrow> 0 < n \<Longrightarrow> n \<le> 128 \<Longrightarrow> wf_limits (l\<lparr>object_array_items := n\<rparr>)"
  by (simp add: wf_limits_def as_dict_def limit_table_def)

end
