(* ===== verification/Retry.thy ===== *)
theory Retry
  imports Agent_Limits
begin

text \<open>
  The retry decision of \<open>retry.py\<close>: eligibility and a bounded delay from a classified failure, the
  number of completed attempts, the remaining time and the limits.
\<close>

record retry_decision =
  eligible :: bool
  delay_ms :: int
  reason :: string

definition decide_retry :: "classified_failure \<Rightarrow> int \<Rightarrow> int \<Rightarrow> limits \<Rightarrow> retry_decision" where
  "decide_retry classified completed_attempts remaining_ms l =
     (if \<not> retryable classified then
        \<lparr>eligible = False, delay_ms = 0, reason = ''failure is non-retryable''\<rparr>
      else if provider_attempt_count l \<le> completed_attempts then
        \<lparr>eligible = False, delay_ms = 0, reason = ''attempt budget exhausted''\<rparr>
      else if remaining_ms \<le> 0 then
        \<lparr>eligible = False, delay_ms = 0, reason = ''total deadline exhausted''\<rparr>
      else
        let requested = (case retry_after_of classified of
              Some ms \<Rightarrow> ms | None \<Rightarrow> retry_backoff_ms l);
            delay = min (max 0 requested)
              (min (retry_after_ms l)
                (if retry_after_of classified = None then retry_backoff_ms l else retry_after_ms l))
        in if remaining_ms < delay then
             \<lparr>eligible = False, delay_ms = 0, reason = ''retry delay exceeds remaining deadline''\<rparr>
           else \<lparr>eligible = True, delay_ms = delay, reason = ''bounded transport retry permitted''\<rparr>)"

text \<open>The delay a retry of this failure asks for, before the deadline is considered.\<close>

definition requested_delay :: "classified_failure \<Rightarrow> limits \<Rightarrow> int" where
  "requested_delay f l = (case retry_after_of f of
      Some ms \<Rightarrow> min (max 0 ms) (retry_after_ms l)
    | None \<Rightarrow> min (retry_backoff_ms l) (retry_after_ms l))"

lemma decide_retry_eligible_iff:
  assumes "wf_limits l"
  shows "eligible (decide_retry f completed remaining l) \<longleftrightarrow>
    retryable f \<and> completed < provider_attempt_count l \<and> 0 < remaining \<and> requested_delay f l \<le> remaining"
  using wf_limits_bounds [OF assms]
  by (auto simp: decide_retry_def requested_delay_def Let_def split: option.splits)

lemma decide_retry_delay:
  assumes "wf_limits l"
  shows "delay_ms (decide_retry f completed remaining l) =
    (if eligible (decide_retry f completed remaining l) then requested_delay f l else 0)"
  using wf_limits_bounds [OF assms]
  by (auto simp: decide_retry_def requested_delay_def Let_def split: option.splits)

text \<open>
  a retry is granted exactly when the failure class is retryable, an attempt is left, time is
  left and the bounded delay fits in it; the granted delay is never negative and exceeds neither
  the configured retry ceiling nor the remaining time.
\<close>

theorem retry_granted_iff_and_bounded:
  assumes "wf_limits l"
  shows "(eligible (decide_retry f completed remaining l) \<longleftrightarrow>
            retryable f \<and> completed < provider_attempt_count l \<and> 0 < remaining
            \<and> requested_delay f l \<le> remaining)
       \<and> 0 \<le> delay_ms (decide_retry f completed remaining l)
       \<and> delay_ms (decide_retry f completed remaining l) \<le> retry_after_ms l
       \<and> (0 \<le> remaining \<longrightarrow> delay_ms (decide_retry f completed remaining l) \<le> remaining)"
  using wf_limits_bounds [OF assms] decide_retry_eligible_iff [OF assms, of f completed remaining]
  by (auto simp: decide_retry_delay [OF assms] requested_delay_def split: option.splits)

theorem retry_granted_iff_and_bounded_witness:
  "wf_limits DEFAULT_LIMITS
   \<and> eligible (decide_retry (http_failure (PInt 429) (Some 700)) 1 900 DEFAULT_LIMITS)
   \<and> delay_ms (decide_retry (http_failure (PInt 429) (Some 700)) 1 900 DEFAULT_LIMITS) \<le> 900"
  using retry_granted_iff_and_bounded
    [OF DEFAULT_LIMITS_wf, of "http_failure (PInt 429) (Some 700)" 1 900]
  by (simp add: http_failure_def http_mapping_def failure_with_def ClassifiedFailure_def ranged_def
      retryable_def requested_delay_def)

end
