(* ===== verification/Py_Float.thy ===== *)
theory Py_Float
  imports Py_Values
begin

text \<open>
  Binary64 as \<open>float()\<close> and \<open>repr()\<close> use it: rounding a rational to the nearest double (ties to
  even, overflow to infinity), and the shortest decimal text that rounds back to the value, in
  Python's layout (exponent form below \<open>1e-4\<close> and from \<open>1e16\<close> on).
\<close>

definition pow2 :: "int \<Rightarrow> rat" where
  "pow2 e = (if 0 \<le> e then 2 ^ nat e else 1 / 2 ^ nat (- e))"

definition pow10 :: "int \<Rightarrow> rat" where
  "pow10 e = (if 0 \<le> e then 10 ^ nat e else 1 / 10 ^ nat (- e))"

definition round_half_even :: "rat \<Rightarrow> int" where
  "round_half_even x =
     (let f = floor x; d = x - of_int f
      in if d < 1 / 2 then f else if 1 / 2 < d then f + 1 else if even f then f else f + 1)"

text \<open>The number of binary digits of a natural number.\<close>

fun bit_count :: "nat \<Rightarrow> nat" where
  "bit_count n = (if n = 0 then 0 else Suc (bit_count (n div 2)))"

declare bit_count.simps [simp del]

text \<open>\<open>floor(log2 r)\<close> for a positive rational.\<close>

definition binary_exponent :: "rat \<Rightarrow> int" where
  "binary_exponent r =
     (case quotient_of r of (a, b) \<Rightarrow>
        let e = int (bit_count (nat a)) - int (bit_count (nat b))
        in if r < pow2 e then e - 1 else e)"

definition double_of_rat :: "rat \<Rightarrow> pyfloat" where
  "double_of_rat r =
     (let a = \<bar>r\<bar>; q = max (binary_exponent a - 52) (- 1074);
          m = of_int (round_half_even (a / pow2 q)) * pow2 q
      in if r = 0 then FFin 0
         else if pow2 1024 \<le> m then (if r < 0 then FNegInf else FPosInf)
         else if m = 0 then (if r < 0 then FNegZero else FFin 0)
         else FFin (if r < 0 then - m else m))"

text \<open>
  The position of the decimal point of a positive rational: the \<open>p\<close> with
  \<open>10^(p - 1) \<le> r < 10^p\<close>, searched among the exponents of binary64.
\<close>

definition decimal_point :: "rat \<Rightarrow> int" where
  "decimal_point r = (case find (\<lambda>p. r < pow10 p) [- 323..309] of Some p \<Rightarrow> p | None \<Rightarrow> 310)"

text \<open>The \<open>n\<close>-digit decimals on both sides of \<open>r\<close> that round to the same double, nearest first.\<close>

definition digit_candidates :: "rat \<Rightarrow> int \<Rightarrow> nat \<Rightarrow> int list" where
  "digit_candidates r p n =
     (let s = r * pow10 (int n - p); lo = floor s; hi = ceiling s;
          near = round_half_even s; far = (if near = lo then hi else lo)
      in filter (\<lambda>c. double_of_rat (of_int c * pow10 (p - int n)) = FFin r) [near, far])"

definition shortest_digits :: "rat \<Rightarrow> pystr \<times> int" where
  "shortest_digits r =
     (let p = decimal_point r
      in case find (\<lambda>n. digit_candidates r p n \<noteq> []) [1..<18] of
           Some n \<Rightarrow> (let c = nat (hd (digit_candidates r p n))
                     in if c = 10 ^ n then ([49], p + 1) else (dec c, p))
         | None \<Rightarrow> (dec (nat (round_half_even (r * pow10 (17 - p)))), p))"

definition zeros :: "nat \<Rightarrow> pystr" where
  "zeros n = replicate n 48"

definition exponent_text :: "int \<Rightarrow> pystr" where
  "exponent_text e = [101, if e < 0 then 45 else 43]
     @ (let d = dec (nat \<bar>e\<bar>) in if length d < 2 then 48 # d else d)"

definition layout_digits :: "pystr \<Rightarrow> int \<Rightarrow> pystr" where
  "layout_digits ds p =
     (if p \<le> - 4 \<or> 16 < p then
        (case ds of [] \<Rightarrow> [] | d # rest \<Rightarrow> (if rest = [] then [d] else d # 46 # rest) @ exponent_text (p - 1))
      else if p \<le> 0 then [48, 46] @ zeros (nat (- p)) @ ds
      else if int (length ds) \<le> p then ds @ zeros (nat p - length ds) @ [46, 48]
      else take (nat p) ds @ [46] @ drop (nat p) ds)"

definition float_repr :: "pyfloat \<Rightarrow> pystr" where
  "float_repr f = (case f of
      FFin r \<Rightarrow> if r = 0 then py ''0.0''
        else (if r < 0 then [45] else []) @ (case shortest_digits \<bar>r\<bar> of (ds, p) \<Rightarrow> layout_digits ds p)
    | FNegZero \<Rightarrow> py ''-0.0''
    | FPosInf \<Rightarrow> py ''inf''
    | FNegInf \<Rightarrow> py ''-inf''
    | FNaN \<Rightarrow> py ''nan'')"

section \<open>Lemmas\<close>

lemma isascii_parts [simp]:
  "isascii (zeros n)" "isascii (exponent_text e)"
  "isascii s \<Longrightarrow> isascii (take n s)" "isascii s \<Longrightarrow> isascii (drop n s)"
  by (auto simp: zeros_def exponent_text_def Let_def isascii_iff list_all_iff dest: in_set_takeD in_set_dropD)
     (use isascii_dec in \<open>auto simp: isascii_iff\<close>)

lemma isascii_layout: "isascii ds \<Longrightarrow> isascii (layout_digits ds p)"
  by (cases ds) (simp_all add: layout_digits_def)

lemma isascii_shortest: "shortest_digits r = (ds, p) \<Longrightarrow> isascii ds"
  by (auto simp: shortest_digits_def Let_def split: option.splits if_splits)

lemma isascii_float_repr [simp]: "isascii (float_repr f)"
  by (auto simp: float_repr_def py_def isascii_layout isascii_shortest split: pyfloat.splits prod.splits)

end
