(* ===== verification/Effects.thy ===== *)
theory Effects
  imports Failures
begin

text \<open>
  Stateful code that may raise: a computation takes a state to an outcome and a state, or to
  \<open>None\<close> when one of its loops used up its fuel. The combinators are those of Python's control flow
  (sequence, \<open>try\<close>/\<open>except\<close>, \<open>try\<close>/\<open>finally\<close>, \<open>for\<close>). Two calculi come with them: \<open>after\<close>, a weakest
  precondition that holds of a run that has not ended, and the locale \<open>step_relation\<close>, which shows that
  every computation built with the combinators stays in a reflexive and transitive relation.
\<close>

named_theorems after_simps \<open>weakest preconditions of the combinators\<close>
named_theorems eff_elims \<open>inversion of a finished computation\<close>

type_synonym ('s, 'a) eff = "'s \<Rightarrow> ('a outcome \<times> 's) option"

section \<open>Combinators\<close>

definition liftM :: "'a outcome \<Rightarrow> ('s, 'a) eff" where
  "liftM r s = Some (r, s)"

abbreviation retM :: "'a \<Rightarrow> ('s, 'a) eff" where
  "retM x \<equiv> liftM (Inr x)"

abbreviation raiseM :: "exn \<Rightarrow> ('s, 'a) eff" where
  "raiseM e \<equiv> liftM (Inl e)"

abbreviation checkM :: "bool \<Rightarrow> exn \<Rightarrow> ('s, unit) eff" where
  "checkM ok e \<equiv> liftM (checkE ok e)"

definition getM :: "('s \<Rightarrow> 'a) \<Rightarrow> ('s, 'a) eff" where
  "getM f s = Some (Inr (f s), s)"

definition modifyM :: "('s \<Rightarrow> 's) \<Rightarrow> ('s, unit) eff" where
  "modifyM f s = Some (Inr (), f s)"

definition bindM :: "('s, 'a) eff \<Rightarrow> ('a \<Rightarrow> ('s, 'b) eff) \<Rightarrow> ('s, 'b) eff" where
  "bindM m f s = (case m s of
      None \<Rightarrow> None
    | Some (Inl e, t) \<Rightarrow> Some (Inl e, t)
    | Some (Inr x, t) \<Rightarrow> f x t)"

text \<open>\<open>try: m except: h\<close>; the handler re-raises what it does not catch.\<close>

definition tryM :: "('s, 'a) eff \<Rightarrow> (exn \<Rightarrow> ('s, 'a) eff) \<Rightarrow> ('s, 'a) eff" where
  "tryM m h s = (case m s of
      None \<Rightarrow> None
    | Some (Inl e, t) \<Rightarrow> h e t
    | Some (Inr x, t) \<Rightarrow> Some (Inr x, t))"

definition finallyM :: "('s, 'a) eff \<Rightarrow> ('s, unit) eff \<Rightarrow> ('s, 'a) eff" where
  "finallyM m f s = (case m s of
      None \<Rightarrow> None
    | Some (r, t) \<Rightarrow> (case f t of
        None \<Rightarrow> None
      | Some (Inl e, u) \<Rightarrow> Some (Inl e, u)
      | Some (Inr _, u) \<Rightarrow> Some (r, u)))"

fun forM :: "('a \<Rightarrow> ('s, unit) eff) \<Rightarrow> 'a list \<Rightarrow> ('s, unit) eff" where
  "forM f [] = retM ()"
| "forM f (x # xs) = bindM (f x) (\<lambda>_. forM f xs)"

section \<open>Evaluation\<close>

lemma eff_simps [simp]:
  "liftM r s = Some (r, s)"
  "getM f s = Some (Inr (f s), s)"
  "modifyM g s = Some (Inr (), g s)"
  by (simp_all add: liftM_def getM_def modifyM_def)

lemma bindM_eval:
  "m s = None \<Longrightarrow> bindM m f s = None"
  "m s = Some (Inl e, t) \<Longrightarrow> bindM m f s = Some (Inl e, t)"
  "m s = Some (Inr x, t) \<Longrightarrow> bindM m f s = f x t"
  by (simp_all add: bindM_def)

lemma bindM_eq_Some [eff_elims]:
  "bindM m f s = Some (r, t) \<longleftrightarrow>
     (\<exists>e. m s = Some (Inl e, t) \<and> r = Inl e) \<or> (\<exists>x u. m s = Some (Inr x, u) \<and> f x u = Some (r, t))"
  by (auto simp: bindM_def split: option.splits sum.splits)

lemma bindM_Inr:
  assumes "bindM m f s = Some (Inr y, t)"
  obtains x u where "m s = Some (Inr x, u)" and "f x u = Some (Inr y, t)"
  using assms by (auto simp: bindM_eq_Some)

lemma bindM_assoc: "bindM (bindM m f) g = bindM m (\<lambda>x. bindM (f x) g)"
  by (rule ext) (simp add: bindM_def split: option.split sum.split prod.split)

lemma finallyM_Inr:
  "finallyM m f s = Some (Inr x, t) \<longleftrightarrow> (\<exists>u y. m s = Some (Inr x, u) \<and> f u = Some (Inr y, t))"
  by (auto simp: finallyM_def split: option.splits sum.splits)

lemma bindM_cong [fundef_cong]:
  "s = s' \<Longrightarrow> m s' = m' s' \<Longrightarrow> (\<And>x t. m' s' = Some (Inr x, t) \<Longrightarrow> f x t = g x t) \<Longrightarrow> bindM m f s = bindM m' g s'"
  by (auto simp: bindM_def split: option.splits sum.splits)

section \<open>Weakest preconditions\<close>

definition after :: "('s, 'a) eff \<Rightarrow> ('a outcome \<Rightarrow> 's \<Rightarrow> bool) \<Rightarrow> 's \<Rightarrow> bool" where
  "after m Q s = (case m s of None \<Rightarrow> True | Some (r, t) \<Rightarrow> Q r t)"

lemma afterI: "(\<And>r t. m s = Some (r, t) \<Longrightarrow> Q r t) \<Longrightarrow> after m Q s"
  by (auto simp: after_def split: option.splits)

lemma afterD: "after m Q s \<Longrightarrow> m s = Some (r, t) \<Longrightarrow> Q r t"
  by (simp add: after_def)

lemma after_mono: "after m Q s \<Longrightarrow> (\<And>r t. m s = Some (r, t) \<Longrightarrow> Q r t \<Longrightarrow> Q' r t) \<Longrightarrow> after m Q' s"
  by (auto simp: after_def split: option.splits)

lemma after_lift [after_simps]: "after (liftM r) Q s = Q r s"
  by (simp add: after_def)

lemma after_get [after_simps]: "after (getM f) Q s = Q (Inr (f s)) s"
  by (simp add: after_def)

lemma after_modify [after_simps]: "after (modifyM g) Q s = Q (Inr ()) (g s)"
  by (simp add: after_def)

lemma after_bind [after_simps]:
  "after (bindM m f) Q s = after m (\<lambda>r t. case r of Inl e \<Rightarrow> Q (Inl e) t | Inr x \<Rightarrow> after (f x) Q t) s"
  by (auto simp: after_def bindM_def split: option.splits sum.splits)

lemma after_try [after_simps]:
  "after (tryM m h) Q s = after m (\<lambda>r t. case r of Inl e \<Rightarrow> after (h e) Q t | Inr x \<Rightarrow> Q (Inr x) t) s"
  by (auto simp: after_def tryM_def split: option.splits sum.splits)

lemma after_finally [after_simps]:
  "after (finallyM m f) Q s =
     after m (\<lambda>r t. after f (\<lambda>q u. case q of Inl e \<Rightarrow> Q (Inl e) u | Inr _ \<Rightarrow> Q r u) t) s"
  by (auto simp: after_def finallyM_def split: option.splits sum.splits)

lemma after_get_bind: "after (bindM (getM g) f) Q s = after (f (g s)) Q s"
  by (simp add: after_simps)

text \<open>The same equations as introduction rules, one goal per way a step can end.\<close>

lemma after_bind_lift:
  "(\<And>e. r = Inl e \<Longrightarrow> Q (Inl e) s) \<Longrightarrow> (\<And>x. r = Inr x \<Longrightarrow> after (f x) Q s) \<Longrightarrow> after (bindM (liftM r) f) Q s"
  by (cases r) (simp_all add: after_simps)

lemma after_bind_check:
  "(\<not> ok \<Longrightarrow> Q (Inl e) s) \<Longrightarrow> (ok \<Longrightarrow> after (f ()) Q s) \<Longrightarrow> after (bindM (checkM ok e) f) Q s"
  by (cases ok) (simp_all add: after_simps)

lemma after_bind_get: "after (f (g s)) Q s \<Longrightarrow> after (bindM (getM g) f) Q s"
  by (simp add: after_simps)

lemma after_bind_modify: "after (f ()) Q (g s) \<Longrightarrow> after (bindM (modifyM g) f) Q s"
  by (simp add: after_simps)

lemma after_bindI:
  "(\<And>e t. m s = Some (Inl e, t) \<Longrightarrow> Q (Inl e) t) \<Longrightarrow> (\<And>x t. m s = Some (Inr x, t) \<Longrightarrow> after (f x) Q t) \<Longrightarrow>
     after (bindM m f) Q s"
  by (auto simp: after_def bindM_def split: option.splits sum.splits)

lemma after_tryI:
  "(\<And>e t. m s = Some (Inl e, t) \<Longrightarrow> after (h e) Q t) \<Longrightarrow> (\<And>x t. m s = Some (Inr x, t) \<Longrightarrow> Q (Inr x) t) \<Longrightarrow>
     after (tryM m h) Q s"
  by (auto simp: after_def tryM_def split: option.splits sum.splits)

section \<open>Relations every step keeps\<close>

text \<open>
  A reflexive and transitive relation between the state before and the state after. A client shows
  it of its primitive steps; the combinators carry it to every computation built from them.
\<close>

locale step_relation =
  fixes rel :: "'s \<Rightarrow> 's \<Rightarrow> bool"
  assumes rel_refl: "rel s s" and rel_trans: "rel s t \<Longrightarrow> rel t u \<Longrightarrow> rel s u"
begin

definition keeps :: "('s, 'a) eff \<Rightarrow> bool" where
  "keeps m \<longleftrightarrow> (\<forall>s r t. m s = Some (r, t) \<longrightarrow> rel s t)"

lemma keepsI: "(\<And>s r t. m s = Some (r, t) \<Longrightarrow> rel s t) \<Longrightarrow> keeps m"
  by (simp add: keeps_def)

lemma keepsD: "keeps m \<Longrightarrow> m s = Some (r, t) \<Longrightarrow> rel s t"
  by (simp add: keeps_def)

lemma keeps_lift [intro!]: "keeps (liftM r)"
  by (auto simp: keeps_def rel_refl)

lemma keeps_get [intro!]: "keeps (getM f)"
  by (auto simp: keeps_def rel_refl)

lemma keeps_modify [intro!]: "(\<And>s. rel s (g s)) \<Longrightarrow> keeps (modifyM g)"
  by (auto simp: keeps_def)

lemma keeps_bind [intro!]: "keeps m \<Longrightarrow> (\<And>x. keeps (f x)) \<Longrightarrow> keeps (bindM m f)"
  by (auto simp: keeps_def bindM_eq_Some) (blast intro: rel_trans)

lemma keeps_try [intro!]: "keeps m \<Longrightarrow> (\<And>e. keeps (h e)) \<Longrightarrow> keeps (tryM m h)"
  by (auto simp: keeps_def tryM_def split: option.splits sum.splits) (blast intro: rel_trans)+

lemma keeps_finally [intro!]: "keeps m \<Longrightarrow> keeps f \<Longrightarrow> keeps (finallyM m f)"
  by (auto simp: keeps_def finallyM_def split: option.splits sum.splits prod.splits) (blast intro: rel_trans)+

lemma keeps_for [intro!]: "(\<And>x. x \<in> set xs \<Longrightarrow> keeps (f x)) \<Longrightarrow> keeps (forM f xs)"
  by (induction xs) auto

lemma keeps_if [intro!]: "(b \<Longrightarrow> keeps m) \<Longrightarrow> (\<not> b \<Longrightarrow> keeps m') \<Longrightarrow> keeps (if b then m else m')"
  by simp

lemma keeps_option [intro!]:
  "(x = None \<Longrightarrow> keeps m) \<Longrightarrow> (\<And>y. x = Some y \<Longrightarrow> keeps (f y)) \<Longrightarrow> keeps (case x of None \<Rightarrow> m | Some y \<Rightarrow> f y)"
  by (cases x) auto

lemma keeps_prod [intro!]: "(\<And>a b. p = (a, b) \<Longrightarrow> keeps (f a b)) \<Longrightarrow> keeps (case p of (a, b) \<Rightarrow> f a b)"
  by (cases p) auto

end

section \<open>Runs that end\<close>

text \<open>\<open>ends m s\<close>: the fuel of every loop in \<open>m\<close>, started in \<open>s\<close>, suffices.\<close>

definition ends :: "('s, 'a) eff \<Rightarrow> 's \<Rightarrow> bool" where
  "ends m s \<longleftrightarrow> m s \<noteq> None"

lemma ends_basic [simp]: "ends (liftM r) s" "ends (getM f) s" "ends (modifyM g) s"
  by (simp_all add: ends_def)

lemma ends_bind: "ends m s \<Longrightarrow> (\<And>x t. m s = Some (Inr x, t) \<Longrightarrow> ends (f x) t) \<Longrightarrow> ends (bindM m f) s"
  by (auto simp: ends_def bindM_def split: option.splits sum.splits)

lemma ends_try: "ends m s \<Longrightarrow> (\<And>e t. m s = Some (Inl e, t) \<Longrightarrow> ends (h e) t) \<Longrightarrow> ends (tryM m h) s"
  by (auto simp: ends_def tryM_def split: option.splits sum.splits)

lemma ends_finally: "ends m s \<Longrightarrow> (\<And>r t. m s = Some (r, t) \<Longrightarrow> ends f t) \<Longrightarrow> ends (finallyM m f) s"
  by (auto simp: ends_def finallyM_def split: option.splits sum.splits)

text \<open>Code without a loop that depends on fuel ends in every state.\<close>

definition loop_free :: "('s, 'a) eff \<Rightarrow> bool" where
  "loop_free m \<longleftrightarrow> (\<forall>s. m s \<noteq> None)"

lemma loop_freeD: "loop_free m \<Longrightarrow> ends m s"
  by (simp add: loop_free_def ends_def)

lemma loop_free_basic [intro!]: "loop_free (liftM r)" "loop_free (getM f)" "loop_free (modifyM g)"
  by (simp_all add: loop_free_def)

lemma loop_free_bind [intro!]: "loop_free m \<Longrightarrow> (\<And>x. loop_free (f x)) \<Longrightarrow> loop_free (bindM m f)"
  by (auto simp: loop_free_def bindM_def split: option.splits sum.splits)

lemma loop_free_try [intro!]: "loop_free m \<Longrightarrow> (\<And>e. loop_free (h e)) \<Longrightarrow> loop_free (tryM m h)"
  by (auto simp: loop_free_def tryM_def split: option.splits sum.splits)

lemma loop_free_finally [intro!]: "loop_free m \<Longrightarrow> loop_free f \<Longrightarrow> loop_free (finallyM m f)"
  using ends_finally [of m _ f] by (auto simp: loop_free_def ends_def)

lemma loop_free_if [intro!]: "(b \<Longrightarrow> loop_free m) \<Longrightarrow> (\<not> b \<Longrightarrow> loop_free m') \<Longrightarrow> loop_free (if b then m else m')"
  by simp

lemma loop_free_option [intro!]:
  "(x = None \<Longrightarrow> loop_free m) \<Longrightarrow> (\<And>y. x = Some y \<Longrightarrow> loop_free (f y)) \<Longrightarrow> loop_free (case x of None \<Rightarrow> m | Some y \<Rightarrow> f y)"
  by (cases x) auto

lemma loop_free_for [intro!]: "(\<And>x. x \<in> set xs \<Longrightarrow> loop_free (f x)) \<Longrightarrow> loop_free (forM f xs)"
  by (induction xs) auto

section \<open>Which exceptions escape\<close>

definition raises_only :: "(exn \<Rightarrow> bool) \<Rightarrow> ('s, 'a) eff \<Rightarrow> bool" where
  "raises_only P m \<longleftrightarrow> (\<forall>s e t. m s = Some (Inl e, t) \<longrightarrow> P e)"

lemma raises_onlyD: "raises_only P m \<Longrightarrow> m s = Some (Inl e, t) \<Longrightarrow> P e"
  unfolding raises_only_def by blast

lemma raises_only_lift [intro!]: "(\<And>e. r = Inl e \<Longrightarrow> P e) \<Longrightarrow> raises_only P (liftM r)"
  by (simp add: raises_only_def)

lemma raises_only_basic [intro!]: "raises_only P (getM f)" "raises_only P (modifyM g)"
  by (simp_all add: raises_only_def)

lemma raises_only_bind [intro!]: "raises_only P m \<Longrightarrow> (\<And>x. raises_only P (f x)) \<Longrightarrow> raises_only P (bindM m f)"
  by (fastforce simp: raises_only_def bindM_eq_Some)

lemma raises_only_try [intro!]:
  "raises_only Q m \<Longrightarrow> (\<And>e. Q e \<Longrightarrow> raises_only P (h e)) \<Longrightarrow> raises_only P (tryM m h)"
  unfolding raises_only_def tryM_def by (auto split: option.splits sum.splits) blast

lemma raises_only_finally [intro!]: "raises_only P m \<Longrightarrow> raises_only P f \<Longrightarrow> raises_only P (finallyM m f)"
  unfolding raises_only_def finallyM_def by (auto split: option.splits sum.splits prod.splits) blast

lemma raises_only_if [intro!]:
  "(b \<Longrightarrow> raises_only P m) \<Longrightarrow> (\<not> b \<Longrightarrow> raises_only P m') \<Longrightarrow> raises_only P (if b then m else m')"
  by simp

lemma raises_only_option [intro!]:
  "(x = None \<Longrightarrow> raises_only P m) \<Longrightarrow> (\<And>y. x = Some y \<Longrightarrow> raises_only P (f y)) \<Longrightarrow>
     raises_only P (case x of None \<Rightarrow> m | Some y \<Rightarrow> f y)"
  by (cases x) auto

lemma raises_only_for [intro!]: "(\<And>x. x \<in> set xs \<Longrightarrow> raises_only P (f x)) \<Longrightarrow> raises_only P (forM f xs)"
  by (induction xs) auto

section \<open>What is returned\<close>

definition yields :: "('a \<Rightarrow> 's \<Rightarrow> bool) \<Rightarrow> ('s, 'a) eff \<Rightarrow> bool" where
  "yields P m \<longleftrightarrow> (\<forall>s x t. m s = Some (Inr x, t) \<longrightarrow> P x t)"

lemma yieldsD: "yields P m \<Longrightarrow> m s = Some (Inr x, t) \<Longrightarrow> P x t"
  unfolding yields_def by blast

lemma yields_bind [intro!]: "(\<And>x. yields P (f x)) \<Longrightarrow> yields P (bindM m f)"
  by (auto simp: yields_def bindM_eq_Some)

lemma yields_try [intro!]: "yields P m \<Longrightarrow> (\<And>e. yields P (h e)) \<Longrightarrow> yields P (tryM m h)"
  by (auto simp: yields_def tryM_def split: option.splits sum.splits)

lemma yields_raise [intro!]: "yields P (raiseM e)"
  by (simp add: yields_def)

lemma yields_if [intro!]: "(b \<Longrightarrow> yields P m) \<Longrightarrow> (\<not> b \<Longrightarrow> yields P m') \<Longrightarrow> yields P (if b then m else m')"
  by simp

text \<open>A result that stops a loop is passed on unchanged.\<close>

lemma yields_rest:
  assumes "yields Q m" and "\<And>x o1. Q x o1 \<Longrightarrow> x \<in> S \<Longrightarrow> after (f x) (\<lambda>r o2. \<forall>y. r = Inr y \<longrightarrow> P y o2) o1"
    and "\<And>x. x \<notin> S \<Longrightarrow> yields P (f x)"
  shows "yields P (bindM m f)"
  unfolding yields_def
proof (intro allI impI)
  fix s y t assume "bindM m f s = Some (Inr y, t)"
  then obtain x u where x: "m s = Some (Inr x, u)" "f x u = Some (Inr y, t)" by (rule bindM_Inr)
  show "P y t"
  proof (cases "x \<in> S")
    case True
    from afterD [OF assms(2) [OF yieldsD [OF assms(1) x(1)] True] x(2)] show ?thesis by simp
  qed (use yieldsD [OF assms(3)] x(2) in blast)
qed

end
