(* ===== verification/Deadlines.thy ===== *)
theory Deadlines
  imports Py_Float Effects
begin

text \<open>
  Time: binary64 arithmetic on clock readings, as \<open>Deadline\<close> of \<open>mcp_orchestrator.py\<close> does it. A reading is the
  exact value of a double. The readings of a monotonic clock are far from the overflow threshold, so
  that rounding always gives a finite double here.
\<close>

definition fl :: "rat \<Rightarrow> rat" where
  "fl r = (let a = \<bar>r\<bar>; q = max (binary_exponent a - 52) (- 1074);
               m = of_int (round_half_even (a / pow2 q)) * pow2 q
           in if r = 0 then 0 else if r < 0 then - m else m)"

text \<open>\<open>int()\<close> of a float.\<close>

definition trunc :: "rat \<Rightarrow> int" where
  "trunc r = (if r < 0 then \<lceil>r\<rceil> else \<lfloor>r\<rfloor>)"

text \<open>\<open>n / 1000\<close> of an integer number of milliseconds.\<close>

definition seconds :: "int \<Rightarrow> rat" where
  "seconds ms = fl (of_int ms / 1000)"

definition remaining_ms :: "rat \<Rightarrow> rat \<Rightarrow> int" where
  "remaining_ms absolute now = trunc (fl (fl (absolute - now) * 1000))"

definition timeout :: "rat \<Rightarrow> rat \<Rightarrow> int \<Rightarrow> int outcome" where
  "timeout absolute now configured =
     (let remaining = remaining_ms absolute now
      in if remaining \<le> 0 then Inl (raises MCP_TIMEOUT) else Inr (min configured remaining))"

section \<open>Lemmas\<close>

lemma pow2_pos [simp]: "0 < pow2 e"
  by (simp add: pow2_def)

lemma round_half_even_nonneg: "0 \<le> x \<Longrightarrow> 0 \<le> round_half_even x"
  by (auto simp: round_half_even_def Let_def)

lemma fl_0 [simp]: "fl 0 = 0"
  by (simp add: fl_def)

lemma rounded_nonneg: "(0 :: rat) \<le> of_int (round_half_even (\<bar>r\<bar> / pow2 q)) * pow2 q"
  using round_half_even_nonneg [of "\<bar>r\<bar> / pow2 q"] pow2_pos [of q] by (simp add: less_imp_le)

lemma fl_nonneg: "0 \<le> x \<Longrightarrow> 0 \<le> fl x"
  using rounded_nonneg [of x] by (simp add: fl_def Let_def)

lemma fl_nonpos: "x \<le> 0 \<Longrightarrow> fl x \<le> 0"
  using rounded_nonneg [of x] by (simp add: fl_def Let_def)

lemma trunc_nonpos: "x \<le> 0 \<Longrightarrow> trunc x \<le> 0"
  by (auto simp: trunc_def)

lemma remaining_ms_expired: "absolute \<le> now \<Longrightarrow> remaining_ms absolute now \<le> 0"
  unfolding remaining_ms_def
  by (intro trunc_nonpos fl_nonpos) (simp add: fl_nonpos mult_nonpos_nonneg)

lemma timeout_Inl: "timeout absolute now configured = Inl e \<Longrightarrow> e = raises MCP_TIMEOUT"
  by (auto simp: timeout_def Let_def split: if_splits)

lemma timeout_expired: "absolute \<le> now \<Longrightarrow> timeout absolute now configured = Inl (raises MCP_TIMEOUT)"
  using remaining_ms_expired [of absolute now] by (simp add: timeout_def Let_def)

lemma timeout_Inr:
  "timeout absolute now configured = Inr t \<Longrightarrow> t \<le> configured \<and> t \<le> remaining_ms absolute now \<and> now < absolute"
  using remaining_ms_expired [of absolute now] by (auto simp: timeout_def Let_def not_le [symmetric] split: if_splits)

end
