(* ===== verification/Py_Net.thy ===== *)
theory Py_Net
  imports Py_Text
begin

text \<open>
  What the agent uses of \<open>ipaddress\<close> and \<open>urllib.parse\<close>, as in CPython 3.11. \<open>None\<close> stands for \<open>ValueError\<close>.
  The compatibility normalisation of Unicode, which \<open>urlsplit\<close> applies to an authority that is not
  ASCII, is the parameter \<open>nfkc\<close>.
\<close>

section \<open>Definitions\<close>

subsection \<open>Addresses\<close>

datatype ip = V4 nat | V6 nat "pystr option"

definition parse_octet :: "pystr \<Rightarrow> nat option" where
  "parse_octet s =
     (if s = [] \<or> \<not> list_all ascii_digit s \<or> 3 < length s \<or> (s \<noteq> [48] \<and> hd s = 48) \<or> 255 < undec s then None
      else Some (undec s))"

definition bytes_value :: "nat \<Rightarrow> nat list \<Rightarrow> nat" where
  "bytes_value base ds = foldl (\<lambda>a d. base * a + d) 0 ds"

definition IPv4Address :: "pystr \<Rightarrow> nat option" where
  "IPv4Address s =
     (if 47 \<in> set s \<or> length (split_on 46 s) \<noteq> 4 then None
      else map_option (bytes_value 256) (those (map parse_octet (split_on 46 s))))"

definition hexadecimal :: "nat \<Rightarrow> bool" where
  "hexadecimal c \<longleftrightarrow> ascii_digit c \<or> (65 \<le> c \<and> c \<le> 70) \<or> (97 \<le> c \<and> c \<le> 102)"

definition hex_value :: "nat \<Rightarrow> nat" where
  "hex_value c = (if ascii_digit c then c - 48 else if c \<le> 70 then c - 55 else c - 87)"

definition parse_hextet :: "pystr \<Rightarrow> nat option" where
  "parse_hextet s = (if list_all hexadecimal s \<and> length s \<le> 4 \<and> s \<noteq> [] then Some (bytes_value 16 (map hex_value s)) else None)"

fun to_hex :: "nat \<Rightarrow> pystr" where
  "to_hex n = (if n < 16 then [hex_digit n] else to_hex (n div 16) @ [hex_digit (n mod 16)])"

declare to_hex.simps [simp del]

text \<open>An address in dotted decimal at the end counts as two groups.\<close>

definition expand_v4_suffix :: "pystr list \<Rightarrow> pystr list option" where
  "expand_v4_suffix parts =
     (if 46 \<in> set (last parts)
      then map_option (\<lambda>n. butlast parts @ [to_hex (n div 65536 mod 65536), to_hex (n mod 65536)]) (IPv4Address (last parts))
      else Some parts)"

definition join_groups :: "pystr list \<Rightarrow> nat \<Rightarrow> pystr list \<Rightarrow> nat option" where
  "join_groups hi skipped lo =
     (case (those (map parse_hextet hi), those (map parse_hextet lo)) of
        (Some xs, Some ys) \<Rightarrow> Some (bytes_value 65536 (xs @ replicate skipped 0 @ ys))
      | _ \<Rightarrow> None)"

definition parse_groups :: "pystr list \<Rightarrow> nat option" where
  "parse_groups parts = (case filter (\<lambda>i. parts ! i = []) [1..<length parts - 1] of
      [] \<Rightarrow> if length parts \<noteq> 8 \<or> hd parts = [] \<or> last parts = [] then None else join_groups parts 0 []
    | [i] \<Rightarrow>
        let hi = (if hd parts = [] then i - 1 else i); lo = (if last parts = [] then length parts - i - 2 else length parts - i - 1)
        in if (hd parts = [] \<and> hi \<noteq> 0) \<or> (last parts = [] \<and> lo \<noteq> 0) \<or> 8 < hi + lo + 1 then None
           else join_groups (take hi parts) (8 - (hi + lo)) (drop (length parts - lo) parts)
    | _ \<Rightarrow> None)"

definition v6_int :: "pystr \<Rightarrow> nat option" where
  "v6_int s = (if s = [] \<or> length (split_on 58 s) < 3 then None
     else Option.bind (expand_v4_suffix (split_on 58 s)) (\<lambda>parts. if 9 < length parts then None else parse_groups parts))"

definition IPv6Address :: "pystr \<Rightarrow> ip option" where
  "IPv6Address s =
     (if 47 \<in> set s then None
      else case partition_at 37 s of (addr, scoped, scope) \<Rightarrow>
        if scoped \<and> (scope = [] \<or> 37 \<in> set scope) then None
        else map_option (\<lambda>n. V6 n (if scoped then Some scope else None)) (v6_int addr))"

definition ip_address :: "pystr \<Rightarrow> ip option" where
  "ip_address s = (case IPv4Address s of Some n \<Rightarrow> Some (V4 n) | None \<Rightarrow> IPv6Address s)"

subsection \<open>Classes of addresses\<close>

definition in_net :: "nat \<Rightarrow> nat \<Rightarrow> nat \<times> nat \<Rightarrow> bool" where
  "in_net width n net = (case net of (base, prefix) \<Rightarrow> n div 2 ^ (width - prefix) = base div 2 ^ (width - prefix))"

abbreviation in_v4 :: "nat \<Rightarrow> nat list \<times> nat \<Rightarrow> bool" where
  "in_v4 n net \<equiv> in_net 32 n (bytes_value 256 (fst net), snd net)"

text \<open>Networks of version 6 are given by their leading groups.\<close>

definition v6_base :: "nat list \<Rightarrow> nat" where
  "v6_base gs = bytes_value 65536 (gs @ replicate (8 - length gs) 0)"

abbreviation in_v6 :: "nat \<Rightarrow> nat list \<times> nat \<Rightarrow> bool" where
  "in_v6 n net \<equiv> in_net 128 n (v6_base (fst net), snd net)"

definition V4_PRIVATE :: "(nat list \<times> nat) list" where
  "V4_PRIVATE = [([0,0,0,0], 8), ([10,0,0,0], 8), ([127,0,0,0], 8), ([169,254,0,0], 16), ([172,16,0,0], 12), ([192,0,0,0], 24),
     ([192,0,0,170], 31), ([192,0,2,0], 24), ([192,168,0,0], 16), ([198,18,0,0], 15), ([198,51,100,0], 24), ([203,0,113,0], 24),
     ([240,0,0,0], 4), ([255,255,255,255], 32)]"

definition V4_PRIVATE_EXCEPTIONS :: "(nat list \<times> nat) list" where
  "V4_PRIVATE_EXCEPTIONS = [([192,0,0,9], 32), ([192,0,0,10], 32)]"

definition V6_PRIVATE :: "(nat list \<times> nat) list" where
  "V6_PRIVATE = [([0,0,0,0,0,0,0,1], 128), ([], 128), ([0,0,0,0,0,65535], 96), ([100,65435,1], 48), ([256], 64), ([8193], 23),
     ([8193,3512], 32), ([8194], 16), ([64512], 7), ([65152], 10)]"

definition V6_PRIVATE_EXCEPTIONS :: "(nat list \<times> nat) list" where
  "V6_PRIVATE_EXCEPTIONS = [([8193,1,0,0,0,0,0,1], 128), ([8193,1,0,0,0,0,0,2], 128), ([8193,3], 32), ([8193,4,274], 48),
     ([8193,32], 28), ([8193,48], 28)]"

definition V6_RESERVED :: "(nat list \<times> nat) list" where
  "V6_RESERVED = [([], 8), ([256], 8), ([512], 7), ([1024], 6), ([2048], 5), ([4096], 4), ([16384], 3), ([24576], 3), ([32768], 3),
     ([40960], 3), ([49152], 3), ([57344], 4), ([61440], 5), ([63488], 6), ([65024], 9)]"

definition is_loopback :: "ip \<Rightarrow> bool" where
  "is_loopback a = (case a of V4 n \<Rightarrow> in_v4 n ([127,0,0,0], 8) | V6 n _ \<Rightarrow> n = 1)"

definition is_unspecified :: "ip \<Rightarrow> bool" where
  "is_unspecified a = (case a of V4 n \<Rightarrow> n = 0 | V6 n _ \<Rightarrow> n = 0)"

definition is_link_local :: "ip \<Rightarrow> bool" where
  "is_link_local a = (case a of V4 n \<Rightarrow> in_v4 n ([169,254,0,0], 16) | V6 n _ \<Rightarrow> in_v6 n ([65152], 10))"

definition is_multicast :: "ip \<Rightarrow> bool" where
  "is_multicast a = (case a of V4 n \<Rightarrow> in_v4 n ([224,0,0,0], 4) | V6 n _ \<Rightarrow> in_v6 n ([65280], 8))"

definition is_reserved :: "ip \<Rightarrow> bool" where
  "is_reserved a = (case a of V4 n \<Rightarrow> in_v4 n ([240,0,0,0], 4) | V6 n _ \<Rightarrow> list_ex (in_v6 n) V6_RESERVED)"

definition v4_private :: "nat \<Rightarrow> bool" where
  "v4_private n \<longleftrightarrow> list_ex (in_v4 n) V4_PRIVATE \<and> \<not> list_ex (in_v4 n) V4_PRIVATE_EXCEPTIONS"

definition v4_global :: "nat \<Rightarrow> bool" where
  "v4_global n \<longleftrightarrow> \<not> in_v4 n ([100,64,0,0], 10) \<and> \<not> v4_private n"

definition is_private :: "ip \<Rightarrow> bool" where
  "is_private a = (case a of V4 n \<Rightarrow> v4_private n
     | V6 n _ \<Rightarrow> if n div 2 ^ 32 = 65535 then v4_private (n mod 2 ^ 32)
                 else list_ex (in_v6 n) V6_PRIVATE \<and> \<not> list_ex (in_v6 n) V6_PRIVATE_EXCEPTIONS)"

text \<open>For version 6, \<open>is_global\<close> is the negation of \<open>is_private\<close>, also for a mapped address of the shared range.\<close>

definition is_global :: "ip \<Rightarrow> bool" where
  "is_global a = (case a of V4 n \<Rightarrow> v4_global n | V6 n _ \<Rightarrow> \<not> is_private a)"

subsection \<open>Text of an address\<close>

definition join_with :: "nat \<Rightarrow> pystr list \<Rightarrow> pystr" where
  "join_with sep ss = (case ss of [] \<Rightarrow> [] | s # rest \<Rightarrow> s @ concat (map (\<lambda>t. sep # t) rest))"

definition base_digits :: "nat \<Rightarrow> nat \<Rightarrow> nat \<Rightarrow> nat list" where
  "base_digits base k n = map (\<lambda>i. n div base ^ (k - 1 - i) mod base) [0..<k]"

text \<open>The first longest run of zero groups: the loop of \<open>_compress_hextets\<close> keeps (best start, best length) and (start, length).\<close>

definition scan_zeros :: "nat list \<Rightarrow> nat \<times> nat" where
  "scan_zeros gs = fst (foldl (\<lambda>((bs, bl), (cs, cl)) (i, g).
      if g = 0 then
        let cs' = (if cl = 0 then i else cs); cl' = Suc cl
        in (if bl < cl' then (cs', cl') else (bs, bl), (cs', cl'))
      else ((bs, bl), (0, 0))) ((0, 0), (0, 0)) (zip [0..<length gs] gs))"

definition compress_groups :: "nat list \<Rightarrow> pystr list" where
  "compress_groups gs = (case scan_zeros gs of (start, len) \<Rightarrow>
     if len \<le> 1 then map to_hex gs
     else (if start = 0 then [[]] else []) @ map to_hex (take start gs) @ [[]] @ map to_hex (drop (start + len) gs)
       @ (if start + len = length gs then [[]] else []))"

definition ip_str :: "ip \<Rightarrow> pystr" where
  "ip_str a = (case a of
      V4 n \<Rightarrow> join_with 46 (map dec (base_digits 256 4 n))
    | V6 n scope \<Rightarrow> join_with 58 (compress_groups (base_digits 65536 8 n))
        @ (case scope of None \<Rightarrow> [] | Some z \<Rightarrow> 37 # z))"

subsection \<open>Splitting a URL\<close>

record split_result =
  sp_scheme :: pystr
  sp_netloc :: pystr
  sp_path :: pystr
  sp_query :: pystr
  sp_fragment :: pystr

definition lower_text :: "pystr \<Rightarrow> pystr" where
  "lower_text = map lower_ascii_char"

definition scheme_char :: "nat \<Rightarrow> bool" where
  "scheme_char c \<longleftrightarrow> ascii_alnum c \<or> c \<in> {43, 45, 46}"

definition split_scheme :: "pystr \<Rightarrow> pystr \<times> pystr" where
  "split_scheme url = (case partition_at 58 url of (name, found, rest) \<Rightarrow>
     if found \<and> name \<noteq> [] \<and> (ascii_upper (hd url) \<or> ascii_lower (hd url)) \<and> list_all scheme_char name
     then (lower_text name, rest) else ([], url))"

definition bracketed_host_ok :: "pystr \<Rightarrow> bool" where
  "bracketed_host_ok h =
     (if starts_with [118] h
      then (let digits = takeWhile hexadecimal (tl h); rest = dropWhile hexadecimal (tl h)
            in digits \<noteq> [] \<and> starts_with [46] rest \<and> tl rest \<noteq> [])
      else case ip_address h of Some (V6 n z) \<Rightarrow> True | _ \<Rightarrow> False)"

definition netloc_ok :: "(pystr \<Rightarrow> pystr) \<Rightarrow> pystr \<Rightarrow> bool" where
  "netloc_ok nfkc netloc \<longleftrightarrow>
     (91 \<in> set netloc \<longleftrightarrow> 93 \<in> set netloc)
     \<and> (91 \<in> set netloc \<longrightarrow> bracketed_host_ok (fst (partition_at 93 (snd (snd (partition_at 91 netloc))))))
     \<and> (netloc = [] \<or> isascii netloc \<or>
         (let n = filter (\<lambda>c. c \<notin> {64, 58, 35, 63}) netloc
          in n = nfkc n \<or> set (nfkc n) \<inter> {47, 63, 35, 64, 58} = {}))"

definition urlsplit :: "(pystr \<Rightarrow> pystr) \<Rightarrow> pystr \<Rightarrow> split_result option" where
  "urlsplit nfkc raw =
     (let url = filter (\<lambda>c. c \<notin> {9, 13, 10}) (dropWhile (\<lambda>c. c \<le> 32) raw) in
      case split_scheme url of (scheme, url) \<Rightarrow>
      let (netloc, url) = (if starts_with [47, 47] url
            then (takeWhile (\<lambda>c. c \<notin> {47, 63, 35}) (drop 2 url), dropWhile (\<lambda>c. c \<notin> {47, 63, 35}) (drop 2 url))
            else ([], url));
          (url, _, fragment) = partition_at 35 url;
          (path, _, query) = partition_at 63 url
      in if netloc_ok nfkc netloc
         then Some \<lparr> sp_scheme = scheme, sp_netloc = netloc, sp_path = path, sp_query = query, sp_fragment = fragment \<rparr>
         else None)"

text \<open>The part of the authority after the last \<open>@\<close>, and the properties of a result.\<close>

definition host_info :: "split_result \<Rightarrow> pystr" where
  "host_info r = rev (takeWhile (\<lambda>c. c \<noteq> 64) (rev (sp_netloc r)))"

definition has_userinfo :: "split_result \<Rightarrow> bool" where
  "has_userinfo r \<longleftrightarrow> 64 \<in> set (sp_netloc r)"

definition raw_host_port :: "split_result \<Rightarrow> pystr \<times> pystr" where
  "raw_host_port r =
     (if 91 \<in> set (host_info r)
      then (case partition_at 93 (snd (snd (partition_at 91 (host_info r)))) of (host, _, rest) \<Rightarrow> (host, snd (snd (partition_at 58 rest))))
      else (case partition_at 58 (host_info r) of (host, _, port) \<Rightarrow> (host, port)))"

definition url_hostname :: "ucd \<Rightarrow> split_result \<Rightarrow> pystr option" where
  "url_hostname u r = (case fst (raw_host_port r) of [] \<Rightarrow> None
     | host \<Rightarrow> (case partition_at 37 host of (name, scoped, zone) \<Rightarrow> Some (py_lower u name @ (if scoped then 37 # zone else []))))"

text \<open>The limit of \<open>int\<close> on long digit strings raises \<open>ValueError\<close> too, and so adds nothing to the range check.\<close>

definition url_port :: "split_result \<Rightarrow> nat option option" where
  "url_port r = (case snd (raw_host_port r) of [] \<Rightarrow> Some None
     | port \<Rightarrow> if list_all ascii_digit port \<and> undec port \<le> 65535 then Some (Some (undec port)) else None)"

section \<open>Lemmas\<close>

text \<open>The scheme of a URL in the usual form, and what follows the two slashes.\<close>

definition scheme_name :: "pystr \<Rightarrow> bool" where
  "scheme_name s \<longleftrightarrow> s \<noteq> [] \<and> (ascii_upper (hd s) \<or> ascii_lower (hd s)) \<and> list_all scheme_char s"

lemma partition_at_first: "c \<notin> set a \<Longrightarrow> partition_at c (a @ c # b) = (a, True, b)"
  by (induction a) auto

lemma partition_at_prefix: "c \<notin> set a \<Longrightarrow> partition_at c (a @ b) = (case partition_at c b of (x, found, y) \<Rightarrow> (a @ x, found, y))"
  by (induction a) (auto split: prod.splits)

lemma scheme_char_range: "scheme_char c \<Longrightarrow> 32 < c \<and> c \<noteq> 58 \<and> c \<notin> {9, 10, 13}"
  by (auto simp: scheme_char_def ascii_alnum_def ascii_digit_def ascii_upper_def ascii_lower_def)

lemma urlsplit_scheme_authority:
  assumes "scheme_name s"
    and "t' = filter (\<lambda>c. c \<notin> {9, 13, 10}) t"
  shows "netloc_ok nfkc (takeWhile (\<lambda>c. c \<notin> {47, 63, 35}) t') \<Longrightarrow> \<exists>r. urlsplit nfkc (s @ py ''://'' @ t) = Some r \<and> sp_scheme r = lower_text s
      \<and> sp_netloc r = takeWhile (\<lambda>c. c \<notin> {47, 63, 35}) t'
      \<and> sp_path r = fst (partition_at 63 (fst (partition_at 35 (dropWhile (\<lambda>c. c \<notin> {47, 63, 35}) t'))))"
    and "\<not> netloc_ok nfkc (takeWhile (\<lambda>c. c \<notin> {47, 63, 35}) t') \<Longrightarrow> urlsplit nfkc (s @ py ''://'' @ t) = None"
proof -
  obtain x xs where s: "s = x # xs" using assms by (cases s) (auto simp: scheme_name_def)
  have s58: "58 \<notin> set s" and fil: "filter (\<lambda>c. c \<notin> {9, 13, 10}) s = s"
    using assms scheme_char_range by (auto simp: scheme_name_def list_all_iff filter_id_conv)
  have x: "\<not> x \<le> 32" using assms s scheme_char_range [of x] by (auto simp: scheme_name_def)
  have "dropWhile (\<lambda>c. c \<le> 32) (s @ py ''://'' @ t) = s @ py ''://'' @ t" using x s by simp
  moreover have "filter (\<lambda>c. c \<notin> {9, 13, 10}) (py ''://'') = py ''://''" by (simp add: py_def)
  ultimately have url: "filter (\<lambda>c. c \<notin> {9, 13, 10}) (dropWhile (\<lambda>c. c \<le> 32) (s @ py ''://'' @ t))
      = s @ 58 # 47 # 47 # filter (\<lambda>c. c \<notin> {9, 13, 10}) t" (is "_ = s @ 58 # 47 # 47 # ?t")
    using fil by (simp add: py_def)
  have "split_scheme (s @ 58 # 47 # 47 # ?t) = (lower_text s, 47 # 47 # ?t)"
    using assms s partition_at_first [OF s58, of "47 # 47 # ?t"] by (simp add: split_scheme_def scheme_name_def)
  note url' = this
  show "netloc_ok nfkc (takeWhile (\<lambda>c. c \<notin> {47, 63, 35}) t') \<Longrightarrow> \<exists>r. urlsplit nfkc (s @ py ''://'' @ t) = Some r \<and> sp_scheme r = lower_text s
      \<and> sp_netloc r = takeWhile (\<lambda>c. c \<notin> {47, 63, 35}) t'
      \<and> sp_path r = fst (partition_at 63 (fst (partition_at 35 (dropWhile (\<lambda>c. c \<notin> {47, 63, 35}) t'))))"
    and "\<not> netloc_ok nfkc (takeWhile (\<lambda>c. c \<notin> {47, 63, 35}) t') \<Longrightarrow> urlsplit nfkc (s @ py ''://'' @ t) = None"
    using url' unfolding urlsplit_def url assms(2) by (simp_all add: Let_def split: prod.splits)
qed

lemma host_info_userinfo: "sp_netloc r = ui @ 64 # sp_netloc r' \<Longrightarrow> host_info r = host_info r'"
  by (cases "64 \<in> set (sp_netloc r')") (auto simp: host_info_def takeWhile_append2 takeWhile_tail intro!: takeWhile_append1)

lemma netloc_ok_userinfo:
  assumes "isascii (ui @ n)" and "set ui \<inter> {91, 93} = {}"
  shows "netloc_ok nfkc (ui @ 64 # n) \<longleftrightarrow> netloc_ok nfkc n"
proof -
  have "snd (snd (partition_at 91 (ui @ 64 # n))) = snd (snd (partition_at 91 n))"
    using assms(2) by (auto simp: partition_at_prefix split: prod.splits)
  then show ?thesis using assms by (auto simp: netloc_ok_def isascii_iff)
qed

lemma takeWhile_stops: "q = [] \<or> \<not> P (hd q) \<Longrightarrow> takeWhile P (xs @ q) = takeWhile P xs"
  by (cases q; induction xs) auto

lemma dropWhile_stops: "q = [] \<or> \<not> P (hd q) \<Longrightarrow> dropWhile P (xs @ q) = dropWhile P xs @ q"
  by (cases q; induction xs) auto

lemma partition_at_absent: "c \<notin> set a \<Longrightarrow> partition_at c a = (a, False, [])"
  by (induction a) auto

lemma path_before_tail:
  assumes "set xs \<inter> {63, 35 :: nat} = {}" and "q = [] \<or> hd q \<in> {63, 35}"
  shows "fst (partition_at 63 (fst (partition_at 35 (xs @ q)))) = xs"
proof (cases q)
  case Nil
  then show ?thesis using assms(1) by (auto simp: partition_at_absent)
next
  case (Cons c rest)
  then consider "c = 35" | "c = 63" using assms(2) by auto
  then show ?thesis
  proof cases
    case 1
    then show ?thesis using assms(1) Cons by (auto simp: partition_at_first partition_at_absent)
  next
    case 2
    then show ?thesis using assms(1) Cons partition_at_prefix [of 35 xs q]
      by (auto simp: partition_at_first split: prod.splits)
  qed
qed

end
