(* ===== verification/Endpoint_Policy.thy ===== *)
theory Endpoint_Policy
  imports Py_Net Agent_Limits
begin

text \<open>
  \<open>endpoint_policy.py\<close>: which destinations the agent may talk to. The fields of an endpoint are values of
  any type, since a caller can build one by hand and the transport checks it again. The resolver is a parameter that
  answers with address families and socket addresses, the components of an address as their
  \<open>str\<close>, or raises.
\<close>

section \<open>Definitions\<close>

type_synonym resolver = "pystr \<Rightarrow> nat \<Rightarrow> (nat \<times> pystr list) list outcome"

record validated_endpoint =
  ve_url :: pyval
  ve_scheme :: pyval
  ve_host :: pyval
  ve_connect_host :: pyval
  ve_port :: pyval
  ve_path :: pyval
  ve_loopback_only :: pyval

definition ValidatedEndpoint :: "pystr \<Rightarrow> string \<Rightarrow> pystr \<Rightarrow> pystr \<Rightarrow> nat \<Rightarrow> pystr \<Rightarrow> bool \<Rightarrow> validated_endpoint" where
  "ValidatedEndpoint url scheme host connect_host port path loopback_only =
     \<lparr> ve_url = PStr url, ve_scheme = PStr (py scheme), ve_host = PStr host, ve_connect_host = PStr connect_host,
       ve_port = PInt (int port), ve_path = PStr path, ve_loopback_only = PBool loopback_only \<rparr>"

abbreviation epr :: exn where
  "epr \<equiv> raises ENDPOINT_POLICY_REJECTION"

definition bounded_utf8 :: "pystr \<Rightarrow> bool" where
  "bounded_utf8 s = (case utf8_encode s of None \<Rightarrow> False | Some b \<Rightarrow> length b \<le> 2048)"

definition control_char :: "nat \<Rightarrow> bool" where
  "control_char c \<longleftrightarrow> c < 32"

definition default_port :: "split_result \<Rightarrow> nat option \<Rightarrow> nat" where
  "default_port r port = (case port of Some n \<Rightarrow> n | None \<Rightarrow> if lower_text (sp_scheme r) = py ''https'' then 443 else 80)"

definition split_endpoint :: "ucd \<Rightarrow> (pystr \<Rightarrow> pystr) \<Rightarrow> pyval \<Rightarrow> (split_result \<times> pystr \<times> nat \<times> pystr) outcome" where
  "split_endpoint u nfkc v = (case v of
      PStr url \<Rightarrow>
        bindE (checkE (url \<noteq> [] \<and> \<not> list_ex control_char url) epr) (\<lambda>_.
        bindE (checkE (bounded_utf8 url) epr) (\<lambda>_.
        case urlsplit nfkc url of
          None \<Rightarrow> Inl epr
        | Some r \<Rightarrow> (case url_port r of
            None \<Rightarrow> Inl epr
          | Some port \<Rightarrow>
              bindE (checkE (sp_netloc r \<noteq> [] \<and> \<not> has_userinfo r) epr) (\<lambda>_.
              bindE (checkE (sp_fragment r = [] \<and> sp_query r = []) epr) (\<lambda>_.
              case url_hostname u r of
                None \<Rightarrow> Inl epr
              | Some host \<Rightarrow>
                  bindE (checkE (host \<noteq> [] \<and> \<not> list_ex (py_space u) host) epr) (\<lambda>_.
                  bindE (checkE (1 \<le> default_port r port \<and> default_port r port \<le> 65535) epr) (\<lambda>_.
                  bindE (checkE (sp_path r = [] \<or> starts_with [47] (sp_path r) \<and> \<not> list_ex control_char (sp_path r)) epr) (\<lambda>_.
                  let path = (if sp_path r = [] then [47] else sp_path r) in
                  bindE (checkE (bounded_utf8 path) epr) (\<lambda>_.
                  Inr (r, host, default_port r port, path))))))))))
    | _ \<Rightarrow> Inl epr)"

definition validate_production_endpoint :: "ucd \<Rightarrow> (pystr \<Rightarrow> pystr) \<Rightarrow> pyval \<Rightarrow> pyval \<Rightarrow> validated_endpoint outcome" where
  "validate_production_endpoint u nfkc url verify_tls =
     bindE (split_endpoint u nfkc url) (\<lambda>(parsed, host, port, path).
     bindE (checkE (lower_text (sp_scheme parsed) = py ''https'') (raises INSECURE_SCHEME)) (\<lambda>_.
     bindE (checkE (verify_tls = PBool True) (raises TLS_VERIFICATION_FAILURE)) (\<lambda>_.
     case url of PStr text \<Rightarrow> Inr (ValidatedEndpoint text ''https'' host host port path False) | _ \<Rightarrow> Inl epr)))"

text \<open>\<open>==\<close> of two endpoints is the comparison of the tuples of their fields.\<close>

definition endpoint_eq :: "validated_endpoint \<Rightarrow> validated_endpoint \<Rightarrow> bool" where
  "endpoint_eq e f \<longleftrightarrow> py_eq (ve_url e) (ve_url f) \<and> py_eq (ve_scheme e) (ve_scheme f) \<and> py_eq (ve_host e) (ve_host f)
     \<and> py_eq (ve_connect_host e) (ve_connect_host f) \<and> py_eq (ve_port e) (ve_port f) \<and> py_eq (ve_path e) (ve_path f)
     \<and> py_eq (ve_loopback_only e) (ve_loopback_only f)"

definition AF_INET :: nat where
  "AF_INET = 2"

definition AF_INET6 :: nat where
  "AF_INET6 = 10"

text \<open>One record of a resolver's answer; all exceptions of this loop have one handler, so they are \<open>None\<close>.\<close>

definition global_address :: "nat \<times> pystr list \<Rightarrow> pystr option" where
  "global_address answer = (case answer of (family, sockaddr) \<Rightarrow>
     if family \<notin> {AF_INET, AF_INET6} \<or> sockaddr = [] then None
     else case ip_address (hd sockaddr) of None \<Rightarrow> None | Some a \<Rightarrow> if is_global a then Some (ip_str a) else None)"

definition host_and_port :: "validated_endpoint \<Rightarrow> pystr \<times> nat" where
  "host_and_port e = (case (ve_host e, ve_port e) of (PStr h, PInt n) \<Rightarrow> (h, nat n) | _ \<Rightarrow> ([], 0))"

definition as_resolution_failure :: "exn \<Rightarrow> exn" where
  "as_resolution_failure e = (if is_os_error e \<or> is_value_error e \<or> e = TypeError then raises DNS_OR_CONNECTION_FAILURE else e)"

definition resolve_production_transport_endpoint ::
    "ucd \<Rightarrow> (pystr \<Rightarrow> pystr) \<Rightarrow> resolver \<Rightarrow> validated_endpoint \<Rightarrow> validated_endpoint outcome" where
  "resolve_production_transport_endpoint u nfkc resolver e =
     bindE (catchE
       (bindE (validate_production_endpoint u nfkc (ve_url e) (PBool True)) (\<lambda>checked.
        bindE (checkE (endpoint_eq e checked \<and> py_eq (ve_connect_host e) (ve_host e) \<and> ve_loopback_only e = PBool False) ValueError) (\<lambda>_.
        bindE (resolver (fst (host_and_port checked)) (snd (host_and_port checked))) (\<lambda>answers. Inr (checked, answers)))))
       (\<lambda>x. Inl (as_resolution_failure x))) (\<lambda>(checked, answers).
     case those (map global_address answers) of
       None \<Rightarrow> Inl epr
     | Some [] \<Rightarrow> Inl (raises DNS_OR_CONNECTION_FAILURE)
     | Some (address # _) \<Rightarrow> Inr (checked\<lparr>ve_connect_host := PStr address, ve_loopback_only := PBool False\<rparr>))"

definition is_loopback_address :: "pystr \<Rightarrow> bool" where
  "is_loopback_address s = (case ip_address s of None \<Rightarrow> False | Some a \<Rightarrow> is_loopback a)"

definition resolved_addresses :: "resolver \<Rightarrow> pystr \<Rightarrow> nat \<Rightarrow> (nat \<times> pystr) list outcome" where
  "resolved_addresses resolver host port =
     bindE (catchE (resolver host port) (\<lambda>x. Inl (if is_os_error x \<or> is_value_error x then epr else x))) (\<lambda>answers.
     bindE (mapE (\<lambda>(family, sockaddr). if family \<in> {AF_INET, AF_INET6} \<and> sockaddr \<noteq> [] then Inr (family, hd sockaddr) else Inl epr) answers) (\<lambda>addresses.
     bindE (checkE (addresses \<noteq> [] \<and> list_all (\<lambda>(family, address). is_loopback_address address) addresses) epr) (\<lambda>_.
     Inr addresses)))"

definition names_loopback :: "ucd \<Rightarrow> pystr \<Rightarrow> bool" where
  "names_loopback u host = (case ip_address host of Some a \<Rightarrow> is_loopback a | None \<Rightarrow> py_lower u host = py ''localhost'')"

definition validate_fake_loopback_endpoint ::
    "ucd \<Rightarrow> (pystr \<Rightarrow> pystr) \<Rightarrow> resolver \<Rightarrow> pyval \<Rightarrow> pyval \<Rightarrow> validated_endpoint outcome" where
  "validate_fake_loopback_endpoint u nfkc resolver url allow_loopback_http =
     bindE (checkE (allow_loopback_http = PBool True) epr) (\<lambda>_.
     bindE (split_endpoint u nfkc url) (\<lambda>(parsed, host, port, path).
     bindE (checkE (lower_text (sp_scheme parsed) = py ''http'') (raises INSECURE_SCHEME)) (\<lambda>_.
     bindE (checkE (host \<notin> set (map py [''0.0.0.0'', ''::'', ''[::]'', []])) epr) (\<lambda>_.
     bindE (checkE (names_loopback u host) epr) (\<lambda>_.
     bindE (resolved_addresses resolver host port) (\<lambda>addresses.
     case url of
       PStr text \<Rightarrow> Inr (ValidatedEndpoint text ''http'' host (snd (hd addresses)) port path True)
     | _ \<Rightarrow> Inl epr))))))"

text \<open>Membership of an unhashable value in a set raises \<open>TypeError\<close>.\<close>

definition validate_fake_bind_host :: "pyval \<Rightarrow> unit outcome" where
  "validate_fake_bind_host host = (case host of
      PList _ \<Rightarrow> Inl TypeError
    | PDict _ _ \<Rightarrow> Inl TypeError
    | _ \<Rightarrow> checkE (host \<in> set (map (\<lambda>s. PStr (py s)) [''127.0.0.1'', ''::1'', ''localhost''])) epr)"

definition transport_path_ok :: "pystr \<Rightarrow> bool" where
  "transport_path_ok path \<longleftrightarrow> path \<noteq> [] \<and> starts_with [47] path \<and> \<not> list_ex (\<lambda>c. c < 32 \<or> c = 127) path \<and> bounded_utf8 path"

definition validate_loopback_transport_endpoint :: "ucd \<Rightarrow> (pystr \<Rightarrow> pystr) \<Rightarrow> validated_endpoint \<Rightarrow> unit outcome" where
  "validate_loopback_transport_endpoint u nfkc e =
     bindE (checkE (ve_scheme e = PStr (py ''http'') \<and> ve_loopback_only e = PBool True) epr) (\<lambda>_.
     case (ve_connect_host e, ve_port e, ve_path e) of
       (PStr connect_host, PInt port, PStr path) \<Rightarrow> (case ip_address connect_host of
           None \<Rightarrow> Inl epr
         | Some address \<Rightarrow>
             bindE (checkE (connect_host \<noteq> []) epr) (\<lambda>_.
             bindE (checkE (is_loopback address \<and> \<not> is_unspecified address \<and> \<not> is_link_local address \<and> \<not> is_multicast address
                \<and> \<not> is_reserved address) epr) (\<lambda>_.
             bindE (checkE (1 \<le> port \<and> port \<le> 65535) epr) (\<lambda>_.
             bindE (checkE (transport_path_ok path) epr) (\<lambda>_.
             bindE (split_endpoint u nfkc (ve_url e)) (\<lambda>(parsed, public_host, public_port, public_path).
             bindE (checkE (sp_scheme parsed = py ''http'' \<and> \<not> has_userinfo parsed) epr) (\<lambda>_.
             bindE (checkE (ve_host e = PStr public_host \<and> port = int public_port \<and> path = public_path) epr) (\<lambda>_.
             checkE (case ip_address public_host of
                 None \<Rightarrow> py_lower u public_host = py ''localhost''
               | Some public_address \<Rightarrow> public_address = address) epr))))))))
     | _ \<Rightarrow> Inl epr)"

definition redirect_rejection :: classified_failure where
  "redirect_rejection = failure REDIRECT_REJECTED"

section \<open>Lemmas\<close>

lemma in_v4_iff:
  "in_net 32 n (bytes_value 256 [127,0,0,0], 8) \<longleftrightarrow> n div 2 ^ 24 = 127"
  "in_net 32 n (bytes_value 256 [169,254,0,0], 16) \<longleftrightarrow> n div 2 ^ 16 = 43518"
  "in_net 32 n (bytes_value 256 [224,0,0,0], 4) \<longleftrightarrow> n div 2 ^ 28 = 14"
  "in_net 32 n (bytes_value 256 [240,0,0,0], 4) \<longleftrightarrow> n div 2 ^ 28 = 15"
  by (simp_all add: in_net_def bytes_value_def)

lemma zero_groups:
  "replicate 2 (0::nat) = [0, 0]" "replicate 5 (0::nat) = [0, 0, 0, 0, 0]" "replicate 6 (0::nat) = [0, 0, 0, 0, 0, 0]"
  "replicate 7 (0::nat) = [0, 0, 0, 0, 0, 0, 0]" "replicate 8 (0::nat) = [0, 0, 0, 0, 0, 0, 0, 0]"
  by (simp_all add: numeral_eq_Suc)

lemmas v6_eval = in_net_def v6_base_def bytes_value_def zero_groups

text \<open>The loopback addresses of version 4 pass the other tests of the transport; the one of version 6 is reserved.\<close>

lemma v4_loopback_unreserved:
  assumes "is_loopback (V4 n)"
  shows "\<not> is_unspecified (V4 n) \<and> \<not> is_link_local (V4 n) \<and> \<not> is_multicast (V4 n) \<and> \<not> is_reserved (V4 n)"
proof -
  have n: "n div 2 ^ 24 = 127" using assms by (simp add: is_loopback_def in_v4_iff)
  have "n div 2 ^ 28 = n div 2 ^ 24 div 16" by (simp add: div_mult2_eq)
  moreover have "n div 2 ^ 24 = n div 2 ^ 16 div 256" by (simp add: div_mult2_eq)
  ultimately show ?thesis
    using n by (auto simp: is_unspecified_def is_link_local_def is_multicast_def is_reserved_def in_v4_iff)
qed

lemma v6_loopback_reserved: "is_loopback (V6 n z) \<Longrightarrow> is_reserved (V6 n z)"
  by (simp add: is_loopback_def is_reserved_def V6_RESERVED_def v6_eval)

lemma v4_private_loopback: "n div 2 ^ 24 = 127 \<Longrightarrow> v4_private n"
proof -
  assume n: "n div 2 ^ 24 = 127"
  have "n \<noteq> 3221225481" "n \<noteq> 3221225482" using n by auto
  with n show ?thesis
    by (simp add: v4_private_def V4_PRIVATE_def V4_PRIVATE_EXCEPTIONS_def in_net_def bytes_value_def)
qed

lemma global_not_loopback: "is_global a \<Longrightarrow> \<not> is_loopback a \<and> \<not> is_private a"
proof (cases a)
  case (V4 n)
  assume "is_global a"
  with V4 show ?thesis using v4_private_loopback [of n] by (auto simp: is_global_def v4_global_def is_loopback_def is_private_def in_v4_iff)
next
  case (V6 n z)
  assume "is_global a"
  moreover have "is_private (V6 1 z)"
    by (simp add: is_private_def V6_PRIVATE_def V6_PRIVATE_EXCEPTIONS_def v6_eval)
  ultimately show ?thesis using V6 by (auto simp: is_global_def is_loopback_def)
qed

lemma those_member: "those (map f xs) = Some ys \<Longrightarrow> x \<in> set xs \<Longrightarrow> f x \<noteq> None"
  by (induction xs arbitrary: ys) (auto split: option.splits)

lemma lower_text_idem [simp]: "lower_text (lower_text s) = lower_text s"
  by (simp add: lower_text_def lower_ascii_char_def ascii_upper_def)

lemma urlsplit_scheme: "urlsplit nfkc url = Some r \<Longrightarrow> lower_text (sp_scheme r) = sp_scheme r"
  by (auto simp: urlsplit_def split_scheme_def Let_def lower_text_def split: prod.splits if_splits)
     (simp_all add: lower_ascii_char_def ascii_upper_def)

lemma split_endpoint_Inr:
  assumes "split_endpoint u nfkc v = Inr (r, host, port, path)"
  obtains url where "v = PStr url" and "urlsplit nfkc url = Some r" and "url_hostname u r = Some host" and "\<not> has_userinfo r"
    and "sp_query r = []" and "sp_fragment r = []" and "1 \<le> port" and "port \<le> 65535" and "starts_with [47] path"
    and "\<not> list_ex control_char path" and "bounded_utf8 path" and "bounded_utf8 url"
  using assms
  by (auto simp: split_endpoint_def bindE_eq_Inr Let_def control_char_def split: pyval.splits option.splits if_splits)

lemma validate_production_Inr:
  assumes "validate_production_endpoint u nfkc v t = Inr e"
  obtains url r host port path where "v = PStr url" and "split_endpoint u nfkc v = Inr (r, host, port, path)" and "t = PBool True"
    and "lower_text (sp_scheme r) = py ''https''" and "e = ValidatedEndpoint url ''https'' host host port path False"
proof -
  from assms obtain r host port path where sp: "split_endpoint u nfkc v = Inr (r, host, port, path)"
    by (auto simp: validate_production_endpoint_def bindE_eq_Inr)
  moreover from sp obtain url where "v = PStr url" by (rule split_endpoint_Inr)
  ultimately show ?thesis using assms that by (auto simp: validate_production_endpoint_def bindE_eq_Inr)
qed

lemma split_endpoint_Inl: "split_endpoint u nfkc v = Inl e \<Longrightarrow> e = epr"
  by (auto simp: split_endpoint_def bindE_eq_Inl Let_def split: pyval.splits option.splits if_splits)

text \<open>What the transport relies on: the address that an accepted endpoint connects to.\<close>

lemma accepted_destination:
  assumes "validate_loopback_transport_endpoint u nfkc e = Inr ()"
  shows "\<exists>h n. ve_connect_host e = PStr h \<and> ip_address h = Some (V4 n) \<and> n div 2 ^ 24 = 127"
proof -
  from assms obtain h a where h: "ve_connect_host e = PStr h" "ip_address h = Some a" and a: "is_loopback a" "\<not> is_reserved a"
    by (auto simp: validate_loopback_transport_endpoint_def bindE_eq_Inr split: pyval.splits option.splits)
  from a v6_loopback_reserved obtain n where "a = V4 n" by (cases a) auto
  with h a show ?thesis by (simp add: is_loopback_def in_v4_iff)
qed

lemma loopback_transport_Inl: "validate_loopback_transport_endpoint u nfkc e = Inl x \<Longrightarrow> x = epr"
  by (auto simp: validate_loopback_transport_endpoint_def bindE_eq_Inl split_endpoint_Inl split: pyval.splits option.splits)

lemma resolved_destination:
  assumes "resolve_production_transport_endpoint u nfkc resolver e = Inr e'"
  obtains a checked where "ve_connect_host e' = PStr (ip_str a)" and "is_global a" and "ve_loopback_only e' = PBool False"
    and "validate_production_endpoint u nfkc (ve_url e) (PBool True) = Inr checked" and "endpoint_eq e checked"
    and "ve_host e' = ve_host checked" and "ve_port e' = ve_port checked" and "ve_path e' = ve_path checked"
proof -
  from assms obtain checked answers where ok: "validate_production_endpoint u nfkc (ve_url e) (PBool True) = Inr checked" "endpoint_eq e checked"
    and res: "(case those (map global_address answers) of
       None \<Rightarrow> Inl epr
     | Some [] \<Rightarrow> Inl (raises DNS_OR_CONNECTION_FAILURE)
     | Some (address # _) \<Rightarrow> Inr (checked\<lparr>ve_connect_host := PStr address, ve_loopback_only := PBool False\<rparr>)) = Inr e'"
    by (auto simp: resolve_production_transport_endpoint_def bindE_eq_Inr catchE_eq_Inr)
  from res obtain address rest where those: "those (map global_address answers) = Some (address # rest)"
    and e': "e' = checked\<lparr>ve_connect_host := PStr address, ve_loopback_only := PBool False\<rparr>"
    by (auto split: option.splits list.splits)
  from those have "global_address (hd answers) = Some address" by (cases answers) (auto split: option.splits)
  then obtain a where "is_global a" "address = ip_str a" by (auto simp: global_address_def split: prod.splits if_splits option.splits)
  then show thesis using that ok e' by simp
qed

lemma validate_production_Inl:
  assumes "validate_production_endpoint u nfkc v t = Inl x"
  shows "\<exists>c. x = raises c"
proof (cases "split_endpoint u nfkc v")
  case (Inl y)
  then show ?thesis using assms split_endpoint_Inl [OF Inl] by (auto simp: validate_production_endpoint_def)
next
  case (Inr res)
  then obtain url where "v = PStr url" by (cases res) (auto elim: split_endpoint_Inr)
  then show ?thesis using assms Inr by (cases res) (auto simp: validate_production_endpoint_def bindE_eq_Inl)
qed

lemma resolve_production_Inl:
  assumes "resolve_production_transport_endpoint u nfkc resolver e = Inl x" and "\<And>h p y. resolver h p = Inl y \<Longrightarrow> P y"
    and "\<And>c. P (raises c)" and "P ValueError"
  shows "P x"
proof -
  let ?inner = "bindE (validate_production_endpoint u nfkc (ve_url e) (PBool True)) (\<lambda>checked.
        bindE (checkE (endpoint_eq e checked \<and> py_eq (ve_connect_host e) (ve_host e) \<and> ve_loopback_only e = PBool False) ValueError) (\<lambda>_.
        bindE (resolver (fst (host_and_port checked)) (snd (host_and_port checked))) (\<lambda>answers. Inr (checked, answers))))"
  show ?thesis
  proof (cases ?inner)
    case (Inl y)
    then have "P y"
      using assms(2-4) validate_production_Inl [of u nfkc "ve_url e" "PBool True" y] by (auto simp: bindE_eq_Inl)
    moreover have "x = as_resolution_failure y" using assms(1) Inl by (simp add: resolve_production_transport_endpoint_def)
    ultimately show ?thesis using assms(3) by (simp add: as_resolution_failure_def)
  next
    case (Inr r)
    then have "\<exists>c. x = raises c"
      using assms(1) by (cases r) (auto simp: resolve_production_transport_endpoint_def split: option.splits list.splits)
    then show ?thesis using assms(3) by blast
  qed
qed

section \<open>Samples\<close>

definition plain_ucd :: ucd where
  "plain_ucd = \<lparr> uc_lower = (\<lambda>c. [c]), uc_space = (\<lambda>_. False), uc_word = (\<lambda>_. False), uc_decimal = (\<lambda>_. False) \<rparr>"

definition sample_endpoint :: validated_endpoint where
  "sample_endpoint = ValidatedEndpoint (py ''http://localhost:8080/v1'') ''http'' (py ''localhost'') (py ''127.0.0.1'') 8080 (py ''/v1'') True"

lemma sample_split:
  "urlsplit id (py ''http://localhost:8080/v1'') = Some \<lparr> sp_scheme = py ''http'', sp_netloc = py ''localhost:8080'', sp_path = py ''/v1'',
     sp_query = [], sp_fragment = [] \<rparr>"
  by (simp add: urlsplit_def split_scheme_def Let_def lower_text_def py_def netloc_ok_def isascii_iff lower_ascii_char_def ascii_upper_def
      ascii_lower_def scheme_char_def ascii_alnum_def)

lemma sample_address: "ip_address (py ''127.0.0.1'') = Some (V4 2130706433)" "ip_address (py ''localhost'') = None"
  by (simp_all add: ip_address_def IPv4Address_def IPv6Address_def v6_int_def parse_octet_def py_def ascii_digit_def undec_def bytes_value_def)

definition sample_result :: split_result where
  "sample_result = \<lparr> sp_scheme = py ''http'', sp_netloc = py ''localhost:8080'', sp_path = py ''/v1'', sp_query = [], sp_fragment = [] \<rparr>"

lemma sample_parts:
  "url_port sample_result = Some (Some 8080)" "url_hostname plain_ucd sample_result = Some (py ''localhost'')" "\<not> has_userinfo sample_result"
  by (simp_all add: sample_result_def url_port_def url_hostname_def raw_host_port_def host_info_def has_userinfo_def py_def ascii_digit_def
      undec_def py_lower_def plain_ucd_def lower_ascii_char_def ascii_upper_def)

lemma sample_split_endpoint:
  "split_endpoint plain_ucd id (PStr (py ''http://localhost:8080/v1'')) = Inr (sample_result, py ''localhost'', 8080, py ''/v1'')"
proof -
  have "bounded_utf8 (py ''http://localhost:8080/v1'')" "bounded_utf8 (py ''/v1'')"
    by (simp_all add: bounded_utf8_def py_def)
  moreover have "\<not> list_ex control_char (py ''http://localhost:8080/v1'')" "\<not> list_ex control_char (py ''/v1'')"
    by (simp_all add: py_def control_char_def)
  moreover have "\<not> list_ex (py_space plain_ucd) (py ''localhost'')" by (simp add: py_def py_space_def ascii_space_def plain_ucd_def)
  moreover have "urlsplit id (py ''http://localhost:8080/v1'') = Some sample_result" by (simp add: sample_split sample_result_def)
  ultimately show ?thesis
    using sample_parts by (simp add: split_endpoint_def default_port_def) (simp add: sample_result_def py_def Let_def)
qed

lemma sample_tail: "transport_path_ok (py ''/v1'')" "sp_scheme sample_result = py ''http''" "py_lower u (py ''localhost'') = py ''localhost''"
  by (simp_all add: transport_path_ok_def bounded_utf8_def sample_result_def py_def py_lower_def lower_ascii_char_def ascii_upper_def)

lemma sample_endpoint_ok: "validate_loopback_transport_endpoint plain_ucd id sample_endpoint = Inr ()"
  using v4_loopback_unreserved [of 2130706433] sample_tail
  by (simp add: validate_loopback_transport_endpoint_def sample_endpoint_def ValidatedEndpoint_def sample_address sample_split_endpoint
      sample_parts is_loopback_def in_v4_iff)

definition loopback_resolver :: resolver where
  "loopback_resolver host port = Inr [(AF_INET, [py ''127.0.0.1'', py ''8080''])]"

lemma sample_fake_ok:
  "validate_fake_loopback_endpoint plain_ucd id loopback_resolver (PStr (py ''http://localhost:8080/v1'')) (PBool True) = Inr sample_endpoint"
proof -
  have "names_loopback plain_ucd (py ''localhost'')" by (simp add: names_loopback_def sample_address sample_tail)
  moreover have "resolved_addresses loopback_resolver (py ''localhost'') 8080 = Inr [(AF_INET, py ''127.0.0.1'')]"
    by (simp add: resolved_addresses_def loopback_resolver_def is_loopback_address_def sample_address is_loopback_def in_v4_iff)
  moreover have "lower_text (sp_scheme sample_result) = py ''http''"
    by (simp add: sample_tail lower_text_def py_def lower_ascii_char_def ascii_upper_def)
  ultimately show ?thesis
    by (simp add: validate_fake_loopback_endpoint_def sample_split_endpoint sample_endpoint_def)
qed

definition public_result :: split_result where
  "public_result = \<lparr> sp_scheme = py ''https'', sp_netloc = py ''example.com'', sp_path = py ''/v1'', sp_query = [], sp_fragment = [] \<rparr>"

definition public_endpoint :: validated_endpoint where
  "public_endpoint = ValidatedEndpoint (py ''https://example.com/v1'') ''https'' (py ''example.com'') (py ''example.com'') 443 (py ''/v1'') False"

definition public_resolver :: resolver where
  "public_resolver host port = Inr [(AF_INET, [py ''8.8.8.8''])]"

lemma public_split: "urlsplit id (py ''https://example.com/v1'') = Some public_result"
  by (simp add: urlsplit_def public_result_def split_scheme_def Let_def lower_text_def py_def netloc_ok_def isascii_iff lower_ascii_char_def ascii_upper_def
      ascii_lower_def scheme_char_def ascii_alnum_def)

lemma public_parts:
  "url_port public_result = Some None" "url_hostname plain_ucd public_result = Some (py ''example.com'')" "\<not> has_userinfo public_result"
  by (simp_all add: public_result_def url_port_def url_hostname_def raw_host_port_def host_info_def has_userinfo_def py_def
      py_lower_def plain_ucd_def lower_ascii_char_def ascii_upper_def)

lemma public_scheme: "lower_text (sp_scheme public_result) = py ''https''"
  by (simp add: public_result_def lower_text_def py_def lower_ascii_char_def ascii_upper_def)

lemma public_split_endpoint:
  "split_endpoint plain_ucd id (PStr (py ''https://example.com/v1'')) = Inr (public_result, py ''example.com'', 443, py ''/v1'')"
proof -
  have "bounded_utf8 (py ''https://example.com/v1'')" "bounded_utf8 (py ''/v1'')" by (simp_all add: bounded_utf8_def py_def)
  moreover have "\<not> list_ex control_char (py ''https://example.com/v1'')" by (simp add: py_def control_char_def)
  moreover have "\<not> list_ex (py_space plain_ucd) (py ''example.com'')" by (simp add: py_def py_space_def ascii_space_def)
  moreover have "sp_netloc public_result = py ''example.com''" "sp_path public_result = py ''/v1''" "sp_query public_result = []"
    "sp_fragment public_result = []" by (simp_all add: public_result_def)
  moreover have "starts_with [47] (py ''/v1'')" "\<not> list_ex control_char (py ''/v1'')" by (simp_all add: py_def control_char_def)
  moreover have "py ''/v1'' \<noteq> []" "py ''example.com'' \<noteq> []" "py ''https://example.com/v1'' \<noteq> []" by (simp_all add: py_def)
  ultimately show ?thesis by (simp add: split_endpoint_def public_split public_parts public_scheme default_port_def Let_def)
qed

lemma public_address: "global_address (AF_INET, [py ''8.8.8.8'']) = Some (py ''8.8.8.8'')"
proof -
  have "ip_address (py ''8.8.8.8'') = Some (V4 134744072)"
    by (simp add: ip_address_def IPv4Address_def parse_octet_def py_def ascii_digit_def undec_def bytes_value_def)
  moreover have "is_global (V4 134744072)"
    by (simp add: is_global_def v4_global_def v4_private_def V4_PRIVATE_def in_net_def bytes_value_def)
  moreover have "ip_str (V4 134744072) = py ''8.8.8.8''"
    by (simp add: ip_str_def base_digits_def join_with_def upt_rec py_def dec.simps)
  ultimately show ?thesis by (simp add: global_address_def)
qed

lemma public_production: "validate_production_endpoint plain_ucd id (PStr (py ''https://example.com/v1'')) (PBool True) = Inr public_endpoint"
  by (simp add: validate_production_endpoint_def public_split_endpoint public_scheme public_endpoint_def)

lemma public_resolved:
  "resolve_production_transport_endpoint plain_ucd id public_resolver public_endpoint
     = Inr (public_endpoint\<lparr>ve_connect_host := PStr (py ''8.8.8.8''), ve_loopback_only := PBool False\<rparr>)"
  using public_production public_address
  by (simp add: resolve_production_transport_endpoint_def public_endpoint_def ValidatedEndpoint_def endpoint_eq_def public_resolver_def number_of_def)

section \<open>Properties\<close>

text \<open>
  the last check before a socket is opened lets only loopback destinations of version 4 through: the connection address is in 127.0.0.0/8,
  port and path are those of the public URL, which carries no credentials, query or fragment, and whose host is \<open>localhost\<close> or
  that very address. In particular the loopback address of version 6, which \<open>ipaddress\<close> classifies as reserved, is refused.
\<close>

theorem transport_endpoints_are_loopback:
  assumes "validate_loopback_transport_endpoint u nfkc e = Inr ()"
  shows "\<exists>h n url r host port path. ve_connect_host e = PStr h \<and> ip_address h = Some (V4 n) \<and> n div 2 ^ 24 = 127
    \<and> ve_url e = PStr url \<and> urlsplit nfkc url = Some r \<and> sp_scheme r = py ''http'' \<and> \<not> has_userinfo r \<and> sp_query r = [] \<and> sp_fragment r = []
    \<and> ve_host e = PStr host \<and> url_hostname u r = Some host \<and> (ip_address host = Some (V4 n) \<or> py_lower u host = py ''localhost'')
    \<and> ve_port e = PInt (int port) \<and> 1 \<le> port \<and> port \<le> 65535 \<and> ve_path e = PStr path \<and> starts_with [47] path"
proof -
  from assms obtain h port path a where e: "ve_connect_host e = PStr h" "ve_port e = PInt port" "ve_path e = PStr path" "ip_address h = Some a"
    by (auto simp: validate_loopback_transport_endpoint_def bindE_eq_Inr split: pyval.splits option.splits)
  with assms obtain r host pport ppath where a: "is_loopback a" "\<not> is_reserved a"
    and sp: "split_endpoint u nfkc (ve_url e) = Inr (r, host, pport, ppath)" and r: "sp_scheme r = py ''http''"
    and pub: "ve_host e = PStr host" "port = int pport" "path = ppath"
    and host: "case ip_address host of None \<Rightarrow> py_lower u host = py ''localhost'' | Some b \<Rightarrow> b = a"
    by (auto simp: validate_loopback_transport_endpoint_def bindE_eq_Inr)
  from a v6_loopback_reserved obtain n where n: "a = V4 n" by (cases a) auto
  with a have "n div 2 ^ 24 = 127" by (simp add: is_loopback_def in_v4_iff)
  moreover have "ip_address host = Some (V4 n) \<or> py_lower u host = py ''localhost''" using host n by (auto split: option.splits)
  moreover obtain url where "ve_url e = PStr url" "urlsplit nfkc url = Some r" "url_hostname u r = Some host" "\<not> has_userinfo r"
      "sp_query r = []" "sp_fragment r = []" "1 \<le> pport" "pport \<le> 65535" "starts_with [47] ppath"
    by (rule split_endpoint_Inr [OF sp])
  ultimately show ?thesis using e n r pub by blast
qed

theorem transport_endpoints_are_loopback_witness:
  "validate_loopback_transport_endpoint plain_ucd id sample_endpoint = Inr () \<and> ve_connect_host sample_endpoint = PStr (py ''127.0.0.1'')
    \<and> (\<exists>n. ip_address (py ''127.0.0.1'') = Some (V4 n) \<and> n div 2 ^ 24 = 127)"
proof -
  have "validate_loopback_transport_endpoint plain_ucd id sample_endpoint = Inr ()" by (rule sample_endpoint_ok)
  from transport_endpoints_are_loopback [OF this] this show ?thesis by (auto simp: sample_endpoint_def ValidatedEndpoint_def)
qed

text \<open>
  a resolved production endpoint connects to a globally routable address only. Every answer of the resolver, not just the one that is used,
  parses as an address that is neither loopback nor private; the connection goes to the first of them, while host, port, path and scheme
  stay those of the validated HTTPS URL.
\<close>

theorem production_destinations_are_global:
  assumes "resolve_production_transport_endpoint u nfkc resolver e = Inr e'"
  shows "\<exists>checked answers. validate_production_endpoint u nfkc (ve_url e) (PBool True) = Inr checked \<and> endpoint_eq e checked
    \<and> resolver (fst (host_and_port checked)) (snd (host_and_port checked)) = Inr answers \<and> answers \<noteq> []
    \<and> (\<forall>(family, sockaddr) \<in> set answers. \<exists>a. ip_address (hd sockaddr) = Some a \<and> is_global a \<and> \<not> is_loopback a \<and> \<not> is_private a)
    \<and> (\<exists>a. ip_address (hd (snd (hd answers))) = Some a \<and> ve_connect_host e' = PStr (ip_str a))
    \<and> ve_scheme e' = PStr (py ''https'') \<and> ve_host e' = ve_host checked \<and> ve_port e' = ve_port checked \<and> ve_path e' = ve_path checked"
proof -
  from assms obtain checked answers where *: "validate_production_endpoint u nfkc (ve_url e) (PBool True) = Inr checked"
      "endpoint_eq e checked" "resolver (fst (host_and_port checked)) (snd (host_and_port checked)) = Inr answers"
    and res: "(case those (map global_address answers) of
       None \<Rightarrow> Inl epr
     | Some [] \<Rightarrow> Inl (raises DNS_OR_CONNECTION_FAILURE)
     | Some (address # _) \<Rightarrow> Inr (checked\<lparr>ve_connect_host := PStr address, ve_loopback_only := PBool False\<rparr>)) = Inr e'"
    by (auto simp: resolve_production_transport_endpoint_def bindE_eq_Inr catchE_eq_Inr)
  from res obtain address rest where those: "those (map global_address answers) = Some (address # rest)"
    and e': "e' = checked\<lparr>ve_connect_host := PStr address, ve_loopback_only := PBool False\<rparr>"
    by (auto split: option.splits list.splits)
  have each: "\<exists>a. ip_address (hd (snd x)) = Some a \<and> is_global a \<and> global_address x = Some (ip_str a)" if "x \<in> set answers" for x
  proof -
    have "global_address x \<noteq> None" by (rule those_member [OF those that])
    then show ?thesis by (auto simp: global_address_def split: prod.splits if_splits option.splits)
  qed
  from those have ne: "answers \<noteq> []" and hd: "global_address (hd answers) = Some address" by (cases answers; auto split: option.splits)+
  have "ve_scheme checked = PStr (py ''https'')"
    using *(1) by (rule validate_production_Inr) (simp add: ValidatedEndpoint_def)
  moreover have "\<forall>(family, sockaddr) \<in> set answers. \<exists>a. ip_address (hd sockaddr) = Some a \<and> is_global a \<and> \<not> is_loopback a \<and> \<not> is_private a"
    using each global_not_loopback by fastforce
  moreover have "\<exists>a. ip_address (hd (snd (hd answers))) = Some a \<and> ve_connect_host e' = PStr (ip_str a)"
    using each [of "hd answers"] ne hd e' by auto
  ultimately show ?thesis using * ne e' by auto
qed

theorem production_destinations_are_global_witness:
  "\<exists>e'. resolve_production_transport_endpoint plain_ucd id public_resolver public_endpoint = Inr e' \<and> ve_scheme e' = PStr (py ''https'')
     \<and> ve_connect_host e' = PStr (py ''8.8.8.8'') \<and> ve_host e' = PStr (py ''example.com'')"
  using production_destinations_are_global [OF public_resolved] public_resolved
  by (auto simp: public_endpoint_def ValidatedEndpoint_def)

text \<open>
  the policies compose. An endpoint that \<open>validate_fake_loopback_endpoint\<close> returns is accepted by the check of the transport, if it was resolved to an
  address of version 4 that agrees with a numeric host and its path has no delete character.
\<close>

theorem fake_endpoints_pass_the_transport:
  assumes "validate_fake_loopback_endpoint u nfkc resolver url allow = Inr e"
    and "ve_host e = PStr host" and "ve_connect_host e = PStr h" and "ip_address h = Some (V4 n)"
    and "ip_address host \<in> {None, Some (V4 n)}" and "ve_path e = PStr path" and "127 \<notin> set path"
  shows "validate_loopback_transport_endpoint u nfkc e = Inr ()"
proof -
  from assms(1) obtain r host' port path' where sp: "split_endpoint u nfkc url = Inr (r, host', port, path')"
    by (auto simp: validate_fake_loopback_endpoint_def bindE_eq_Inr)
  moreover from sp obtain raw where raw: "url = PStr raw" by (rule split_endpoint_Inr)
  ultimately obtain addresses where scheme: "lower_text (sp_scheme r) = py ''http''" and loop: "names_loopback u host'"
    and adr: "resolved_addresses resolver host' port = Inr addresses"
    and e: "e = ValidatedEndpoint raw ''http'' host' (snd (hd addresses)) port path' True"
    using assms(1) by (auto simp: validate_fake_loopback_endpoint_def bindE_eq_Inr)
  from sp obtain raw' where url: "urlsplit nfkc raw' = Some r" "\<not> has_userinfo r" "1 \<le> port" "port \<le> 65535" "starts_with [47] path'"
      "\<not> list_ex control_char path'" "bounded_utf8 path'" by (rule split_endpoint_Inr)
  have eqs: "host' = host" "snd (hd addresses) = h" "path' = path" using assms(2,3,6) e by (simp_all add: ValidatedEndpoint_def)
  have "is_loopback_address h" using adr eqs(2) by (cases addresses) (auto simp: resolved_addresses_def bindE_eq_Inr)
  then have "is_loopback (V4 n)" using assms(4) by (simp add: is_loopback_address_def)
  with v4_loopback_unreserved [OF this] have safe: "is_loopback (V4 n)" "\<not> is_unspecified (V4 n)" "\<not> is_link_local (V4 n)" "\<not> is_multicast (V4 n)"
    "\<not> is_reserved (V4 n)" by auto
  have "h \<noteq> []" using assms(4) by (auto simp: ip_address_def IPv4Address_def IPv6Address_def v6_int_def)
  moreover have "transport_path_ok path"
    using url(5-7) assms(7) eqs(3) by (auto simp: transport_path_ok_def list_ex_iff control_char_def)
  moreover have "sp_scheme r = py ''http''" using scheme urlsplit_scheme [OF url(1)] by simp
  moreover have "case ip_address host of None \<Rightarrow> py_lower u host = py ''localhost'' | Some a \<Rightarrow> a = V4 n"
    using loop eqs(1) assms(5) by (auto simp: names_loopback_def)
  ultimately show ?thesis
    using sp raw e url(2-4) assms(4) safe eqs
    by (simp add: validate_loopback_transport_endpoint_def ValidatedEndpoint_def)
qed

theorem fake_endpoints_pass_the_transport_witness:
  "validate_fake_loopback_endpoint plain_ucd id loopback_resolver (PStr (py ''http://localhost:8080/v1'')) (PBool True) = Inr sample_endpoint
     \<and> validate_loopback_transport_endpoint plain_ucd id sample_endpoint = Inr ()"
proof
  show fake: "validate_fake_loopback_endpoint plain_ucd id loopback_resolver (PStr (py ''http://localhost:8080/v1'')) (PBool True) = Inr sample_endpoint"
    by (rule sample_fake_ok)
  show "validate_loopback_transport_endpoint plain_ucd id sample_endpoint = Inr ()"
    using sample_address
    by (intro fake_endpoints_pass_the_transport [OF fake, of "py ''localhost''" "py ''127.0.0.1''" 2130706433 "py ''/v1''"])
       (simp_all add: sample_endpoint_def ValidatedEndpoint_def py_def)
qed

end
