(* ===== verification/Json_Values.thy ===== *)
theory Json_Values
  imports Agent_Limits
begin

text \<open>
  The JSON value discipline of \<open>contracts.py\<close>: \<open>_FrozenDict\<close>, \<open>_json_string_limit\<close>,
  \<open>_finite_number\<close>, \<open>_freeze_json\<close> (validate and detach), \<open>_json_value\<close> (validate only),
  \<open>_pairs_reject_duplicates\<close> and \<open>_closed_object\<close>. The lemmas show that the two validators agree on
  every input, that they accept exactly the bounded JSON values, and that a frozen value is deeply
  immutable, means the same JSON and is a fixed point of freezing.
\<close>

section \<open>Definitions\<close>

abbreviation lvf :: exn where
  "lvf \<equiv> raises LOCAL_VALIDATION_FAILURE"

text \<open>Item assignment: \<open>_FrozenDict\<close> disables every mutator by raising \<open>TypeError\<close>.\<close>

definition setitem :: "pyval \<Rightarrow> pykey \<Rightarrow> pyval \<Rightarrow> pyval outcome" where
  "setitem d k v = (case d of
      PDict Plain kvs \<Rightarrow> Inr (PDict Plain (al_set k v kvs))
    | _ \<Rightarrow> Inl TypeError)"

definition json_string_limit :: "limits \<Rightarrow> pyval option \<Rightarrow> int outcome" where
  "json_string_limit l string_bytes = (case string_bytes of
      None \<Rightarrow> Inr (max (message_bytes l) (max (tool_argument_bytes l) (tool_definition_bytes l)))
    | Some (PInt i) \<Rightarrow> if i \<le> 0 then Inl lvf else Inr i
    | Some _ \<Rightarrow> Inl lvf)"

definition finite_number :: "pyval \<Rightarrow> bool" where
  "finite_number v = (case v of PInt _ \<Rightarrow> True | PFloat f \<Rightarrow> finite_float f | _ \<Rightarrow> False)"

definition too_deep :: "limits \<Rightarrow> nat \<Rightarrow> bool" where
  "too_deep l depth \<longleftrightarrow> json_nesting_depth l < int depth"

definition check_string :: "limits \<Rightarrow> pyval option \<Rightarrow> pystr \<Rightarrow> unit outcome" where
  "check_string l sb s = (case utf8_encode s of
      None \<Rightarrow> Inl lvf
    | Some b \<Rightarrow> bindE (json_string_limit l sb) (\<lambda>m. checkE (int (length b) \<le> m) lvf))"

definition check_key :: "pykey \<Rightarrow> unit outcome" where
  "check_key k = (case k of SKey s \<Rightarrow> checkE (s \<noteq> []) lvf | OKey _ \<Rightarrow> Inl lvf)"

fun freeze_json :: "limits \<Rightarrow> pyval option \<Rightarrow> nat \<Rightarrow> pyval \<Rightarrow> pyval outcome" where
  "freeze_json l sb depth (PDict k kvs) =
     (if too_deep l depth then Inl lvf
      else if object_array_items l < int (length kvs) then Inl lvf
      else bindE (mapE (\<lambda>(key, child).
                    bindE (check_key key) (\<lambda>_.
                    bindE (freeze_json l sb (Suc depth) child) (\<lambda>c. Inr (key, c)))) kvs)
             (\<lambda>r. Inr (PDict Frozen r)))"
| "freeze_json l sb depth (PList xs) =
     (if too_deep l depth then Inl lvf
      else if object_array_items l < int (length xs) then Inl lvf
      else bindE (mapE (freeze_json l sb (Suc depth)) xs) (\<lambda>r. Inr (PTuple r)))"
| "freeze_json l sb depth (PTuple xs) =
     (if too_deep l depth then Inl lvf
      else if object_array_items l < int (length xs) then Inl lvf
      else bindE (mapE (freeze_json l sb (Suc depth)) xs) (\<lambda>r. Inr (PTuple r)))"
| "freeze_json l sb depth (PStr s) =
     (if too_deep l depth then Inl lvf else bindE (check_string l sb s) (\<lambda>_. Inr (PStr s)))"
| "freeze_json l sb depth (PFloat f) =
     (if too_deep l depth then Inl lvf else if finite_float f then Inr (PFloat f) else Inl lvf)"
| "freeze_json l sb depth (PBytes b) = Inl lvf"
| "freeze_json l sb depth (PObj n) = Inl lvf"
| "freeze_json l sb depth v = (if too_deep l depth then Inl lvf else Inr v)"

fun json_value :: "limits \<Rightarrow> pyval option \<Rightarrow> nat \<Rightarrow> pyval \<Rightarrow> unit outcome" where
  "json_value l sb depth (PDict k kvs) =
     (if too_deep l depth then Inl lvf
      else if object_array_items l < int (length kvs) then Inl lvf
      else iterE (\<lambda>(key, child).
             bindE (check_key key) (\<lambda>_. json_value l sb (Suc depth) child)) kvs)"
| "json_value l sb depth (PList xs) =
     (if too_deep l depth then Inl lvf
      else if object_array_items l < int (length xs) then Inl lvf
      else iterE (json_value l sb (Suc depth)) xs)"
| "json_value l sb depth (PTuple xs) =
     (if too_deep l depth then Inl lvf
      else if object_array_items l < int (length xs) then Inl lvf
      else iterE (json_value l sb (Suc depth)) xs)"
| "json_value l sb depth (PStr s) = (if too_deep l depth then Inl lvf else check_string l sb s)"
| "json_value l sb depth (PFloat f) =
     (if too_deep l depth then Inl lvf else checkE (finite_float f) lvf)"
| "json_value l sb depth (PBytes b) = Inl lvf"
| "json_value l sb depth (PObj n) = Inl lvf"
| "json_value l sb depth v = (if too_deep l depth then Inl lvf else Inr ())"

text \<open>The hook \<open>json.loads\<close> applies to the item list of each object, first to last.\<close>

fun pairs_from :: "items \<Rightarrow> (pystr \<times> pyval) list \<Rightarrow> items outcome" where
  "pairs_from acc [] = Inr acc"
| "pairs_from acc ((k, v) # kvs) =
     (if SKey k \<in> fst ` set acc then Inl (raises DUPLICATE_KEY_JSON)
      else pairs_from (acc @ [(SKey k, v)]) kvs)"

definition pairs_reject_duplicates :: "(pystr \<times> pyval) list \<Rightarrow> pyval outcome" where
  "pairs_reject_duplicates kvs = bindE (pairs_from [] kvs) (\<lambda>r. Inr (PDict Plain r))"

definition closed_object :: "pyval \<Rightarrow> string list \<Rightarrow> string list \<Rightarrow> items outcome" where
  "closed_object v allowed required =
     bindE (checkE (is_dict v) lvf) (\<lambda>_.
     bindE (checkE (keyset_within (items_of v) allowed) lvf) (\<lambda>_.
     bindE (checkE (has_all (items_of v) required) lvf) (\<lambda>_. Inr (items_of v))))"

section \<open>Specification\<close>

text \<open>
  A bounded JSON value: containers nested at most \<open>d\<close> deep, at most \<open>n\<close> entries each, non-empty
  string keys, finite numbers, and strings that encode to at most \<open>m\<close> bytes of UTF-8.
\<close>

definition bounded_text :: "int \<Rightarrow> pystr \<Rightarrow> bool" where
  "bounded_text m s \<longleftrightarrow> \<not> list_ex surrogate s \<and> int (length (utf8_bytes s)) \<le> m"

fun bounded_json :: "int \<Rightarrow> int \<Rightarrow> int \<Rightarrow> pyval \<Rightarrow> bool" where
  "bounded_json d n m (PDict k kvs) \<longleftrightarrow> 0 \<le> d \<and> int (length kvs) \<le> n
     \<and> (\<forall>(key, v) \<in> set kvs. (\<exists>s. key = SKey s \<and> s \<noteq> []) \<and> bounded_json (d - 1) n m v)"
| "bounded_json d n m (PList xs) \<longleftrightarrow> 0 \<le> d \<and> int (length xs) \<le> n \<and> (\<forall>x \<in> set xs. bounded_json (d - 1) n m x)"
| "bounded_json d n m (PTuple xs) \<longleftrightarrow> 0 \<le> d \<and> int (length xs) \<le> n \<and> (\<forall>x \<in> set xs. bounded_json (d - 1) n m x)"
| "bounded_json d n m (PStr s) \<longleftrightarrow> 0 \<le> d \<and> bounded_text m s"
| "bounded_json d n m (PFloat f) \<longleftrightarrow> 0 \<le> d \<and> finite_float f"
| "bounded_json d n m (PBytes b) \<longleftrightarrow> False"
| "bounded_json d n m (PObj i) \<longleftrightarrow> False"
| "bounded_json d n m v \<longleftrightarrow> 0 \<le> d"

text \<open>A value no caller can mutate: every container is a tuple or a \<open>_FrozenDict\<close>.\<close>

fun deep_frozen :: "pyval \<Rightarrow> bool" where
  "deep_frozen (PDict k kvs) \<longleftrightarrow> k = Frozen \<and> (\<forall>(key, v) \<in> set kvs. deep_frozen v)"
| "deep_frozen (PTuple xs) \<longleftrightarrow> (\<forall>x \<in> set xs. deep_frozen x)"
| "deep_frozen (PList xs) \<longleftrightarrow> False"
| "deep_frozen v \<longleftrightarrow> True"

text \<open>The JSON meaning of a value, its container classes forgotten.\<close>

fun thaw :: "pyval \<Rightarrow> pyval" where
  "thaw (PDict k kvs) = PDict Plain (map (\<lambda>(key, v). (key, thaw v)) kvs)"
| "thaw (PList xs) = PList (map thaw xs)"
| "thaw (PTuple xs) = PList (map thaw xs)"
| "thaw v = v"

section \<open>Lemmas\<close>

lemma check_string_Inr: "check_string l sb s = Inr u \<longleftrightarrow>
    (\<exists>m. json_string_limit l sb = Inr m \<and> bounded_text m s)"
  by (auto simp: check_string_def utf8_encode_def bounded_text_def bindE_eq_Inr)

lemma check_key_Inr [simp]: "check_key k = Inr u \<longleftrightarrow> (\<exists>s. k = SKey s \<and> s \<noteq> [])"
  by (auto simp: check_key_def split: pykey.splits)

lemma json_value_freeze: "json_value l sb d v = bindE (freeze_json l sb d v) (\<lambda>_. Inr ())"
proof (induction l sb d v rule: freeze_json.induct)
  case (1 l sb depth k kvs)
  have "iterE (\<lambda>(key, child). bindE (check_key key) (\<lambda>_. json_value l sb (Suc depth) child)) xs =
      bindE (mapE (\<lambda>(key, child). bindE (check_key key) (\<lambda>_.
               bindE (freeze_json l sb (Suc depth) child) (\<lambda>c. Inr (key, c)))) xs) (\<lambda>_. Inr ())"
    if "set xs \<subseteq> set kvs" "\<not> too_deep l depth" "\<not> object_array_items l < int (length kvs)" for xs
    using that
  proof (induction xs)
    case (Cons x xs)
    obtain key child where x: "x = (key, child)" by fastforce
    with Cons.prems have "(key, child) \<in> set kvs" by auto
    from 1 [OF Cons.prems(2,3) this refl] have IH: "\<And>u. check_key key = Inr u \<Longrightarrow>
       json_value l sb (Suc depth) child = bindE (freeze_json l sb (Suc depth) child) (\<lambda>_. Inr ())"
      by blast
    show ?case
      using Cons x IH by (cases "check_key key") (auto simp: bindE_assoc)
  qed simp
  then show ?case by (simp add: bindE_assoc)
next
  case (2 l sb depth xs)
  have "iterE (json_value l sb (Suc depth)) ys = bindE (mapE (freeze_json l sb (Suc depth)) ys) (\<lambda>_. Inr ())"
    if "set ys \<subseteq> set xs" "\<not> too_deep l depth" "\<not> object_array_items l < int (length xs)" for ys
    using that 2 by (induction ys) (auto simp: bindE_assoc)
  then show ?case by (simp add: bindE_assoc)
next
  case (3 l sb depth xs)
  have "iterE (json_value l sb (Suc depth)) ys = bindE (mapE (freeze_json l sb (Suc depth)) ys) (\<lambda>_. Inr ())"
    if "set ys \<subseteq> set xs" "\<not> too_deep l depth" "\<not> object_array_items l < int (length xs)" for ys
    using that 3 by (induction ys) (auto simp: bindE_assoc)
  then show ?case by (simp add: bindE_assoc)
next
  case (4 l sb depth s)
  then show ?case by (cases "check_string l sb s") auto
qed auto

lemma freeze_accepts_iff:
  assumes "json_string_limit l sb = Inr m"
  shows "(\<exists>r. freeze_json l sb d v = Inr r) \<longleftrightarrow>
    bounded_json (json_nesting_depth l - int d) (object_array_items l) m v"
  using assms
proof (induction l sb d v rule: freeze_json.induct)
  case (1 l sb depth k kvs)
  have "(\<exists>r. mapE (\<lambda>(key, child). bindE (check_key key) (\<lambda>_.
           bindE (freeze_json l sb (Suc depth) child) (\<lambda>c. Inr (key, c)))) kvs = Inr r) \<longleftrightarrow>
     (\<forall>(key, v) \<in> set kvs. (\<exists>s. key = SKey s \<and> s \<noteq> []) \<and>
        bounded_json (json_nesting_depth l - int depth - 1) (object_array_items l) m v)"
    if "\<not> too_deep l depth" "\<not> object_array_items l < int (length kvs)"
    unfolding mapE_Inr_exists
  proof (rule ball_cong [OF refl], clarify)
    fix key child assume mem: "(key, child) \<in> set kvs"
    from 1(1) [OF that mem refl _ 1(2)] have
      "check_key key = Inr () \<Longrightarrow> (\<exists>r. freeze_json l sb (Suc depth) child = Inr r) \<longleftrightarrow>
         bounded_json (json_nesting_depth l - int depth - 1) (object_array_items l) m child"
      by (simp add: algebra_simps)
    then show "(\<exists>y. bindE (check_key key) (\<lambda>_. bindE (freeze_json l sb (Suc depth) child)
             (\<lambda>c. Inr (key, c))) = Inr y) \<longleftrightarrow>
       (\<exists>s. key = SKey s \<and> s \<noteq> []) \<and>
       bounded_json (json_nesting_depth l - int depth - 1) (object_array_items l) m child"
      by (auto simp: bindE_eq_Inr)
  qed
  then show ?case by (auto simp: too_deep_def bindE_eq_Inr)
qed (auto simp: too_deep_def bindE_eq_Inr mapE_Inr_exists check_string_Inr algebra_simps)

text \<open>Inversion of a successful freeze of a container, as a relation between the entries.\<close>

definition frozen_item :: "limits \<Rightarrow> pyval option \<Rightarrow> nat \<Rightarrow> pykey \<times> pyval \<Rightarrow> pykey \<times> pyval \<Rightarrow> bool" where
  "frozen_item l sb d x y \<longleftrightarrow> fst y = fst x \<and> (\<exists>s. fst x = SKey s \<and> s \<noteq> [])
     \<and> freeze_json l sb d (snd x) = Inr (snd y)"

lemma freeze_dict_Inr:
  "freeze_json l sb d (PDict k kvs) = Inr r \<longleftrightarrow>
     \<not> too_deep l d \<and> \<not> object_array_items l < int (length kvs)
     \<and> (\<exists>kvs'. r = PDict Frozen kvs' \<and> list_all2 (frozen_item l sb (Suc d)) kvs kvs')"
proof -
  have "(\<lambda>x y. (\<lambda>(key, child). bindE (check_key key) (\<lambda>_.
           bindE (freeze_json l sb (Suc d) child) (\<lambda>c. Inr (key, c)))) x = Inr y)
      = frozen_item l sb (Suc d)"
    by (rule ext, rule ext) (auto simp: frozen_item_def bindE_eq_Inr split: prod.splits)
  then show ?thesis by (auto simp: bindE_eq_Inr mapE_eq_Inr_list_all2)
qed

lemma freeze_seq_Inr:
  "freeze_json l sb d (PList xs) = Inr r \<longleftrightarrow> freeze_json l sb d (PTuple xs) = Inr r"
  "freeze_json l sb d (PTuple xs) = Inr r \<longleftrightarrow>
     \<not> too_deep l d \<and> \<not> object_array_items l < int (length xs)
     \<and> (\<exists>ys. r = PTuple ys \<and> list_all2 (\<lambda>x y. freeze_json l sb (Suc d) x = Inr y) xs ys)"
  by (auto simp: bindE_eq_Inr mapE_eq_Inr_list_all2)

lemma freeze_leaf_Inr:
  "freeze_json l sb d (PStr s) = Inr r \<longleftrightarrow> \<not> too_deep l d \<and> check_string l sb s = Inr () \<and> r = PStr s"
  "freeze_json l sb d (PFloat f) = Inr r \<longleftrightarrow> \<not> too_deep l d \<and> finite_float f \<and> r = PFloat f"
  by (auto simp: bindE_eq_Inr)

lemmas freeze_Inr = freeze_dict_Inr freeze_seq_Inr freeze_leaf_Inr

lemma snds_item: "x \<in> set kvs \<Longrightarrow> (\<And>y z. y \<in> set kvs \<Longrightarrow> z \<in> Basic_BNFs.snds y \<Longrightarrow> P z) \<Longrightarrow> P (snd x)"
  by (auto simp: snds.simps)

lemma freeze_deep_frozen: "freeze_json l sb d v = Inr r \<Longrightarrow> deep_frozen r"
proof (induction v arbitrary: d r)
  case (PDict k kvs)
  then obtain kvs' where r: "r = PDict Frozen kvs'" and rel: "list_all2 (frozen_item l sb (Suc d)) kvs kvs'"
    by (auto simp: freeze_dict_Inr simp del: freeze_json.simps)
  have "deep_frozen (snd y)" if "y \<in> set kvs'" for y
    using list_all2_set2 [OF rel that] PDict.IH by (auto simp: frozen_item_def snds.simps)
  with r show ?case by force
next
  case (PList xs)
  then show ?case by (fastforce simp: freeze_seq_Inr simp del: freeze_json.simps dest: list_all2_set2)
next
  case (PTuple xs)
  then show ?case by (fastforce simp: freeze_seq_Inr simp del: freeze_json.simps dest: list_all2_set2)
qed (auto simp: bindE_eq_Inr split: if_splits)

lemma freeze_thaw: "freeze_json l sb d v = Inr r \<Longrightarrow> thaw r = thaw v"
proof (induction v arbitrary: d r)
  case (PDict k kvs)
  then obtain kvs' where "r = PDict Frozen kvs'" and "list_all2 (frozen_item l sb (Suc d)) kvs kvs'"
    by (auto simp: freeze_dict_Inr simp del: freeze_json.simps)
  moreover from this(2) have
    "map (\<lambda>(key, v). (key, thaw v)) kvs = map (\<lambda>(key, v). (key, thaw v)) kvs'"
    by (rule list_all2_map_eq) (use PDict.IH in \<open>fastforce simp: frozen_item_def snds.simps\<close>)
  ultimately show ?case by simp
next
  case (PList xs)
  then obtain ys where "r = PTuple ys" and "list_all2 (\<lambda>x y. freeze_json l sb (Suc d) x = Inr y) xs ys"
    by (auto simp: freeze_seq_Inr simp del: freeze_json.simps)
  moreover from this(2) have "map thaw xs = map thaw ys"
    by (rule list_all2_map_eq) (use PList.IH in fastforce)
  ultimately show ?case by simp
next
  case (PTuple xs)
  then obtain ys where "r = PTuple ys" and "list_all2 (\<lambda>x y. freeze_json l sb (Suc d) x = Inr y) xs ys"
    by (auto simp: freeze_seq_Inr simp del: freeze_json.simps)
  moreover from this(2) have "map thaw xs = map thaw ys"
    by (rule list_all2_map_eq) (use PTuple.IH in fastforce)
  ultimately show ?case by simp
qed (auto simp: bindE_eq_Inr split: if_splits)

lemma freeze_idem: "freeze_json l sb d v = Inr r \<Longrightarrow> freeze_json l sb d r = Inr r"
proof (induction v arbitrary: d r)
  case (PDict k kvs)
  then obtain kvs' where r: "r = PDict Frozen kvs'" and rel: "list_all2 (frozen_item l sb (Suc d)) kvs kvs'"
    and ok: "\<not> too_deep l d" "\<not> object_array_items l < int (length kvs)"
    by (auto simp: freeze_dict_Inr simp del: freeze_json.simps)
  from rel have "list_all2 (frozen_item l sb (Suc d)) kvs' kvs'"
    by (rule list_all2_same2) (use PDict.IH in \<open>fastforce simp: frozen_item_def snds.simps\<close>)
  moreover have "length kvs' = length kvs" using list_all2_lengthD [OF rel] by simp
  ultimately show ?case using r ok by (simp add: freeze_dict_Inr del: freeze_json.simps)
next
  case (PList xs)
  then obtain ys where r: "r = PTuple ys" and rel: "list_all2 (\<lambda>x y. freeze_json l sb (Suc d) x = Inr y) xs ys"
    and ok: "\<not> too_deep l d" "\<not> object_array_items l < int (length xs)"
    by (auto simp: freeze_seq_Inr simp del: freeze_json.simps)
  from rel have "list_all2 (\<lambda>x y. freeze_json l sb (Suc d) x = Inr y) ys ys"
    by (rule list_all2_same2) (use PList.IH in fastforce)
  moreover have "length ys = length xs" using list_all2_lengthD [OF rel] by simp
  ultimately show ?case using r ok by (simp add: freeze_seq_Inr del: freeze_json.simps)
next
  case (PTuple xs)
  then obtain ys where r: "r = PTuple ys" and rel: "list_all2 (\<lambda>x y. freeze_json l sb (Suc d) x = Inr y) xs ys"
    and ok: "\<not> too_deep l d" "\<not> object_array_items l < int (length xs)"
    by (auto simp: freeze_seq_Inr simp del: freeze_json.simps)
  from rel have "list_all2 (\<lambda>x y. freeze_json l sb (Suc d) x = Inr y) ys ys"
    by (rule list_all2_same2) (use PTuple.IH in fastforce)
  moreover have "length ys = length xs" using list_all2_lengthD [OF rel] by simp
  ultimately show ?case using r ok by (simp add: freeze_seq_Inr del: freeze_json.simps)
qed (auto simp: bindE_eq_Inr split: if_splits)

lemma pairs_from_eq:
  "distinct (map fst acc) \<Longrightarrow> pairs_from acc kvs =
     (if distinct (map fst acc @ map (\<lambda>(k, v). SKey k) kvs)
      then Inr (acc @ map (\<lambda>(k, v). (SKey k, v)) kvs) else Inl (raises DUPLICATE_KEY_JSON))"
proof (induction acc kvs rule: pairs_from.induct)
  case (2 acc k v kvs)
  then show ?case by (auto simp: image_iff)
qed simp

lemma SKey_inj: "inj_on SKey A"
  by (simp add: inj_on_def)

lemma pairs_reject_duplicates_eq:
  "pairs_reject_duplicates kvs =
     (if distinct (map fst kvs) then Inr (PDict Plain (map (\<lambda>(k, v). (SKey k, v)) kvs))
      else Inl (raises DUPLICATE_KEY_JSON))"
proof -
  have "map (\<lambda>(k, v). SKey k) kvs = map SKey (map fst kvs)" by (induction kvs) auto
  then have "distinct (map (\<lambda>(k, v). SKey k) kvs) = distinct (map fst kvs)"
    by (simp only: distinct_map SKey_inj simp_thms)
  then show ?thesis by (simp add: pairs_reject_duplicates_def pairs_from_eq)
qed

lemma closed_object_Inr:
  "closed_object v allowed required = Inr kvs \<longleftrightarrow>
     is_dict v \<and> kvs = items_of v \<and> keyset_within kvs allowed \<and> has_all kvs required"
  by (auto simp: closed_object_def bindE_eq_Inr)

lemma closed_object_Inl: "closed_object v allowed required = Inl e \<Longrightarrow> e = lvf"
  by (auto simp: closed_object_def bindE_eq_Inl)

lemma freeze_Inl: "freeze_json l sb d v = Inl e \<Longrightarrow> e = lvf"
proof -
  have lim: "json_string_limit l sb = Inl e \<Longrightarrow> e = lvf" for e
    by (auto simp: json_string_limit_def split: option.splits pyval.splits if_splits)
  have key: "check_key k = Inl e \<Longrightarrow> e = lvf" for k e
    by (auto simp: check_key_def split: pykey.splits)
  show "freeze_json l sb d v = Inl e \<Longrightarrow> e = lvf"
  proof (induction v arbitrary: d)
    case (PDict k kvs)
    then show ?case
      by (fastforce simp: bindE_eq_Inl snds.simps split: if_splits dest!: mapE_Inl_member key)
  next
    case (PStr s)
    then show ?case
      by (auto simp: bindE_eq_Inl check_string_def split: if_splits option.splits dest: lim)
  qed (auto simp: bindE_eq_Inl split: if_splits dest!: mapE_Inl_member)
qed

section \<open>Properties\<close>

text \<open>
  \<open>_json_value\<close> and \<open>_freeze_json\<close> are two implementations of one check: on every value, depth
  and bound they both succeed or both raise the same exception.
\<close>

theorem json_value_agrees_with_freeze:
  "json_value l sb depth v = bindE (freeze_json l sb depth v) (\<lambda>_. Inr ())"
  by (rule json_value_freeze)

text \<open>
  C38: \<open>_freeze_json\<close> accepts exactly the bounded JSON values, those whose nesting, container widths
  and UTF-8 string sizes are within the limits and whose keys and numbers are legal; every other
  value is refused with a local validation failure.
\<close>

theorem freeze_accepts_exactly_bounded_json:
  "(\<exists>r. freeze_json l None 0 v = Inr r) = bounded_json (json_nesting_depth l) (object_array_items l)
      (max (message_bytes l) (max (tool_argument_bytes l) (tool_definition_bytes l))) v
   \<and> freeze_json l None 0 v \<in> insert (Inl lvf) (range Inr)"
  using freeze_accepts_iff [of l None _ 0 v] freeze_Inl [of l None 0 v]
  by (cases "freeze_json l None 0 v") (auto simp: json_string_limit_def)

text \<open>
  what \<open>_freeze_json\<close> returns is detached and immutable (every container is a tuple or a
  \<open>_FrozenDict\<close>, whose item assignment raises \<open>TypeError\<close>), stands for the same JSON as the
  argument, and freezing it again returns it unchanged.
\<close>

theorem frozen_value_is_detached_and_equal:
  assumes "freeze_json l sb depth v = Inr r"
  shows "deep_frozen r \<and> thaw r = thaw v \<and> freeze_json l sb depth r = Inr r
    \<and> setitem r k x = Inl TypeError"
  using freeze_deep_frozen [OF assms] freeze_thaw [OF assms] freeze_idem [OF assms]
  by (auto simp: setitem_def split: pyval.splits)

theorem frozen_value_is_detached_and_equal_witness:
  "deep_frozen (PDict Frozen [(SKey (py ''a''), PTuple [PInt 1, PStr (py ''x'')])])"
proof -
  have "freeze_json DEFAULT_LIMITS None 0 (PDict Plain [(SKey (py ''a''), PList [PInt 1, PStr (py ''x'')])])
      = Inr (PDict Frozen [(SKey (py ''a''), PTuple [PInt 1, PStr (py ''x'')])])"
    by (simp add: too_deep_def check_key_def check_string_def json_string_limit_def py_def)
  from frozen_value_is_detached_and_equal [OF this] show ?thesis by blast
qed

text \<open>
  the hook that \<open>json.loads\<close> calls for each object builds the dict of all pairs in order when the
  keys are distinct, and raises the duplicate-key failure as soon as one repeats.
\<close>

theorem pairs_reject_duplicates_exact:
  "pairs_reject_duplicates kvs =
     (if distinct (map fst kvs) then Inr (PDict Plain (map (\<lambda>(k, v). (SKey k, v)) kvs))
      else Inl (raises DUPLICATE_KEY_JSON))"
  by (rule pairs_reject_duplicates_eq)

end
