(* ===== verification/Json_Text.thy ===== *)
theory Json_Text
  imports Json_Values Py_Float
begin

text \<open>
  JSON text as the agent writes and reads it: \<open>json.dumps\<close> with \<open>ensure_ascii\<close>, \<open>sort_keys\<close> and
  compact separators (the agent's canonical encoding), \<open>json.loads\<close> with the agent's two hooks, and
  \<open>parse_closed_json\<close> of \<open>contracts.py\<close> on top of it. The scanner's argument \<open>rd\<close> is the number of
  nested containers the interpreter's recursion limit leaves room for. The main result is that
  reading the canonical encoding of a value returns the value, its keys sorted.
\<close>

section \<open>Writing\<close>

definition hex4 :: "nat \<Rightarrow> pystr" where
  "hex4 n = [hex_digit (n div 4096 mod 16), hex_digit (n div 256 mod 16), hex_digit (n div 16 mod 16),
     hex_digit (n mod 16)]"

definition escape_u :: "nat \<Rightarrow> pystr" where
  "escape_u n = 92 # 117 # hex4 n"

definition escape_char :: "nat \<Rightarrow> pystr" where
  "escape_char c =
     (if c = 34 then [92, 34] else if c = 92 then [92, 92] else if c = 10 then [92, 110]
      else if c = 13 then [92, 114] else if c = 9 then [92, 116] else if c = 12 then [92, 102]
      else if c = 8 then [92, 98] else if 32 \<le> c \<and> c \<le> 126 then [c]
      else if c < 65536 then escape_u c
      else escape_u (55296 + (c - 65536) div 1024) @ escape_u (56320 + (c - 65536) mod 1024))"

definition dumps_str :: "pystr \<Rightarrow> pystr" where
  "dumps_str s = [34] @ concat (map escape_char s) @ [34]"

definition MAX_STR_DIGITS :: nat where
  "MAX_STR_DIGITS = 4300"

definition dumps_int :: "int \<Rightarrow> pystr outcome" where
  "dumps_int i = (if MAX_STR_DIGITS < length (dec (nat \<bar>i\<bar>)) then Inl ValueError else Inr (dec_int i))"

definition dumps_float :: "pyfloat \<Rightarrow> pystr" where
  "dumps_float f = (case f of
      FPosInf \<Rightarrow> py ''Infinity'' | FNegInf \<Rightarrow> py ''-Infinity'' | FNaN \<Rightarrow> py ''NaN'' | _ \<Rightarrow> float_repr f)"

definition key_text :: "pykey \<Rightarrow> pystr outcome" where
  "key_text k = (case k of SKey s \<Rightarrow> Inr s | OKey _ \<Rightarrow> Inl TypeError)"

fun join :: "pystr list \<Rightarrow> pystr" where
  "join [] = []"
| "join [x] = x"
| "join (x # xs) = x @ 44 # join xs"

fun dumps :: "pyval \<Rightarrow> pystr outcome" where
  "dumps PNone = Inr (py ''null'')"
| "dumps (PBool b) = Inr (if b then py ''true'' else py ''false'')"
| "dumps (PInt i) = dumps_int i"
| "dumps (PFloat f) = Inr (dumps_float f)"
| "dumps (PStr s) = Inr (dumps_str s)"
| "dumps (PList xs) = bindE (mapE dumps xs) (\<lambda>ts. Inr ([91] @ join ts @ [93]))"
| "dumps (PTuple xs) = bindE (mapE dumps xs) (\<lambda>ts. Inr ([91] @ join ts @ [93]))"
| "dumps (PDict k kvs) =
     (if k = OtherMapping then Inl TypeError
      else bindE (mapE (\<lambda>(key, v). bindE (key_text key) (\<lambda>t.
                          bindE (dumps v) (\<lambda>d. Inr (t, d)))) kvs)
             (\<lambda>ts. Inr ([123] @ join (map (\<lambda>(t, d). dumps_str t @ 58 # d) (sort_key fst ts)) @ [125])))"
| "dumps (PBytes b) = Inl TypeError"
| "dumps (PObj n) = Inl TypeError"

section \<open>Reading\<close>

definition json_space :: "nat \<Rightarrow> bool" where
  "json_space c \<longleftrightarrow> c = 32 \<or> c = 9 \<or> c = 10 \<or> c = 13"

definition skip_ws :: "pystr \<Rightarrow> pystr" where
  "skip_ws s = dropWhile json_space s"

definition hex_value :: "nat \<Rightarrow> nat option" where
  "hex_value c = (if ascii_digit c then Some (c - 48) else if 97 \<le> c \<and> c \<le> 102 then Some (c - 87)
     else if 65 \<le> c \<and> c \<le> 70 then Some (c - 55) else None)"

fun read_hex4 :: "pystr \<Rightarrow> (nat \<times> pystr) option" where
  "read_hex4 (a # b # c # d # s) =
     (case (hex_value a, hex_value b, hex_value c, hex_value d) of
        (Some w, Some x, Some y, Some z) \<Rightarrow> Some (4096 * w + 256 * x + 16 * y + z, s)
      | _ \<Rightarrow> None)"
| "read_hex4 _ = None"

definition high_surrogate :: "nat \<Rightarrow> bool" where
  "high_surrogate c \<longleftrightarrow> 55296 \<le> c \<and> c \<le> 56319"

definition low_surrogate :: "nat \<Rightarrow> bool" where
  "low_surrogate c \<longleftrightarrow> 56320 \<le> c \<and> c \<le> 57343"

text \<open>The code point of an escape after its \<open>\u\<close>, joining a surrogate pair.\<close>

definition read_unicode :: "pystr \<Rightarrow> (nat \<times> pystr) option" where
  "read_unicode s = (case read_hex4 s of
      None \<Rightarrow> None
    | Some (c, r) \<Rightarrow>
        if high_surrogate c \<and> starts_with [92, 117] r then
          (case read_hex4 (drop 2 r) of
             None \<Rightarrow> None
           | Some (c2, r2) \<Rightarrow>
               if low_surrogate c2 then Some (65536 + (c - 55296) * 1024 + (c2 - 56320), r2)
               else Some (c, r))
        else Some (c, r))"

definition simple_escape :: "nat \<Rightarrow> nat option" where
  "simple_escape c = map_of [(34, 34), (92, 92), (47, 47), (98, 8), (102, 12), (110, 10), (114, 13), (116, 9)] c"

definition read_char :: "pystr \<Rightarrow> (nat \<times> pystr) option" where
  "read_char s = (case s of
      [] \<Rightarrow> None
    | c # r \<Rightarrow>
        if c < 32 then None
        else if c \<noteq> 92 then Some (c, r)
        else (case r of
            [] \<Rightarrow> None
          | e # r' \<Rightarrow> if e = 117 then read_unicode r' else map_option (\<lambda>x. (x, r')) (simple_escape e)))"

text \<open>\<open>scanstring\<close>: the text after the opening quotation mark.\<close>

function scan_str :: "pystr \<Rightarrow> (pystr \<times> pystr) outcome" where
  "scan_str s = (case s of
      [] \<Rightarrow> Inl ValueError
    | c # r \<Rightarrow>
        if c = 34 then Inr ([], r)
        else (case read_char s of
            None \<Rightarrow> Inl ValueError
          | Some (x, r') \<Rightarrow> bindE (scan_str r') (\<lambda>(t, q). Inr (x # t, q))))"
  by pat_completeness auto

lemma read_hex4_shorter: "read_hex4 s = Some (c, r) \<Longrightarrow> length s = length r + 4"
  by (induction s rule: read_hex4.induct) (auto split: option.splits)

lemma read_unicode_shorter: "read_unicode s = Some (c, r) \<Longrightarrow> length r < length s"
  by (auto simp: read_unicode_def split: option.splits if_splits prod.splits dest!: read_hex4_shorter)

lemma read_char_shorter: "read_char s = Some (c, r) \<Longrightarrow> length r < length s"
  by (force simp: read_char_def split: list.splits if_splits dest: read_unicode_shorter)

termination scan_str
  by (relation "measure length") (auto dest: read_char_shorter)

declare scan_str.simps [simp del]

definition digits_of :: "pystr \<Rightarrow> pystr" where
  "digits_of s = takeWhile ascii_digit s"

definition after_digits :: "pystr \<Rightarrow> pystr" where
  "after_digits s = dropWhile ascii_digit s"

text \<open>The optional fraction and exponent of a number.\<close>

definition read_fraction :: "pystr \<Rightarrow> pystr option \<times> pystr" where
  "read_fraction s = (case s of
      c # r \<Rightarrow> if c = 46 \<and> digits_of r \<noteq> [] then (Some (digits_of r), after_digits r) else (None, s)
    | [] \<Rightarrow> (None, s))"

definition read_exponent :: "pystr \<Rightarrow> int option \<times> pystr" where
  "read_exponent s = (case s of
      c # r \<Rightarrow>
        if c = 101 \<or> c = 69 then
          (let neg = starts_with [45] r; r' = (if neg \<or> starts_with [43] r then tl r else r)
           in if digits_of r' = [] then (None, s)
              else (Some ((if neg then -1 else 1) * int (undec (digits_of r'))), after_digits r'))
        else (None, s)
    | [] \<Rightarrow> (None, s))"

definition read_int_part :: "pystr \<Rightarrow> (pystr \<times> pystr) outcome" where
  "read_int_part s = (case s of
      [] \<Rightarrow> Inl ValueError
    | c # r \<Rightarrow>
        if c = 48 then Inr ([48], r)
        else if ascii_digit c then Inr (digits_of s, after_digits s)
        else Inl ValueError)"

definition read_unsigned :: "bool \<Rightarrow> pystr \<Rightarrow> (pyval \<times> pystr) outcome" where
  "read_unsigned neg s = bindE (read_int_part s) (\<lambda>(ip, r).
     case read_fraction r of (fp, r1) \<Rightarrow>
     case read_exponent r1 of (ex, r2) \<Rightarrow>
       if fp = None \<and> ex = None then
         (if MAX_STR_DIGITS < length ip then Inl ValueError
          else Inr (PInt (if neg then - int (undec ip) else int (undec ip)), r))
       else
         (let f = (case fp of None \<Rightarrow> [] | Some t \<Rightarrow> t); e = (case ex of None \<Rightarrow> 0 | Some k \<Rightarrow> k);
              x = rat_of_nat (undec (ip @ f)) * pow10 (e - int (length f))
          in Inr (PFloat (if neg then (if x = 0 then FNegZero else double_of_rat (- x)) else double_of_rat x), r2)))"

definition read_number :: "pystr \<Rightarrow> (pyval \<times> pystr) outcome" where
  "read_number s =
     (if starts_with (py ''-Infinity'') s then Inl ValueError
      else if starts_with [45] s then read_unsigned True (tl s)
      else read_unsigned False s)"

text \<open>
  The loops over the elements of an array and the members of an object, over the scanner \<open>f\<close> of one
  value. The length test ends the recursion for every \<open>f\<close>; the scanner always consumes text, so
  the test never fails in \<open>scan_once\<close>.
\<close>

function scan_elems :: "(pystr \<Rightarrow> (pyval \<times> pystr) outcome) \<Rightarrow> pystr \<Rightarrow> (pyval list \<times> pystr) outcome" where
  "scan_elems f s = bindE (f s) (\<lambda>(v, r).
     case skip_ws r of
       [] \<Rightarrow> Inl ValueError
     | c # t \<Rightarrow>
         if c = 93 then Inr ([v], t)
         else if c = 44 then
           (if length (skip_ws t) < length s
            then bindE (scan_elems f (skip_ws t)) (\<lambda>(vs, q). Inr (v # vs, q))
            else Inl AssertionError)
         else Inl ValueError)"
  by pat_completeness auto
termination
  by (relation "measure (\<lambda>(f, s). length s)") auto

definition scan_member :: "(pystr \<Rightarrow> (pyval \<times> pystr) outcome) \<Rightarrow> pystr \<Rightarrow> ((pystr \<times> pyval) \<times> pystr) outcome" where
  "scan_member f s =
     (if starts_with [34] s then
        bindE (scan_str (tl s)) (\<lambda>(k, t).
          if starts_with [58] (skip_ws t) then
            bindE (f (skip_ws (tl (skip_ws t)))) (\<lambda>(v, u). Inr ((k, v), u))
          else Inl ValueError)
      else Inl ValueError)"

function scan_members :: "(pystr \<Rightarrow> (pyval \<times> pystr) outcome) \<Rightarrow> pystr \<Rightarrow> ((pystr \<times> pyval) list \<times> pystr) outcome" where
  "scan_members f s = bindE (scan_member f s) (\<lambda>(m, r).
     case skip_ws r of
       [] \<Rightarrow> Inl ValueError
     | c # t \<Rightarrow>
         if c = 125 then Inr ([m], t)
         else if c = 44 then
           (if length (skip_ws t) < length s
            then bindE (scan_members f (skip_ws t)) (\<lambda>(ms, q). Inr (m # ms, q))
            else Inl AssertionError)
         else Inl ValueError)"
  by pat_completeness auto
termination
  by (relation "measure (\<lambda>(f, s). length s)") auto

declare scan_elems.simps [simp del] scan_members.simps [simp del]

definition scan_word :: "string \<Rightarrow> pyval \<Rightarrow> pystr \<Rightarrow> (pyval \<times> pystr) outcome" where
  "scan_word w v s = (if starts_with (py w) s then Inr (v, drop (length w) s) else Inl ValueError)"

text \<open>
  \<open>scan_once\<close> with the hooks \<open>_pairs_reject_duplicates\<close> for every object and \<open>_reject_nonfinite\<close> for
  the constants \<open>NaN\<close>, \<open>Infinity\<close> and \<open>-Infinity\<close>.
\<close>

fun scan_once :: "nat \<Rightarrow> pystr \<Rightarrow> (pyval \<times> pystr) outcome" where
  "scan_once rd [] = Inl ValueError"
| "scan_once rd (c # s) =
     (if c = 34 then bindE (scan_str s) (\<lambda>(t, q). Inr (PStr t, q))
      else if c = 123 then
        (case rd of
           0 \<Rightarrow> Inl RecursionError
         | Suc rd' \<Rightarrow>
             if starts_with [125] (skip_ws s) then Inr (PDict Plain [], tl (skip_ws s))
             else bindE (scan_members (scan_once rd') (skip_ws s)) (\<lambda>(ms, q).
                  bindE (pairs_reject_duplicates ms) (\<lambda>d. Inr (d, q))))
      else if c = 91 then
        (case rd of
           0 \<Rightarrow> Inl RecursionError
         | Suc rd' \<Rightarrow>
             if starts_with [93] (skip_ws s) then Inr (PList [], tl (skip_ws s))
             else bindE (scan_elems (scan_once rd') (skip_ws s)) (\<lambda>(vs, q). Inr (PList vs, q)))
      else if c = 110 then scan_word ''null'' PNone (c # s)
      else if c = 116 then scan_word ''true'' (PBool True) (c # s)
      else if c = 102 then scan_word ''false'' (PBool False) (c # s)
      else read_number (c # s))"

declare scan_once.simps [simp del]

definition loads :: "nat \<Rightarrow> pystr \<Rightarrow> pyval outcome" where
  "loads rd s =
     (if starts_with [65279] s then Inl ValueError
      else bindE (scan_once rd (skip_ws s)) (\<lambda>(v, r). if skip_ws r = [] then Inr v else Inl ValueError))"

text \<open>
  \<open>parse_closed_json\<close>: the argument is text or bytes, bounded before it is decoded; every exception
  of the decoder but a \<open>ContractError\<close> becomes the malformed-JSON failure.
\<close>

definition as_malformed :: "exn \<Rightarrow> exn" where
  "as_malformed e = (case e of ProviderError f \<Rightarrow> e | _ \<Rightarrow> raises MALFORMED_JSON)"

definition parse_closed_json :: "nat \<Rightarrow> pyval \<Rightarrow> limits \<Rightarrow> int option \<Rightarrow> pyval option \<Rightarrow> pyval outcome" where
  "parse_closed_json rd raw l byte_limit string_bytes =
     bindE (case raw of
              PStr s \<Rightarrow> (case utf8_encode s of None \<Rightarrow> Inl (raises MALFORMED_JSON) | Some b \<Rightarrow> Inr b)
            | PBytes b \<Rightarrow> Inr b
            | _ \<Rightarrow> Inl (raises MALFORMED_JSON)) (\<lambda>encoded.
     bindE (checkE (int (length encoded) \<le> (case byte_limit of None \<Rightarrow> provider_response_bytes l | Some b \<Rightarrow> b))
              (raises OVERSIZED_RESPONSE)) (\<lambda>_.
     bindE (catchE (case utf8_decode encoded of None \<Rightarrow> Inl ValueError | Some t \<Rightarrow> loads rd t)
              (\<lambda>e. Inl (as_malformed e))) (\<lambda>v.
     bindE (json_value l string_bytes 0 v) (\<lambda>_. Inr v))))"

section \<open>Specification\<close>

text \<open>The values whose canonical text reads back exactly.\<close>

definition key_str :: "pykey \<Rightarrow> pystr" where
  "key_str k = (case k of SKey s \<Rightarrow> s | OKey _ \<Rightarrow> [])"

fun exact_json :: "pyval \<Rightarrow> bool" where
  "exact_json PNone \<longleftrightarrow> True"
| "exact_json (PBool b) \<longleftrightarrow> True"
| "exact_json (PInt i) \<longleftrightarrow> length (dec (nat \<bar>i\<bar>)) \<le> MAX_STR_DIGITS"
| "exact_json (PStr s) \<longleftrightarrow> list_all scalar s"
| "exact_json (PList xs) \<longleftrightarrow> (\<forall>x \<in> set xs. exact_json x)"
| "exact_json (PTuple xs) \<longleftrightarrow> (\<forall>x \<in> set xs. exact_json x)"
| "exact_json (PDict k kvs) \<longleftrightarrow> k \<noteq> OtherMapping \<and> distinct (map fst kvs)
     \<and> (\<forall>(key, v) \<in> set kvs. (\<exists>s. key = SKey s \<and> list_all scalar s) \<and> exact_json v)"
| "exact_json _ \<longleftrightarrow> False"

text \<open>The nesting of containers.\<close>

fun nesting :: "pyval \<Rightarrow> nat" where
  "nesting (PList xs) = Suc (foldr max (map nesting xs) 0)"
| "nesting (PTuple xs) = Suc (foldr max (map nesting xs) 0)"
| "nesting (PDict k kvs) = Suc (foldr max (map (\<lambda>(key, v). nesting v) kvs) 0)"
| "nesting _ = 0"

text \<open>The value that canonical text denotes: keys in order, sequences as lists, plain dicts.\<close>

fun canonical :: "pyval \<Rightarrow> pyval" where
  "canonical (PList xs) = PList (map canonical xs)"
| "canonical (PTuple xs) = PList (map canonical xs)"
| "canonical (PDict k kvs) =
     PDict Plain (map (\<lambda>(t, v). (SKey t, v)) (sort_key fst (map (\<lambda>(key, v). (key_str key, canonical v)) kvs)))"
| "canonical v = v"

section \<open>Lemmas\<close>

subsection \<open>Characters and strings\<close>

lemma hex_value_digit [simp]: "n < 16 \<Longrightarrow> hex_value (hex_digit n) = Some n"
  by (auto simp: hex_value_def hex_digit_def ascii_digit_def)

lemma hex4_split: "4096 * (n div 4096 mod 16) + 256 * (n div 256 mod 16) + 16 * (n div 16 mod 16) + n mod 16
    = n mod (65536 :: nat)"
proof -
  have "n mod 65536 = 16 * (n div 16 mod 4096) + n mod 16"
    using mod_mult2_eq [of n 16 4096] by simp
  also have "n div 16 mod 4096 = 16 * (n div 16 div 16 mod 256) + n div 16 mod 16"
    using mod_mult2_eq [of "n div 16" 16 256] by simp
  also have "n div 16 div 16 mod 256 = 16 * (n div 16 div 16 div 16 mod 16) + n div 16 div 16 mod 16"
    using mod_mult2_eq [of "n div 16 div 16" 16 16] by simp
  finally show ?thesis by (simp add: div_mult2_eq [symmetric])
qed

lemma read_hex4_hex4 [simp]: "n < 65536 \<Longrightarrow> read_hex4 (hex4 n @ r) = Some (n, r)"
  using hex4_split [of n] by (simp add: hex4_def)

lemma read_unicode_bmp: "n < 65536 \<Longrightarrow> \<not> surrogate n \<Longrightarrow> read_unicode (hex4 n @ r) = Some (n, r)"
  by (auto simp: read_unicode_def high_surrogate_def surrogate_def)

lemma read_unicode_pair:
  assumes "h < 1024" and "w < 1024"
  shows "read_unicode (hex4 (55296 + h) @ 92 # 117 # hex4 (56320 + w) @ r) = Some (65536 + h * 1024 + w, r)"
  using assms by (simp add: read_unicode_def high_surrogate_def low_surrogate_def)

lemma read_char_u: "read_char (92 # 117 # r) = read_unicode r"
  by (simp add: read_char_def)

lemma read_escape_char:
  assumes "scalar c"
  shows "read_char (escape_char c @ r) = Some (c, r)"
proof (cases "c < 65536")
  case True
  then show ?thesis
    using assms read_unicode_bmp [of c r]
    by (auto simp: escape_char_def escape_u_def read_char_u scalar_def)
       (auto simp: read_char_def simple_escape_def)
next
  case False
  let ?h = "(c - 65536) div 1024" and ?w = "(c - 65536) mod 1024"
  have "c - 65536 < 1024 * 1024" using assms by (auto simp: scalar_def)
  then have "?h < 1024" by (simp add: less_mult_imp_div_less)
  moreover have "65536 + ?h * 1024 + ?w = c" using False by simp
  ultimately show ?thesis
    using False read_unicode_pair [of ?h ?w r]
    by (simp add: escape_char_def escape_u_def read_char_u)
qed

lemma escape_char_head: "\<exists>x u. escape_char c = x # u \<and> x \<noteq> 34"
  by (auto simp: escape_char_def escape_u_def)

lemma scan_str_escaped:
  "list_all scalar s \<Longrightarrow> scan_str (concat (map escape_char s) @ 34 # r) = Inr (s, r)"
proof (induction s)
  case Nil
  show ?case by (subst scan_str.simps) simp
next
  case (Cons c s)
  obtain x u where xu: "escape_char c = x # u" "x \<noteq> 34" using escape_char_head by blast
  have "read_char (escape_char c @ concat (map escape_char s) @ 34 # r)
      = Some (c, concat (map escape_char s) @ 34 # r)"
    using Cons.prems by (simp add: read_escape_char)
  with xu Cons show ?case by (subst scan_str.simps) simp
qed

lemma scan_dumps_str:
  "list_all scalar s \<Longrightarrow> dumps_str s @ r = 34 # (concat (map escape_char s) @ 34 # r)"
  by (simp add: dumps_str_def)

subsection \<open>Integers\<close>

text \<open>What follows a value inside canonical text.\<close>

definition stops :: "pystr \<Rightarrow> bool" where
  "stops r \<longleftrightarrow> r = [] \<or> hd r \<in> {44, 93, 125}"

lemma stops_simps [simp]: "stops []" "stops (44 # r)" "stops (93 # r)" "stops (125 # r)"
  by (simp_all add: stops_def)

lemma stops_number:
  "stops r \<Longrightarrow> takeWhile ascii_digit r = [] \<and> dropWhile ascii_digit r = r
     \<and> read_fraction r = (None, r) \<and> read_exponent r = (None, r)"
  by (cases r) (auto simp: stops_def ascii_digit_def read_fraction_def read_exponent_def)

lemma takeWhile_digits:
  "list_all ascii_digit s \<Longrightarrow> stops r \<Longrightarrow>
     digits_of (s @ r) = s \<and> after_digits (s @ r) = r"
  using stops_number [of r]
  by (induction s) (auto simp: digits_of_def after_digits_def)

lemma dec_head: "\<exists>c u. dec n = c # u \<and> ascii_digit c \<and> (c = 48 \<longrightarrow> u = [])"
proof (induction n rule: dec.induct)
  case (1 n)
  show ?case
  proof (cases "n < 10")
    case True
    then show ?thesis by (subst dec.simps) (simp add: ascii_digit_def)
  next
    case False
    then obtain c u where cu: "dec (n div 10) = c # u" "ascii_digit c" "c = 48 \<longrightarrow> u = []" using 1 by blast
    have "c \<noteq> 48"
    proof
      assume "c = 48"
      with cu have "dec (n div 10) = dec 0" by (simp add: dec.simps)
      then have "n div 10 = 0" by (simp only: dec_inject)
      with False show False by simp
    qed
    with cu False show ?thesis by (subst dec.simps) simp
  qed
qed

lemma read_unsigned_dec:
  assumes "stops r" and "length (dec n) \<le> MAX_STR_DIGITS"
  shows "read_unsigned neg (dec n @ r) = Inr (PInt (if neg then - int n else int n), r)"
proof -
  obtain c u where cu: "dec n = c # u" "ascii_digit c" "c = 48 \<longrightarrow> u = []" using dec_head by blast
  have "list_all ascii_digit (dec n)" by (simp add: list_all_iff dec_digits)
  from takeWhile_digits [OF this assms(1)] cu have "read_int_part (dec n @ r) = Inr (dec n, r)"
    by (auto simp: read_int_part_def)
  then show ?thesis using assms stops_number [of r] by (simp add: read_unsigned_def)
qed

lemma scan_once_number:
  assumes "c = 45 \<or> ascii_digit c"
  shows "scan_once rd (c # s) = read_number (c # s)"
  using assms by (auto simp: scan_once.simps ascii_digit_def)

lemma scan_dumps_int:
  assumes "dumps_int i = Inr t" and "stops r"
  shows "scan_once rd (t @ r) = Inr (PInt i, r)"
proof -
  let ?n = "nat \<bar>i\<bar>"
  from assms have t: "t = (if i < 0 then 45 # dec ?n else dec ?n)" and len: "length (dec ?n) \<le> MAX_STR_DIGITS"
    by (auto simp: dumps_int_def dec_int_def split: if_splits)
  obtain c u where cu: "dec ?n = c # u" "ascii_digit c" using dec_head by blast
  then have "c \<noteq> 45" "c \<noteq> 73" by (auto simp: ascii_digit_def)
  then show ?thesis
    using t cu read_unsigned_dec [OF assms(2) len]
    by (auto simp: scan_once_number read_number_def py_def)
qed

subsection \<open>Sorting and joining\<close>

lemma list_all2_insort_key:
  "list_all2 P xs ys \<Longrightarrow> P x y \<Longrightarrow> (\<And>a b. P a b \<Longrightarrow> f a = g b)
     \<Longrightarrow> list_all2 P (insort_key f x xs) (insort_key g y ys)"
proof (induction xs ys rule: list_all2_induct)
  case (Cons a as b bs)
  moreover have "f x = g y" "f a = g b" using Cons by blast+
  ultimately show ?case by auto
qed auto

lemma list_all2_sort_key:
  "list_all2 P xs ys \<Longrightarrow> (\<And>a b. P a b \<Longrightarrow> f a = g b) \<Longrightarrow> list_all2 P (sort_key f xs) (sort_key g ys)"
  unfolding sort_key_def by (induction rule: list_all2_induct) (simp_all add: list_all2_insort_key)

lemma skip_ws_keep: "\<not> json_space c \<Longrightarrow> skip_ws (c # s) = c # s"
  by (simp add: skip_ws_def)

lemma skip_ws_quote: "skip_ws (34 # s) = 34 # s"
  by (simp add: skip_ws_def json_space_def)

lemma skip_ws_stops: "stops r \<Longrightarrow> skip_ws r = r"
  by (cases r) (auto simp: stops_def skip_ws_def json_space_def)

text \<open>The text of one value and the scanner of values agree.\<close>

definition scans_to :: "(pystr \<Rightarrow> (pyval \<times> pystr) outcome) \<Rightarrow> pystr \<Rightarrow> pyval \<Rightarrow> bool" where
  "scans_to f t v \<longleftrightarrow> (\<forall>r. stops r \<longrightarrow> f (t @ r) = Inr (v, r))
     \<and> (\<exists>c u. t = c # u \<and> \<not> json_space c \<and> c \<notin> {93, 125})"

lemma scans_toD: "scans_to f t v \<Longrightarrow> stops r \<Longrightarrow> f (t @ r) = Inr (v, r)"
  by (simp add: scans_to_def)

lemma scans_to_skip: "scans_to f t v \<Longrightarrow> skip_ws (t @ r) = t @ r"
  by (auto simp: scans_to_def skip_ws_keep)

lemma scan_elems_join:
  assumes "list_all2 (scans_to f) ts vs" and "ts \<noteq> []"
  shows "scan_elems f (join ts @ 93 # r) = Inr (vs, r)"
  using assms
proof (induction ts arbitrary: vs rule: join.induct)
  case (2 t)
  then obtain v where "vs = [v]" and v: "scans_to f t v" by (auto simp: list_all2_Cons1)
  with scans_toD [OF v, of "93 # r"] show ?case by (subst scan_elems.simps) (simp add: skip_ws_stops)
next
  case (3 t t' ts)
  then obtain v v' vs' where vs: "vs = v # v' # vs'" and v: "scans_to f t v" "scans_to f t' v'"
    and IH: "scan_elems f (join (t' # ts) @ 93 # r) = Inr (v' # vs', r)"
    by (auto simp: list_all2_Cons1)
  obtain q where "join (t' # ts) @ 93 # r = t' @ q" by (cases ts) auto
  then have "skip_ws (join (t' # ts) @ 93 # r) = join (t' # ts) @ 93 # r"
    using scans_to_skip [OF v(2)] by simp
  then show ?case
    using vs IH scans_toD [OF v(1), of "44 # join (t' # ts) @ 93 # r"]
    by (subst scan_elems.simps) (simp add: skip_ws_stops del: join.simps(3) add: join.simps(3) [of t t' ts])
qed simp

definition member_text :: "pystr \<times> pystr \<Rightarrow> pystr" where
  "member_text = (\<lambda>(t, d). dumps_str t @ 58 # d)"

definition member_scans :: "(pystr \<Rightarrow> (pyval \<times> pystr) outcome) \<Rightarrow> pystr \<times> pystr \<Rightarrow> pystr \<times> pyval \<Rightarrow> bool" where
  "member_scans f td kv \<longleftrightarrow> fst td = fst kv \<and> list_all scalar (fst kv) \<and> scans_to f (snd td) (snd kv)"

lemma member_text_head: "\<exists>u. member_text td = 34 # u"
  by (simp add: member_text_def dumps_str_def split: prod.splits)

lemma scan_member_text:
  assumes "member_scans f td kv" and "stops r"
  shows "scan_member f (member_text td @ r) = Inr (kv, r)"
proof -
  obtain t d k v where td: "td = (t, d)" "kv = (k, v)" by fastforce
  with assms have *: "list_all scalar t" "k = t" "scans_to f d v" by (auto simp: member_scans_def)
  have "skip_ws (58 # d @ r) = 58 # d @ r" by (simp add: skip_ws_def json_space_def)
  then show ?thesis
    using td * assms(2) scan_str_escaped [of t "58 # d @ r"] scans_toD [of f d v r] scans_to_skip [of f d v r]
    by (simp add: scan_member_def member_text_def dumps_str_def)
qed

lemma scan_members_join:
  assumes "list_all2 (member_scans f) ts ms" and "ts \<noteq> []"
  shows "scan_members f (join (map member_text ts) @ 125 # r) = Inr (ms, r)"
  using assms
proof (induction "map member_text ts" arbitrary: ts ms rule: join.induct)
  case (2 x)
  then obtain t m where tm: "ts = [t]" "ms = [m]" "member_scans f t m" by (auto simp: list_all2_Cons1)
  with scan_member_text [OF tm(3), of "125 # r"] show ?case
    by (subst scan_members.simps) (simp add: skip_ws_stops)
next
  case (3 x y xs)
  then obtain t t' ts' m m' ms' where ts: "ts = t # t' # ts'" "ms = m # m' # ms'"
    and m: "member_scans f t m" and rest: "list_all2 (member_scans f) (t' # ts') (m' # ms')"
    by (auto simp: list_all2_Cons1 Cons_eq_map_conv)
  let ?rest = "join (map member_text (t' # ts')) @ 125 # r"
  have IH: "scan_members f ?rest = Inr (m' # ms', r)"
    using 3(1) [of "t' # ts'" "m' # ms'"] 3(2) ts rest by simp
  obtain q where "?rest = 34 # q" using member_text_head [of t'] by (cases ts') auto
  then have "skip_ws ?rest = ?rest" by (simp only: skip_ws_quote)
  moreover have "join (map member_text ts) @ 125 # r = member_text t @ 44 # ?rest" using ts by simp
  ultimately show ?case
    using IH ts scan_member_text [OF m, of "44 # ?rest"]
    by (subst scan_members.simps) (simp add: skip_ws_stops del: join.simps)
qed simp

subsection \<open>Values\<close>

lemma foldr_max_le: "foldr max ns 0 \<le> m \<longleftrightarrow> (\<forall>n \<in> set ns. n \<le> (m :: nat))"
  by (induction ns) auto

lemma dumps_head:
  assumes "dumps v = Inr t" and "exact_json v"
  shows "\<exists>c u. t = c # u \<and> \<not> json_space c \<and> c \<notin> {93, 125}"
proof (cases v)
  case (PInt i)
  obtain c u where "dec (nat \<bar>i\<bar>) = c # u" "ascii_digit c" using dec_head by blast
  then show ?thesis using assms PInt
    by (auto simp: dumps_int_def dec_int_def json_space_def ascii_digit_def split: if_splits)
qed (use assms in \<open>auto simp: bindE_eq_Inr py_def dumps_str_def json_space_def split: if_splits\<close>)

lemma scan_once_word:
  "scan_once rd (py ''null'' @ r) = Inr (PNone, r)"
  "scan_once rd (py ''true'' @ r) = Inr (PBool True, r)"
  "scan_once rd (py ''false'' @ r) = Inr (PBool False, r)"
  by (simp_all add: scan_once.simps scan_word_def py_def)

lemma scan_once_array:
  assumes "list_all2 (scans_to (scan_once rd)) ts vs"
  shows "scan_once (Suc rd) ([91] @ join ts @ [93] @ r) = Inr (PList vs, r)"
proof (cases ts)
  case Nil
  with assms show ?thesis by (simp add: scan_once.simps skip_ws_def json_space_def)
next
  case (Cons t ts')
  then obtain v where t: "scans_to (scan_once rd) t v" using assms by (auto simp: list_all2_Cons1)
  obtain q where q: "join ts @ 93 # r = t @ q" using Cons by (cases ts') auto
  from t obtain c u where "t = c # u" "c \<noteq> 93" by (auto simp: scans_to_def)
  then show ?thesis
    using scan_elems_join [OF assms, of r] Cons q scans_to_skip [OF t, of q] by (simp add: scan_once.simps)
qed

lemma scan_once_object:
  assumes "list_all2 (member_scans (scan_once rd)) ts ms" and "distinct (map fst ms)"
  shows "scan_once (Suc rd) ([123] @ join (map member_text ts) @ [125] @ r) =
    Inr (PDict Plain (map (\<lambda>(k, v). (SKey k, v)) ms), r)"
proof (cases ts)
  case Nil
  with assms show ?thesis by (simp add: scan_once.simps skip_ws_def json_space_def)
next
  case (Cons t ts')
  obtain u where "member_text t = 34 # u" using member_text_head by blast
  then obtain q where q: "join (map member_text ts) @ 125 # r = 34 # q" using Cons by (cases ts') auto
  moreover note skip_ws_quote [of q]
  moreover have "pairs_reject_duplicates ms = Inr (PDict Plain (map (\<lambda>(k, v). (SKey k, v)) ms))"
    using assms(2) by (simp add: pairs_reject_duplicates_eq)
  ultimately show ?thesis
    using scan_members_join [OF assms(1), of r] Cons by (simp add: scan_once.simps)
qed

lemma scans_toI:
  "dumps v = Inr t \<Longrightarrow> exact_json v \<Longrightarrow> (\<And>r. stops r \<Longrightarrow> f (t @ r) = Inr (w, r)) \<Longrightarrow> scans_to f t w"
  using dumps_head [of v t] by (simp add: scans_to_def)

lemma dumps_seq_scans:
  assumes "mapE dumps xs = Inr ts" and "\<forall>x \<in> set xs. exact_json x"
    and "\<And>x t r. x \<in> set xs \<Longrightarrow> dumps x = Inr t \<Longrightarrow> stops r \<Longrightarrow> scan_once rd (t @ r) = Inr (canonical x, r)"
  shows "list_all2 (scans_to (scan_once rd)) ts (map canonical xs)"
proof -
  have "list_all2 (\<lambda>x t. dumps x = Inr t) xs ts" using assms(1) by (simp add: mapE_eq_Inr_list_all2)
  then show ?thesis using assms(2,3)
    by (induction rule: list_all2_induct) (auto intro: scans_toI)
qed

lemma dumps_items_scans:
  assumes "mapE (\<lambda>(key, v). bindE (key_text key) (\<lambda>t. bindE (dumps v) (\<lambda>d. Inr (t, d)))) kvs = Inr ts"
    and "\<forall>(key, v) \<in> set kvs. (\<exists>s. key = SKey s \<and> list_all scalar s) \<and> exact_json v"
    and "\<And>k v t r. (k, v) \<in> set kvs \<Longrightarrow> dumps v = Inr t \<Longrightarrow> stops r
           \<Longrightarrow> scan_once rd (t @ r) = Inr (canonical v, r)"
  shows "list_all2 (member_scans (scan_once rd)) (sort_key fst ts)
    (sort_key fst (map (\<lambda>(key, v). (key_str key, canonical v)) kvs))"
proof (rule list_all2_sort_key)
  have "list_all2 (\<lambda>x y. (\<lambda>(key, v). bindE (key_text key) (\<lambda>t. bindE (dumps v) (\<lambda>d. Inr (t, d)))) x = Inr y) kvs ts"
    using assms(1) by (simp add: mapE_eq_Inr_list_all2)
  then show "list_all2 (member_scans (scan_once rd)) ts (map (\<lambda>(key, v). (key_str key, canonical v)) kvs)"
    using assms(2,3)
  proof (induction rule: list_all2_induct)
    case (Cons x xs y ys)
    obtain k v where x: "x = (k, v)" by fastforce
    with Cons obtain s d where "k = SKey s" "y = (s, d)" "dumps v = Inr d" "list_all scalar s" "exact_json v"
      by (auto simp: bindE_eq_Inr key_text_def)
    moreover from this have "scans_to (scan_once rd) d (canonical v)"
      using Cons.prems(2) [of k v d] x by (intro scans_toI) auto
    moreover have "list_all2 (member_scans (scan_once rd)) ys (map (\<lambda>(key, v). (key_str key, canonical v)) xs)"
      using Cons.prems by (intro Cons.IH) auto
    ultimately show ?case using x by (simp add: member_scans_def [of _ "(_, _)"] key_str_def)
  qed simp
qed (simp add: member_scans_def)

lemma distinct_sorted_keys:
  assumes "distinct (map fst kvs)" and "\<forall>(key, v) \<in> set kvs. \<exists>s. key = SKey s"
  shows "distinct (map fst (sort_key fst (map (\<lambda>(key, v). (key_str key, f v)) kvs)))"
proof -
  have "inj_on key_str (fst ` set kvs)"
    using assms(2) by (fastforce simp: inj_on_def key_str_def split: pykey.splits)
  then have "distinct (map key_str (map fst kvs))" using assms(1) by (simp add: distinct_map comp_inj_on)
  moreover have "map key_str (map fst kvs) = map fst (map (\<lambda>(key, v). (key_str key, f v)) kvs)" by auto
  ultimately have "distinct (map fst (map (\<lambda>(key, v). (key_str key, f v)) kvs))" by metis
  then show ?thesis by (simp only: distinct_map [of fst] distinct_sort set_sort simp_thms)
qed

lemma scan_dumps:
  assumes "dumps v = Inr t" and "exact_json v" and "nesting v \<le> rd" and "stops r"
  shows "scan_once rd (t @ r) = Inr (canonical v, r)"
  using assms
proof (induction v arbitrary: t rd r)
  case (PInt i)
  then show ?case by (simp add: scan_dumps_int)
next
  case (PStr s)
  then show ?case by (auto simp: scan_dumps_str scan_once.simps scan_str_escaped)
next
  case (PList xs)
  then obtain ts rd' where ts: "mapE dumps xs = Inr ts" "t = [91] @ join ts @ [93]" "rd = Suc rd'"
    "foldr max (map nesting xs) 0 \<le> rd'"
    by (cases rd) (auto simp: bindE_eq_Inr)
  then have "list_all2 (scans_to (scan_once rd')) ts (map canonical xs)"
    using PList by (intro dumps_seq_scans) (auto simp: foldr_max_le)
  from scan_once_array [OF this, of r] ts show ?case by simp
next
  case (PTuple xs)
  then obtain ts rd' where ts: "mapE dumps xs = Inr ts" "t = [91] @ join ts @ [93]" "rd = Suc rd'"
    "foldr max (map nesting xs) 0 \<le> rd'"
    by (cases rd) (auto simp: bindE_eq_Inr)
  then have "list_all2 (scans_to (scan_once rd')) ts (map canonical xs)"
    using PTuple by (intro dumps_seq_scans) (auto simp: foldr_max_le)
  from scan_once_array [OF this, of r] ts show ?case by simp
next
  case (PDict k kvs)
  let ?ms = "sort_key fst (map (\<lambda>(key, v). (key_str key, canonical v)) kvs)"
  from PDict.prems obtain ts rd' where ts:
    "mapE (\<lambda>(key, v). bindE (key_text key) (\<lambda>t. bindE (dumps v) (\<lambda>d. Inr (t, d)))) kvs = Inr ts"
    "t = [123] @ join (map member_text (sort_key fst ts)) @ [125]" "rd = Suc rd'"
    "foldr max (map (\<lambda>(key, v). nesting v) kvs) 0 \<le> rd'"
    by (cases rd) (auto simp: bindE_eq_Inr member_text_def)
  have "list_all2 (member_scans (scan_once rd')) (sort_key fst ts) ?ms"
    using ts PDict.prems by (intro dumps_items_scans) (auto simp: foldr_max_le snds.simps intro!: PDict.IH)
  moreover have "distinct (map fst ?ms)"
    using PDict.prems by (intro distinct_sorted_keys) auto
  ultimately show ?case using scan_once_object [of rd' "sort_key fst ts" ?ms r] ts by simp
qed (auto simp: scan_once_word)

lemma hex_digit_ascii: "hex_digit (n mod 16) < 128"
  using mod_less_divisor [of 16 n] by (auto simp: hex_digit_def)

lemma isascii_hex4: "isascii (hex4 n)"
  by (simp add: hex4_def hex_digit_ascii)

lemma isascii_escape_char: "isascii (escape_char c)"
  by (simp add: escape_char_def escape_u_def isascii_hex4)

lemma dumps_total: "exact_json v \<Longrightarrow> \<exists>t. dumps v = Inr t \<and> isascii t"
proof -
  have join: "(\<forall>t \<in> set ts. isascii t) \<Longrightarrow> isascii (join ts)" for ts
    by (induction ts rule: join.induct) auto
  have str: "isascii (dumps_str s)" for s
    by (induction s) (simp_all add: dumps_str_def isascii_escape_char)
  have seq: "\<exists>ts. mapE dumps xs = Inr ts \<and> isascii (join ts)" 
    if each: "\<And>x. x \<in> set xs \<Longrightarrow> \<exists>t. dumps x = Inr t \<and> isascii t" for xs
  proof -
    obtain ts where ts: "mapE dumps xs = Inr ts" using each mapE_Inr_exists [of dumps xs] by blast
    moreover have "isascii t" if "t \<in> set ts" for t
      using mapE_all [OF ts _ that, of isascii] each by force
    ultimately show ?thesis using join by blast
  qed
  show "exact_json v \<Longrightarrow> ?thesis"
  proof (induction v)
    case (PDict k kvs)
    let ?f = "\<lambda>(key, v). bindE (key_text key) (\<lambda>t. bindE (dumps v) (\<lambda>d. Inr (t, d)))"
    have item: "\<exists>t d. ?f x = Inr (t, d) \<and> isascii d" if x: "x \<in> set kvs" for x
    proof -
      obtain s w where "x = (SKey s, w)" "exact_json w" using x PDict.prems by (cases x) auto
      moreover from this obtain d where "dumps w = Inr d" "isascii d"
        using PDict.IH [OF x, of w] by (auto simp: snds.simps)
      ultimately show ?thesis by (simp add: key_text_def)
    qed
    then obtain ts where ts: "mapE ?f kvs = Inr ts" using mapE_Inr_exists [of ?f kvs] by blast
    have "isascii (snd y)" if "y \<in> set ts" for y
    proof (rule mapE_all [OF ts _ that])
      fix x z assume "x \<in> set kvs" "?f x = Inr z"
      with item [of x] show "isascii (snd z)" by (metis Inr_inject snd_conv)
    qed
    then have "isascii (join (map (\<lambda>(t, d). dumps_str t @ 58 # d) (sort_key fst ts)))"
      using str by (intro join) auto
    with ts PDict.prems show ?case by simp
  next
    case (PList xs)
    with seq [of xs] show ?case by auto
  next
    case (PTuple xs)
    with seq [of xs] show ?case by auto
  qed (auto simp: dumps_int_def str py_def)
qed

lemma loads_dumps:
  assumes "dumps v = Inr t" and "exact_json v" and "nesting v \<le> rd"
  shows "loads rd t = Inr (canonical v)"
proof -
  obtain c u where "t = c # u" "\<not> json_space c" using dumps_head [OF assms(1,2)] by blast
  moreover have "isascii t" using dumps_total [OF assms(2)] assms(1) by simp
  ultimately show ?thesis
    using scan_dumps [OF assms, of "[]"] by (auto simp: loads_def skip_ws_keep) (simp add: skip_ws_def)
qed

text \<open>Canonical values (sorted plain dicts and lists) and their text.\<close>

interpretation json_text: partial_codec "\<lambda>v. case dumps v of Inr t \<Rightarrow> t | Inl _ \<Rightarrow> []"
    "\<lambda>t. case loads rd t of Inr v \<Rightarrow> Some v | Inl _ \<Rightarrow> None"
    "\<lambda>v. exact_json v \<and> nesting v \<le> rd \<and> canonical v = v" for rd
  by unfold_locales (use dumps_total loads_dumps in fastforce)

subsection \<open>The scanner's errors\<close>

text \<open>The exceptions a scan may raise: syntax, recursion, or a duplicate key.\<close>

definition scan_errors :: "exn set" where
  "scan_errors = {ValueError, RecursionError, raises DUPLICATE_KEY_JSON}"

lemma length_skip_ws: "length (skip_ws s) \<le> length s"
  by (simp add: skip_ws_def length_dropWhile_le)

text \<open>A scan of \<open>n\<close> characters that consumed some of them, or raised a scan error.\<close>

definition consumed :: "nat \<Rightarrow> ('v \<times> pystr) outcome \<Rightarrow> bool" where
  "consumed n x \<longleftrightarrow> (case x of Inl e \<Rightarrow> e \<in> scan_errors | Inr (v, r) \<Rightarrow> length r < n)"

lemma consumed_simps [simp]:
  "consumed n (Inl e) \<longleftrightarrow> e \<in> scan_errors"
  "consumed n (Inr (v, r)) \<longleftrightarrow> length r < n"
  "ValueError \<in> scan_errors" "RecursionError \<in> scan_errors" "raises DUPLICATE_KEY_JSON \<in> scan_errors"
  "AssertionError \<notin> scan_errors"
  by (simp_all add: consumed_def scan_errors_def)

lemma consumed_bind:
  assumes "consumed n x" and "\<And>v r. length r < n \<Longrightarrow> consumed m (g (v, r))"
  shows "consumed m (bindE x g)"
proof (cases x)
  case (Inl e)
  with assms(1) show ?thesis by simp
next
  case (Inr vr)
  with assms show ?thesis by (cases vr) simp
qed

lemma consumed_mono: "consumed n x \<Longrightarrow> n \<le> m \<Longrightarrow> consumed m x"
  by (auto simp: consumed_def split: sum.splits)

lemma consumed_scan_str: "consumed (length s) (scan_str s)"
proof (induction s rule: length_induct)
  case (1 s)
  have "consumed (length s) (bindE (scan_str r') (\<lambda>(t, q). Inr (x # t, q)))"
    if "read_char s = Some (x, r')" for x r'
    using 1 read_char_shorter [OF that] by (intro consumed_bind [of "length r'"]) auto
  then show ?case by (subst scan_str.simps) (auto split: list.splits option.splits)
qed

lemma read_fraction_shorter: "read_fraction s = (f, r) \<Longrightarrow> length r \<le> length s"
  by (auto simp: read_fraction_def after_digits_def split: list.splits if_splits
      intro: le_SucI length_dropWhile_le)

lemma read_exponent_shorter: "read_exponent s = (f, r) \<Longrightarrow> length r \<le> length s"
proof -
  have "length (after_digits (tl q)) \<le> Suc (length q)" "length (after_digits q) \<le> Suc (length q)" for q
    using length_dropWhile_le [of ascii_digit "tl q"] length_dropWhile_le [of ascii_digit q]
    by (auto simp: after_digits_def)
  then show "read_exponent s = (f, r) \<Longrightarrow> ?thesis"
    by (auto simp: read_exponent_def Let_def split: list.splits if_splits)
qed

lemma consumed_read_unsigned: "consumed (length s) (read_unsigned neg s)"
proof -
  have ip: "consumed (length s) (read_int_part s)"
    using length_dropWhile_le [of ascii_digit "tl s"]
    by (auto simp: read_int_part_def after_digits_def split: list.splits)
  show ?thesis unfolding read_unsigned_def
  proof (rule consumed_bind [OF ip], clarify)
    fix p q :: pystr assume q: "length q < length s"
    obtain fp r1 where fp: "read_fraction q = (fp, r1)" by fastforce
    obtain ex r2 where ex: "read_exponent r1 = (ex, r2)" by fastforce
    have "length r2 < length s" using q read_fraction_shorter [OF fp] read_exponent_shorter [OF ex] by simp
    with q fp ex show "consumed (length s) (case read_fraction q of (fp, r1) \<Rightarrow> case read_exponent r1 of (ex, r2) \<Rightarrow>
       if fp = None \<and> ex = None then
         (if MAX_STR_DIGITS < length p then Inl ValueError
          else Inr (PInt (if neg then - int (undec p) else int (undec p)), q))
       else
         (let f = (case fp of None \<Rightarrow> [] | Some t \<Rightarrow> t); e = (case ex of None \<Rightarrow> 0 | Some k \<Rightarrow> k);
              x = rat_of_nat (undec (p @ f)) * pow10 (e - int (length f))
          in Inr (PFloat (if neg then (if x = 0 then FNegZero else double_of_rat (- x)) else double_of_rat x), r2)))"
      by (simp add: Let_def)
  qed
qed

lemma consumed_read_number: "consumed (length s) (read_number s)"
  using consumed_read_unsigned [of s False] consumed_mono [OF consumed_read_unsigned [of "tl s" True], of "length s"]
  by (simp add: read_number_def)

lemma consumed_scan_elems:
  assumes "\<And>s. consumed (length s) (f s)"
  shows "consumed (length s) (scan_elems f s)"
proof (induction s rule: length_induct)
  case (1 s)
  show ?case
  proof (subst scan_elems.simps, rule consumed_bind [OF assms], clarify)
    fix v and r :: pystr assume r: "length r < length s"
    have step: "consumed (length s) (bindE (scan_elems f (skip_ws t)) (\<lambda>(vs, q). Inr (v # vs, q)))"
      if "length (skip_ws t) < length s" for t
      using 1 that by (intro consumed_bind [of "length (skip_ws t)"]) auto
    have "length (skip_ws t) < length s" "length t < length s" if "skip_ws r = c # t" for c t
      using that length_skip_ws [of r] length_skip_ws [of t] r by auto
    then show "consumed (length s) (case skip_ws r of [] \<Rightarrow> Inl ValueError
       | c # t \<Rightarrow> if c = 93 then Inr ([v], t) else if c = 44 then
           (if length (skip_ws t) < length s
            then bindE (scan_elems f (skip_ws t)) (\<lambda>(vs, q). Inr (v # vs, q)) else Inl AssertionError)
         else Inl ValueError)"
      using step by (auto split: list.splits)
  qed
qed

lemma consumed_scan_member:
  assumes "\<And>s. consumed (length s) (f s)"
  shows "consumed (length s) (scan_member f s)"
proof -
  have "consumed (length s) (bindE (f (skip_ws (tl (skip_ws t)))) (\<lambda>(v, u). Inr ((k, v), u)))"
    if "length t < length s - Suc 0" for k t
    using that length_skip_ws [of t] length_skip_ws [of "tl (skip_ws t)"]
    by (intro consumed_bind [OF assms]) auto
  then show ?thesis
    unfolding scan_member_def by (auto intro!: consumed_bind [OF consumed_scan_str])
qed

lemma consumed_scan_members:
  assumes "\<And>s. consumed (length s) (f s)"
  shows "consumed (length s) (scan_members f s)"
proof (induction s rule: length_induct)
  case (1 s)
  show ?case
  proof (subst scan_members.simps, rule consumed_bind [OF consumed_scan_member [OF assms]], clarify)
    fix k v and r :: pystr assume r: "length r < length s"
    have step: "consumed (length s) (bindE (scan_members f (skip_ws t)) (\<lambda>(vs, q). Inr ((k, v) # vs, q)))"
      if "length (skip_ws t) < length s" for t
      using 1 that by (intro consumed_bind [of "length (skip_ws t)"]) auto
    have "length (skip_ws t) < length s" "length t < length s" if "skip_ws r = c # t" for c t
      using that length_skip_ws [of r] length_skip_ws [of t] r by auto
    then show "consumed (length s) (case skip_ws r of [] \<Rightarrow> Inl ValueError
       | c # t \<Rightarrow> if c = 125 then Inr ([(k, v)], t) else if c = 44 then
           (if length (skip_ws t) < length s
            then bindE (scan_members f (skip_ws t)) (\<lambda>(vs, q). Inr ((k, v) # vs, q)) else Inl AssertionError)
         else Inl ValueError)"
      using step by (auto split: list.splits)
  qed
qed

lemma consumed_scan_once: "consumed (length s) (scan_once rd s)"
proof (induction rd arbitrary: s)
  case 0
  then show ?case
    using consumed_read_number [of s] consumed_scan_str [of "tl s"]
    by (cases s) (auto simp: scan_once.simps scan_word_def intro: consumed_bind)
next
  case (Suc rd)
  have tl: "length (skip_ws q) - Suc 0 < Suc (length q)" for q using length_skip_ws [of q] by simp
  have m: "consumed (Suc (length q)) (scan_members (scan_once rd) (skip_ws q))"
          "consumed (Suc (length q)) (scan_elems (scan_once rd) (skip_ws q))" for q
    using consumed_mono [OF consumed_scan_members [OF Suc], of "skip_ws q"]
      consumed_mono [OF consumed_scan_elems [OF Suc], of "skip_ws q"] length_skip_ws [of q] by auto
  show ?case
    using consumed_read_number [of s] consumed_scan_str [of "tl s"]
    by (cases s) (auto simp: scan_once.simps scan_word_def pairs_reject_duplicates_eq tl
        intro!: consumed_bind [OF m(1)] consumed_bind [OF m(2)] intro: consumed_bind)
qed

lemma loads_errors: "loads rd s = Inl e \<Longrightarrow> e \<in> scan_errors"
  using consumed_scan_once [of "skip_ws s" rd]
  by (auto simp: loads_def bindE_eq_Inl split: if_splits)

lemma parse_closed_json_Inr:
  assumes "parse_closed_json rd raw l bl sb = Inr v"
  obtains b t where "raw = PBytes b \<or> (\<exists>s. raw = PStr s \<and> utf8_encode s = Some b)"
    and "int (length b) \<le> (case bl of None \<Rightarrow> provider_response_bytes l | Some n \<Rightarrow> n)"
    and "utf8_decode b = Some t" and "loads rd t = Inr v" and "json_value l sb 0 v = Inr ()"
proof -
  obtain b where raw: "raw = PBytes b \<or> (\<exists>s. raw = PStr s \<and> utf8_encode s = Some b)"
    and rest: "bindE (checkE (int (length b) \<le> (case bl of None \<Rightarrow> provider_response_bytes l | Some n \<Rightarrow> n))
              (raises OVERSIZED_RESPONSE)) (\<lambda>_.
     bindE (catchE (case utf8_decode b of None \<Rightarrow> Inl ValueError | Some t \<Rightarrow> loads rd t)
              (\<lambda>e. Inl (as_malformed e))) (\<lambda>v.
     bindE (json_value l sb 0 v) (\<lambda>_. Inr v))) = Inr v"
    using assms by (cases raw) (auto simp: parse_closed_json_def split: option.splits)
  from rest obtain t where "utf8_decode b = Some t" "loads rd t = Inr v" "json_value l sb 0 v = Inr ()"
    by (auto simp: bindE_eq_Inr catchE_eq_Inr split: option.splits)
  moreover from rest have "int (length b) \<le> (case bl of None \<Rightarrow> provider_response_bytes l | Some n \<Rightarrow> n)"
    by (simp add: bindE_eq_Inr)
  ultimately show thesis using that raw by blast
qed

lemma json_value_Inl: "json_value l sb d v = Inl e \<Longrightarrow> e = lvf"
  by (auto simp: json_value_freeze bindE_eq_Inl dest: freeze_Inl)

lemma parse_closed_json_Inl:
  assumes "parse_closed_json rd raw l bl sb = Inl e"
  shows "e \<in> {raises MALFORMED_JSON, raises OVERSIZED_RESPONSE, raises DUPLICATE_KEY_JSON, lvf}"
  using assms
  by (auto simp: parse_closed_json_def bindE_eq_Inl bindE_eq_Inr catchE_def scan_errors_def as_malformed_def
      split: pyval.splits option.splits sum.splits exn.splits dest!: json_value_Inl loads_errors)

lemma json_value_accepts:
  "json_value l sb d v = Inr () \<longleftrightarrow> (\<exists>r. freeze_json l sb d v = Inr r)"
  by (auto simp: json_value_freeze bindE_eq_Inr)

lemma parse_closed_json_dumps:
  assumes "dumps v = Inr t" and "exact_json v" and "nesting v \<le> rd"
    and "int (length t) \<le> (case bl of None \<Rightarrow> provider_response_bytes l | Some n \<Rightarrow> n)"
  shows "parse_closed_json rd (PBytes t) l bl sb = bindE (json_value l sb 0 (canonical v)) (\<lambda>_. Inr (canonical v))"
proof -
  have "isascii t" using dumps_total [OF assms(2)] assms(1) by simp
  then have "utf8_decode t = Some t"
    using utf8_decode_bytes [of t] isascii_not_surrogate [of t]
    by (simp add: isascii_iff scalar_def list_all_iff list_ex_iff) fastforce
  with assms(4) loads_dumps [OF assms(1-3)] show ?thesis by (simp add: parse_closed_json_def)
qed

section \<open>Properties\<close>



text \<open>
  C7: whatever is given to \<open>parse_closed_json\<close>, it either raises one of four classified failures
  (malformed, oversized, duplicate key, local validation), so no decoder exception escapes, or it
  returns a value within the limits' nesting, width and string bounds that came from no more bytes
  than the byte limit.
\<close>

theorem parse_closed_json_is_bounded_and_classified:
  "case parse_closed_json rd raw l byte_limit None of
     Inl e \<Rightarrow> e \<in> {raises MALFORMED_JSON, raises OVERSIZED_RESPONSE, raises DUPLICATE_KEY_JSON, lvf}
   | Inr v \<Rightarrow> bounded_json (json_nesting_depth l) (object_array_items l)
        (max (message_bytes l) (max (tool_argument_bytes l) (tool_definition_bytes l))) v
      \<and> (\<exists>b. (raw = PBytes b \<or> (\<exists>s. raw = PStr s \<and> utf8_encode s = Some b))
            \<and> int (length b) \<le> (case byte_limit of None \<Rightarrow> provider_response_bytes l | Some n \<Rightarrow> n))"
proof (cases "parse_closed_json rd raw l byte_limit None")
  case (Inl e)
  then show ?thesis using parse_closed_json_Inl [OF Inl] by simp
next
  case (Inr v)
  from parse_closed_json_Inr [OF Inr] obtain b where
    "raw = PBytes b \<or> (\<exists>s. raw = PStr s \<and> utf8_encode s = Some b)"
    "int (length b) \<le> (case byte_limit of None \<Rightarrow> provider_response_bytes l | Some n \<Rightarrow> n)"
    "json_value l None 0 v = Inr ()" by metis
  moreover from this(3) have "bounded_json (json_nesting_depth l) (object_array_items l)
        (max (message_bytes l) (max (tool_argument_bytes l) (tool_definition_bytes l))) v"
    using freeze_accepts_iff [of l None _ 0 v] by (simp add: json_value_accepts json_string_limit_def)
  ultimately show ?thesis using Inr by auto
qed

end
