(* ===== verification/Schemas.thy ===== *)
theory Schemas
  imports Json_Text
begin

text \<open>
  The closed JSON-Schema subset of \<open>contracts.py\<close>: \<open>_validate_schema_definition\<close> (is this a legal
  schema), \<open>_schema_value_matches\<close> and \<open>_validate_schema\<close> (does a value conform). The validator checks
  the definition of every nested schema again; the lemmas show that this is redundant, so that it
  computes the plain reference predicate \<open>conforms\<close>, and that all its failures are classified.
\<close>

section \<open>Definitions\<close>

abbreviation itp :: exn where
  "itp \<equiv> raises INVALID_TOOL_PROPOSAL"

definition SCHEMA_KEYS :: "string list" where
  "SCHEMA_KEYS = [''type'', ''properties'', ''required'', ''items'', ''enum'', ''minLength'', ''maxLength'',
     ''minimum'', ''maximum'', ''additionalProperties'']"

definition SCHEMA_TYPES :: "string list" where
  "SCHEMA_TYPES = [''object'', ''array'', ''string'', ''boolean'', ''integer'', ''number'', ''null'']"

text \<open>\<open>schema.get(key, default)\<close>.\<close>

definition get_or :: "items \<Rightarrow> string \<Rightarrow> pyval \<Rightarrow> pyval" where
  "get_or kvs k d = (case dget kvs k of None \<Rightarrow> d | Some v \<Rightarrow> v)"

definition empty_dict :: pyval where
  "empty_dict = PDict Plain []"

text \<open>The declared type, when it is one of the seven.\<close>

definition schema_type :: "items \<Rightarrow> string option" where
  "schema_type kvs = (case dget kvs ''type'' of
      Some (PStr t) \<Rightarrow> find (\<lambda>n. py n = t) SCHEMA_TYPES
    | _ \<Rightarrow> None)"

definition property_name_ok :: "pykey \<Rightarrow> bool" where
  "property_name_ok k = (case k of
      SKey s \<Rightarrow> (case utf8_encode s of
          None \<Rightarrow> False
        | Some b \<Rightarrow> s \<noteq> [] \<and> length b \<le> 64 \<and> list_all (\<lambda>c. 33 \<le> c \<and> c \<noteq> 47 \<and> c \<noteq> 92) s)
    | OKey _ \<Rightarrow> False)"

definition required_ok :: "limits \<Rightarrow> pyval \<Rightarrow> items \<Rightarrow> bool" where
  "required_ok l required properties \<longleftrightarrow>
     is_seq required \<and> int (length (elems required)) \<le> object_array_items l
     \<and> list_all is_str (elems required) \<and> distinct (elems required)
     \<and> list_all (\<lambda>r. case r of PStr s \<Rightarrow> SKey s \<in> fst ` set properties | _ \<Rightarrow> False) (elems required)"

definition schema_value_matches :: "pyval \<Rightarrow> string \<Rightarrow> bool" where
  "schema_value_matches v t =
     (if t = ''string'' then is_str v
      else if t = ''boolean'' then is_bool v
      else if t = ''integer'' then is_int v \<and> \<not> is_bool v
      else if t = ''number'' then finite_number v
      else if t = ''object'' then is_mapping v
      else if t = ''array'' then is_seq v
      else v = PNone)"

definition check_enum :: "limits \<Rightarrow> items \<Rightarrow> string \<Rightarrow> unit outcome" where
  "check_enum l kvs t = (case dget kvs ''enum'' of
      None \<Rightarrow> Inr ()
    | Some values \<Rightarrow>
        bindE (checkE (is_seq values \<and> elems values \<noteq> [] \<and> int (length (elems values)) \<le> object_array_items l) itp) (\<lambda>_.
        bindE (json_value l None 0 values) (\<lambda>_.
        iterE (\<lambda>item. checkE (schema_value_matches item t) itp) (elems values))))"

definition length_bound_ok :: "items \<Rightarrow> string \<Rightarrow> string \<Rightarrow> bool" where
  "length_bound_ok kvs t key = (case dget kvs key of
      None \<Rightarrow> True
    | Some (PInt n) \<Rightarrow> t = ''string'' \<and> 0 \<le> n \<and> n \<le> tool_argument_bytes HARD_LIMITS
    | Some _ \<Rightarrow> False)"

definition number_bound_ok :: "items \<Rightarrow> string \<Rightarrow> string \<Rightarrow> bool" where
  "number_bound_ok kvs t key = (case dget kvs key of
      None \<Rightarrow> True
    | Some v \<Rightarrow> (t = ''integer'' \<or> t = ''number'') \<and> finite_number v)"

text \<open>\<open>key1 in schema and key2 in schema and schema[key1] > schema[key2]\<close>.\<close>

definition out_of_order :: "items \<Rightarrow> string \<Rightarrow> string \<Rightarrow> bool" where
  "out_of_order kvs lo hi = (case (dget kvs lo, dget kvs hi) of
      (Some a, Some b) \<Rightarrow> num_less b a
    | _ \<Rightarrow> False)"

definition check_bounds :: "items \<Rightarrow> string \<Rightarrow> unit outcome" where
  "check_bounds kvs t =
     bindE (iterE (\<lambda>key. checkE (length_bound_ok kvs t key) itp) [''minLength'', ''maxLength'']) (\<lambda>_.
     bindE (checkE (\<not> out_of_order kvs ''minLength'' ''maxLength'') itp) (\<lambda>_.
     bindE (iterE (\<lambda>key. checkE (number_bound_ok kvs t key) itp) [''minimum'', ''maximum'']) (\<lambda>_.
     checkE (\<not> out_of_order kvs ''minimum'' ''maximum'') itp)))"

lemma size_dget: "dget kvs s = Some v \<Longrightarrow> size v < Suc (size_list (size_prod (\<lambda>_. 0) size) kvs)"
  using size_items [OF dget_member] .

lemma size_elems: "x \<in> set (elems v) \<Longrightarrow> size x < size v"
  by (cases v) (auto simp: elems_def intro: size_list_estimation' le_imp_less_Suc)

lemma size_items_of: "(k, x) \<in> set (items_of v) \<Longrightarrow> size x < size v"
  by (cases v) (auto simp: items_of_def dest: size_items)

lemma size_get_or:
  "(k, x) \<in> set (items_of (get_or kvs s empty_dict)) \<Longrightarrow> size x < Suc (size_list (size_prod (\<lambda>_. 0) size) kvs)"
  by (fastforce simp: get_or_def empty_dict_def split: option.splits dest: size_items_of size_dget)

function validate_schema_definition :: "limits \<Rightarrow> nat \<Rightarrow> pyval \<Rightarrow> unit outcome" where
  "validate_schema_definition l depth schema =
     (case schema of
        PDict k kvs \<Rightarrow>
          bindE (checkE (k \<noteq> OtherMapping \<and> \<not> too_deep l depth) itp) (\<lambda>_.
          bindE (checkE (keyset_within kvs SCHEMA_KEYS) itp) (\<lambda>_.
          case schema_type kvs of
            None \<Rightarrow> Inl itp
          | Some t \<Rightarrow>
              bindE (checkE (\<not> dhas kvs ''additionalProperties'' \<or> dget kvs ''additionalProperties'' = Some (PBool False)) itp) (\<lambda>_.
              bindE
                (if t = ''object'' then
                   bindE (checkE (is_dict (get_or kvs ''properties'' empty_dict)
                       \<and> int (length (items_of (get_or kvs ''properties'' empty_dict))) \<le> object_array_items l) itp) (\<lambda>_.
                   bindE (iterE (\<lambda>(name, child).
                       bindE (checkE (property_name_ok name) itp) (\<lambda>_.
                       validate_schema_definition l (Suc depth) child))
                     (items_of (get_or kvs ''properties'' empty_dict))) (\<lambda>_.
                   checkE (required_ok l (get_or kvs ''required'' (PList []))
                       (items_of (get_or kvs ''properties'' empty_dict))) itp))
                 else if t = ''array'' then
                   (case dget kvs ''items'' of
                      None \<Rightarrow> Inl itp
                    | Some child \<Rightarrow>
                        bindE (checkE (is_dict child) itp) (\<lambda>_. validate_schema_definition l (Suc depth) child))
                 else checkE (\<not> list_ex (dhas kvs) [''properties'', ''required'', ''items'', ''additionalProperties'']) itp) (\<lambda>_.
              bindE (check_enum l kvs t) (\<lambda>_.
              check_bounds kvs t)))))
      | _ \<Rightarrow> Inl itp)"
  by pat_completeness auto
termination
  by (relation "measure (\<lambda>(l, depth, s). size s)") (auto dest: size_get_or size_dget)

declare validate_schema_definition.simps [simp del]

definition enum_ok :: "items \<Rightarrow> pyval \<Rightarrow> bool" where
  "enum_ok kvs v = (case dget kvs ''enum'' of
      None \<Rightarrow> True
    | Some values \<Rightarrow> list_ex (\<lambda>item. py_type v = py_type item \<and> py_eq v item) (elems values))"

definition required_present :: "items \<Rightarrow> items \<Rightarrow> bool" where
  "required_present kvs value \<longleftrightarrow>
     list_all (\<lambda>r. case r of PStr s \<Rightarrow> SKey s \<in> fst ` set value | _ \<Rightarrow> False)
       (elems (get_or kvs ''required'' (PList [])))"

definition int_or :: "items \<Rightarrow> string \<Rightarrow> int \<Rightarrow> int" where
  "int_or kvs k d = (case dget kvs k of Some (PInt n) \<Rightarrow> n | _ \<Rightarrow> d)"

definition string_size_ok :: "limits \<Rightarrow> items \<Rightarrow> nat \<Rightarrow> bool" where
  "string_size_ok l kvs n \<longleftrightarrow> int_or kvs ''minLength'' 0 \<le> int n
     \<and> int n \<le> min (int_or kvs ''maxLength'' (tool_argument_bytes l)) (tool_argument_bytes l)"

definition number_in_bounds :: "items \<Rightarrow> pyval \<Rightarrow> bool" where
  "number_in_bounds kvs v \<longleftrightarrow> finite_number v
     \<and> (case dget kvs ''minimum'' of None \<Rightarrow> True | Some m \<Rightarrow> \<not> num_less v m)
     \<and> (case dget kvs ''maximum'' of None \<Rightarrow> True | Some m \<Rightarrow> \<not> num_less m v)"

text \<open>The schema of a declared property; a missing one is the \<open>KeyError\<close> of a subscription.\<close>

definition property_schema :: "items \<Rightarrow> pykey \<Rightarrow> pyval option" where
  "property_schema kvs key = map_of (items_of (get_or kvs ''properties'' empty_dict)) key"

function validate_schema :: "limits \<Rightarrow> pyval \<Rightarrow> pyval \<Rightarrow> unit outcome" where
  "validate_schema l value schema =
     bindE (validate_schema_definition l 0 schema) (\<lambda>_.
     let kvs = items_of schema in
     case schema_type kvs of
       None \<Rightarrow> Inl itp
     | Some t \<Rightarrow>
         bindE (checkE (schema_value_matches value t) itp) (\<lambda>_.
         bindE (checkE (enum_ok kvs value) itp) (\<lambda>_.
         if t = ''object'' then
           bindE (checkE (int (length (items_of value)) \<le> object_array_items l
               \<and> list_all (\<lambda>(key, v). property_schema kvs key \<noteq> None) (items_of value)) itp) (\<lambda>_.
           bindE (checkE (required_present kvs (items_of value)) itp) (\<lambda>_.
           iterE (\<lambda>(key, child). case property_schema kvs key of
               None \<Rightarrow> Inl KeyError
             | Some s \<Rightarrow> validate_schema l child s) (items_of value)))
         else if t = ''array'' then
           bindE (checkE (int (length (elems value)) \<le> object_array_items l) itp) (\<lambda>_.
           iterE (\<lambda>child. case dget kvs ''items'' of
               None \<Rightarrow> Inl KeyError
             | Some s \<Rightarrow> validate_schema l child s) (elems value))
         else if t = ''string'' then
           (case value of
              PStr s \<Rightarrow> (case utf8_encode s of
                  None \<Rightarrow> Inl UnicodeEncodeError
                | Some b \<Rightarrow> checkE (string_size_ok l kvs (length b)) itp)
            | _ \<Rightarrow> Inl AttributeError)
         else if t = ''integer'' \<or> t = ''number'' then checkE (number_in_bounds kvs value) itp
         else Inr ())))"
  by pat_completeness auto
termination
  by (relation "measure (\<lambda>(l, v, s). size v)") (auto dest: size_items_of size_elems)

declare validate_schema.simps [simp del]

section \<open>Specification\<close>

text \<open>Conformance of a value to a schema, with no check of the schema itself.\<close>

function conforms :: "limits \<Rightarrow> pyval \<Rightarrow> pyval \<Rightarrow> bool" where
  "conforms l value schema =
     (case schema_type (items_of schema) of
        None \<Rightarrow> False
      | Some t \<Rightarrow> schema_value_matches value t \<and> enum_ok (items_of schema) value
          \<and> (t = ''object'' \<longrightarrow> int (length (items_of value)) \<le> object_array_items l
               \<and> required_present (items_of schema) (items_of value)
               \<and> list_all (\<lambda>(key, child). case property_schema (items_of schema) key of
                    None \<Rightarrow> False | Some s \<Rightarrow> conforms l child s) (items_of value))
          \<and> (t = ''array'' \<longrightarrow> int (length (elems value)) \<le> object_array_items l
               \<and> list_all (\<lambda>child. case dget (items_of schema) ''items'' of
                    None \<Rightarrow> False | Some s \<Rightarrow> conforms l child s) (elems value))
          \<and> (t = ''string'' \<longrightarrow> (case value of
                 PStr s \<Rightarrow> \<not> list_ex surrogate s \<and> string_size_ok l (items_of schema) (length (utf8_bytes s))
               | _ \<Rightarrow> False))
          \<and> (t = ''integer'' \<or> t = ''number'' \<longrightarrow> number_in_bounds (items_of schema) value))"
  by pat_completeness auto
termination
  by (relation "measure (\<lambda>(l, v, s). size v)") (auto dest: size_items_of size_elems)

declare conforms.simps [simp del]

section \<open>Lemmas\<close>

lemma vsd_dict:
  "validate_schema_definition l d s = Inr u \<Longrightarrow> \<exists>k kvs. s = PDict k kvs \<and> k \<noteq> OtherMapping \<and> \<not> too_deep l d"
  by (subst (asm) validate_schema_definition.simps) (auto simp: bindE_eq_Inr split: pyval.splits)

lemma too_deep_mono: "too_deep l d \<Longrightarrow> too_deep l (Suc d)"
  by (simp add: too_deep_def)

text \<open>The child schemas of a schema, and the conditions that concern its own level only.\<close>

definition child_schemas :: "items \<Rightarrow> pyval list" where
  "child_schemas kvs =
     (if schema_type kvs = Some ''object'' then map snd (items_of (get_or kvs ''properties'' empty_dict))
      else if schema_type kvs = Some ''array'' then (case dget kvs ''items'' of None \<Rightarrow> [] | Some c \<Rightarrow> [c])
      else [])"

definition level_ok :: "limits \<Rightarrow> items \<Rightarrow> bool" where
  "level_ok l kvs \<longleftrightarrow> keyset_within kvs SCHEMA_KEYS
     \<and> (dhas kvs ''additionalProperties'' \<longrightarrow> dget kvs ''additionalProperties'' = Some (PBool False))
     \<and> (\<exists>t. schema_type kvs = Some t
        \<and> (if t = ''object'' then
              is_dict (get_or kvs ''properties'' empty_dict)
              \<and> int (length (items_of (get_or kvs ''properties'' empty_dict))) \<le> object_array_items l
              \<and> (\<forall>(name, child) \<in> set (items_of (get_or kvs ''properties'' empty_dict)). property_name_ok name)
              \<and> required_ok l (get_or kvs ''required'' (PList [])) (items_of (get_or kvs ''properties'' empty_dict))
            else if t = ''array'' then \<exists>child. dget kvs ''items'' = Some child \<and> is_dict child
            else \<not> list_ex (dhas kvs) [''properties'', ''required'', ''items'', ''additionalProperties''])
        \<and> check_enum l kvs t = Inr () \<and> check_bounds kvs t = Inr ())"

lemma vsd_Inr:
  "validate_schema_definition l d (PDict k kvs) = Inr () \<longleftrightarrow>
     k \<noteq> OtherMapping \<and> \<not> too_deep l d \<and> level_ok l kvs
     \<and> (\<forall>c \<in> set (child_schemas kvs). validate_schema_definition l (Suc d) c = Inr ())"
proof -
  have item: "(\<lambda>(name, child). bindE (checkE (property_name_ok name) itp)
        (\<lambda>_. validate_schema_definition l (Suc d) child)) x = Inr () \<longleftrightarrow>
      (case x of (name, child) \<Rightarrow> property_name_ok name \<and> validate_schema_definition l (Suc d) child = Inr ())" for x
    by (cases x) (auto simp: bindE_eq_Inr)
  have items: "(\<forall>x \<in> S. case x of (n, c) \<Rightarrow> P n \<and> Q c) \<longleftrightarrow> (\<forall>(n, c) \<in> S. P n) \<and> (\<forall>x \<in> S. Q (snd x))"
    for S :: "('x \<times> 'y) set" and P Q by fastforce
  show ?thesis
  proof (cases "schema_type kvs")
    case None
    then show ?thesis
      by (subst validate_schema_definition.simps) (auto simp: bindE_eq_Inr level_ok_def)
  next
    case (Some t)
    consider (obj) "t = ''object''" | (arr) "t = ''array''" | (leaf) "t \<noteq> ''object''" "t \<noteq> ''array''" by blast
    then show ?thesis
    proof cases
      case obj
      with Some show ?thesis
        by (subst validate_schema_definition.simps)
           (simp add: bindE_eq_Inr iterE_eq_Inr item items level_ok_def child_schemas_def, argo)
    next
      case arr
      with Some show ?thesis
        by (subst validate_schema_definition.simps)
           (cases "dget kvs ''items''", simp add: bindE_eq_Inr level_ok_def, simp add: bindE_eq_Inr level_ok_def child_schemas_def, argo?)
    next
      case leaf
      with Some show ?thesis
        by (subst validate_schema_definition.simps)
           (simp add: bindE_eq_Inr level_ok_def child_schemas_def, argo?)
    qed
  qed
qed

lemma size_child_schemas:
  assumes "c \<in> set (child_schemas kvs)"
  shows "size c < Suc (size_list (size_prod (\<lambda>_. 0) size) kvs)"
proof (cases "schema_type kvs = Some ''object''")
  case True
  then obtain n where "(n, c) \<in> set (items_of (get_or kvs ''properties'' empty_dict))"
    using assms by (auto simp: child_schemas_def)
  then show ?thesis by (rule size_get_or)
next
  case False
  then have "dget kvs ''items'' = Some c"
    using assms by (cases "schema_type kvs = Some ''array''"; cases "dget kvs ''items''"; simp add: child_schemas_def)
  then show ?thesis by (rule size_dget)
qed

lemma vsd_mono:
  "validate_schema_definition l (Suc d) s = Inr () \<Longrightarrow> validate_schema_definition l d s = Inr ()"
proof (induction "size s" arbitrary: d s rule: less_induct)
  case less
  obtain k kvs where s: "s = PDict k kvs" using vsd_dict [OF less.prems] by blast
  have "validate_schema_definition l (Suc d) c = Inr ()"
    if "c \<in> set (child_schemas kvs)" "validate_schema_definition l (Suc (Suc d)) c = Inr ()" for c
    using that less.hyps [of c "Suc d"] size_child_schemas [of c kvs] s by simp
  with less.prems s too_deep_mono [of l d] show ?case by (auto simp: vsd_Inr)
qed

lemma vsd_zero: "validate_schema_definition l d s = Inr () \<Longrightarrow> validate_schema_definition l 0 s = Inr ()"
  by (induction d) (auto intro: vsd_mono)

lemma vsd_child:
  assumes "validate_schema_definition l 0 schema = Inr ()"
  shows "schema_type (items_of schema) = Some ''object'' \<Longrightarrow> property_schema (items_of schema) key = Some s
      \<Longrightarrow> validate_schema_definition l 0 s = Inr ()"
    and "schema_type (items_of schema) = Some ''array'' \<Longrightarrow> dget (items_of schema) ''items'' = Some s
      \<Longrightarrow> validate_schema_definition l 0 s = Inr ()"
proof -
  obtain k kvs where schema: "schema = PDict k kvs" using vsd_dict [OF assms] by blast
  with assms have c: "\<And>c. c \<in> set (child_schemas kvs) \<Longrightarrow> validate_schema_definition l 0 c = Inr ()"
    by (auto simp: vsd_Inr intro: vsd_zero)
  show "schema_type (items_of schema) = Some ''object'' \<Longrightarrow> property_schema (items_of schema) key = Some s
      \<Longrightarrow> validate_schema_definition l 0 s = Inr ()"
    using schema by (intro c) (force simp: child_schemas_def property_schema_def dest: map_of_SomeD)
  show "schema_type (items_of schema) = Some ''array'' \<Longrightarrow> dget (items_of schema) ''items'' = Some s
      \<Longrightarrow> validate_schema_definition l 0 s = Inr ()"
    using schema by (intro c) (simp add: child_schemas_def)
qed

lemma schema_type_cases:
  assumes "schema_type kvs = Some t"
  obtains "t = ''object''" | "t = ''array''" | "t = ''string''" | "t = ''integer''" | "t = ''number''"
    | "t = ''boolean''" | "t = ''null''"
  using assms by (auto simp: schema_type_def find_Some_iff SCHEMA_TYPES_def
      nth_Cons' split: option.splits pyval.splits if_splits)

lemma validate_schema_conforms:
  "validate_schema_definition l 0 schema = Inr () \<Longrightarrow>
     validate_schema l v schema = Inr () \<longleftrightarrow> conforms l v schema"
proof (induction "size v" arbitrary: v schema rule: less_induct)
  case less
  note def = less.prems
  show ?case
  proof (cases "schema_type (items_of schema)")
    case None
    then show ?thesis by (subst validate_schema.simps, subst conforms.simps) (simp add: def)
  next
    case (Some t)
    have obj: "(case property_schema (items_of schema) key of None \<Rightarrow> Inl KeyError | Some s \<Rightarrow> validate_schema l child s) = Inr ()
       \<longleftrightarrow> (case property_schema (items_of schema) key of None \<Rightarrow> False | Some s \<Rightarrow> conforms l child s)"
      if "(key, child) \<in> set (items_of v)" "t = ''object''" for key child
      using less.hyps [OF size_items_of [OF that(1)]] vsd_child(1) [OF def] Some that by (auto split: option.splits)
    have arr: "(case dget (items_of schema) ''items'' of None \<Rightarrow> Inl KeyError | Some s \<Rightarrow> validate_schema l child s) = Inr ()
       \<longleftrightarrow> (case dget (items_of schema) ''items'' of None \<Rightarrow> False | Some s \<Rightarrow> conforms l child s)"
      if "child \<in> set (elems v)" "t = ''array''" for child
      using less.hyps [OF size_elems [OF that(1)]] vsd_child(2) [OF def] Some that by (auto split: option.splits)
    have objs: "list_all (\<lambda>(key, v). property_schema (items_of schema) key \<noteq> None) (items_of v)
        \<and> iterE (\<lambda>(key, child). case property_schema (items_of schema) key of
            None \<Rightarrow> Inl KeyError | Some s \<Rightarrow> validate_schema l child s) (items_of v) = Inr ()
       \<longleftrightarrow> list_all (\<lambda>(key, child). case property_schema (items_of schema) key of
            None \<Rightarrow> False | Some s \<Rightarrow> conforms l child s) (items_of v)" if "t = ''object''"
      using obj [OF _ that] by (fastforce simp: iterE_eq_Inr list_all_iff split: option.splits)
    have arrs: "iterE (\<lambda>child. case dget (items_of schema) ''items'' of
            None \<Rightarrow> Inl KeyError | Some s \<Rightarrow> validate_schema l child s) (elems v) = Inr ()
       \<longleftrightarrow> list_all (\<lambda>child. case dget (items_of schema) ''items'' of
            None \<Rightarrow> False | Some s \<Rightarrow> conforms l child s) (elems v)" if "t = ''array''"
      using arr [OF _ that] by (simp add: iterE_eq_Inr list_all_iff)
    from Some show ?thesis
    proof (cases rule: schema_type_cases)
      case 1
      with Some have "validate_schema l v schema = Inr () \<longleftrightarrow> schema_value_matches v t \<and> enum_ok (items_of schema) v
          \<and> int (length (items_of v)) \<le> object_array_items l
          \<and> required_present (items_of schema) (items_of v)
          \<and> list_all (\<lambda>(key, v). property_schema (items_of schema) key \<noteq> None) (items_of v)
          \<and> iterE (\<lambda>(key, child). case property_schema (items_of schema) key of
              None \<Rightarrow> Inl KeyError | Some s \<Rightarrow> validate_schema l child s) (items_of v) = Inr ()"
        by (subst validate_schema.simps) (auto simp: def bindE_eq_Inr Let_def)
      also have "\<dots> \<longleftrightarrow> conforms l v schema"
        unfolding objs [OF 1] using 1 Some by (subst conforms.simps) simp
      finally show ?thesis .
    next
      case 2
      with Some arrs show ?thesis
        by (subst validate_schema.simps, subst conforms.simps) (simp add: def bindE_eq_Inr Let_def)
    next
      case 3
      with Some show ?thesis
        by (subst validate_schema.simps, subst conforms.simps)
           (cases v; simp add: def bindE_eq_Inr Let_def utf8_encode_def)
    qed (use Some in \<open>(subst validate_schema.simps, subst conforms.simps, simp add: def bindE_eq_Inr Let_def)\<close>)+
  qed
qed

lemma validate_schema_Inr:
  "validate_schema l v schema = Inr () \<longleftrightarrow> validate_schema_definition l 0 schema = Inr () \<and> conforms l v schema"
proof (cases "validate_schema_definition l 0 schema")
  case (Inl e)
  then show ?thesis by (subst validate_schema.simps) simp
next
  case (Inr u)
  then show ?thesis by (simp add: validate_schema_conforms)
qed

subsection \<open>Failures\<close>

lemma check_enum_Inl: "check_enum l kvs t = Inl e \<Longrightarrow> e \<in> {itp, lvf}"
  by (auto simp: check_enum_def bindE_eq_Inl split: option.splits dest!: iterE_Inl_member json_value_Inl)

lemma check_bounds_Inl: "check_bounds kvs t = Inl e \<Longrightarrow> e = itp"
  by (auto simp: check_bounds_def bindE_eq_Inl)

lemma vsd_Inl: "validate_schema_definition l d s = Inl e \<Longrightarrow> e \<in> {itp, lvf}"
proof (induction "size s" arbitrary: d s rule: less_induct)
  case less
  show ?case
  proof (cases s)
    case (PDict k kvs)
    have propc: "e \<in> {itp, lvf}" if "(n, c) \<in> set (items_of (get_or kvs ''properties'' empty_dict))"
        "validate_schema_definition l (Suc d) c = Inl e" for n c
      using that less.hyps [of c "Suc d"] size_get_or [of n c kvs "''properties''"] PDict by simp
    have child: "e \<in> {itp, lvf}" if "dget kvs ''items'' = Some c" "validate_schema_definition l (Suc d) c = Inl e" for c
      using that less.hyps [of c "Suc d"] size_dget [of kvs "''items''" c] PDict by simp
    have props: "e \<in> {itp, lvf}" if "iterE (\<lambda>(name, child). bindE (checkE (property_name_ok name) itp)
        (\<lambda>_. validate_schema_definition l (Suc d) child)) (items_of (get_or kvs ''properties'' empty_dict)) = Inl e"
      using iterE_Inl_member [OF that] propc by (fastforce simp: bindE_eq_Inl)
    show ?thesis
    proof (cases "schema_type kvs")
      case None
      with less.prems PDict show ?thesis
        by (subst (asm) validate_schema_definition.simps) (auto simp: bindE_eq_Inl)
    next
      case (Some t)
      note checks = check_enum_Inl [of l kvs t e] check_bounds_Inl [of kvs t e]
      consider "t = ''object''" | "t = ''array''" | "t \<noteq> ''object''" "t \<noteq> ''array''" by blast
      then show ?thesis
      proof cases
        case 1
        then show ?thesis using less.prems PDict Some props checks
          by (subst (asm) validate_schema_definition.simps) (auto simp: bindE_eq_Inl)
      next
        case 2
        then show ?thesis using less.prems PDict Some child checks
          by (subst (asm) validate_schema_definition.simps) (cases "dget kvs ''items''", auto simp: bindE_eq_Inl)
      next
        case 3
        then show ?thesis using less.prems PDict Some checks
          by (subst (asm) validate_schema_definition.simps) (auto simp: bindE_eq_Inl)
      qed
    qed
  qed (use less.prems in \<open>subst (asm) validate_schema_definition.simps, simp\<close>)+
qed

lemma validate_schema_Inl: "validate_schema l v schema = Inl e \<Longrightarrow> e \<in> {itp, lvf, UnicodeEncodeError}"
proof (induction "size v" arbitrary: v schema rule: less_induct)
  case less
  show ?case
  proof (cases "validate_schema_definition l 0 schema")
    case (Inl e')
    with less.prems vsd_Inl [OF Inl] show ?thesis by (subst (asm) validate_schema.simps) auto
  next
    case (Inr u)
    then obtain k kvs where schema: "schema = PDict k kvs" and level: "level_ok l kvs"
      using vsd_dict [OF Inr] by (auto simp: vsd_Inr)
    then obtain t where t: "schema_type kvs = Some t" by (auto simp: level_ok_def)
    have arr: "\<exists>s. dget kvs ''items'' = Some s" if "t = ''array''" using level t that by (auto simp: level_ok_def)
    have obj: "e \<in> {itp, lvf, UnicodeEncodeError}"
      if all: "list_all (\<lambda>(key, v). property_schema kvs key \<noteq> None) (items_of v)"
        and "iterE (\<lambda>(key, child). case property_schema kvs key of
               None \<Rightarrow> Inl KeyError | Some s \<Rightarrow> validate_schema l child s) (items_of v) = Inl e"
    proof -
      from iterE_Inl_member [OF that(2)] obtain key c where mem: "(key, c) \<in> set (items_of v)"
        and "(case property_schema kvs key of None \<Rightarrow> Inl KeyError | Some s \<Rightarrow> validate_schema l c s) = Inl e"
        by auto
      moreover from all mem obtain s where "property_schema kvs key = Some s" by (auto simp: list_all_iff)
      ultimately show ?thesis using less.hyps [OF size_items_of [OF mem], of s] by simp
    qed
    have elem: "e \<in> {itp, lvf, UnicodeEncodeError}"
      if "iterE (\<lambda>c. validate_schema l c s) (elems v) = Inl e" for s
      using iterE_Inl_member [OF that] less.hyps size_elems by blast
    from t show ?thesis
    proof (cases rule: schema_type_cases)
      case 1
      with less.prems Inr schema t obj show ?thesis
        by (subst (asm) validate_schema.simps) (auto simp: bindE_eq_Inl bindE_eq_Inr Let_def)
    next
      case 2
      with less.prems Inr schema t arr elem show ?thesis
        by (subst (asm) validate_schema.simps) (auto simp: bindE_eq_Inl bindE_eq_Inr Let_def)
    next
      case 3
      with less.prems Inr schema t show ?thesis
        by (subst (asm) validate_schema.simps, cases v)
           (auto simp: bindE_eq_Inl bindE_eq_Inr Let_def schema_value_matches_def is_str_def split: option.splits)
    qed (use less.prems Inr schema t in
        \<open>(subst (asm) validate_schema.simps, auto simp: bindE_eq_Inl bindE_eq_Inr Let_def)\<close>)+
  qed
qed

lemma deep_frozen_dget: "deep_frozen (PDict k kvs) \<Longrightarrow> dget kvs s = Some v \<Longrightarrow> deep_frozen v"
  by (auto dest!: dget_member)

lemma deep_frozen_elems: "deep_frozen v \<Longrightarrow> x \<in> set (elems v) \<Longrightarrow> deep_frozen x"
  by (cases v) (auto simp: elems_def)

lemma frozen_enum_rejects_plain:
  assumes "deep_frozen (PDict k kvs)" and "dhas kvs ''enum''" and "is_list v \<or> py_type v = TDict Plain"
  shows "\<not> enum_ok kvs v"
proof
  assume "enum_ok kvs v"
  with assms(2) obtain vs x where "dget kvs ''enum'' = Some vs" and x: "x \<in> set (elems vs)" "py_type v = py_type x"
    by (auto simp: enum_ok_def dhas_def list_ex_iff)
  then have "deep_frozen x" using deep_frozen_dget [OF assms(1)] deep_frozen_elems by blast
  with x(2) assms(3) show False
    by (cases x; cases v) (auto simp: py_type_def is_list_def)
qed

section \<open>Properties\<close>

text \<open>
  C8: \<open>_validate_schema\<close> accepts exactly the values that conform to a legal schema. The definition
  check it repeats for every nested value never changes the verdict: one check of the root schema
  is enough.
\<close>

theorem validate_schema_is_conformance:
  "validate_schema l v schema = Inr () \<longleftrightarrow> validate_schema_definition l 0 schema = Inr () \<and> conforms l v schema"
  by (rule validate_schema_Inr)

text \<open>
  schema validation fails only in classified ways: an invalid tool proposal, a local validation
  failure from the values of an enum, or the encoding error of a lone surrogate in an argument. No
  missing key, wrong type or attribute access escapes.
\<close>

theorem schema_failures_are_classified:
  "validate_schema_definition l depth schema \<in> {Inr (), Inl itp, Inl lvf}
   \<and> validate_schema l v schema \<in> {Inr (), Inl itp, Inl lvf, Inl UnicodeEncodeError}"
  using vsd_Inl [of l depth schema] validate_schema_Inl [of l v schema]
  by (cases "validate_schema_definition l depth schema"; cases "validate_schema l v schema") auto

text \<open>
  the enum test compares Python types, and the schemas of advertised tools are frozen while
  arguments parsed from JSON are plain: so no list or dict argument is ever accepted by an advertised
  schema that has an enum.
\<close>

theorem container_enums_accept_no_parsed_argument:
  assumes "deep_frozen schema" and "dhas (items_of schema) ''enum''" and "is_list v \<or> py_type v = TDict Plain"
  shows "validate_schema l v schema \<noteq> Inr ()"
proof
  assume "validate_schema l v schema = Inr ()"
  then have def: "validate_schema_definition l 0 schema = Inr ()" and "conforms l v schema"
    by (simp_all add: validate_schema_Inr)
  then have "enum_ok (items_of schema) v" by (subst (asm) conforms.simps) (simp split: option.splits)
  moreover obtain k kvs where "schema = PDict k kvs" using vsd_dict [OF def] by blast
  ultimately show False using frozen_enum_rejects_plain [of k kvs v] assms by simp
qed

theorem container_enums_accept_no_parsed_argument_witness:
  "validate_schema DEFAULT_LIMITS (PList [PInt 1])
     (PDict Frozen [(SKey (py ''type''), PStr (py ''array'')), (SKey (py ''items''), PDict Frozen [(SKey (py ''type''), PStr (py ''integer''))]),
        (SKey (py ''enum''), PTuple [PTuple [PInt 1]])]) \<noteq> Inr ()"
  by (rule container_enums_accept_no_parsed_argument) (simp_all add: dhas_def)

end
