(* ===== verification/Py_Regex.thy ===== *)
theory Py_Regex
  imports Py_Text
begin

text \<open>
  Python's \<open>re\<close> as far as the sources use it: character classes, sequence, alternation, greedy
  bounded and unbounded repetition, \<open>^\<close>, \<open>$\<close>, \<open>\b\<close> and the one-character negative lookbehind.
  \<open>ends r t i\<close> lists the end positions of the matches of \<open>r\<close> at position \<open>i\<close> of \<open>t\<close> in the order the
  backtracking matcher tries them, so its head is the match Python reports; \<open>fullmatch\<close> and
  \<open>finditer\<close> are defined from it. The lemmas reduce the patterns of the sources to conditions on the
  characters.
\<close>

section \<open>Definitions\<close>

datatype regex =
    RChar "nat \<Rightarrow> bool"
  | RSeq regex regex
  | RAlt regex regex
  | RRep nat "nat option" regex
  | REmpty
  | RBegin
  | REnd
  | RWordB "nat \<Rightarrow> bool"
  | RNotBehind "nat \<Rightarrow> bool"

text \<open>
  Greedy repetition of a matcher: at least \<open>lo\<close> and at most \<open>hi\<close> rounds, longer first; an
  iteration that consumes nothing ends the repetition.
\<close>

fun rep_ends :: "(nat \<Rightarrow> nat list) \<Rightarrow> nat \<Rightarrow> nat \<Rightarrow> nat \<Rightarrow> nat list" where
  "rep_ends f lo 0 i = (if lo = 0 then [i] else [])"
| "rep_ends f lo (Suc hi) i =
     concat (map (\<lambda>j. if j = i then [] else rep_ends f (lo - 1) hi j) (f i))
     @ (if lo = 0 then [i] else [])"

definition word_at :: "(nat \<Rightarrow> bool) \<Rightarrow> pystr \<Rightarrow> nat \<Rightarrow> bool" where
  "word_at w t i \<longleftrightarrow> i < length t \<and> w (t ! i)"

primrec ends :: "regex \<Rightarrow> pystr \<Rightarrow> nat \<Rightarrow> nat list" where
  "ends (RChar p) t i = (if i < length t \<and> p (t ! i) then [Suc i] else [])"
| "ends (RSeq r s) t i = concat (map (ends s t) (ends r t i))"
| "ends (RAlt r s) t i = ends r t i @ ends s t i"
| "ends (RRep lo hi r) t i =
     rep_ends (ends r t) lo (case hi of Some n \<Rightarrow> n | None \<Rightarrow> length t) i"
| "ends REmpty t i = [i]"
| "ends RBegin t i = (if i = 0 then [i] else [])"
| "ends REnd t i =
     (if i = length t \<or> (Suc i = length t \<and> t ! i = 10) then [i] else [])"
| "ends (RWordB w) t i =
     (if word_at w t i \<noteq> (0 < i \<and> word_at w t (i - 1)) then [i] else [])"
| "ends (RNotBehind p) t i = (if 0 < i \<and> p (t ! (i - 1)) then [] else [i])"

definition fullmatch :: "regex \<Rightarrow> pystr \<Rightarrow> bool" where
  "fullmatch r t \<longleftrightarrow> length t \<in> set (ends r t 0)"

definition RStr :: "pystr \<Rightarrow> regex" where
  "RStr s = foldr (\<lambda>c r. RSeq (RChar (\<lambda>x. x = c)) r) s REmpty"

definition RSeqs :: "regex list \<Rightarrow> regex" where
  "RSeqs rs = foldr RSeq rs REmpty"

definition RAlts :: "regex list \<Rightarrow> regex" where
  "RAlts rs = foldr RAlt rs (RChar (\<lambda>_. False))"

abbreviation RStar :: "regex \<Rightarrow> regex" where
  "RStar r \<equiv> RRep 0 None r"

abbreviation RPlus :: "regex \<Rightarrow> regex" where
  "RPlus r \<equiv> RRep 1 None r"

abbreviation ROpt :: "regex \<Rightarrow> regex" where
  "ROpt r \<equiv> RRep 0 (Some 1) r"

text \<open>
  \<open>[m.span() for m in finditer(...)]\<close> for patterns that match no empty string: from each position
  the first match in matcher order, then on from its end.
\<close>

function spans_from :: "regex \<Rightarrow> pystr \<Rightarrow> nat \<Rightarrow> (nat \<times> nat) list" where
  "spans_from r t i =
     (if length t \<le> i then []
      else (case ends r t i of
              [] \<Rightarrow> spans_from r t (Suc i)
            | j # _ \<Rightarrow> if i < j then (i, j) # spans_from r t j else spans_from r t (Suc i)))"
  by pat_completeness auto
termination
  by (relation "measure (\<lambda>(r, t, i). length t - i)") (auto split: if_splits)

declare spans_from.simps [simp del]

definition finditer_spans :: "regex \<Rightarrow> pystr \<Rightarrow> (nat \<times> nat) list" where
  "finditer_spans r t = spans_from r t 0"

section \<open>Lemmas\<close>

lemma ends_RSeq_iff: "k \<in> set (ends (RSeq r s) t i) \<longleftrightarrow> (\<exists>j \<in> set (ends r t i). k \<in> set (ends s t j))"
  by auto

lemma rep_ends_mono:
  assumes "\<And>i j. j \<in> set (f i) \<Longrightarrow> i \<le> j"
  shows "j \<in> set (rep_ends f lo hi i) \<Longrightarrow> i \<le> j"
proof (induction hi arbitrary: lo i)
  case (Suc hi)
  then show ?case by (auto split: if_splits dest!: assms intro: le_trans)
qed (auto split: if_splits)

lemma ends_mono: "j \<in> set (ends r t i) \<Longrightarrow> i \<le> j"
proof (induction r arbitrary: i j)
  case (RSeq r s)
  then show ?case by (fastforce dest: le_trans)
next
  case (RRep lo hi r)
  then show ?case using rep_ends_mono [of "ends r t"] by auto
qed (auto split: if_splits)

lemma rep_ends_le:
  assumes "\<And>i j. j \<in> set (f i) \<Longrightarrow> i \<le> n \<Longrightarrow> j \<le> n"
  shows "j \<in> set (rep_ends f lo hi i) \<Longrightarrow> i \<le> n \<Longrightarrow> j \<le> n"
proof (induction hi arbitrary: lo i)
  case (Suc hi)
  then show ?case by (auto split: if_splits dest: assms)
qed (auto split: if_splits)

lemma ends_le: "j \<in> set (ends r t i) \<Longrightarrow> i \<le> length t \<Longrightarrow> j \<le> length t"
proof (induction r arbitrary: i j)
  case (RRep lo hi r)
  then show ?case using rep_ends_le [of "ends r t" "length t"] by auto
qed (auto split: if_splits)

text \<open>A repeated character class, at enough rounds, matches every run of the class.\<close>

lemma rep_ends_class:
  assumes "i \<le> length t"
  shows "j \<in> set (rep_ends (ends (RChar p) t) lo hi i) \<longleftrightarrow>
     i + lo \<le> j \<and> j \<le> length t \<and> j \<le> i + hi \<and> list_all p (take (j - i) (drop i t))"
  using assms
proof (induction hi arbitrary: lo i)
  case 0
  then show ?case by auto
next
  case (Suc hi)
  show ?case
  proof (cases "i < length t \<and> p (t ! i)")
    case True
    then have "drop i t = t ! i # drop (Suc i) t" by (simp add: Cons_nth_drop_Suc)
    then have "list_all p (take (j - i) (drop i t)) \<longleftrightarrow> list_all p (take (j - Suc i) (drop (Suc i) t))"
      if "i < j" using True that by (cases "j - i") (auto simp: Suc_diff_Suc [symmetric])
    note step = this
    have eq: "set (rep_ends (ends (RChar p) t) lo (Suc hi) i) =
        set (rep_ends (ends (RChar p) t) (lo - 1) hi (Suc i)) \<union> (if lo = 0 then {i} else {})"
      using True by auto
    show ?thesis
    proof (cases "i < j")
      case True
      with step have "list_all p (take (j - i) (drop i t)) \<longleftrightarrow> list_all p (take (j - Suc i) (drop (Suc i) t))"
        by blast
      moreover have "Suc i + (lo - 1) \<le> j \<longleftrightarrow> i + lo \<le> j" using True by (cases lo) auto
      ultimately show ?thesis
        unfolding eq Un_iff using Suc.IH [of "Suc i" "lo - 1"] \<open>i < length t \<and> p (t ! i)\<close> True
        by (auto simp del: ends.simps(1))
    next
      case False
      then show ?thesis
        unfolding eq Un_iff using Suc.IH [of "Suc i" "lo - 1"] \<open>i < length t \<and> p (t ! i)\<close>
        by (simp add: not_less del: ends.simps(1)) linarith
    qed
  next
    case False
    have "\<not> list_all p (take (j - i) (drop i t))" if "i < j" "j \<le> length t"
    proof -
      from that have "i < length t" by simp
      then have "drop i t = t ! i # drop (Suc i) t" by (simp add: Cons_nth_drop_Suc)
      with False that show ?thesis by (cases "j - i") auto
    qed
    with False Suc.prems show ?thesis by (auto simp: le_eq_less_or_eq)
  qed
qed

lemma ends_class:
  assumes "i \<le> length t"
  shows "j \<in> set (ends (RRep lo None (RChar p)) t i) \<longleftrightarrow>
     i + lo \<le> j \<and> j \<le> length t \<and> list_all p (take (j - i) (drop i t))"
  using rep_ends_class [OF assms, of j p lo "length t"] by (auto simp del: ends.simps(1))

lemma ends_class_bounded:
  assumes "i \<le> length t"
  shows "j \<in> set (ends (RRep lo (Some hi) (RChar p)) t i) \<longleftrightarrow>
     i + lo \<le> j \<and> j \<le> length t \<and> j \<le> i + hi \<and> list_all p (take (j - i) (drop i t))"
  using rep_ends_class [OF assms, of j p lo hi] by (auto simp del: ends.simps(1))

lemma ends_RStr:
  assumes "i \<le> length t"
  shows "set (ends (RStr s) t i) = (if take (length s) (drop i t) = s then {i + length s} else {})"
  using assms
proof (induction s arbitrary: i)
  case Nil
  then show ?case by (simp add: RStr_def)
next
  case (Cons c s)
  show ?case
  proof (cases "i < length t")
    case True
    then have d: "drop i t = t ! i # drop (Suc i) t" by (simp add: Cons_nth_drop_Suc)
    have "ends (RStr (c # s)) t i = (if t ! i = c then ends (RStr s) t (Suc i) else [])"
      using True by (simp add: RStr_def)
    then show ?thesis using Cons.IH [of "Suc i"] True d by auto
  next
    case False
    then show ?thesis by (simp add: RStr_def)
  qed
qed

text \<open>The shape \<open>^prefix[class]+$\<close>, shared by the canonical identifiers of the sources.\<close>

definition prefix_class :: "pystr \<Rightarrow> (nat \<Rightarrow> bool) \<Rightarrow> regex" where
  "prefix_class s p = RSeqs [RBegin, RStr s, RPlus (RChar p), REnd]"

lemma fullmatch_prefix_class:
  "fullmatch (prefix_class s p) t \<longleftrightarrow> (\<exists>u. t = s @ u \<and> u \<noteq> [] \<and> list_all p u)"
proof -
  have short: "length s \<le> length t" if "take (length s) t = s"
    using that by (metis length_take min.cobounded1)
  have "fullmatch (prefix_class s p) t \<longleftrightarrow>
      take (length s) t = s \<and> length s < length t \<and> list_all p (drop (length s) t)"
    using short ends_RStr [of 0 t s] ends_class [of "length s" t "length t" 1 p]
    by (auto simp: fullmatch_def prefix_class_def RSeqs_def simp del: ends.simps(4) split: if_splits)
  also have "\<dots> \<longleftrightarrow> (\<exists>u. t = s @ u \<and> u \<noteq> [] \<and> list_all p u)"
    by (metis append_eq_conv_conj append_take_drop_id drop_eq_Nil length_append
        length_greater_0_conv less_add_same_cancel1 linorder_not_less)
  finally show ?thesis .
qed

text \<open>The shape \<open>^[first][rest]{0,n}$\<close>.\<close>

definition head_class :: "(nat \<Rightarrow> bool) \<Rightarrow> (nat \<Rightarrow> bool) \<Rightarrow> nat option \<Rightarrow> regex" where
  "head_class p q n = RSeqs [RBegin, RChar p, RRep 0 n (RChar q), REnd]"

lemma fullmatch_head_class:
  "fullmatch (head_class p q (Some n)) t \<longleftrightarrow>
     (\<exists>c u. t = c # u \<and> p c \<and> list_all q u \<and> length u \<le> n)"
proof (cases t)
  case Nil
  then show ?thesis by (simp add: fullmatch_def head_class_def RSeqs_def)
next
  case (Cons c u)
  then show ?thesis
    using ends_class_bounded [of 1 t "length t" 0 n q]
    by (auto simp: fullmatch_def head_class_def RSeqs_def simp del: ends.simps(4))
qed

lemma fullmatch_head_class_unbounded:
  "fullmatch (head_class p q None) t \<longleftrightarrow> (\<exists>c u. t = c # u \<and> p c \<and> list_all q u)"
proof (cases t)
  case Nil
  then show ?thesis by (simp add: fullmatch_def head_class_def RSeqs_def)
next
  case (Cons c u)
  then show ?thesis
    using ends_class [of 1 t "length t" 0 q]
    by (auto simp: fullmatch_def head_class_def RSeqs_def simp del: ends.simps(4))
qed

lemma spans_from_sorted:
  "(a, b) \<in> set (spans_from r t i) \<Longrightarrow> i \<le> a \<and> a < b \<and> b \<le> length t"
proof (induction r t i rule: spans_from.induct)
  case (1 r t i)
  show ?case
  proof (cases "length t \<le> i")
    case True
    with 1(4) show ?thesis by (simp add: spans_from.simps)
  next
    case False
    show ?thesis
    proof (cases "ends r t i")
      case Nil
      with False 1 show ?thesis by (fastforce simp: spans_from.simps [of r t i])
    next
      case (Cons j js)
      then have "i \<le> j" "j \<le> length t"
        using ends_mono [of j r t i] ends_le [of j r t i] False by auto
      with Cons False 1 show ?thesis
        by (cases "i < j") (fastforce simp: spans_from.simps [of r t i])+
    qed
  qed
qed

end
