(* ===== verification/Py_Hash.thy ===== *)
theory Py_Hash
  imports Py_Text "HOL-Library.Word"
begin

text \<open>
  \<open>hashlib.sha256(b).hexdigest()\<close>: the SHA-256 of FIPS 180-4 on byte lists, with 32-bit words, and its
  lower-case hexadecimal text. The agent uses it for tool-call identifiers, action identities and
  the identity of a tool surface; the lemmas give the alphabet and the length of the text.
\<close>

unbundle bit_operations_syntax

type_synonym u32 = "32 word"

definition sha_k :: "u32 list" where
  "sha_k =
    [0x428A2F98, 0x71374491, 0xB5C0FBCF, 0xE9B5DBA5, 0x3956C25B, 0x59F111F1, 0x923F82A4, 0xAB1C5ED5,
     0xD807AA98, 0x12835B01, 0x243185BE, 0x550C7DC3, 0x72BE5D74, 0x80DEB1FE, 0x9BDC06A7, 0xC19BF174,
     0xE49B69C1, 0xEFBE4786, 0x0FC19DC6, 0x240CA1CC, 0x2DE92C6F, 0x4A7484AA, 0x5CB0A9DC, 0x76F988DA,
     0x983E5152, 0xA831C66D, 0xB00327C8, 0xBF597FC7, 0xC6E00BF3, 0xD5A79147, 0x06CA6351, 0x14292967,
     0x27B70A85, 0x2E1B2138, 0x4D2C6DFC, 0x53380D13, 0x650A7354, 0x766A0ABB, 0x81C2C92E, 0x92722C85,
     0xA2BFE8A1, 0xA81A664B, 0xC24B8B70, 0xC76C51A3, 0xD192E819, 0xD6990624, 0xF40E3585, 0x106AA070,
     0x19A4C116, 0x1E376C08, 0x2748774C, 0x34B0BCB5, 0x391C0CB3, 0x4ED8AA4A, 0x5B9CCA4F, 0x682E6FF3,
     0x748F82EE, 0x78A5636F, 0x84C87814, 0x8CC70208, 0x90BEFFFA, 0xA4506CEB, 0xBEF9A3F7, 0xC67178F2]"

definition sha_init :: "u32 list" where
  "sha_init =
    [0x6A09E667, 0xBB67AE85, 0x3C6EF372, 0xA54FF53A, 0x510E527F, 0x9B05688C, 0x1F83D9AB, 0x5BE0CD19]"

definition sha_pad :: "pybytes \<Rightarrow> pybytes" where
  "sha_pad m =
     (let bits = 8 * int (length m)
      in m @ [128] @ replicate ((119 - length m mod 64) mod 64) 0
         @ map (\<lambda>i. nat (bits div 256 ^ (7 - i) mod 256)) [0..<8])"

fun words_of :: "pybytes \<Rightarrow> u32 list" where
  "words_of (a # b # c # d # bs) =
     word_of_int (int a * 16777216 + int b * 65536 + int c * 256 + int d) # words_of bs"
| "words_of _ = []"

definition small_s0 :: "u32 \<Rightarrow> u32" where
  "small_s0 x = word_rotr 7 x XOR word_rotr 18 x XOR drop_bit 3 x"

definition small_s1 :: "u32 \<Rightarrow> u32" where
  "small_s1 x = word_rotr 17 x XOR word_rotr 19 x XOR drop_bit 10 x"

definition big_s0 :: "u32 \<Rightarrow> u32" where
  "big_s0 x = word_rotr 2 x XOR word_rotr 13 x XOR word_rotr 22 x"

definition big_s1 :: "u32 \<Rightarrow> u32" where
  "big_s1 x = word_rotr 6 x XOR word_rotr 11 x XOR word_rotr 25 x"

text \<open>The message schedule, newest word first.\<close>

fun schedule :: "nat \<Rightarrow> u32 list \<Rightarrow> u32 list" where
  "schedule 0 ws = ws"
| "schedule (Suc n) ws = schedule n ((small_s1 (ws ! 1) + ws ! 6 + small_s0 (ws ! 14) + ws ! 15) # ws)"

fun sha_round :: "u32 list \<Rightarrow> u32 \<times> u32 \<Rightarrow> u32 list" where
  "sha_round [a, b, c, d, e, f, g, h] (k, w) =
     (let t1 = h + big_s1 e + ((e AND f) XOR (NOT e AND g)) + k + w;
          t2 = big_s0 a + ((a AND b) XOR (a AND c) XOR (b AND c))
      in [t1 + t2, a, b, c, d + t1, e, f, g])"
| "sha_round s kw = s"

definition sha_block :: "u32 list \<Rightarrow> u32 list \<Rightarrow> u32 list" where
  "sha_block s block =
     map2 (+) s (foldl sha_round s (zip sha_k (rev (schedule 48 (rev block)))))"

fun sha_blocks :: "u32 list \<Rightarrow> u32 list \<Rightarrow> u32 list" where
  "sha_blocks s [] = s"
| "sha_blocks s (w # ws) = sha_blocks (sha_block s (take 16 (w # ws))) (drop 15 ws)"

definition hex_word :: "u32 \<Rightarrow> pystr" where
  "hex_word w = map (\<lambda>i. hex_digit (nat (uint w div 16 ^ (7 - i) mod 16))) [0..<8]"

definition sha256_hex :: "pybytes \<Rightarrow> pystr" where
  "sha256_hex m = concat (map hex_word (sha_blocks sha_init (words_of (sha_pad m))))"

section \<open>Lemmas\<close>

lemma length_sha_round [simp]: "length (sha_round s kw) = length s"
  by (induction s kw rule: sha_round.induct) (simp_all add: Let_def)

lemma length_foldl_round: "length (foldl sha_round s kws) = length s"
  by (induction kws arbitrary: s) simp_all

lemma length_sha_block [simp]: "length (sha_block s b) = length s"
  by (simp add: sha_block_def length_foldl_round)

lemma length_sha_blocks [simp]: "length (sha_blocks s ws) = length s"
  by (induction s ws rule: sha_blocks.induct) simp_all

lemma length_hex_word [simp]: "length (hex_word w) = 8"
  by (simp add: hex_word_def)

lemma hex_digit_lower_hex: "n < 16 \<Longrightarrow> lower_hex (hex_digit n)"
  by (auto simp: lower_hex_def hex_digit_def ascii_digit_def)

lemma hex_word_lower_hex: "list_all lower_hex (hex_word w)"
proof -
  have "nat (i mod 16) < 16" for i :: int by (simp add: nat_less_iff)
  then show ?thesis by (simp add: hex_word_def list_all_iff hex_digit_lower_hex)
qed

lemma length_concat_hex: "length (concat (map hex_word ws)) = 8 * length ws"
  by (induction ws) simp_all

lemma length_sha256_hex [simp]: "length (sha256_hex m) = 64"
  by (simp add: sha256_hex_def length_concat_hex sha_init_def)

lemma sha256_hex_lower_hex: "list_all lower_hex (sha256_hex m)"
  using hex_word_lower_hex by (auto simp: sha256_hex_def list_all_iff)

text \<open>The first example of FIPS 180-4, evaluated by the kernel.\<close>

lemma sha256_hex_abc:
  "sha256_hex (py ''abc'') = py ''ba7816bf8f01cfea414140de5dae2223b00361a396177a9cb410ff61f20015ad''"
  by code_simp

end
