(* ===== verification/Identifiers.thy ===== *)
theory Identifiers
  imports Json_Values Py_Regex Py_Hash
begin

text \<open>
  The project-owned identifiers of \<open>contracts.py\<close>: request correlation ids and their counter, tool
  call ids (canonical ones are kept, legacy ones are hashed), model identifiers, tool names, bounded
  text, and the two string enumerations. The lemmas show that no identifier carries text outside
  its alphabet, and which ids the canonical check accepts again.
\<close>

section \<open>Definitions\<close>

definition CORRELATION_ID :: regex where
  "CORRELATION_ID = RSeqs [RBegin, RStr (py ''req-''), RPlus (RChar ascii_digit),
     RStar (RSeq (RChar (\<lambda>c. c = 45)) (RPlus (RChar ascii_digit))), REnd]"

definition CANONICAL_CALL_ID :: regex where
  "CANONICAL_CALL_ID = prefix_class (py ''call-'') ascii_digit"

definition name_char :: "nat \<Rightarrow> bool" where
  "name_char c \<longleftrightarrow> ascii_alnum c \<or> c = 95 \<or> c = 46 \<or> c = 45"

definition LEGACY_CALL_ID :: regex where
  "LEGACY_CALL_ID = head_class ascii_alnum name_char (Some 127)"

definition PROJECT_ID_MARKERS :: "string list" where
  "PROJECT_ID_MARKERS =
    [''authorization'', ''proxy-authorization'', ''bearer'', ''api-key'', ''apikey'', ''credential'',
     ''password'', ''secret'', ''token'', ''header'', ''path'', ''userinfo'', ''user-info'', ''sk-'',
     ''pk-'', ''rk-'', ''://'', ''http'', ''ftp'']"

text \<open>\<open>value.lower()\<close> is only taken of ASCII text here: every caller tests \<open>isascii\<close> first.\<close>

definition lower_ascii :: "pystr \<Rightarrow> pystr" where
  "lower_ascii s = map lower_ascii_char s"

definition has_project_id_marker :: "pystr \<Rightarrow> bool" where
  "has_project_id_marker s \<longleftrightarrow>
     list_ex (\<lambda>m. has_sub (py m) (lower_ascii s)) PROJECT_ID_MARKERS
     \<or> list_ex (\<lambda>c. c \<in> set s) [47, 92, 64, 63, 35, 58]"

definition canonical_correlation_id :: "pyval \<Rightarrow> pystr outcome" where
  "canonical_correlation_id v = (case v of
      PStr s \<Rightarrow> if isascii s \<and> length s \<le> 64 \<and> fullmatch CORRELATION_ID s then Inr s else Inl lvf
    | _ \<Rightarrow> Inl lvf)"

text \<open>\<open>RequestCorrelationId.new\<close> with the module's counter as state.\<close>

definition new_request_correlation_id :: "nat \<Rightarrow> pystr outcome \<times> nat" where
  "new_request_correlation_id counter =
     (let counter' = counter + 1
      in (canonical_correlation_id (PStr (py ''req-'' @ dec counter')), counter'))"

definition ToolCallId :: "pyval \<Rightarrow> pystr outcome" where
  "ToolCallId v = (case v of
      PStr s \<Rightarrow>
        if \<not> isascii s \<or> s = [] \<or> length s > 128 then Inl (raises INVALID_TOOL_PROPOSAL)
        else if fullmatch CANONICAL_CALL_ID s then Inr s
        else if has_project_id_marker s \<or> \<not> fullmatch LEGACY_CALL_ID s
          then Inl (raises INVALID_TOOL_PROPOSAL)
        else Inr (py ''call-'' @ take 32 (sha256_hex s))
    | _ \<Rightarrow> Inl (raises INVALID_TOOL_PROPOSAL))"

definition require_canonical :: "pyval \<Rightarrow> pystr outcome" where
  "require_canonical v = (case v of
      PStr s \<Rightarrow> if fullmatch CANONICAL_CALL_ID s then ToolCallId v else Inl lvf
    | _ \<Rightarrow> Inl lvf)"

definition model_char :: "nat \<Rightarrow> bool" where
  "model_char c \<longleftrightarrow> ascii_alnum c \<or> c = 46 \<or> c = 95 \<or> c = 45"

definition MODEL_GRAMMAR :: regex where
  "MODEL_GRAMMAR = RSeqs [RBegin, RChar ascii_alnum, RStar (RChar model_char),
     RStar (RSeqs [RChar (\<lambda>c. c = 47 \<or> c = 58), RChar ascii_alnum, RStar (RChar model_char)]), REnd]"

definition MODEL_SUSPICIOUS :: "string list" where
  "MODEL_SUSPICIOUS =
    [''authorization'', ''apikey'', ''api-key'', ''bearer'', ''credential'', ''password'', ''secret'', ''token'']"

definition ModelIdentifier :: "pyval \<Rightarrow> pystr outcome" where
  "ModelIdentifier v = (case v of
      PStr s \<Rightarrow>
        let lowered = lower_ascii s
        in if s = [] \<or> \<not> isascii s \<or> length s > 256 \<or> \<not> fullmatch MODEL_GRAMMAR s
              \<or> starts_with [47] s \<or> starts_with [92] s \<or> has_sub (py ''://'') s
              \<or> list_ex (\<lambda>m. has_sub (py m) lowered) MODEL_SUSPICIOUS
              \<or> list_ex (\<lambda>p. starts_with (py p) lowered) [''http:'', ''https:'', ''ftp:'', ''file:'']
           then Inl lvf else Inr s
    | _ \<Rightarrow> Inl lvf)"

datatype evidence_provenance =
    PROVIDER_SUGGESTION
  | ACCEPTED_TOOL_PROPOSAL
  | REJECTED_TOOL_PROPOSAL
  | VALIDATED_MCP_EVIDENCE
  | LOCALLY_DERIVED_PREDICATE
  | COMMITTED_SYNTHETIC_FIXTURE_ASSERTION
  | LOCAL_CONTROL_EVENT
  | FINAL_SUPPORTED_CONCLUSION
  | UNSUPPORTED_PROVIDER_OUTPUT

fun provenance_value :: "evidence_provenance \<Rightarrow> string" where
  "provenance_value PROVIDER_SUGGESTION = ''provider_suggestion''"
| "provenance_value ACCEPTED_TOOL_PROPOSAL = ''accepted_tool_proposal''"
| "provenance_value REJECTED_TOOL_PROPOSAL = ''rejected_tool_proposal''"
| "provenance_value VALIDATED_MCP_EVIDENCE = ''validated_mcp_evidence''"
| "provenance_value LOCALLY_DERIVED_PREDICATE = ''locally_derived_predicate''"
| "provenance_value COMMITTED_SYNTHETIC_FIXTURE_ASSERTION = ''committed_synthetic_fixture_assertion''"
| "provenance_value LOCAL_CONTROL_EVENT = ''local_control_event''"
| "provenance_value FINAL_SUPPORTED_CONCLUSION = ''final_supported_conclusion''"
| "provenance_value UNSUPPORTED_PROVIDER_OUTPUT = ''unsupported_provider_output''"

definition provenances :: "evidence_provenance list" where
  "provenances =
    [PROVIDER_SUGGESTION, ACCEPTED_TOOL_PROPOSAL, REJECTED_TOOL_PROPOSAL, VALIDATED_MCP_EVIDENCE,
     LOCALLY_DERIVED_PREDICATE, COMMITTED_SYNTHETIC_FIXTURE_ASSERTION, LOCAL_CONTROL_EVENT,
     FINAL_SUPPORTED_CONCLUSION, UNSUPPORTED_PROVIDER_OUTPUT]"

definition provenance_of_value :: "pystr \<Rightarrow> evidence_provenance option" where
  "provenance_of_value s = find (\<lambda>p. py (provenance_value p) = s) provenances"

datatype message_role = SYSTEM | USER | ASSISTANT

fun role_value :: "message_role \<Rightarrow> string" where
  "role_value SYSTEM = ''system''"
| "role_value USER = ''user''"
| "role_value ASSISTANT = ''assistant''"

text \<open>\<open>_identifier\<close>: the size of text whose characters are all in the ASCII alphabet is its length.\<close>

definition check_identifier :: "pyval \<Rightarrow> failure_class \<Rightarrow> unit outcome" where
  "check_identifier v c = (case v of
      PStr s \<Rightarrow> (case utf8_encode s of
          None \<Rightarrow> Inl (raises c)
        | Some b \<Rightarrow> checkE (s \<noteq> [] \<and> length b \<le> 64 \<and> list_all name_char s \<and> ascii_alnum (hd s)) (raises c))
    | _ \<Rightarrow> Inl (raises c))"

definition bounded_text_arg :: "pyval \<Rightarrow> int \<Rightarrow> failure_class \<Rightarrow> pystr outcome" where
  "bounded_text_arg v maximum c = (case v of
      PStr s \<Rightarrow> (case utf8_encode s of
          None \<Rightarrow> Inl (raises c)
        | Some b \<Rightarrow> if s \<noteq> [] \<and> int (length b) \<le> maximum then Inr s else Inl (raises c))
    | _ \<Rightarrow> Inl (raises c))"

section \<open>Lemmas\<close>

lemma CANONICAL_CALL_ID_iff:
  "fullmatch CANONICAL_CALL_ID s \<longleftrightarrow> (\<exists>u. s = py ''call-'' @ u \<and> u \<noteq> [] \<and> list_all ascii_digit u)"
  by (simp add: CANONICAL_CALL_ID_def fullmatch_prefix_class)

lemma LEGACY_CALL_ID_iff:
  "fullmatch LEGACY_CALL_ID s \<longleftrightarrow>
     (\<exists>c u. s = c # u \<and> ascii_alnum c \<and> list_all name_char u \<and> length u \<le> 127)"
  by (simp add: LEGACY_CALL_ID_def fullmatch_head_class)

lemma isascii_py: "isascii (py ''req-'')"
  by (simp add: py_def)

lemma ascii_digit_lower_hex: "ascii_digit c \<Longrightarrow> lower_hex c"
  by (simp add: lower_hex_def)

lemma ToolCallId_shape:
  assumes "ToolCallId v = Inr s"
  shows "\<exists>u. s = py ''call-'' @ u \<and> u \<noteq> [] \<and> list_all lower_hex u"
proof -
  have "take 32 (sha256_hex t) \<noteq> [] \<and> list_all lower_hex (take 32 (sha256_hex t))" for t
    using sha256_hex_lower_hex [of t] length_sha256_hex [of t]
    by (auto simp: list_all_iff simp del: length_sha256_hex dest: in_set_takeD)
  then show ?thesis
    using assms ascii_digit_lower_hex
    by (fastforce simp: ToolCallId_def CANONICAL_CALL_ID_iff list_all_iff split: pyval.splits if_splits)
qed

lemma ToolCallId_legacy:
  assumes "ToolCallId (PStr t) = Inr s" and "\<not> fullmatch CANONICAL_CALL_ID t"
  shows "s = py ''call-'' @ take 32 (sha256_hex t)"
  using assms by (auto simp: ToolCallId_def split: if_splits)

lemma require_canonical_Inr:
  "require_canonical v = Inr s \<longleftrightarrow> v = PStr s \<and> fullmatch CANONICAL_CALL_ID s \<and> length s \<le> 128"
proof -
  have "isascii t \<and> t \<noteq> []" if "fullmatch CANONICAL_CALL_ID t" for t
    using that by (fastforce simp: CANONICAL_CALL_ID_iff isascii_iff list_all_iff ascii_digit_def py_def)
  then show ?thesis
    by (auto simp: require_canonical_def ToolCallId_def split: pyval.splits if_splits)
qed

lemma fullmatch_correlation:
  assumes "u \<noteq> []" and "list_all ascii_digit u"
  shows "fullmatch CORRELATION_ID (py ''req-'' @ u)"
proof -
  let ?t = "py ''req-'' @ u"
  have "4 \<in> set (ends (RStr (py ''req-'')) ?t 0)" using ends_RStr [of 0 ?t "py ''req-''"] by simp
  moreover have "length ?t \<in> set (ends (RPlus (RChar ascii_digit)) ?t 4)"
    using ends_class [of 4 ?t "length ?t" 1 ascii_digit] assms by (cases u) auto
  moreover have "length ?t \<in> set (ends (RStar (RSeq (RChar (\<lambda>c. c = 45)) (RPlus (RChar ascii_digit)))) ?t (length ?t))"
    by (cases "length ?t") auto
  ultimately show ?thesis
    unfolding fullmatch_def CORRELATION_ID_def RSeqs_def
    by (auto simp del: ends.simps(4) length_py length_append intro!: bexI)
qed

lemma length_dec_bound: "n < 10 ^ k \<Longrightarrow> 0 < k \<Longrightarrow> length (dec n) \<le> k"
proof (induction k arbitrary: n)
  case (Suc k)
  show ?case
  proof (cases "n < 10")
    case True
    then show ?thesis by (subst dec.simps) simp
  next
    case False
    with Suc.prems have "n div 10 < 10 ^ k" "0 < k" by (auto simp: less_mult_imp_div_less intro!: Nat.gr0I)
    with Suc.IH [of "n div 10"] False show ?thesis by (subst dec.simps) simp
  qed
qed simp

lemma fresh_correlation_id:
  assumes "n < 10 ^ 60"
  shows "canonical_correlation_id (PStr (py ''req-'' @ dec n)) = Inr (py ''req-'' @ dec n)"
  using assms length_dec_bound [of n 60] fullmatch_correlation [of "dec n"] dec_digits [of _ n]
  by (simp add: canonical_correlation_id_def list_all_iff isascii_py)

lemma ToolCallId_length: "ToolCallId v = Inr s \<Longrightarrow> length s \<le> 128"
  by (auto simp: ToolCallId_def split: pyval.splits if_splits)

lemma check_identifier_Inr:
  "check_identifier v c = Inr u \<longleftrightarrow>
     (\<exists>s. v = PStr s \<and> s \<noteq> [] \<and> length s \<le> 64 \<and> list_all name_char s \<and> ascii_alnum (hd s))"
proof -
  have ascii: "list_all name_char s \<Longrightarrow> isascii s" for s
    by (auto simp: isascii_iff list_all_iff name_char_def ascii_alnum_def ascii_digit_def
        ascii_upper_def ascii_lower_def)
  have "\<not> list_all name_char s" if "utf8_encode s = None" for s
    using that ascii by fastforce
  moreover have "length b = length s" if "utf8_encode s = Some b" "list_all name_char s" for s b
    using that ascii by fastforce
  ultimately show ?thesis
    by (fastforce simp: check_identifier_def split: pyval.splits option.splits)
qed

lemma check_identifier_isascii: "check_identifier (PStr s) c = Inr u \<Longrightarrow> isascii s"
  by (auto simp: check_identifier_Inr isascii_iff list_all_iff name_char_def ascii_alnum_def ascii_digit_def
        ascii_upper_def ascii_lower_def)

lemma bounded_text_arg_Inr:
  "bounded_text_arg v m c = Inr s \<longleftrightarrow> v = PStr s \<and> s \<noteq> [] \<and> bounded_text m s"
  by (auto simp: bounded_text_arg_def bounded_text_def utf8_encode_def split: pyval.splits if_splits)

lemma ModelIdentifier_Inl: "ModelIdentifier v = Inl e \<Longrightarrow> e = lvf"
  by (auto simp: ModelIdentifier_def Let_def split: pyval.splits if_splits)

lemma provenance_listed: "p \<in> set provenances"
  by (cases p) (simp_all add: provenances_def)

lemma provenance_of_value_value: "provenance_of_value (py (provenance_value p)) = Some p"
  by (cases p) (simp_all add: provenance_of_value_def provenances_def)

interpretation provenance_names: partial_codec "\<lambda>p. py (provenance_value p)" provenance_of_value "\<lambda>_. True"
  by unfold_locales (rule provenance_of_value_value)


section \<open>Properties\<close>

text \<open>
  C35: the local correlation ids: as long as the counter is below 10 to the 59th, \<open>RequestCorrelationId.new\<close>
  succeeds, and it never returns the same id for two values of the counter, so every request of a
  process has its own id.
\<close>

theorem fresh_correlation_ids_are_valid_and_distinct:
  assumes "m < n" and "n < 10 ^ 59"
  shows "\<exists>a b. new_request_correlation_id m = (Inr a, m + 1) \<and> new_request_correlation_id n = (Inr b, n + 1)
    \<and> a \<noteq> b \<and> canonical_correlation_id (PStr a) = Inr a \<and> canonical_correlation_id (PStr b) = Inr b"
proof -
  have "k + 1 < 10 ^ 60" if "k < 10 ^ 59" for k :: nat using that by simp
  then show ?thesis using assms
    by (simp add: new_request_correlation_id_def Let_def fresh_correlation_id)
qed

theorem fresh_correlation_ids_are_valid_and_distinct_witness:
  "\<exists>a b. new_request_correlation_id 0 = (Inr a, 1) \<and> new_request_correlation_id 1 = (Inr b, 2) \<and> a \<noteq> b"
  using fresh_correlation_ids_are_valid_and_distinct [of 0 1] by (auto simp: numeral_2_eq_2)

text \<open>
  whatever text a provider proposes as a call id, the stored \<open>ToolCallId\<close> is \<open>call-\<close> followed by
  lower-case hexadecimal digits, so no provider text outside that alphabet is retained; and the
  canonical check accepts exactly the decimal ids, so the id built from a legacy one is accepted
  again only when its digest happens to have no letter.
\<close>

theorem tool_call_id_retains_no_provider_text:
  assumes "ToolCallId v = Inr s"
  shows "(\<exists>u. s = py ''call-'' @ u \<and> u \<noteq> [] \<and> list_all lower_hex u)
    \<and> (require_canonical (PStr s) = Inr s \<longleftrightarrow> list_all ascii_digit (drop 5 s))
    \<and> (require_canonical (PStr s) = Inr s \<or> require_canonical (PStr s) = Inl lvf)"
proof -
  from ToolCallId_shape [OF assms] obtain u where u: "s = py ''call-'' @ u" "u \<noteq> []" "list_all lower_hex u"
    by blast
  moreover have "fullmatch CANONICAL_CALL_ID s \<longleftrightarrow> list_all ascii_digit u"
    using u by (auto simp: CANONICAL_CALL_ID_iff)
  moreover have "length s \<le> 128" by (rule ToolCallId_length [OF assms])
  ultimately show ?thesis
    using require_canonical_Inr [of "PStr s" s] by (auto simp: require_canonical_def split: if_splits)
qed

theorem tool_call_id_retains_no_provider_text_witness:
  "require_canonical (PStr (py ''call-7'')) = Inr (py ''call-7'')"
proof -
  have "ToolCallId (PStr (py ''call-7'')) = Inr (py ''call-7'')"
    using CANONICAL_CALL_ID_iff [of "py ''call-7''"]
    by (simp add: ToolCallId_def py_def ascii_digit_def)
  from tool_call_id_retains_no_provider_text [OF this] show ?thesis by (simp add: py_def ascii_digit_def)
qed

end
