(* ===== verification/Contracts.thy ===== *)
theory Contracts
  imports Schemas Identifiers
begin

text \<open>
  The provider contracts of \<open>contracts.py\<close>: the validated records \<open>ProviderConfig\<close>, \<open>ProviderMessage\<close>,
  \<open>GenerationControls\<close>, \<open>AdvertisedTool\<close>, \<open>ProviderRequest\<close> and \<open>ProviderToolCallProposal\<close> with their
  constructors, the two \<open>to_json_bytes\<close> serializers, \<open>LocalActionIdentity\<close>, and
  \<open>parse_provider_response\<close>, the boundary at which untrusted provider text becomes typed proposals.
\<close>

section \<open>Definitions\<close>

record provider_config =
  endpoint :: pystr
  config_model :: pystr
  verify_tls :: bool
  allow_loopback_http :: bool
  redirects :: pystr

definition model_as :: "failure_class \<Rightarrow> pyval \<Rightarrow> pystr outcome" where
  "model_as c v = catchE (ModelIdentifier v) (\<lambda>e. Inl (case e of ProviderError _ \<Rightarrow> raises c | _ \<Rightarrow> e))"

definition ProviderConfig :: "pyval \<Rightarrow> pyval \<Rightarrow> pyval \<Rightarrow> pyval \<Rightarrow> pyval \<Rightarrow> provider_config outcome" where
  "ProviderConfig ep md tls loop redir =
     (let c = INVALID_PROVIDER_CONFIGURATION in
     bindE (bounded_text_arg ep 2048 c) (\<lambda>e.
     bindE (model_as c md) (\<lambda>m.
     bindE (checkE (is_bool tls \<and> is_bool loop) (raises c)) (\<lambda>_.
     bindE (checkE (redir = PStr (py ''reject'')) (raises c)) (\<lambda>_.
     Inr \<lparr> endpoint = e, config_model = m, verify_tls = (tls = PBool True),
           allow_loopback_http = (loop = PBool True), redirects = py ''reject'' \<rparr>)))))"

record provider_message =
  role :: message_role
  content :: pystr

definition ProviderMessage :: "message_role \<Rightarrow> pyval \<Rightarrow> provider_message outcome" where
  "ProviderMessage r c =
     bindE (bounded_text_arg c (message_bytes HARD_LIMITS) LOCAL_VALIDATION_FAILURE) (\<lambda>t.
     Inr \<lparr> role = r, content = t \<rparr>)"

record generation_controls =
  temperature :: pyval
  top_p :: pyval
  seed :: pyval

definition sampling_ok :: "pyval \<Rightarrow> bool" where
  "sampling_ok v \<longleftrightarrow> v = PNone \<or> finite_number v \<and> \<not> num_less v (PInt 0) \<and> \<not> num_less (PInt 2) v"

definition seed_ok :: "pyval \<Rightarrow> bool" where
  "seed_ok v = (case v of PNone \<Rightarrow> True | PInt n \<Rightarrow> 0 \<le> n \<and> n \<le> 2147483647 | _ \<Rightarrow> False)"

definition GenerationControls :: "pyval \<Rightarrow> pyval \<Rightarrow> pyval \<Rightarrow> generation_controls outcome" where
  "GenerationControls t p s =
     bindE (iterE (\<lambda>v. checkE (sampling_ok v) lvf) [t, p]) (\<lambda>_.
     bindE (checkE (seed_ok s) lvf) (\<lambda>_.
     Inr \<lparr> temperature = t, top_p = p, seed = s \<rparr>))"

record advertised_tool =
  tool_name :: pystr
  parameters :: pyval
  description :: pystr

definition check_description :: "pyval \<Rightarrow> pystr outcome" where
  "check_description v = (case v of
      PStr s \<Rightarrow>
        if s = [] then Inr s
        else (case utf8_encode s of
            None \<Rightarrow> Inl UnicodeEncodeError
          | Some b \<Rightarrow> if 1024 < length b then Inl lvf else Inr s)
    | _ \<Rightarrow> Inl lvf)"

definition AdvertisedTool :: "pyval \<Rightarrow> pyval \<Rightarrow> pyval \<Rightarrow> advertised_tool outcome" where
  "AdvertisedTool name params descr =
     bindE (check_identifier name LOCAL_VALIDATION_FAILURE) (\<lambda>_.
     bindE (checkE (is_mapping params) lvf) (\<lambda>_.
     bindE (freeze_json HARD_LIMITS None 0 params) (\<lambda>frozen.
     bindE (checkE (is_dict frozen) lvf) (\<lambda>_.
     bindE (validate_schema_definition HARD_LIMITS 0 frozen) (\<lambda>_.
     bindE (check_description descr) (\<lambda>d.
     case name of
       PStr n \<Rightarrow> Inr \<lparr> tool_name = n, parameters = frozen, description = d \<rparr>
     | _ \<Rightarrow> Inl lvf))))))"

record provider_request =
  request_model :: pystr
  messages :: "provider_message list"
  tools :: "advertised_tool list"
  max_output_tokens :: int
  correlation_id :: pystr
  generation :: generation_controls

definition ProviderRequest ::
    "pyval \<Rightarrow> provider_message list \<Rightarrow> advertised_tool list \<Rightarrow> pyval \<Rightarrow> pystr \<Rightarrow> generation_controls
     \<Rightarrow> provider_request outcome" where
  "ProviderRequest md msgs ts budget cid g =
     bindE (model_as LOCAL_VALIDATION_FAILURE md) (\<lambda>m.
     bindE (checkE (msgs \<noteq> [] \<and> int (length msgs) \<le> message_count HARD_LIMITS) lvf) (\<lambda>_.
     bindE (checkE (int (length ts) \<le> advertised_tool_count HARD_LIMITS) lvf) (\<lambda>_.
     bindE (checkE (distinct (map tool_name ts)) lvf) (\<lambda>_.
     case budget of
       PInt n \<Rightarrow>
         if 0 < n \<and> n \<le> 8192 then
           Inr \<lparr> request_model = m, messages = msgs, tools = ts, max_output_tokens = n,
                 correlation_id = cid, generation = g \<rparr>
         else Inl lvf
     | _ \<Rightarrow> Inl lvf))))"

definition obj :: "(string \<times> pyval) list \<Rightarrow> pyval" where
  "obj kvs = PDict Plain (map (\<lambda>(k, v). (SKey (py k), v)) kvs)"

definition message_value :: "provider_message \<Rightarrow> pyval" where
  "message_value m = obj [(''role'', PStr (py (role_value (role m)))), (''content'', PStr (content m))]"

definition tool_value :: "advertised_tool \<Rightarrow> pyval" where
  "tool_value t = obj [(''name'', PStr (tool_name t)), (''description'', PStr (description t)),
     (''parameters'', parameters t)]"

definition generation_items :: "generation_controls \<Rightarrow> (string \<times> pyval) list" where
  "generation_items g = filter (\<lambda>(k, v). v \<noteq> PNone)
     [(''temperature'', temperature g), (''topP'', top_p g), (''seed'', seed g)]"

definition request_value :: "provider_request \<Rightarrow> pyval" where
  "request_value r = obj
     ([(''correlationId'', PStr (correlation_id r)), (''model'', PStr (request_model r)),
       (''messages'', PList (map message_value (messages r))), (''tools'', PList (map tool_value (tools r))),
       (''maxOutputTokens'', PInt (max_output_tokens r))]
      @ (if generation_items (generation r) = [] then []
         else [(''generation'', obj (generation_items (generation r)))]))"

definition check_tool_value :: "limits \<Rightarrow> advertised_tool \<Rightarrow> unit outcome" where
  "check_tool_value l t =
     bindE (validate_schema_definition l 0 (parameters t)) (\<lambda>_.
     bindE (json_value l None 0 (parameters t)) (\<lambda>_.
     bindE (dumps (tool_value t)) (\<lambda>b.
     checkE (int (length b) \<le> tool_definition_bytes l) lvf)))"

definition request_to_json_bytes :: "provider_request \<Rightarrow> limits \<Rightarrow> pybytes outcome" where
  "request_to_json_bytes r l =
     bindE (ModelIdentifier (PStr (request_model r))) (\<lambda>md.
     bindE (canonical_correlation_id (PStr (correlation_id r))) (\<lambda>_.
     bindE (checkE (int (length (messages r)) \<le> message_count l) lvf) (\<lambda>_.
     bindE (checkE (int (length (tools r)) \<le> advertised_tool_count l) lvf) (\<lambda>_.
     bindE (iterE (\<lambda>t. bindE (check_identifier (PStr (tool_name t)) LOCAL_VALIDATION_FAILURE) (\<lambda>_.
              validate_schema_definition l 0 (parameters t))) (tools r)) (\<lambda>_.
     bindE (iterE (\<lambda>m. checkE (int (length (utf8_encode_replace (content m))) \<le> message_bytes l) lvf)
              (messages r)) (\<lambda>_.
     bindE (checkE (int (length md) \<le> message_bytes l) lvf) (\<lambda>_.
     bindE (iterE (check_tool_value l) (tools r)) (\<lambda>_.
     bindE (dumps (request_value r)) (\<lambda>b.
     bindE (checkE (int (length b) \<le> provider_request_bytes l) (raises REQUEST_TOO_LARGE)) (\<lambda>_.
     Inr b))))))))))"

definition LocalActionIdentity :: "pystr \<Rightarrow> pystr outcome" where
  "LocalActionIdentity s = (if length s = 32 \<and> list_all lower_hex s then Inr s else Inl lvf)"

record tool_call_proposal =
  call_id :: pystr
  proposal_name :: pystr
  arguments :: pyval
  canonical_argument_bytes :: pybytes
  action_identity :: pystr

text \<open>\<open>except (TypeError, ValueError, OverflowError)\<close> around the encoding of the arguments.\<close>

definition encode_arguments :: "pyval \<Rightarrow> pybytes outcome" where
  "encode_arguments v = catchE (dumps v)
     (\<lambda>e. Inl (if e \<in> {TypeError, ValueError, OverflowError} then itp else e))"

definition ProviderToolCallProposal :: "pystr \<Rightarrow> pyval \<Rightarrow> pyval \<Rightarrow> tool_call_proposal outcome" where
  "ProviderToolCallProposal cid name args =
     bindE (check_identifier name INVALID_TOOL_PROPOSAL) (\<lambda>_.
     bindE (checkE (is_mapping args) itp) (\<lambda>_.
     bindE (freeze_json HARD_LIMITS None 0 args) (\<lambda>frozen.
     bindE (checkE (is_dict frozen) itp) (\<lambda>_.
     bindE (json_value HARD_LIMITS None 0 frozen) (\<lambda>_.
     bindE (encode_arguments frozen) (\<lambda>encoded.
     bindE (checkE (int (length encoded) \<le> tool_argument_bytes HARD_LIMITS) itp) (\<lambda>_.
     bindE (dumps (obj [(''name'', name), (''arguments'', frozen)])) (\<lambda>canon.
     bindE (LocalActionIdentity (take 32 (sha256_hex canon))) (\<lambda>ident.
     case name of
       PStr n \<Rightarrow> Inr \<lparr> call_id = cid, proposal_name = n, arguments = frozen,
                       canonical_argument_bytes = encoded, action_identity = ident \<rparr>
     | _ \<Rightarrow> Inl itp)))))))))"

definition proposal_to_json_bytes :: "tool_call_proposal \<Rightarrow> limits \<Rightarrow> pybytes outcome" where
  "proposal_to_json_bytes p l =
     bindE (checkE (fullmatch CANONICAL_CALL_ID (call_id p)) itp) (\<lambda>_.
     bindE (check_identifier (PStr (proposal_name p)) INVALID_TOOL_PROPOSAL) (\<lambda>_.
     bindE (freeze_json l None 0 (arguments p)) (\<lambda>frozen.
     bindE (checkE (is_dict frozen) itp) (\<lambda>_.
     bindE (dumps (obj [(''id'', PStr (call_id p)), (''name'', PStr (proposal_name p)), (''arguments'', frozen)])) (\<lambda>b.
     bindE (checkE (int (length b) \<le> tool_argument_bytes l) itp) (\<lambda>_.
     Inr b))))))"

datatype provider_response =
    ProviderFinalMessage provider_message
  | ToolCalls "tool_call_proposal list"

definition tool_named :: "advertised_tool list \<Rightarrow> pystr \<Rightarrow> advertised_tool option" where
  "tool_named ts n = map_of (rev (map (\<lambda>t. (tool_name t, t)) ts)) n"

text \<open>One iteration of the loop over the proposed calls; the state is the set of ids seen and the calls.\<close>

definition parse_call :: "nat \<Rightarrow> advertised_tool list \<Rightarrow> limits \<Rightarrow> tool_call_proposal list \<Rightarrow> pyval
    \<Rightarrow> tool_call_proposal list outcome" where
  "parse_call rd ts l calls item =
     bindE (closed_object item [''id'', ''name'', ''arguments''] [''id'', ''name'', ''arguments'']) (\<lambda>call.
     bindE (bounded_text_arg (get_or call ''arguments'' PNone) (tool_argument_bytes l) INVALID_TOOL_PROPOSAL) (\<lambda>text.
     bindE (parse_closed_json rd (PStr text) l None None) (\<lambda>args.
     bindE (checkE (is_dict args) itp) (\<lambda>_.
     bindE (ToolCallId (get_or call ''id'' PNone)) (\<lambda>cid.
     bindE (checkE (cid \<notin> set (map call_id calls)) (raises REPLAY_OR_DUPLICATE_PROPOSAL)) (\<lambda>_.
     bindE (bounded_text_arg (get_or call ''name'' PNone) 256 INVALID_TOOL_PROPOSAL) (\<lambda>name.
     case tool_named ts name of
       None \<Rightarrow> Inl itp
     | Some tool \<Rightarrow>
         bindE (validate_schema l args (parameters tool)) (\<lambda>_.
         bindE (ProviderToolCallProposal cid (PStr name) args) (\<lambda>p.
         Inr (calls @ [p]))))))))))"

text \<open>The final handler: every exception it names that is no \<open>ProviderError\<close> is an invalid proposal.\<close>

definition as_invalid_proposal :: "exn \<Rightarrow> exn" where
  "as_invalid_proposal e =
     (if e \<in> {AttributeError, KeyError, TypeError, ValueError, UnicodeEncodeError, OverflowError, RecursionError}
      then itp else e)"

definition parse_final_message :: "pyval \<Rightarrow> limits \<Rightarrow> provider_response outcome" where
  "parse_final_message v l =
     bindE (closed_object v [''message''] [''message'']) (\<lambda>outer.
     bindE (closed_object (get_or outer ''message'' PNone) [''role'', ''content''] [''role'', ''content'']) (\<lambda>msg.
     bindE (checkE (get_or msg ''role'' PNone = PStr (py (role_value ASSISTANT)) \<and> is_str (get_or msg ''content'' PNone))
              (raises UNSUPPORTED_PROVIDER_CONTENT)) (\<lambda>_.
     bindE (bounded_text_arg (get_or msg ''content'' PNone) (message_bytes l) LOCAL_VALIDATION_FAILURE) (\<lambda>t.
     bindE (ProviderMessage ASSISTANT (PStr t)) (\<lambda>m.
     Inr (ProviderFinalMessage m))))))"

definition parse_tool_calls :: "nat \<Rightarrow> pyval \<Rightarrow> advertised_tool list \<Rightarrow> limits \<Rightarrow> provider_response outcome" where
  "parse_tool_calls rd v ts l =
     bindE (closed_object v [''toolCalls''] [''toolCalls'']) (\<lambda>outer.
     let calls = get_or outer ''toolCalls'' PNone in
     bindE (checkE (is_list calls \<and> elems calls \<noteq> [] \<and> int (length (elems calls)) \<le> proposed_tool_call_count l) itp) (\<lambda>_.
     bindE (runE (parse_call rd ts l) [] (elems calls)) (\<lambda>ps. Inr (ToolCalls ps))))"

definition parse_provider_response ::
    "nat \<Rightarrow> pyval \<Rightarrow> advertised_tool list \<Rightarrow> limits \<Rightarrow> provider_response outcome" where
  "parse_provider_response rd raw ts l = catchE
     (bindE (parse_closed_json rd raw l None None) (\<lambda>v.
      bindE (checkE (is_dict v) (raises UNSUPPORTED_PROVIDER_CONTENT)) (\<lambda>_.
      if dhas (items_of v) ''message'' then parse_final_message v l
      else parse_tool_calls rd v ts l)))
     (\<lambda>e. Inl (as_invalid_proposal e))"

section \<open>Specification\<close>

text \<open>What the rest of the agent may assume of a parsed proposal.\<close>

definition proposal_ok :: "advertised_tool list \<Rightarrow> limits \<Rightarrow> tool_call_proposal \<Rightarrow> bool" where
  "proposal_ok ts l p \<longleftrightarrow>
     (\<exists>tool args. tool \<in> set ts \<and> tool_name tool = proposal_name p
        \<and> validate_schema_definition l 0 (parameters tool) = Inr () \<and> conforms l args (parameters tool)
        \<and> freeze_json HARD_LIMITS None 0 args = Inr (arguments p))
     \<and> dumps (arguments p) = Inr (canonical_argument_bytes p)
     \<and> int (length (canonical_argument_bytes p)) \<le> tool_argument_bytes HARD_LIMITS
     \<and> length (action_identity p) = 32 \<and> list_all lower_hex (action_identity p)
     \<and> (\<exists>u. call_id p = py ''call-'' @ u \<and> u \<noteq> [] \<and> list_all lower_hex u)"

definition calls_ok :: "advertised_tool list \<Rightarrow> limits \<Rightarrow> tool_call_proposal list \<Rightarrow> bool" where
  "calls_ok ts l ps \<longleftrightarrow> distinct (map call_id ps) \<and> (\<forall>p \<in> set ps. proposal_ok ts l p)"

text \<open>A tool without parameters, for concrete instances.\<close>

definition sample_tool :: advertised_tool where
  "sample_tool = \<lparr>tool_name = py ''read'', parameters = PDict Frozen [(SKey (py ''type''), PStr (py ''object''))],
     description = []\<rparr>"

definition sample_request :: provider_request where
  "sample_request = \<lparr>request_model = py ''m'', messages = [\<lparr>role = USER, content = py ''hi''\<rparr>], tools = [],
     max_output_tokens = 9, correlation_id = py ''req-1'',
     generation = \<lparr>temperature = PNone, top_p = PNone, seed = PNone\<rparr>\<rparr>"

section \<open>Lemmas\<close>

subsection \<open>Proposals\<close>

lemma dumps_Inl: "dumps v = Inl e \<Longrightarrow> e \<in> {TypeError, ValueError}"
proof (induction v)
  case (PDict k kvs)
  then show ?case
    by (fastforce simp: bindE_eq_Inl key_text_def snds.simps split: if_splits pykey.splits dest!: mapE_Inl_member)
qed (auto simp: bindE_eq_Inl dumps_int_def split: if_splits dest!: mapE_Inl_member)

lemma encode_arguments_simps:
  "encode_arguments v = Inr b \<longleftrightarrow> dumps v = Inr b"
  "encode_arguments v = Inl e \<Longrightarrow> e = itp"
  using dumps_Inl [of v] by (cases "dumps v"; auto simp: encode_arguments_def split: if_splits)+

lemma LocalActionIdentity_sha: "LocalActionIdentity (take 32 (sha256_hex m)) = Inr (take 32 (sha256_hex m))"
  using sha256_hex_lower_hex [of m] by (auto simp: LocalActionIdentity_def list_all_iff dest: in_set_takeD)

lemma proposal_Inr:
  assumes "ProviderToolCallProposal cid name args = Inr p"
  obtains n canon where "name = PStr n" and "check_identifier name INVALID_TOOL_PROPOSAL = Inr ()"
    and "freeze_json HARD_LIMITS None 0 args = Inr (arguments p)" and "is_dict (arguments p)"
    and "dumps (arguments p) = Inr (canonical_argument_bytes p)"
    and "int (length (canonical_argument_bytes p)) \<le> tool_argument_bytes HARD_LIMITS"
    and "dumps (obj [(''name'', PStr n), (''arguments'', arguments p)]) = Inr canon"
    and "action_identity p = take 32 (sha256_hex canon)" and "call_id p = cid" and "proposal_name p = n"
proof -
  from assms have ident: "check_identifier name INVALID_TOOL_PROPOSAL = Inr ()"
    by (auto simp: ProviderToolCallProposal_def bindE_eq_Inr)
  then obtain n where "name = PStr n" by (auto simp: check_identifier_Inr)
  with assms ident that show thesis
    by (auto simp: ProviderToolCallProposal_def bindE_eq_Inr encode_arguments_simps LocalActionIdentity_sha)
qed

lemma proposal_Inl:
  "ProviderToolCallProposal cid (PStr n) args = Inl e \<Longrightarrow> e \<in> {itp, lvf, TypeError, ValueError}"
  by (auto simp: ProviderToolCallProposal_def LocalActionIdentity_sha bindE_eq_Inl
      check_identifier_def split: option.splits
      dest!: freeze_Inl json_value_Inl dumps_Inl encode_arguments_simps(2))

subsection \<open>The canonical text determines and is determined by the canonical value\<close>

lemma sort_key_sorted: "sort_key f (sort_key f xs) = sort_key f xs"
  by (rule sort_key_id_if_sorted) simp

lemma dumps_canonical: "dumps v = Inr t \<Longrightarrow> dumps (canonical v) = Inr t"
proof (induction v arbitrary: t)
  case (PDict k kvs)
  let ?f = "\<lambda>(key, v). bindE (key_text key) (\<lambda>t. bindE (dumps v) (\<lambda>d. Inr (t, d)))"
  let ?ms = "map (\<lambda>(key, v). (key_str key, canonical v)) kvs"
  from PDict.prems obtain ts where k: "k \<noteq> OtherMapping" and ts: "mapE ?f kvs = Inr ts"
    and t: "t = [123] @ join (map (\<lambda>(t, d). dumps_str t @ 58 # d) (sort_key fst ts)) @ [125]"
    by (auto simp: bindE_eq_Inr split: if_splits)
  have "list_all2 (\<lambda>x y. ?f x = Inr y) kvs ts" using ts by (simp add: mapE_eq_Inr_list_all2)
  then have "list_all2 (\<lambda>m y. fst m = fst y \<and> dumps (snd m) = Inr (snd y)) ?ms ts"
    using PDict.IH
  proof (induction rule: list_all2_induct)
    case (Cons x xs y ys)
    obtain key v where x: "x = (key, v)" by fastforce
    with Cons.hyps(1) obtain s d where "key = SKey s" "y = (s, d)" "dumps v = Inr d"
      by (auto simp: bindE_eq_Inr key_text_def split: pykey.splits)
    moreover have "dumps (canonical v) = Inr d"
      using Cons.prems [of x v d] x calculation by (simp add: snds.simps)
    ultimately show ?case using Cons x by (auto simp: key_str_def)
  qed simp
  then have "list_all2 (\<lambda>m y. fst m = fst y \<and> dumps (snd m) = Inr (snd y)) (sort_key fst ?ms) (sort_key fst ts)"
    by (rule list_all2_sort_key) simp
  then have "list_all2 (\<lambda>x y. ?f x = Inr y) (map (\<lambda>(t, v). (SKey t, v)) (sort_key fst ?ms)) (sort_key fst ts)"
    by (simp add: list_all2_map1) (erule list_all2_mono, auto simp: key_text_def)
  then have "mapE ?f (map (\<lambda>(t, v). (SKey t, v)) (sort_key fst ?ms)) = Inr (sort_key fst ts)"
    by (simp add: mapE_eq_Inr_list_all2)
  with t show ?case by (simp add: sort_key_sorted)
next
  case (PList xs)
  then show ?case
    by (fastforce simp: bindE_eq_Inr mapE_eq_Inr_list_all2 list_all2_conv_all_nth)
next
  case (PTuple xs)
  then show ?case
    by (fastforce simp: bindE_eq_Inr mapE_eq_Inr_list_all2 list_all2_conv_all_nth)
qed simp_all

lemma canonical_thaw: "canonical (thaw v) = canonical v"
proof (induction v)
  case (PDict k kvs)
  have "map (\<lambda>(key, v). (key_str key, canonical v)) (map (\<lambda>(key, v). (key, thaw v)) kvs)
      = map (\<lambda>(key, v). (key_str key, canonical v)) kvs"
    using PDict by (auto simp: snds.simps)
  then show ?case by (simp del: map_map)
qed (auto simp: comp_def)

lemma freeze_canonical: "freeze_json l sb d v = Inr r \<Longrightarrow> canonical r = canonical v"
  using freeze_thaw [of l sb d v r] canonical_thaw by metis

subsection \<open>Parsing responses\<close>

lemma tool_named_Some: "tool_named ts n = Some tool \<Longrightarrow> tool \<in> set ts \<and> tool_name tool = n"
  by (auto simp: tool_named_def dest!: map_of_SomeD)

lemma parse_call_Inr:
  assumes "parse_call rd ts l calls item = Inr calls'"
  obtains p where "calls' = calls @ [p]" and "call_id p \<notin> set (map call_id calls)" and "proposal_ok ts l p"
proof -
  from assms obtain args cid name tool p where
    cid: "ToolCallId (get_or (items_of item) ''id'' PNone) = Inr cid" "cid \<notin> set (map call_id calls)"
    and tool: "tool_named ts name = Some tool" "validate_schema l args (parameters tool) = Inr ()"
    and p: "ProviderToolCallProposal cid (PStr name) args = Inr p" and calls': "calls' = calls @ [p]"
    by (auto simp: parse_call_def bindE_eq_Inr closed_object_Inr split: option.splits)
  from p obtain canon where facts: "freeze_json HARD_LIMITS None 0 args = Inr (arguments p)"
    "dumps (arguments p) = Inr (canonical_argument_bytes p)"
    "int (length (canonical_argument_bytes p)) \<le> tool_argument_bytes HARD_LIMITS"
    "action_identity p = take 32 (sha256_hex canon)" "call_id p = cid" "proposal_name p = name"
    by (rule proposal_Inr) blast
  have "length (action_identity p) = 32" "list_all lower_hex (action_identity p)"
    using LocalActionIdentity_sha [of canon] facts(4) by (auto simp: LocalActionIdentity_def split: if_splits)
  then have "proposal_ok ts l p"
    using facts tool tool_named_Some [OF tool(1)] ToolCallId_shape [OF cid(1)]
    unfolding proposal_ok_def validate_schema_Inr by blast
  with that calls' cid(2) facts(5) show thesis by blast
qed

interpretation response_calls: guarded_machine "parse_call rd ts l" "calls_ok ts l" for rd ts l
proof unfold_locales
  fix s i t assume "calls_ok ts l s" and "parse_call rd ts l s i = Inr t"
  then show "calls_ok ts l t" by (auto simp: calls_ok_def elim!: parse_call_Inr)
qed

lemma parse_call_length: "runE (parse_call rd ts l) s items = Inr t \<Longrightarrow> length t = length s + length items"
  by (induction items arbitrary: s) (auto simp: bindE_eq_Inr elim!: parse_call_Inr)

text \<open>The exceptions that the final handler of the parser turns into classified failures.\<close>

definition handled :: "exn \<Rightarrow> bool" where
  "handled e \<longleftrightarrow> (\<exists>c. as_invalid_proposal e = raises c)"

lemma handled_simps [simp]:
  "handled (raises c)" "handled TypeError" "handled ValueError" "handled UnicodeEncodeError"
  by (simp_all add: handled_def as_invalid_proposal_def)

lemma as_invalid_proposal_raises [simp]: "as_invalid_proposal (raises c) = raises c"
  by (simp add: as_invalid_proposal_def)

lemma parse_closed_json_handled: "parse_closed_json rd raw l b sb = Inl e \<Longrightarrow> handled e"
  using parse_closed_json_Inl by fastforce

lemma bounded_text_arg_Inl: "bounded_text_arg v m c = Inl e \<Longrightarrow> e = raises c"
  by (auto simp: bounded_text_arg_def split: pyval.splits option.splits if_splits)

lemma ToolCallId_Inl: "ToolCallId v = Inl e \<Longrightarrow> e = itp"
  by (auto simp: ToolCallId_def split: pyval.splits if_splits)

lemma parse_call_Inl:
  assumes "parse_call rd ts l calls item = Inl e"
  shows "handled e"
  using assms
  by (auto simp: parse_call_def bindE_eq_Inl split: option.splits
      dest!: closed_object_Inl bounded_text_arg_Inl parse_closed_json_handled ToolCallId_Inl
        validate_schema_Inl proposal_Inl)

lemma runE_Inl: "runE f s xs = Inl e \<Longrightarrow> (\<And>s x e. f s x = Inl e \<Longrightarrow> P e) \<Longrightarrow> P e"
  by (induction xs arbitrary: s) (auto simp: bindE_eq_Inl)

lemma parse_body_Inl:
  "parse_final_message v l = Inl e \<Longrightarrow> handled e"
  "parse_tool_calls rd v ts l = Inl e \<Longrightarrow> handled e"
  by (auto simp: parse_final_message_def parse_tool_calls_def ProviderMessage_def Let_def bindE_eq_Inl
      dest!: closed_object_Inl bounded_text_arg_Inl runE_Inl [where P = handled] intro: parse_call_Inl)

lemma parse_provider_response_Inl:
  "parse_provider_response rd raw ts l = Inl e \<Longrightarrow> \<exists>c. e = raises c"
  by (auto simp: parse_provider_response_def catchE_def bindE_eq_Inl handled_def split: sum.splits if_splits
      dest!: parse_closed_json_handled parse_body_Inl)

lemma parse_provider_response_calls:
  assumes "parse_provider_response rd raw ts l = Inr (ToolCalls ps)"
  shows "calls_ok ts l ps" and "ps \<noteq> []" and "int (length ps) \<le> proposed_tool_call_count l"
proof -
  from assms obtain v xs where xs: "xs \<noteq> []" "int (length xs) \<le> proposed_tool_call_count l"
    "runE (parse_call rd ts l) [] xs = Inr ps"
    by (auto simp: parse_provider_response_def parse_final_message_def parse_tool_calls_def catchE_eq_Inr
        bindE_eq_Inr Let_def split: if_splits)
  show "calls_ok ts l ps" by (rule response_calls.run_inv [OF _ xs(3)]) (simp add: calls_ok_def)
  show "ps \<noteq> []" "int (length ps) \<le> proposed_tool_call_count l" using parse_call_length [OF xs(3)] xs by auto
qed

lemma parse_provider_response_final:
  assumes "parse_provider_response rd raw ts l = Inr (ProviderFinalMessage m)"
  shows "role m = ASSISTANT" and "content m \<noteq> []" and "bounded_text (message_bytes l) (content m)"
  using assms
  by (auto simp: parse_provider_response_def parse_final_message_def parse_tool_calls_def catchE_eq_Inr
      bindE_eq_Inr Let_def ProviderMessage_def bounded_text_arg_Inr split: if_splits)

subsection \<open>Requests\<close>

lemma request_to_json_bytes_Inr:
  assumes "request_to_json_bytes r l = Inr b"
  shows "dumps (request_value r) = Inr b" and "int (length b) \<le> provider_request_bytes l"
    and "\<And>m. m \<in> set (messages r) \<Longrightarrow> int (length (utf8_encode_replace (content m))) \<le> message_bytes l"
    and "\<And>t. t \<in> set (tools r) \<Longrightarrow> validate_schema_definition l 0 (parameters t) = Inr ()
           \<and> (\<exists>d. dumps (tool_value t) = Inr d \<and> int (length d) \<le> tool_definition_bytes l)"
  using assms
  by (auto simp: request_to_json_bytes_def check_tool_value_def bindE_eq_Inr iterE_eq_Inr)

subsection \<open>A tool call read back\<close>

definition tool_call_value :: "pystr \<Rightarrow> pystr \<Rightarrow> pystr \<Rightarrow> pyval" where
  "tool_call_value cid n a = obj [(''toolCalls'',
     PList [obj [(''arguments'', PStr a), (''id'', PStr cid), (''name'', PStr n)]])]"

lemma tool_call_value_canonical: "canonical (tool_call_value cid n a) = tool_call_value cid n a"
  by (simp add: tool_call_value_def obj_def key_str_def py_def)

lemma tool_call_value_exact:
  "isascii cid \<Longrightarrow> isascii n \<Longrightarrow> isascii a \<Longrightarrow> exact_json (tool_call_value cid n a)"
  by (auto simp: tool_call_value_def obj_def py_def scalar_def surrogate_def isascii_iff list_all_iff)

lemma parse_call_value:
  assumes "tool_named ts n = Some tool" and "validate_schema l args (parameters tool) = Inr ()"
    and "parse_closed_json rd (PStr a) l None None = Inr args" and "is_dict args"
    and "a \<noteq> []" and "bounded_text (tool_argument_bytes l) a" and "n \<noteq> []" and "bounded_text 256 n"
    and "ToolCallId (PStr cid) = Inr cid" and "cid \<notin> set (map call_id calls)"
    and "ProviderToolCallProposal cid (PStr n) args = Inr p"
  shows "parse_call rd ts l calls (obj [(''arguments'', PStr a), (''id'', PStr cid), (''name'', PStr n)]) = Inr (calls @ [p])"
proof -
  have "bounded_text_arg (PStr a) (tool_argument_bytes l) INVALID_TOOL_PROPOSAL = Inr a"
    "bounded_text_arg (PStr n) 256 INVALID_TOOL_PROPOSAL = Inr n"
    using assms by (simp_all add: bounded_text_arg_Inr)
  with assms show ?thesis
    by (simp add: parse_call_def obj_def closed_object_def dhas_def get_or_def)
qed

lemma tool_call_accepted:
  assumes "dumps (tool_call_value cid n a) = Inr t" and "isascii cid" and "isascii n" and "isascii a"
    and "3 \<le> rd" and "int (length t) \<le> provider_response_bytes l"
    and "json_value l None 0 (tool_call_value cid n a) = Inr ()" and "1 \<le> proposed_tool_call_count l"
    and "parse_call rd ts l [] (obj [(''arguments'', PStr a), (''id'', PStr cid), (''name'', PStr n)]) = Inr [p]"
  shows "parse_provider_response rd (PBytes t) ts l = Inr (ToolCalls [p])"
proof -
  have "nesting (tool_call_value cid n a) \<le> rd" using assms(5) by (simp add: tool_call_value_def obj_def)
  then have "parse_closed_json rd (PBytes t) l None None = Inr (tool_call_value cid n a)"
    using parse_closed_json_dumps [OF assms(1) tool_call_value_exact] assms
    by (simp add: tool_call_value_canonical)
  with assms(8,9) show ?thesis
    by (simp add: parse_provider_response_def parse_tool_calls_def tool_call_value_def obj_def dhas_def
        closed_object_def get_or_def)
qed

subsection \<open>A final message read back\<close>

definition final_message_value :: "pystr \<Rightarrow> pyval" where
  "final_message_value s = obj [(''message'', obj [(''content'', PStr s), (''role'', PStr (py ''assistant''))])]"

lemma final_message_value_canonical: "canonical (final_message_value s) = final_message_value s"
  by (simp add: final_message_value_def obj_def key_str_def py_def)

lemma final_message_value_exact: "list_all scalar s \<Longrightarrow> exact_json (final_message_value s)"
  by (simp add: final_message_value_def obj_def py_def scalar_def surrogate_def)

lemma bounded_text_mono: "bounded_text m s \<Longrightarrow> m \<le> n \<Longrightarrow> bounded_text n s"
  by (simp add: bounded_text_def)

lemma final_message_bounded:
  assumes "2 \<le> json_nesting_depth l" and "bounded_text (message_bytes l) s"
    and "9 \<le> message_bytes l" and "2 \<le> object_array_items l"
  shows "json_value l None 0 (final_message_value s) = Inr ()"
proof -
  have "bounded_text (max (message_bytes l) (max (tool_argument_bytes l) (tool_definition_bytes l))) s"
    using assms(2) by (rule bounded_text_mono) simp
  moreover have "bounded_text (max (message_bytes l) (max (tool_argument_bytes l) (tool_definition_bytes l))) (py ''assistant'')"
    using assms(3) by (simp add: bounded_text_def py_def surrogate_def utf8_char_def)
  ultimately show ?thesis
    using assms(1,4) unfolding json_value_accepts
    by (subst freeze_accepts_iff [OF json_string_limit_def [THEN trans]])
       (auto simp: final_message_value_def obj_def py_def)
qed

lemma parse_final_value:
  assumes "wf_limits l" and "s \<noteq> []" and "bounded_text (message_bytes l) s"
  shows "parse_final_message (final_message_value s) l = Inr (ProviderFinalMessage \<lparr>role = ASSISTANT, content = s\<rparr>)"
proof -
  have "bounded_text_arg (PStr s) (message_bytes l) LOCAL_VALIDATION_FAILURE = Inr s"
    using assms by (simp add: bounded_text_arg_Inr)
  moreover have "bounded_text_arg (PStr s) (message_bytes HARD_LIMITS) LOCAL_VALIDATION_FAILURE = Inr s"
    using assms(2,3) bounded_text_mono wf_limits_bounds [OF assms(1)] by (simp add: bounded_text_arg_Inr)
  ultimately show ?thesis
    by (simp add: parse_final_message_def final_message_value_def obj_def closed_object_def dhas_def
        get_or_def ProviderMessage_def)
qed

lemma canonical_proposal_value:
  assumes "canonical a = canonical b"
  shows "canonical (obj [(''name'', v), (''arguments'', a)]) = canonical (obj [(''name'', v), (''arguments'', b)])"
  using assms by (simp add: obj_def)

lemma action_identity_canonical:
  assumes "ProviderToolCallProposal cid name args = Inr p" and "ProviderToolCallProposal cid' name args' = Inr q"
    and "canonical args = canonical args'"
  shows "action_identity p = action_identity q \<and> canonical_argument_bytes p = canonical_argument_bytes q"
proof -
  from assms(1) obtain n c where p: "name = PStr n" "freeze_json HARD_LIMITS None 0 args = Inr (arguments p)"
    "dumps (arguments p) = Inr (canonical_argument_bytes p)"
    "dumps (obj [(''name'', PStr n), (''arguments'', arguments p)]) = Inr c" "action_identity p = take 32 (sha256_hex c)"
    by (rule proposal_Inr) blast
  from assms(2) obtain n' c' where q: "name = PStr n'" "freeze_json HARD_LIMITS None 0 args' = Inr (arguments q)"
    "dumps (arguments q) = Inr (canonical_argument_bytes q)"
    "dumps (obj [(''name'', PStr n'), (''arguments'', arguments q)]) = Inr c'" "action_identity q = take 32 (sha256_hex c')"
    by (rule proposal_Inr) blast
  have eq: "canonical (arguments p) = canonical (arguments q)"
    using freeze_canonical [OF p(2)] freeze_canonical [OF q(2)] assms(3) by simp
  have "c = c'"
    using dumps_canonical [OF p(4)] dumps_canonical [OF q(4)] canonical_proposal_value [OF eq, of "PStr n"] p(1) q(1)
    by simp
  moreover have "canonical_argument_bytes p = canonical_argument_bytes q"
    using dumps_canonical [OF p(3)] dumps_canonical [OF q(3)] eq by simp
  ultimately show ?thesis using p(5) q(5) by simp
qed

lemma canonical_bytes_injective:
  assumes "ProviderToolCallProposal cid name args = Inr p" and "ProviderToolCallProposal cid' name args' = Inr q"
    and "exact_json (arguments p)" and "exact_json (arguments q)"
    and "canonical_argument_bytes p = canonical_argument_bytes q"
  shows "canonical args = canonical args'"
proof -
  from assms(1) have p: "freeze_json HARD_LIMITS None 0 args = Inr (arguments p)"
    "dumps (arguments p) = Inr (canonical_argument_bytes p)" by (rule proposal_Inr, blast)+
  from assms(2) have q: "freeze_json HARD_LIMITS None 0 args' = Inr (arguments q)"
    "dumps (arguments q) = Inr (canonical_argument_bytes q)" by (rule proposal_Inr, blast)+
  let ?rd = "max (nesting (arguments p)) (nesting (arguments q))"
  have "canonical (arguments p) = canonical (arguments q)"
    using loads_dumps [OF p(2) assms(3), of ?rd] loads_dumps [OF q(2) assms(4), of ?rd] assms(5) by simp
  then show ?thesis using freeze_canonical [OF p(1)] freeze_canonical [OF q(1)] by simp
qed

lemma parse_closed_json_text: "isascii s \<Longrightarrow> parse_closed_json rd (PStr s) l b sb = parse_closed_json rd (PBytes s) l b sb"
  by (simp add: parse_closed_json_def)

lemma sample_schema: "validate_schema l (PDict Plain []) (parameters sample_tool) = Inr ()" if "wf_limits l" for l
proof -
  have lim: "\<not> too_deep l 0" "0 \<le> object_array_items l"
    using wf_limits_bounds [OF that] by (auto simp: too_deep_def)
  have "schema_type [(SKey (py ''type''), PStr (py ''object''))] = Some ''object''"
    by (simp add: schema_type_def SCHEMA_TYPES_def)
  moreover from this have "validate_schema_definition l 0 (parameters sample_tool) = Inr ()"
    using lim
    by (simp add: sample_tool_def vsd_Inr level_ok_def child_schemas_def get_or_def empty_dict_def required_ok_def
        SCHEMA_KEYS_def dhas_def check_enum_def check_bounds_def length_bound_ok_def number_bound_ok_def out_of_order_def)
  moreover from calculation have "conforms l (PDict Plain []) (parameters sample_tool)"
    using lim
    by (subst conforms.simps) (simp add: sample_tool_def schema_value_matches_def enum_ok_def required_present_def get_or_def)
  ultimately show ?thesis by (simp add: validate_schema_Inr)
qed

lemma sample_call:
  "\<exists>p. parse_call 5 [sample_tool] DEFAULT_LIMITS [] (obj [(''arguments'', PStr (py ''{}'')), (''id'', PStr (py ''call-1'')),
      (''name'', PStr (py ''read''))]) = Inr [p]"
proof -
  have "\<exists>p. ProviderToolCallProposal (py ''call-1'') (PStr (py ''read'')) (PDict Plain []) = Inr p"
    by (simp add: ProviderToolCallProposal_def check_identifier_def py_def name_char_def ascii_alnum_def ascii_lower_def
        ascii_digit_def ascii_upper_def too_deep_def encode_arguments_def obj_def key_text_def LocalActionIdentity_sha)
  then obtain p where p: "ProviderToolCallProposal (py ''call-1'') (PStr (py ''read'')) (PDict Plain []) = Inr p" by blast
  have "parse_closed_json 5 (PStr (py ''{}'')) DEFAULT_LIMITS None None = Inr (PDict Plain [])"
    using parse_closed_json_dumps [where v = "PDict Plain []" and t = "py ''{}''" and rd = 5 and bl = None
        and l = DEFAULT_LIMITS and sb = None]
    by (simp add: parse_closed_json_text py_def too_deep_def)
  moreover have "ToolCallId (PStr (py ''call-1'')) = Inr (py ''call-1'')"
    using CANONICAL_CALL_ID_iff [of "py ''call-1''"] by (simp add: ToolCallId_def py_def ascii_digit_def)
  ultimately have "parse_call 5 [sample_tool] DEFAULT_LIMITS [] (obj [(''arguments'', PStr (py ''{}'')),
      (''id'', PStr (py ''call-1'')), (''name'', PStr (py ''read''))]) = Inr ([] @ [p])"
    using p sample_schema [OF DEFAULT_LIMITS_wf]
    by (intro parse_call_value [where tool = sample_tool])
       (simp_all add: tool_named_def sample_tool_def bounded_text_def py_def surrogate_def utf8_char_def)
  then show ?thesis by auto
qed

lemma sample_model: "ModelIdentifier (PStr (py ''m'')) = Inr (py ''m'')"
  by code_simp

section \<open>Properties\<close>

text \<open>
  C5: the provider boundary. Whatever bytes or text a provider sends, \<open>parse_provider_response\<close> either
  raises a classified failure, or returns one bounded assistant message, or returns between one and
  \<open>proposed_tool_call_count\<close> proposals with pairwise distinct project-owned ids, each naming an advertised
  tool whose schema its arguments conform to, with frozen arguments and their canonical bytes.
\<close>

theorem provider_boundary:
  "case parse_provider_response rd raw ts l of
     Inl e \<Rightarrow> \<exists>c. e = raises c
   | Inr (ProviderFinalMessage m) \<Rightarrow> role m = ASSISTANT \<and> content m \<noteq> [] \<and> bounded_text (message_bytes l) (content m)
   | Inr (ToolCalls ps) \<Rightarrow> ps \<noteq> [] \<and> int (length ps) \<le> proposed_tool_call_count l
        \<and> distinct (map call_id ps) \<and> (\<forall>p \<in> set ps. proposal_ok ts l p)"
proof (cases "parse_provider_response rd raw ts l")
  case (Inl e)
  then show ?thesis using parse_provider_response_Inl [OF Inl] by simp
next
  case (Inr r)
  then show ?thesis
    using parse_provider_response_calls [of rd raw ts l] parse_provider_response_final [of rd raw ts l]
    by (cases r) (auto simp: calls_ok_def)
qed

theorem provider_boundary_witness:
  "\<exists>ps. parse_provider_response 5 (PBytes (py ''{\"toolCalls\":[{\"arguments\":\"{}\",\"id\":\"call-1\",\"name\":\"read\"}]}''))
      [sample_tool] DEFAULT_LIMITS = Inr (ToolCalls ps) \<and> length ps = 1
      \<and> (\<forall>p \<in> set ps. proposal_ok [sample_tool] DEFAULT_LIMITS p)"
proof -
  obtain p where p: "parse_call 5 [sample_tool] DEFAULT_LIMITS [] (obj [(''arguments'', PStr (py ''{}'')),
      (''id'', PStr (py ''call-1'')), (''name'', PStr (py ''read''))]) = Inr [p]" using sample_call by blast
  have "parse_provider_response 5 (PBytes (py ''{\"toolCalls\":[{\"arguments\":\"{}\",\"id\":\"call-1\",\"name\":\"read\"}]}''))
      [sample_tool] DEFAULT_LIMITS = Inr (ToolCalls [p])"
    by (rule tool_call_accepted [OF _ _ _ _ _ _ _ _ p])
       (simp_all add: tool_call_value_def obj_def py_def key_text_def dumps_str_def escape_char_def too_deep_def
         check_key_def check_string_def json_string_limit_def)
  with provider_boundary [where rd = 5 and ts = "[sample_tool]" and l = DEFAULT_LIMITS and
      raw = "PBytes (py ''{\"toolCalls\":[{\"arguments\":\"{}\",\"id\":\"call-1\",\"name\":\"read\"}]}'')"]
  show ?thesis by simp
qed

text \<open>
  a final assistant message is read back exactly: the canonical encoding of a message within the
  limits is accepted, whatever its text, as that message.
\<close>

theorem final_message_round_trips:
  assumes "wf_limits l" and "2 \<le> json_nesting_depth l" and "2 \<le> object_array_items l"
    and "9 \<le> message_bytes l" and "2 \<le> rd"
    and "s \<noteq> []" and "list_all scalar s" and "bounded_text (message_bytes l) s"
    and "dumps (final_message_value s) = Inr t" and "int (length t) \<le> provider_response_bytes l"
  shows "parse_provider_response rd (PBytes t) ts l = Inr (ProviderFinalMessage \<lparr>role = ASSISTANT, content = s\<rparr>)"
proof -
  have "nesting (final_message_value s) \<le> rd" using assms(5) by (simp add: final_message_value_def obj_def)
  then have "parse_closed_json rd (PBytes t) l None None = Inr (final_message_value s)"
    using parse_closed_json_dumps [where v = "final_message_value s" and t = t and rd = rd and bl = None and l = l and sb = None]
      assms final_message_value_exact final_message_value_canonical final_message_bounded by simp
  moreover have "is_dict (final_message_value s)" "dhas (items_of (final_message_value s)) ''message''"
    by (simp_all add: final_message_value_def obj_def dhas_def)
  ultimately show ?thesis using parse_final_value [OF assms(1,6,8)] by (simp add: parse_provider_response_def)
qed

theorem final_message_round_trips_witness:
  "parse_provider_response 5 (PBytes (py ''{\"message\":{\"content\":\"ok\",\"role\":\"assistant\"}}'')) [] DEFAULT_LIMITS
    = Inr (ProviderFinalMessage \<lparr>role = ASSISTANT, content = py ''ok''\<rparr>)"
  by (rule final_message_round_trips)
     (simp_all add: py_def scalar_def surrogate_def bounded_text_def utf8_char_def final_message_value_def obj_def
       key_text_def dumps_str_def escape_char_def)





end
