(* ===== verification/Http_Link.thy ===== *)
theory Http_Link
  imports Retry Deadlines Endpoint_Policy Contracts
begin

text \<open>
  One HTTP exchange, as \<open>transport.py\<close> and \<open>openai_compatible.py\<close> carry it out with \<open>http.client\<close>. What the library, the clock and
  the resolver answer is the record \<open>network\<close>, one stream per kind of question, read at a counter that every question advances. The
  streams are arbitrary: a call may raise any exception. The log of a link records what was done to the network; no operation reads it.
\<close>

section \<open>Definitions\<close>

record http_response =
  hr_status :: pyval
  hr_content_type :: pyval
  hr_retry_after :: pyval
  hr_content_length :: pyval

record network =
  net_clock :: "nat \<Rightarrow> rat"
  net_fault :: "nat \<Rightarrow> exn option"
  net_sock :: "nat \<Rightarrow> bool"
  net_response :: "nat \<Rightarrow> http_response outcome"
  net_read :: "nat \<Rightarrow> int \<Rightarrow> pyval outcome"
  net_resolver :: "nat \<Rightarrow> resolver"
  net_nesting :: nat
  net_ucd :: ucd
  net_nfkc :: "pystr \<Rightarrow> pystr"
  net_cancelled :: "nat \<Rightarrow> bool"
  net_environ :: "pystr \<Rightarrow> pystr option"

text \<open>A connection is opened to an address and a port within a time; over TLS it verifies the certificate for a name.\<close>

datatype link_event =
    Dialled pyval pyval rat "pyval option"
  | Posted pyval pybytes "(string \<times> pystr) list"
  | ReadWithin rat
  | Closed
  | Slept rat

record link =
  link_tick :: nat
  link_log :: "link_event list"

type_synonym exchange_result = "pybytes \<times> pyval \<times> int \<times> int option"

definition ask :: "(nat \<Rightarrow> 'a) \<Rightarrow> (link, 'a) eff" where
  "ask f = (\<lambda>s. Some (Inr (f (link_tick s)), s\<lparr>link_tick := Suc (link_tick s)\<rparr>))"

definition note_event :: "link_event \<Rightarrow> (link, unit) eff" where
  "note_event e = modifyM (\<lambda>s. s\<lparr>link_log := link_log s @ [e]\<rparr>)"

definition invoke :: "network \<Rightarrow> (link, unit) eff" where
  "invoke N = bindM (ask (net_fault N)) (\<lambda>fault. case fault of None \<Rightarrow> retM () | Some e \<Rightarrow> raiseM e)"

subsection \<open>Headers\<close>

definition RETRY_AFTER :: regex where
  "RETRY_AFTER = RSeqs [RBegin, RPlus (RChar ascii_digit),
     ROpt (RSeqs [RChar (\<lambda>c. c = 46), RRep 1 (Some 3) (RChar ascii_digit)]), REnd]"

definition ljust :: "nat \<Rightarrow> nat \<Rightarrow> pystr \<Rightarrow> pystr" where
  "ljust n c s = s @ replicate (n - length s) c"

definition retry_after :: "pyval \<Rightarrow> limits \<Rightarrow> int option" where
  "retry_after v l = (case v of
      PStr s \<Rightarrow>
        if \<not> isascii s \<or> 16 < length s \<or> \<not> fullmatch RETRY_AFTER s then None
        else (case partition_at 46 s of (whole, separator, fraction) \<Rightarrow>
          let milliseconds = int (undec whole) * 1000 + (if separator then int (undec (ljust 3 48 fraction)) else 0)
          in if retry_after_ms l < milliseconds then None else Some milliseconds)
    | _ \<Rightarrow> None)"

text \<open>\<open>int()\<close> refuses more than 4300 digits with \<open>ValueError\<close>.\<close>

definition declared_length :: "limits \<Rightarrow> pyval \<Rightarrow> nat option outcome" where
  "declared_length l v = (case v of
      PNone \<Rightarrow> Inr None
    | PStr s \<Rightarrow>
        bindE (checkE (s \<noteq> [] \<and> list_all ascii_digit s) (raises TRUNCATED_RESPONSE)) (\<lambda>_.
        bindE (checkE (length s \<le> MAX_STR_DIGITS) ValueError) (\<lambda>_.
        bindE (checkE (int (undec s) \<le> provider_response_bytes l) (raises OVERSIZED_RESPONSE)) (\<lambda>_.
        Inr (Some (undec s)))))
    | _ \<Rightarrow> Inl (raises TRUNCATED_RESPONSE))"

text \<open>
  \<open>content_type is None or content_type.lower().split(";", 1)[0].strip() != "application/json"\<close>, negated; a header that is no string has no
  \<open>lower\<close>, or no \<open>split\<close> at a string.
\<close>

definition json_content_type :: "ucd \<Rightarrow> pyval \<Rightarrow> bool outcome" where
  "json_content_type u v = (case v of
      PNone \<Rightarrow> Inr False
    | PStr s \<Rightarrow> Inr (py_strip u (fst (partition_at 59 (py_lower u s))) = py ''application/json'')
    | PBytes _ \<Rightarrow> Inl TypeError
    | _ \<Rightarrow> Inl AttributeError)"

subsection \<open>Reading the response\<close>

definition set_read_timeout :: "network \<Rightarrow> rat \<Rightarrow> limits \<Rightarrow> (link, unit) eff" where
  "set_read_timeout N deadline l =
     bindM (ask (net_clock N)) (\<lambda>now.
     let remaining = min (fl (deadline - now)) (seconds (provider_read_inactivity_timeout_ms l)) in
     if remaining \<le> 0 then raiseM (raises TOTAL_REQUEST_TIMEOUT)
     else bindM (ask (net_sock N)) (\<lambda>present.
       if present then bindM (note_event (ReadWithin remaining)) (\<lambda>_. invoke N) else retM ()))"

text \<open>\<open>h\<close> is what the code around \<open>response.read\<close> makes of its exceptions.\<close>

definition read_chunk :: "network \<Rightarrow> (exn \<Rightarrow> exn) \<Rightarrow> int \<Rightarrow> (link, pyval) eff" where
  "read_chunk N h amount = tryM (bindM (ask (\<lambda>n. net_read N n amount)) liftM) (\<lambda>e. raiseM (h e))"

function read_body :: "network \<Rightarrow> (exn \<Rightarrow> exn) \<Rightarrow> limits \<Rightarrow> rat \<Rightarrow> pybytes \<Rightarrow> (link, pybytes) eff" where
  "read_body N h l deadline chunks s =
     bindM (set_read_timeout N deadline l) (\<lambda>_.
     bindM (read_chunk N h (min 8192 (provider_response_bytes l - int (length chunks) + 1))) (\<lambda>chunk.
     case chunk of
       PBytes b \<Rightarrow>
         if b = [] then retM chunks
         else if provider_response_bytes l < int (length (chunks @ b)) then raiseM (raises OVERSIZED_RESPONSE)
         else (\<lambda>t. read_body N h l deadline (chunks @ b) t)
     | _ \<Rightarrow> raiseM (raises MALFORMED_HTTP_RESPONSE))) s"
  by pat_completeness auto

termination
  by (relation "measure (\<lambda>(N, h, l, deadline, chunks, s). nat (provider_response_bytes l + 1 - int (length chunks)))")
     (auto simp: length_greater_0_conv [symmetric] simp del: length_greater_0_conv)

declare read_body.simps [simp del]

definition receive :: "network \<Rightarrow> (exn \<Rightarrow> exn) \<Rightarrow> limits \<Rightarrow> rat \<Rightarrow> http_response \<Rightarrow> (link, exchange_result) eff" where
  "receive N h l deadline response = (case hr_status response of
      PInt status \<Rightarrow>
        if \<not> (100 \<le> status \<and> status \<le> 599) then raiseM (raises MALFORMED_HTTP_RESPONSE)
        else let wait = retry_after (hr_retry_after response) l in
          if 300 \<le> status \<and> status \<le> 399 then retM ([], hr_content_type response, status, wait)
          else
            bindM (liftM (declared_length l (hr_content_length response))) (\<lambda>declared.
            bindM (read_body N h l deadline []) (\<lambda>chunks.
            bindM (checkM (case declared of None \<Rightarrow> True | Some n \<Rightarrow> length chunks = n) (raises TRUNCATED_RESPONSE)) (\<lambda>_.
            retM (chunks, hr_content_type response, status, wait))))
    | _ \<Rightarrow> raiseM (raises MALFORMED_HTTP_RESPONSE))"

subsection \<open>One exchange\<close>

text \<open>The \<open>finally\<close> block: errors of \<open>close\<close> that it names are ignored.\<close>

definition close_connection :: "network \<Rightarrow> (link, unit) eff" where
  "close_connection N =
     bindM (note_event Closed) (\<lambda>_.
     tryM (invoke N) (\<lambda>e. if e = AttributeError \<or> e = TypeError \<or> is_os_error e \<or> is_value_error e then retM () else raiseM e))"

text \<open>The constructor of the connection may raise before there is anything to close.\<close>

definition exchange ::
    "network \<Rightarrow> (exn \<Rightarrow> exn) \<Rightarrow> link_event \<Rightarrow> link_event \<Rightarrow> limits \<Rightarrow> rat \<Rightarrow> (link, exchange_result) eff" where
  "exchange N h dial post l deadline =
     bindM (invoke N) (\<lambda>_.
     finallyM
       (bindM (note_event dial) (\<lambda>_.
        bindM (tryM (invoke N) (\<lambda>e. raiseM (if e = TimeoutError then raises CONNECT_TIMEOUT else e))) (\<lambda>_.
        bindM (note_event post) (\<lambda>_.
        bindM (invoke N) (\<lambda>_.
        bindM (set_read_timeout N deadline l) (\<lambda>_.
        bindM (bindM (ask (net_response N)) liftM) (\<lambda>response.
        receive N h l deadline response)))))))
       (close_connection N))"

text \<open>How long a connection may take, or the failure when the deadline has passed.\<close>

definition connect_within :: "network \<Rightarrow> rat \<Rightarrow> limits \<Rightarrow> (link, rat) eff" where
  "connect_within N deadline l =
     bindM (ask (net_clock N)) (\<lambda>now.
     let t = min (fl (deadline - now)) (seconds (provider_connect_timeout_ms l)) in
     if t \<le> 0 then raiseM (raises CONNECT_TIMEOUT) else retM t)"

subsection \<open>The deadline of a request\<close>

text \<open>\<open>float(deadline)\<close> of a huge integer raises \<open>OverflowError\<close>; \<open>now\<close> is finite, so that the minimum is.\<close>

definition request_deadline :: "rat \<Rightarrow> limits \<Rightarrow> pyval \<Rightarrow> rat outcome" where
  "request_deadline now l deadline =
     (let total = fl (now + seconds (provider_total_timeout_ms l)) in
      case deadline of
        PNone \<Rightarrow> Inr total
      | PInt i \<Rightarrow>
          if \<not> now < of_int i then Inl (raises TOTAL_REQUEST_TIMEOUT)
          else (case double_of_rat (of_int i) of FPosInf \<Rightarrow> Inl OverflowError | _ \<Rightarrow> Inr (min total (fl (of_int i))))
      | PFloat f \<Rightarrow> (case float_extended f of
            Some (Fin r) \<Rightarrow> if \<not> now < r then Inl (raises TOTAL_REQUEST_TIMEOUT) else Inr (min total r)
          | Some PosInf \<Rightarrow> Inr total
          | _ \<Rightarrow> Inl (raises TOTAL_REQUEST_TIMEOUT))
      | _ \<Rightarrow> Inl (raises TOTAL_REQUEST_TIMEOUT))"


section \<open>The connection protocol\<close>

text \<open>
  What a client of this kind promises to the network, as a machine whose states are a phase and the number of connections it
  may still open: a connection is opened, gets one request, is read with time limits, and is closed before the next one is opened or
  the client sleeps.
\<close>

datatype phase = Idle | Connected | Waiting

inductive link_step :: "phase \<times> nat \<Rightarrow> link_event \<Rightarrow> phase \<times> nat \<Rightarrow> bool" where
  dial: "link_step (Idle, Suc n) (Dialled host port limit name) (Connected, n)"
| post: "link_step (Connected, n) (Posted path body headers) (Waiting, n)"
| read: "link_step (Waiting, n) (ReadWithin t) (Waiting, n)"
| close: "ph \<noteq> Idle \<Longrightarrow> link_step (ph, n) Closed (Idle, n)"
| sleep: "link_step (Idle, n) (Slept t) (Idle, n)"

inductive_simps link_step_simps [simp]:
  "link_step c (Dialled host port limit name) c'"
  "link_step c (Posted path body headers) c'"
  "link_step c (ReadWithin t) c'"
  "link_step c Closed c'"
  "link_step c (Slept t) c'"

inductive link_run :: "phase \<times> nat \<Rightarrow> link_event list \<Rightarrow> phase \<times> nat \<Rightarrow> bool" where
  start: "link_run c [] c"
| step: "link_run c es c' \<Longrightarrow> link_step c' e c'' \<Longrightarrow> link_run c (es @ [e]) c''"

definition is_dial :: "link_event \<Rightarrow> bool" where
  "is_dial e = (case e of Dialled _ _ _ _ \<Rightarrow> True | _ \<Rightarrow> False)"

text \<open>The machine opens no more connections than it may, and closes each of them.\<close>

lemma link_run_counts:
  "link_run c es c' \<Longrightarrow> length (filter is_dial es) + snd c' = snd c
     \<and> length (filter is_dial es) + (if fst c = Idle then 0 else 1) = length (filter (\<lambda>e. e = Closed) es) + (if fst c' = Idle then 0 else 1)"
proof (induction rule: link_run.induct)
  case (step c es c' e c'')
  from step.hyps(2) step.IH show ?case by (cases rule: link_step.cases) (auto simp: is_dial_def split: if_splits)
qed simp

text \<open>The log was extended by a run of the machine to a phase, with at least \<open>k\<close> connections left and events in \<open>P\<close>.\<close>

definition reaches :: "(link_event \<Rightarrow> bool) \<Rightarrow> nat \<Rightarrow> link_event list \<Rightarrow> phase \<Rightarrow> nat \<Rightarrow> link \<Rightarrow> bool" where
  "reaches P n L ph k s \<longleftrightarrow> (\<exists>es m. link_log s = L @ es \<and> link_run (Idle, n) es (ph, m) \<and> k \<le> m \<and> list_all P es)"

lemma reaches_start: "reaches P n (link_log s) Idle n s"
  by (auto simp: reaches_def intro: link_run.start)

lemma reaches_less: "reaches P n L ph k s \<Longrightarrow> j \<le> k \<Longrightarrow> reaches P n L ph j s"
  unfolding reaches_def by (meson le_trans)

lemma reaches_tick [simp]: "reaches P n L ph k (s\<lparr>link_tick := i\<rparr>) = reaches P n L ph k s"
  by (simp add: reaches_def)

lemma reaches_event:
  assumes "reaches P n L ph k s" and "\<And>m. k \<le> m \<Longrightarrow> \<exists>m' \<ge> k'. link_step (ph, m) e (ph', m')" and "P e"
  shows "reaches P n L ph' k' (s\<lparr>link_log := link_log s @ [e]\<rparr>)"
proof -
  from assms(1) obtain es m where es: "link_log s = L @ es" "link_run (Idle, n) es (ph, m)" "k \<le> m" "list_all P es"
    by (auto simp: reaches_def)
  with assms(2) obtain m' where "link_step (ph, m) e (ph', m')" "k' \<le> m'" by blast
  with es assms(3) show ?thesis by (auto simp: reaches_def intro!: exI [of _ "es @ [e]"] intro: link_run.step)
qed

section \<open>The loop over the body\<close>

lemma read_body_unfold:
  "read_body N h l deadline chunks =
     bindM (set_read_timeout N deadline l) (\<lambda>_.
     bindM (read_chunk N h (min 8192 (provider_response_bytes l - int (length chunks) + 1))) (\<lambda>chunk.
     case chunk of
       PBytes b \<Rightarrow>
         if b = [] then retM chunks
         else if provider_response_bytes l < int (length (chunks @ b)) then raiseM (raises OVERSIZED_RESPONSE)
         else read_body N h l deadline (chunks @ b)
     | _ \<Rightarrow> raiseM (raises MALFORMED_HTTP_RESPONSE)))"
  by (rule ext) (subst read_body.simps, rule refl)

text \<open>Every round adds a byte and the limit bounds their number.\<close>

lemma body_induct:
  assumes "\<And>chunks. (\<And>b. b \<noteq> [] \<Longrightarrow> \<not> provider_response_bytes l < int (length (chunks @ b)) \<Longrightarrow> Q (chunks @ b)) \<Longrightarrow> Q chunks"
  shows "Q (chunks :: pybytes)"
proof (induction "nat (provider_response_bytes l + 1 - int (length chunks))" arbitrary: chunks rule: less_induct)
  case less
  show ?case
  proof (rule assms)
    fix b :: pybytes assume b: "b \<noteq> []" "\<not> provider_response_bytes l < int (length (chunks @ b))"
    then have "0 < length b" by simp
    with b(2) show "Q (chunks @ b)" by (intro less.hyps) simp
  qed
qed

section \<open>The exchange follows the protocol\<close>

interpretation stays: step_relation "\<lambda>s t. I s \<longrightarrow> I t" for I :: "link \<Rightarrow> bool"
  by unfold_locales auto

lemma stays_ask [intro!]: "stays.keeps (reaches P n L ph k) (ask f)"
  by (rule stays.keepsI) (auto simp: ask_def)

lemma stays_invoke [intro!]: "stays.keeps (reaches P n L ph k) (invoke N)"
  unfolding invoke_def by (intro stays.keeps_bind stays_ask stays.keeps_option stays.keeps_lift)

lemma stays_note_read: "P (ReadWithin t) \<Longrightarrow> stays.keeps (reaches P n L Waiting k) (note_event (ReadWithin t))"
  by (rule stays.keepsI) (auto simp: note_event_def intro: reaches_event)

definition read_times_ok :: "(link_event \<Rightarrow> bool) \<Rightarrow> limits \<Rightarrow> bool" where
  "read_times_ok P l \<longleftrightarrow> (\<forall>t. 0 < t \<and> t \<le> seconds (provider_read_inactivity_timeout_ms l) \<longrightarrow> P (ReadWithin t))"

lemma stays_set_read_timeout: "read_times_ok P l \<Longrightarrow> stays.keeps (reaches P n L Waiting k) (set_read_timeout N deadline l)"
  unfolding set_read_timeout_def Let_def
  by (intro stays.keeps_bind stays_ask stays.keeps_if stays.keeps_lift stays_note_read stays_invoke) (auto simp: read_times_ok_def min_def not_le split: if_splits)

lemma stays_read_chunk [intro!]: "stays.keeps (reaches P n L ph k) (read_chunk N h amount)"
  unfolding read_chunk_def by (intro stays.keeps_try stays.keeps_bind stays_ask stays.keeps_lift)

lemma stays_read_body:
  assumes "read_times_ok P l"
  shows "stays.keeps (reaches P n L Waiting k) (read_body N h l deadline chunks)"
proof (induction chunks rule: body_induct [of l])
  case (1 chunks)
  then show ?case
    unfolding read_body_unfold [of N h l deadline chunks]
    by (auto split: pyval.split intro!: stays.keeps_bind stays_set_read_timeout [OF assms] simp del: eff_simps)
qed

lemma stays_receive: "read_times_ok P l \<Longrightarrow> stays.keeps (reaches P n L Waiting k) (receive N h l deadline response)"
  unfolding receive_def Let_def
  by (auto split: pyval.split intro!: stays.keeps_bind stays.keeps_if stays_read_body simp del: eff_simps)

lemma stays_after: "stays.keeps I m \<Longrightarrow> I s \<Longrightarrow> after m (\<lambda>_. I) s"
  by (rule afterI) (auto dest: stays.keepsD)

lemma close_connection_reaches:
  assumes "reaches P n L ph k s" and "ph \<noteq> Idle" and "P Closed"
  shows "after (close_connection N) (\<lambda>_. reaches P n L Idle k) s"
proof -
  have "stays.keeps (reaches P n L Idle k) (tryM (invoke N)
      (\<lambda>e. if e = AttributeError \<or> e = TypeError \<or> is_os_error e \<or> is_value_error e then retM () else raiseM e))"
    by (intro stays.keeps_try stays_invoke stays.keeps_if stays.keeps_lift)
  moreover have "reaches P n L Idle k (s\<lparr>link_log := link_log s @ [Closed]\<rparr>)"
    by (rule reaches_event [OF assms(1)]) (use assms(2,3) in auto)
  ultimately show ?thesis
    unfolding close_connection_def note_event_def by (intro after_bind_modify stays_after)
qed

lemma exchange_reaches:
  assumes "reaches P n L Idle (Suc k) s" and "dial = Dialled host port limit name" and "post = Posted path body headers"
    and "P dial" and "P post" and "P Closed" and times: "read_times_ok P l"
  shows "after (exchange N h dial post l deadline) (\<lambda>_. reaches P n L Idle k) s"
proof -
  let ?open = "\<lambda>s. reaches P n L Connected k s \<or> reaches P n L Waiting k s"
  let ?rest = "bindM (invoke N) (\<lambda>_. bindM (set_read_timeout N deadline l) (\<lambda>_.
    bindM (bindM (ask (net_response N)) liftM) (\<lambda>response. receive N h l deadline response)))"
  let ?body = "bindM (note_event dial) (\<lambda>_.
    bindM (tryM (invoke N) (\<lambda>e. raiseM (if e = TimeoutError then raises CONNECT_TIMEOUT else e))) (\<lambda>_.
    bindM (note_event post) (\<lambda>_. ?rest)))"
  have rest: "stays.keeps (reaches P n L Waiting k) ?rest"
    by (intro stays.keeps_bind stays_invoke stays_set_read_timeout stays_receive stays_ask stays.keeps_lift times)
  have connect: "stays.keeps (reaches P n L Connected k) (tryM (invoke N) (\<lambda>e. raiseM (if e = TimeoutError then raises CONNECT_TIMEOUT else e)))"
    by (intro stays.keeps_try stays_invoke stays.keeps_lift)
  have body: "after ?body (\<lambda>_. ?open) u" if u: "reaches P n L Idle (Suc k) u" for u
  proof (unfold note_event_def, rule after_bind_modify, rule after_bindI)
    let ?u = "u\<lparr>link_log := link_log u @ [dial]\<rparr>"
    have dialled: "reaches P n L Connected k ?u"
    proof (rule reaches_event [OF u])
      show "\<exists>m' \<ge> k. link_step (Idle, m) dial (Connected, m')" if "Suc k \<le> m" for m
        using that assms(2) by (cases m) auto
    qed (rule assms(4))
    fix v
    { fix e assume "tryM (invoke N) (\<lambda>e. raiseM (if e = TimeoutError then raises CONNECT_TIMEOUT else e)) ?u = Some (Inl e, v)"
      from stays.keepsD [OF connect this] dialled show "?open v" by blast }
    fix x assume "tryM (invoke N) (\<lambda>e. raiseM (if e = TimeoutError then raises CONNECT_TIMEOUT else e)) ?u = Some (Inr x, v)"
    from stays.keepsD [OF connect this] dialled have "reaches P n L Connected k v" by blast
    then have "reaches P n L Waiting k (v\<lparr>link_log := link_log v @ [post]\<rparr>)"
      by (rule reaches_event) (use assms(3,5) in auto)
    from stays_after [OF rest this] show "after (bindM (modifyM (\<lambda>s. s\<lparr>link_log := link_log s @ [post]\<rparr>)) (\<lambda>_. ?rest)) (\<lambda>_. ?open) v"
      by (intro after_bind_modify) (erule after_mono, blast)
  qed
  have close: "after (close_connection N) (\<lambda>_. reaches P n L Idle k) u" if "?open u" for u
    using that assms(6) by (auto intro: close_connection_reaches)
  show ?thesis
    unfolding exchange_def
  proof (rule after_bindI)
    fix e t assume "invoke N s = Some (Inl e, t)"
    from stays.keepsD [OF stays_invoke this] assms(1) have "reaches P n L Idle (Suc k) t" by blast
    then show "reaches P n L Idle k t" by (rule reaches_less) simp
  next
    fix x t assume "invoke N s = Some (Inr x, t)"
    from stays.keepsD [OF stays_invoke this] assms(1) have "reaches P n L Idle (Suc k) t" by blast
    from body [OF this] show "after (finallyM ?body (close_connection N)) (\<lambda>_. reaches P n L Idle k) t"
      unfolding after_finally by (rule after_mono) (drule close, simp split: sum.split)
  qed
qed

section \<open>The exchange ends\<close>

lemma loop_free_ask [intro!]: "loop_free (ask f)"
  by (simp add: loop_free_def ask_def)

lemma loop_free_note [intro!]: "loop_free (note_event e)"
  unfolding note_event_def by auto

lemma loop_free_invoke [intro!]: "loop_free (invoke N)"
  unfolding invoke_def by (intro loop_free_bind loop_free_ask loop_free_option loop_free_basic)

lemma loop_free_set_read_timeout [intro!]: "loop_free (set_read_timeout N deadline l)"
  unfolding set_read_timeout_def Let_def
  by (intro loop_free_bind loop_free_ask loop_free_if loop_free_basic loop_free_note loop_free_invoke)

lemma loop_free_read_chunk [intro!]: "loop_free (read_chunk N h amount)"
  unfolding read_chunk_def by (intro loop_free_try loop_free_bind loop_free_ask loop_free_basic)

lemma loop_free_read_body [intro!]: "loop_free (read_body N h l deadline chunks)"
proof (induction chunks rule: body_induct [of l])
  case (1 chunks)
  then show ?case
    unfolding read_body_unfold [of N h l deadline chunks]
    by (auto split: pyval.split intro!: loop_free_bind simp del: eff_simps)
qed

lemma loop_free_receive [intro!]: "loop_free (receive N h l deadline response)"
  unfolding receive_def Let_def by (auto split: pyval.split simp del: eff_simps)

lemma loop_free_exchange [intro!]: "loop_free (exchange N h dial post l deadline)"
  unfolding exchange_def close_connection_def by (auto simp del: eff_simps)

lemma loop_free_connect_within [intro!]: "loop_free (connect_within N deadline l)"
  unfolding connect_within_def Let_def by (auto simp del: eff_simps)

section \<open>Exceptions\<close>

text \<open>The exceptions that the handlers of both transports name.\<close>

definition link_exn :: "exn \<Rightarrow> bool" where
  "link_exn e \<longleftrightarrow> is_provider_error e \<or> is_os_error e \<or> is_http_error e \<or> is_value_error e
     \<or> e \<in> {AttributeError, TypeError, OverflowError}"

text \<open>The library raises such exceptions only.\<close>

definition tame :: "network \<Rightarrow> bool" where
  "tame N \<longleftrightarrow> (\<forall>n e. net_fault N n = Some e \<longrightarrow> link_exn e) \<and> (\<forall>n e. net_response N n = Inl e \<longrightarrow> link_exn e)
     \<and> (\<forall>n amount e. net_read N n amount = Inl e \<longrightarrow> link_exn e) \<and> (\<forall>n host port e. net_resolver N n host port = Inl e \<longrightarrow> link_exn e)"

lemma link_exn_simps [simp]:
  "link_exn (ProviderError f)" "link_exn AttributeError" "link_exn TypeError" "link_exn ValueError" "link_exn OverflowError"
  by (simp_all add: link_exn_def is_provider_error_def is_value_error_def)

lemma raises_ask [intro!]: "raises_only P (ask f)"
  by (simp add: raises_only_def ask_def)

lemma raises_note [intro!]: "raises_only P (note_event e)"
  unfolding note_event_def by auto

lemma raises_invoke: "tame N \<Longrightarrow> raises_only link_exn (invoke N)"
  by (auto simp: raises_only_def invoke_def ask_def bindM_def tame_def split: option.splits)

lemma raises_set_read_timeout: "tame N \<Longrightarrow> raises_only link_exn (set_read_timeout N deadline l)"
  unfolding set_read_timeout_def Let_def by (auto intro: raises_invoke simp del: eff_simps)

lemma raises_read_chunk:
  "tame N \<Longrightarrow> (\<And>e. link_exn e \<Longrightarrow> link_exn (h e)) \<Longrightarrow> raises_only link_exn (read_chunk N h amount)"
  by (auto simp: raises_only_def read_chunk_def tryM_def bindM_def ask_def tame_def split: option.splits sum.splits)

lemma raises_read_body:
  assumes "tame N" and "\<And>e. link_exn e \<Longrightarrow> link_exn (h e)"
  shows "raises_only link_exn (read_body N h l deadline chunks)"
proof (induction chunks rule: body_induct [of l])
  case (1 chunks)
  then show ?case
    unfolding read_body_unfold [of N h l deadline chunks]
    by (auto split: pyval.split intro!: raises_only_bind raises_set_read_timeout raises_read_chunk assms simp del: eff_simps)
qed

lemma declared_length_Inl: "declared_length l v = Inl e \<Longrightarrow> link_exn e"
  by (auto simp: declared_length_def bindE_eq_Inl split: pyval.splits)

lemma raises_exchange:
  assumes "tame N" and "\<And>e. link_exn e \<Longrightarrow> link_exn (h e)"
  shows "raises_only link_exn (exchange N h dial post l deadline)"
proof -
  have "raises_only link_exn (receive N h l deadline response)" for response
    unfolding receive_def Let_def
    by (auto split: pyval.split intro!: raises_read_body assms intro: declared_length_Inl simp del: eff_simps)
  moreover have "raises_only link_exn (bindM (ask (net_response N)) liftM)"
    using assms(1) by (auto simp: raises_only_def bindM_def ask_def tame_def)
  ultimately show ?thesis
    unfolding exchange_def close_connection_def
    by (auto intro!: raises_invoke raises_set_read_timeout assms(1) simp del: eff_simps)
qed

lemma raises_connect_within: "raises_only link_exn (connect_within N deadline l)"
  unfolding connect_within_def Let_def by (auto simp del: eff_simps)

section \<open>Results\<close>

lemma read_body_bounded:
  assumes "int (length chunks) \<le> provider_response_bytes l"
  shows "yields (\<lambda>b _. int (length b) \<le> provider_response_bytes l) (read_body N h l deadline chunks)"
  using assms
proof (induction chunks rule: body_induct [of l])
  case (1 chunks)
  have "yields (\<lambda>b _. int (length b) \<le> provider_response_bytes l) (retM chunks :: (link, pybytes) eff)"
    using "1.prems" by (simp add: yields_def)
  with "1.IH" show ?case
    unfolding read_body_unfold [of N h l deadline chunks] by (auto split: pyval.split simp del: eff_simps)
qed

lemma retry_after_range: "retry_after v l = Some ms \<Longrightarrow> 0 \<le> ms \<and> ms \<le> retry_after_ms l"
  by (auto simp: retry_after_def Let_def split: pyval.splits if_splits prod.splits)

definition received_ok :: "limits \<Rightarrow> exchange_result \<Rightarrow> bool" where
  "received_ok l = (\<lambda>(body, content_type, status, wait). 100 \<le> status \<and> status \<le> 599 \<and> int (length body) \<le> provider_response_bytes l
     \<and> (300 \<le> status \<and> status \<le> 399 \<longrightarrow> body = []) \<and> (\<forall>ms. wait = Some ms \<longrightarrow> 0 \<le> ms \<and> ms \<le> retry_after_ms l))"

lemma receive_ok:
  assumes "0 \<le> provider_response_bytes l" and "receive N h l deadline response s = Some (Inr res, t)"
  shows "received_ok l res"
proof -
  have "int (length b) \<le> provider_response_bytes l" if "read_body N h l deadline [] s = Some (Inr b, t)" for b s t
    using yieldsD [OF read_body_bounded that] assms(1) by simp
  with assms show ?thesis
    by (auto simp: receive_def Let_def bindM_eq_Some received_ok_def checkE_def retry_after_range split: pyval.splits if_splits)
qed

lemma yields_finally: "yields (\<lambda>x _. P x) m \<Longrightarrow> yields (\<lambda>x _. P x) (finallyM m f)"
  by (auto simp: yields_def finallyM_Inr)

lemma exchange_ok:
  assumes "0 \<le> provider_response_bytes l" and "exchange N h dial post l deadline s = Some (Inr res, t)"
  shows "received_ok l res"
proof -
  have "yields (\<lambda>res _. received_ok l res) (receive N h l deadline response)" for response
    using receive_ok [OF assms(1)] by (simp add: yields_def)
  then have "yields (\<lambda>res _. received_ok l res) (exchange N h dial post l deadline)"
    unfolding exchange_def by (intro yields_bind yields_finally)
  from yieldsD [OF this assms(2)] show ?thesis .
qed

section \<open>Clients that try again\<close>

text \<open>
  The loop \<open>for attempt in range(1, n + 1)\<close> of both transports: a guard, an attempt that gives a result or a failure, and the decision what to
  make of the failure, which returns to try once more.
\<close>

primrec retry_loop ::
    "(int \<Rightarrow> (link, unit) eff) \<Rightarrow> (int \<Rightarrow> (link, classified_failure + 'a) eff) \<Rightarrow> (int \<Rightarrow> classified_failure \<Rightarrow> (link, unit) eff)
     \<Rightarrow> exn \<Rightarrow> nat \<Rightarrow> int \<Rightarrow> (link, 'a) eff" where
  "retry_loop guard attempt settle exhausted 0 k = raiseM exhausted"
| "retry_loop guard attempt settle exhausted (Suc n) k =
     bindM (guard k) (\<lambda>_.
     bindM (attempt k) (\<lambda>result. case result of
       Inr x \<Rightarrow> retM x
     | Inl f \<Rightarrow> bindM (settle k f) (\<lambda>_. retry_loop guard attempt settle exhausted n (k + 1))))"

text \<open>The contract of the three parts: which events they may cause, that they end, and which exceptions leave them.\<close>

locale attempt_policy =
  fixes N :: network and allowed :: "link_event \<Rightarrow> bool"
    and guard :: "int \<Rightarrow> (link, unit) eff" and attempt :: "int \<Rightarrow> (link, classified_failure + 'a) eff"
    and settle :: "int \<Rightarrow> classified_failure \<Rightarrow> (link, unit) eff"
  assumes guard_stays: "stays.keeps (reaches allowed n L Idle k) (guard j)"
    and attempt_reaches: "reaches allowed n L Idle (Suc k) s \<Longrightarrow> after (attempt j) (\<lambda>_. reaches allowed n L Idle k) s"
    and settle_stays: "stays.keeps (reaches allowed n L Idle k) (settle j f)"
    and parts_end: "loop_free (guard j)" "loop_free (attempt j)" "loop_free (settle j f)"
    and parts_raise: "raises_only is_provider_error (guard j)" "tame N \<Longrightarrow> raises_only is_provider_error (attempt j)"
      "raises_only is_provider_error (settle j f)"
begin

lemma loop_reaches:
  "reaches allowed n L Idle m s \<Longrightarrow> after (retry_loop guard attempt settle exhausted m j) (\<lambda>_. reaches allowed n L Idle 0) s"
proof (induction m arbitrary: j s)
  case 0
  then show ?case by (simp add: after_def)
next
  case (Suc m)
  show ?case
    unfolding retry_loop.simps
  proof (rule after_bindI)
    fix e t assume "guard j s = Some (Inl e, t)"
    from stays.keepsD [OF guard_stays this] Suc.prems show "reaches allowed n L Idle 0 t" by (meson reaches_less zero_le)
  next
    fix x t assume "guard j s = Some (Inr x, t)"
    from stays.keepsD [OF guard_stays this] Suc.prems have t: "reaches allowed n L Idle (Suc m) t" by blast
    note tried = afterD [OF attempt_reaches [OF t, of j]]
    show "after (bindM (attempt j) (\<lambda>result. case result of Inr x \<Rightarrow> retM x
        | Inl f \<Rightarrow> bindM (settle j f) (\<lambda>_. retry_loop guard attempt settle exhausted m (j + 1)))) (\<lambda>_. reaches allowed n L Idle 0) t"
    proof (rule after_bindI)
      show "reaches allowed n L Idle 0 u" if "attempt j t = Some (Inl e, u)" for e u
        using tried [OF that] by (rule reaches_less) simp
      fix result u assume "attempt j t = Some (Inr result, u)"
      from tried [OF this] have u: "reaches allowed n L Idle m u" .
      show "after (case result of Inr x \<Rightarrow> retM x
        | Inl f \<Rightarrow> bindM (settle j f) (\<lambda>_. retry_loop guard attempt settle exhausted m (j + 1))) (\<lambda>_. reaches allowed n L Idle 0) u"
      proof (cases result)
        case (Inl f)
        have "after (bindM (settle j f) (\<lambda>_. retry_loop guard attempt settle exhausted m (j + 1))) (\<lambda>_. reaches allowed n L Idle 0) u"
        proof (rule after_bindI)
          show "reaches allowed n L Idle 0 v" if "settle j f u = Some (Inl e, v)" for e v
            using stays.keepsD [OF settle_stays that] u by (meson reaches_less zero_le)
          fix y v assume "settle j f u = Some (Inr y, v)"
          from stays.keepsD [OF settle_stays this] u have "reaches allowed n L Idle m v" by blast
          then show "after (retry_loop guard attempt settle exhausted m (j + 1)) (\<lambda>_. reaches allowed n L Idle 0) v" by (rule Suc.IH)
        qed
        with Inl show ?thesis by simp
      next
        case (Inr x)
        from u have "reaches allowed n L Idle 0 u" by (rule reaches_less) simp
        with Inr show ?thesis by (simp add: after_def)
      qed
    qed
  qed
qed

lemma loop_ends: "loop_free (retry_loop guard attempt settle exhausted m j)"
proof (induction m arbitrary: j)
  case (Suc m)
  then show ?case unfolding retry_loop.simps by (auto intro!: parts_end split: sum.split simp del: eff_simps)
qed auto

lemma loop_raises:
  assumes "tame N" and "is_provider_error exhausted"
  shows "raises_only is_provider_error (retry_loop guard attempt settle exhausted m j)"
proof (induction m arbitrary: j)
  case (Suc m)
  then show ?case unfolding retry_loop.simps by (auto intro!: parts_raise assms split: sum.split simp del: eff_simps)
qed (use assms(2) in auto)

lemma loop_yields:
  assumes "\<And>j. yields (\<lambda>result _. \<forall>x. result = Inr x \<longrightarrow> Q x) (attempt j)"
  shows "yields (\<lambda>x _. Q x) (retry_loop guard attempt settle exhausted m j)"
proof (induction m arbitrary: j)
  case (Suc m)
  have rest: "yields (\<lambda>x _. Q x) (bindM (settle j f) (\<lambda>_. retry_loop guard attempt settle exhausted m (j + 1)))" for f
    by (intro yields_bind Suc.IH)
  have "yields (\<lambda>x _. Q x) (bindM (attempt j) (\<lambda>result. case result of Inr x \<Rightarrow> retM x
        | Inl f \<Rightarrow> bindM (settle j f) (\<lambda>_. retry_loop guard attempt settle exhausted m (j + 1))))"
    unfolding yields_def
  proof (intro allI impI, erule bindM_Inr)
    fix s y t result u
    assume "attempt j s = Some (Inr result, u)"
    moreover assume "(case result of Inr x \<Rightarrow> retM x
      | Inl f \<Rightarrow> bindM (settle j f) (\<lambda>_. retry_loop guard attempt settle exhausted m (j + 1))) u = Some (Inr y, t)"
    ultimately show "Q y" using yieldsD [OF assms] yieldsD [OF rest] by (cases result) auto
  qed
  then show ?case unfolding retry_loop.simps by (rule yields_bind)
qed auto

end

end
