(* ===== verification/Transport.thy ===== *)
theory Transport
  imports Http_Link
begin

text \<open>
  \<open>transport.py\<close>: the transport for the deterministic provider on the loopback interface. A request is sent with bounded retries
  over fresh connections. The branch for a failure that was never set is unreachable in the code and has no counterpart; the sleep function
  returns.
\<close>

section \<open>Definitions\<close>

definition request_headers :: "pybytes \<Rightarrow> (string \<times> pystr) list" where
  "request_headers body = [(''Accept'', py ''application/json''), (''Content-Type'', py ''application/json''), (''Content-Length'', dec (length body))]"

definition as_truncated :: "exn \<Rightarrow> exn" where
  "as_truncated e = (if e = IncompleteRead then raises TRUNCATED_RESPONSE else e)"

definition loopback_one_attempt :: "network \<Rightarrow> validated_endpoint \<Rightarrow> pybytes \<Rightarrow> limits \<Rightarrow> rat \<Rightarrow> (link, exchange_result) eff" where
  "loopback_one_attempt N e body l deadline =
     bindM (connect_within N deadline l) (\<lambda>t.
     exchange N as_truncated (Dialled (ve_connect_host e) (ve_port e) t None) (Posted (ve_path e) body (request_headers body)) l deadline)"

abbreviation attempt_failure :: "failure_class \<Rightarrow> int \<Rightarrow> classified_failure" where
  "attempt_failure c k \<equiv> failure_with c None None (Some k)"

definition judge :: "network \<Rightarrow> provider_request \<Rightarrow> limits \<Rightarrow> int \<Rightarrow> exchange_result \<Rightarrow> (classified_failure + provider_response) outcome" where
  "judge N r l k result = (case result of (body, content_type, status, wait) \<Rightarrow>
     if 300 \<le> status \<and> status \<le> 399 then Inr (Inl redirect_rejection)
     else if status < 200 \<or> 300 \<le> status then Inr (Inl (http_failure (PInt status) wait))
     else
       bindE (json_content_type (net_ucd N) content_type) (\<lambda>json.
       bindE (checkE json (ProviderError (attempt_failure INVALID_CONTENT_TYPE k))) (\<lambda>_.
       bindE (parse_provider_response (net_nesting N) (PBytes body) (tools r) l) (\<lambda>response. Inr (Inr response)))))"

definition classify :: "network \<Rightarrow> rat \<Rightarrow> int \<Rightarrow> exn \<Rightarrow> (link, classified_failure) eff" where
  "classify N deadline k e =
     (case provider_failure e of
        Some f \<Rightarrow> retM f
      | None \<Rightarrow>
          if e = TimeoutError then
            bindM (ask (net_clock N)) (\<lambda>now.
            retM (attempt_failure (if deadline \<le> now then TOTAL_REQUEST_TIMEOUT else READ_TIMEOUT) k))
          else if is_os_error e \<or> is_http_error e then retM (attempt_failure DNS_OR_CONNECTION_FAILURE k)
          else if is_value_error e \<or> e \<in> {AttributeError, TypeError, OverflowError, RecursionError}
            then retM (attempt_failure MALFORMED_HTTP_RESPONSE k)
          else raiseM e)"

definition loopback_attempt ::
    "network \<Rightarrow> validated_endpoint \<Rightarrow> provider_request \<Rightarrow> pybytes \<Rightarrow> limits \<Rightarrow> rat \<Rightarrow> int \<Rightarrow> (link, classified_failure + provider_response) eff" where
  "loopback_attempt N e r body l deadline k =
     tryM (bindM (loopback_one_attempt N e body l deadline) (\<lambda>result. liftM (judge N r l k result)))
       (\<lambda>x. bindM (classify N deadline k x) (\<lambda>f. retM (Inl f)))"

definition loopback_guard :: "network \<Rightarrow> rat \<Rightarrow> int \<Rightarrow> (link, unit) eff" where
  "loopback_guard N deadline k =
     bindM (ask (net_clock N)) (\<lambda>now.
     checkM (0 < fl (deadline - now)) (ProviderError (attempt_failure TOTAL_REQUEST_TIMEOUT (k - 1))))"

text \<open>What is raised when no retry is granted.\<close>

definition give_up :: "limits \<Rightarrow> int \<Rightarrow> classified_failure \<Rightarrow> exn" where
  "give_up l k f =
     (if retryable f \<and> provider_attempt_count l \<le> k \<and> 1 < provider_attempt_count l
      then ProviderError (attempt_failure RETRY_EXHAUSTED k) else ProviderError f)"

definition loopback_settle :: "network \<Rightarrow> limits \<Rightarrow> rat \<Rightarrow> int \<Rightarrow> classified_failure \<Rightarrow> (link, unit) eff" where
  "loopback_settle N l deadline k f =
     bindM (ask (net_clock N)) (\<lambda>now.
     let decision = decide_retry f k (max 0 (remaining_ms deadline now)) l in
     if \<not> eligible decision then raiseM (give_up l k f)
     else if delay_ms decision = 0 then retM ()
     else
       bindM (ask (net_clock N)) (\<lambda>now.
       if fl (deadline - now) < seconds (delay_ms decision) then raiseM (ProviderError (attempt_failure TOTAL_REQUEST_TIMEOUT k))
       else note_event (Slept (seconds (delay_ms decision)))))"

definition as_invalid_request :: "exn \<Rightarrow> exn" where
  "as_invalid_request e =
     (if is_value_error e \<or> e \<in> {AttributeError, TypeError, OverflowError, RecursionError} then lvf else e)"

definition loopback_send ::
    "network \<Rightarrow> validated_endpoint \<Rightarrow> provider_request \<Rightarrow> limits \<Rightarrow> pyval \<Rightarrow> pyval \<Rightarrow> (link, provider_response) eff" where
  "loopback_send N e r l correlation deadline =
     bindM (liftM (validate_loopback_transport_endpoint (net_ucd N) (net_nfkc N) e)) (\<lambda>_.
     bindM (checkM (correlation = PStr (correlation_id r)) lvf) (\<lambda>_.
     bindM (liftM (catchE (request_to_json_bytes r l) (\<lambda>x. Inl (as_invalid_request x)))) (\<lambda>body.
     bindM (ask (net_clock N)) (\<lambda>now.
     bindM (liftM (request_deadline now l deadline)) (\<lambda>deadline_at.
     retry_loop (loopback_guard N deadline_at) (loopback_attempt N e r body l deadline_at) (loopback_settle N l deadline_at)
       (ProviderError (attempt_failure RETRY_EXHAUSTED (provider_attempt_count l))) (nat (provider_attempt_count l)) 1)))))"

section \<open>Lemmas\<close>

text \<open>The events a send for this endpoint and body may cause.\<close>

definition sleep_ok :: "limits \<Rightarrow> rat \<Rightarrow> bool" where
  "sleep_ok l t \<longleftrightarrow> (\<exists>f k rest. t = seconds (delay_ms (decide_retry f k rest l)) )"

definition loopback_event :: "validated_endpoint \<Rightarrow> pybytes \<Rightarrow> limits \<Rightarrow> link_event \<Rightarrow> bool" where
  "loopback_event e body l ev = (case ev of
      Dialled host port t name \<Rightarrow> host = ve_connect_host e \<and> port = ve_port e \<and> name = None \<and> 0 < t \<and> t \<le> seconds (provider_connect_timeout_ms l)
    | Posted path b headers \<Rightarrow> path = ve_path e \<and> b = body \<and> headers = request_headers body
    | ReadWithin t \<Rightarrow> 0 < t \<and> t \<le> seconds (provider_read_inactivity_timeout_ms l)
    | Closed \<Rightarrow> True
    | Slept t \<Rightarrow> sleep_ok l t)"

lemma sleep_ok_bounds: "wf_limits l \<Longrightarrow> sleep_ok l t \<Longrightarrow> \<exists>ms. t = seconds ms \<and> 0 \<le> ms \<and> ms \<le> retry_after_ms l"
  using wf_limits_bounds [of l]
  by (force simp: sleep_ok_def decide_retry_delay requested_delay_def split: option.splits if_splits)

lemma connect_within_Inr: "connect_within N deadline l s = Some (Inr t, s') \<Longrightarrow> 0 < t \<and> t \<le> seconds (provider_connect_timeout_ms l)"
  by (auto simp: connect_within_def Let_def bindM_eq_Some split: if_splits)

lemma stays_connect_within: "stays.keeps (reaches P n L ph k) (connect_within N deadline l)"
  unfolding connect_within_def Let_def by (intro stays.keeps_bind stays_ask stays.keeps_if stays.keeps_lift)

lemma stays_classify: "stays.keeps (reaches P n L ph k) (classify N deadline j e)"
  unfolding classify_def by (auto simp del: eff_simps)

lemma stays_sleep: "P (Slept t) \<Longrightarrow> stays.keeps (reaches P n L Idle k) (note_event (Slept t))"
  by (rule stays.keepsI) (auto simp: note_event_def intro: reaches_event)

text \<open>An attempt that connects within its time and then exchanges takes at most one connection.\<close>

lemma attempt_reaches:
  assumes "reaches P n L Idle (Suc k) s" and "\<And>t. 0 < t \<Longrightarrow> t \<le> seconds (provider_connect_timeout_ms l) \<Longrightarrow> P (Dialled host port t name)"
    and "P (Posted path body headers)" and "P Closed" and "read_times_ok P l"
  shows "after (bindM (connect_within N deadline l) (\<lambda>t.
    exchange N h (Dialled host port t name) (Posted path body headers) l deadline)) (\<lambda>_. reaches P n L Idle k) s"
proof (rule after_bindI)
  fix e u assume "connect_within N deadline l s = Some (Inl e, u)"
  from stays.keepsD [OF stays_connect_within this] assms(1) have "reaches P n L Idle (Suc k) u" by blast
  then show "reaches P n L Idle k u" by (rule reaches_less) simp
next
  fix t u assume t: "connect_within N deadline l s = Some (Inr t, u)"
  from stays.keepsD [OF stays_connect_within this] assms(1) have "reaches P n L Idle (Suc k) u" by blast
  then show "after (exchange N h (Dialled host port t name) (Posted path body headers) l deadline) (\<lambda>_. reaches P n L Idle k) u"
    using connect_within_Inr [OF t] assms(2-5) by (intro exchange_reaches) auto
qed

text \<open>Handling the result of an attempt adds no event.\<close>

lemma after_handled:
  assumes "after m (\<lambda>_. I) s" and "\<And>x. stays.keeps I (f x)" and "\<And>e. stays.keeps I (h e)"
  shows "after (tryM (bindM m f) h) (\<lambda>_. I) s"
proof -
  have "after (bindM m f) (\<lambda>_. I) s"
    unfolding after_bind using assms(1) by (rule after_mono) (auto intro: stays_after [OF assms(2)] split: sum.split)
  then show ?thesis
    unfolding after_try by (rule after_mono) (auto intro: stays_after [OF assms(3)] split: sum.split)
qed

lemma classify_raises: "link_exn e \<Longrightarrow> raises_only is_provider_error (classify N deadline k e)"
  unfolding classify_def
  by (auto simp: link_exn_def provider_failure_def is_provider_error_def split: exn.split simp del: eff_simps)

lemma classify_ends: "loop_free (classify N deadline k e)"
  unfolding classify_def by (auto simp del: eff_simps)

lemma judge_Inl: "judge N r l k result = Inl e \<Longrightarrow> link_exn e"
  by (auto simp: judge_def bindE_eq_Inl json_content_type_def split: prod.splits if_splits pyval.splits dest!: parse_provider_response_Inl)

interpretation loopback: attempt_policy N "loopback_event e body l" "loopback_guard N deadline" "loopback_attempt N e r body l deadline"
    "loopback_settle N l deadline" for N e r body l deadline
proof
  fix n L k j s f
  let ?P = "loopback_event e body l"
  have times: "read_times_ok ?P l" by (simp add: read_times_ok_def loopback_event_def)
  show "stays.keeps (reaches ?P n L Idle k) (loopback_guard N deadline j)"
    unfolding loopback_guard_def by (intro stays.keeps_bind stays_ask stays.keeps_lift)
  show "stays.keeps (reaches ?P n L Idle k) (loopback_settle N l deadline j f)"
    unfolding loopback_settle_def Let_def
    by (intro stays.keeps_bind stays_ask stays.keeps_if stays.keeps_lift stays_sleep) (auto simp: loopback_event_def sleep_ok_def)
  show "after (loopback_attempt N e r body l deadline j) (\<lambda>_. reaches ?P n L Idle k) s" if "reaches ?P n L Idle (Suc k) s"
    unfolding loopback_attempt_def loopback_one_attempt_def
    by (intro after_handled attempt_reaches that times stays.keeps_lift stays.keeps_bind stays_classify) (simp_all add: loopback_event_def)
  show "loop_free (loopback_guard N deadline j)" "loop_free (loopback_attempt N e r body l deadline j)" "loop_free (loopback_settle N l deadline j f)"
    unfolding loopback_guard_def loopback_attempt_def loopback_one_attempt_def loopback_settle_def Let_def
    by (auto intro: classify_ends simp del: eff_simps)
  show "raises_only is_provider_error (loopback_guard N deadline j)" "raises_only is_provider_error (loopback_settle N l deadline j f)"
    unfolding loopback_guard_def loopback_settle_def Let_def give_up_def by (auto simp: is_provider_error_def simp del: eff_simps)
  have "link_exn (as_truncated x)" if "link_exn x" for x using that by (simp add: as_truncated_def)
  then show "raises_only is_provider_error (loopback_attempt N e r body l deadline j)" if "tame N"
    unfolding loopback_attempt_def loopback_one_attempt_def
    by (intro raises_only_try [where Q = link_exn] raises_only_bind raises_connect_within raises_exchange raises_only_lift classify_raises that)
      (auto dest: judge_Inl)
qed

lemma request_bytes_Inl: "request_to_json_bytes r l = Inl e \<Longrightarrow> is_provider_error (as_invalid_request e)"
  by (auto simp: request_to_json_bytes_def check_tool_value_def bindE_eq_Inl as_invalid_request_def is_provider_error_def is_value_error_def
      canonical_correlation_id_def check_identifier_def split: if_splits option.splits pyval.splits
      dest!: ModelIdentifier_Inl vsd_Inl json_value_Inl dumps_Inl iterE_Inl_member)

lemma request_bytes_bound: "request_to_json_bytes r l = Inr b \<Longrightarrow> int (length b) \<le> provider_request_bytes l"
  by (auto simp: request_to_json_bytes_def bindE_eq_Inr)

lemma request_deadline_Inl: "request_deadline now l deadline = Inl e \<Longrightarrow> (\<And>i. deadline \<noteq> PInt i) \<Longrightarrow> is_provider_error e"
  by (auto simp: request_deadline_def Let_def is_provider_error_def split: pyval.splits option.splits extended.splits if_splits)

lemma loopback_send_ends: "loop_free (loopback_send N e r l correlation deadline)"
  unfolding loopback_send_def by (auto intro!: loopback.loop_ends simp del: eff_simps)

lemma loopback_send_raises:
  assumes "tame N" and "\<And>i. deadline \<noteq> PInt i"
  shows "raises_only is_provider_error (loopback_send N e r l correlation deadline)"
  unfolding loopback_send_def
  using assms request_deadline_Inl
  by (auto intro!: loopback.loop_raises simp: catchE_def is_provider_error_def [of "ProviderError f" for f] request_bytes_Inl
      split: sum.splits dest: loopback_transport_Inl simp del: eff_simps)

lemma loopback_attempt_yields:
  assumes "0 \<le> provider_response_bytes l"
  shows "yields (\<lambda>result _. \<forall>x. result = Inr x \<longrightarrow> (\<exists>b. int (length b) \<le> provider_response_bytes l
    \<and> parse_provider_response (net_nesting N) (PBytes b) (tools r) l = Inr x)) (loopback_attempt N e r body l deadline k)"
  unfolding yields_def
proof (intro allI impI)
  fix s result t x
  assume "loopback_attempt N e r body l deadline k s = Some (Inr result, t)" and x: "result = Inr x"
  then obtain res u where res: "loopback_one_attempt N e body l deadline s = Some (Inr res, u)" and judged: "judge N r l k res = Inr (Inr x)"
    by (auto simp: loopback_attempt_def tryM_def bindM_def split: option.splits sum.splits)
  from res have "received_ok l res"
    by (auto simp: loopback_one_attempt_def bindM_eq_Some dest: exchange_ok [OF assms])
  with judged show "\<exists>b. int (length b) \<le> provider_response_bytes l
    \<and> parse_provider_response (net_nesting N) (PBytes b) (tools r) l = Inr x"
    by (auto simp: judge_def received_ok_def bindE_eq_Inr split: prod.splits if_splits)
qed

section \<open>Samples\<close>

text \<open>A peer whose answer is no HTTP, on a clock that stands still.\<close>

definition sample_network :: network where
  "sample_network = \<lparr> net_clock = (\<lambda>_. 0), net_fault = (\<lambda>_. None), net_sock = (\<lambda>_. True), net_response = (\<lambda>_. Inl ValueError),
     net_read = (\<lambda>_ _. Inr (PBytes [])), net_resolver = (\<lambda>_. public_resolver), net_nesting = 5, net_ucd = plain_ucd, net_nfkc = id,
     net_cancelled = (\<lambda>_. False), net_environ = (\<lambda>_. None) \<rparr>"

definition fresh_link :: link where
  "fresh_link = \<lparr> link_tick = 0, link_log = [] \<rparr>"

lemma default_seconds:
  "seconds 5000 = 5" "seconds 500 = 1 / 2" "seconds 1000 = 1" "fl 5 = 5"
  by code_simp+

lemma sample_tame: "tame sample_network"
  by (simp add: tame_def sample_network_def public_resolver_def)

lemma sample_bytes: "\<exists>b. request_to_json_bytes sample_request DEFAULT_LIMITS = Inr b"
  using sample_model fresh_correlation_id [of 1]
  by (simp add: request_to_json_bytes_def sample_request_def request_value_def message_value_def generation_items_def
      obj_def key_text_def dumps_str_def escape_char_def dumps_int_def dec_int_def dec.simps MAX_STR_DIGITS_def
      py_def utf8_encode_replace_def surrogate_def utf8_char_def)

lemmas retry_loop_numeral = retry_loop.simps(2) [of guard attempt settle exhausted "pred_numeral n" k for guard attempt settle exhausted n k, folded numeral_eq_Suc]

lemma sample_send:
  "\<exists>res t. loopback_send sample_network sample_endpoint sample_request DEFAULT_LIMITS (PStr (py ''req-1'')) PNone fresh_link = Some (res, t)
     \<and> length (link_log t) = 4"
proof -
  obtain b where "request_to_json_bytes sample_request DEFAULT_LIMITS = Inr b" using sample_bytes by blast
  moreover have "validate_loopback_transport_endpoint (net_ucd sample_network) (net_nfkc sample_network) sample_endpoint = Inr ()"
    using sample_endpoint_ok by (simp add: sample_network_def)
  moreover have "PStr (py ''req-1'') = PStr (correlation_id sample_request)" by (simp add: sample_request_def)
  moreover have "net_clock sample_network = (\<lambda>_. 0)" "net_fault sample_network = (\<lambda>_. None)" "net_sock sample_network = (\<lambda>_. True)"
    "net_response sample_network = (\<lambda>_. Inl ValueError)" by (simp_all add: sample_network_def)
  ultimately show ?thesis
    by (simp add: default_seconds retry_loop_numeral loopback_send_def request_deadline_def loopback_guard_def loopback_attempt_def loopback_one_attempt_def connect_within_def
        exchange_def set_read_timeout_def close_connection_def note_event_def invoke_def ask_def bindM_def tryM_def finallyM_def Let_def
        classify_def provider_failure_def is_os_error_def is_http_error_def is_value_error_def loopback_settle_def decide_retry_def retryable_def
        failure_with_def ClassifiedFailure_def fresh_link_def)
qed

section \<open>Properties\<close>

text \<open>
  C31: the transport implements the connection protocol. What one send does to the network is a run of the abstract machine that starts and
  ends idle and may open \<open>provider_attempt_count\<close> connections: each is opened to the one loopback address of the checked endpoint, gets
  the bounded encoding of the request and no credential, is read with bounded waits and is closed, and between two of them the transport sleeps for
  no longer than the retry ceiling.
\<close>

theorem loopback_sends_follow_the_protocol:
  assumes "loopback_send N e r l correlation deadline s = Some (res, t)" and "wf_limits l"
  shows "\<exists>es m. link_log t = link_log s @ es \<and> link_run (Idle, nat (provider_attempt_count l)) es (Idle, m)
    \<and> (\<forall>ev \<in> set es. case ev of
         Dialled host port limit name \<Rightarrow> (\<exists>h n. host = PStr h \<and> ip_address h = Some (V4 n) \<and> n div 2 ^ 24 = 127) \<and> host = ve_connect_host e
           \<and> port = ve_port e \<and> name = None \<and> 0 < limit \<and> limit \<le> seconds (provider_connect_timeout_ms l)
       | Posted path body headers \<Rightarrow> path = ve_path e \<and> request_to_json_bytes r l = Inr body \<and> int (length body) \<le> provider_request_bytes l
           \<and> ''Authorization'' \<notin> fst ` set headers
       | ReadWithin limit \<Rightarrow> 0 < limit \<and> limit \<le> seconds (provider_read_inactivity_timeout_ms l)
       | Closed \<Rightarrow> True
       | Slept limit \<Rightarrow> \<exists>ms. limit = seconds ms \<and> 0 \<le> ms \<and> ms \<le> retry_after_ms l)"
proof (cases "\<exists>body now due u. validate_loopback_transport_endpoint (net_ucd N) (net_nfkc N) e = Inr () \<and> request_to_json_bytes r l = Inr body
    \<and> link_log u = link_log s
    \<and> retry_loop (loopback_guard N due) (loopback_attempt N e r body l due) (loopback_settle N l due)
       (ProviderError (attempt_failure RETRY_EXHAUSTED (provider_attempt_count l))) (nat (provider_attempt_count l)) 1 u = Some (res, t)")
  case True
  then obtain body now due u where ok: "validate_loopback_transport_endpoint (net_ucd N) (net_nfkc N) e = Inr ()" "request_to_json_bytes r l = Inr body"
    and u: "link_log u = link_log s"
    and loop: "retry_loop (loopback_guard N due) (loopback_attempt N e r body l due) (loopback_settle N l due)
       (ProviderError (attempt_failure RETRY_EXHAUSTED (provider_attempt_count l))) (nat (provider_attempt_count l)) 1 u = Some (res, t)"
    by blast
  from afterD [OF loopback.loop_reaches [OF reaches_start] loop] obtain es m where es: "link_log t = link_log s @ es"
      "link_run (Idle, nat (provider_attempt_count l)) es (Idle, m)" "list_all (loopback_event e body l) es"
    unfolding reaches_def u by blast
  then show ?thesis
    using accepted_destination [OF ok(1)] ok(2) request_bytes_bound [OF ok(2)] sleep_ok_bounds [OF assms(2)]
    by (intro exI [of _ es] exI [of _ m])
      (auto simp: list_all_iff loopback_event_def request_headers_def dest!: bspec split: link_event.split)
next
  case False
  with assms(1) have "link_log t = link_log s"
    by (auto simp: loopback_send_def bindM_eq_Some ask_def catchE_eq_Inr checkE_def split: if_splits)
  then show ?thesis by (auto intro!: exI [of _ "[]"] link_run.start)
qed

theorem loopback_sends_follow_the_protocol_witness:
  "\<exists>res t m. loopback_send sample_network sample_endpoint sample_request DEFAULT_LIMITS (PStr (py ''req-1'')) PNone fresh_link = Some (res, t)
     \<and> length (link_log t) = 4 \<and> link_run (Idle, 3) (link_log t) (Idle, m)"
proof -
  obtain res t where send: "loopback_send sample_network sample_endpoint sample_request DEFAULT_LIMITS (PStr (py ''req-1'')) PNone fresh_link = Some (res, t)"
    and "length (link_log t) = 4" using sample_send by blast
  with loopback_sends_follow_the_protocol [OF send DEFAULT_LIMITS_wf] show ?thesis by (auto simp: fresh_link_def)
qed



end
