(* ===== verification/OpenAI_Contracts.thy ===== *)
theory OpenAI_Contracts
  imports Endpoint_Policy Contracts
begin

text \<open>
  The pure half of \<open>openai_compatible.py\<close>: the authority over synthetic messages, the configuration, the mapping of a request to the
  wire format and the closed parser of responses.

  A message object has an address (its \<open>id\<close>), which may be used again after it has died, and a token, which never is: two
  references are to one object exactly if the tokens agree. The registry of the authority keeps, by address, the token
  behind a weak reference. The values of the fixtures are state, since nothing stops other code from assigning to an enum
  member.
\<close>

section \<open>Synthetic messages\<close>

datatype synthetic_fixture = TEST_PROMPT | MANUAL_SMOKE_PROMPT

record fixture_spec =
  spec_fixture :: synthetic_fixture
  expected_fixture_value :: "message_role \<times> pystr"
  spec_role :: message_role
  wire_role :: pystr
  spec_content :: pystr

record message_object =
  mo_address :: nat
  mo_token :: nat
  mo_synthetic :: bool
  mo_message :: provider_message

record authority =
  fixture_value :: "synthetic_fixture \<Rightarrow> message_role \<times> pystr"
  issued :: "nat \<Rightarrow> (nat \<times> fixture_spec) option"

definition SYNTHETIC_FIXTURES :: "synthetic_fixture \<Rightarrow> message_role \<times> pystr" where
  "SYNTHETIC_FIXTURES f = (case f of
      TEST_PROMPT \<Rightarrow> (USER, py ''synthetic-only prompt'')
    | MANUAL_SMOKE_PROMPT \<Rightarrow> (USER, py ''Return a short synthetic acknowledgement.''))"

definition committed :: "synthetic_fixture \<Rightarrow> fixture_spec" where
  "committed f = (case f of
      TEST_PROMPT \<Rightarrow> \<lparr> spec_fixture = TEST_PROMPT, expected_fixture_value = (USER, py ''synthetic-only prompt''), spec_role = USER,
        wire_role = py ''user'', spec_content = py ''synthetic-only prompt'' \<rparr>
    | MANUAL_SMOKE_PROMPT \<Rightarrow> \<lparr> spec_fixture = MANUAL_SMOKE_PROMPT,
        expected_fixture_value = (USER, py ''Return a short synthetic acknowledgement.''), spec_role = USER,
        wire_role = py ''user'', spec_content = py ''Return a short synthetic acknowledgement.'' \<rparr>)"

definition synthetic_message_authority :: authority where
  "synthetic_message_authority = \<lparr> fixture_value = SYNTHETIC_FIXTURES, issued = (\<lambda>_. None) \<rparr>"

text \<open>An argument that is no member of the enum is \<open>None\<close>.\<close>

definition committed_fixture :: "authority \<Rightarrow> synthetic_fixture option \<Rightarrow> fixture_spec outcome" where
  "committed_fixture a arg = (case arg of
      None \<Rightarrow> Inl (raises LOCAL_AUTHORIZATION_FAILURE)
    | Some f \<Rightarrow>
        bindE (checkE (fixture_value a f = expected_fixture_value (committed f)) (raises LOCAL_AUTHORIZATION_FAILURE)) (\<lambda>_.
        Inr (committed f)))"

definition authorize_message :: "authority \<Rightarrow> nat \<Rightarrow> nat \<Rightarrow> synthetic_fixture option \<Rightarrow> (message_object \<times> authority) outcome" where
  "authorize_message a address token arg =
     bindE (committed_fixture a arg) (\<lambda>spec.
     bindE (ProviderMessage (spec_role spec) (PStr (spec_content spec))) (\<lambda>m.
     Inr (\<lparr> mo_address = address, mo_token = token, mo_synthetic = True, mo_message = m \<rparr>,
          a\<lparr>issued := (issued a)(address \<mapsto> (token, spec))\<rparr>)))"

text \<open>The callback of a weak reference: the entry goes unless the address has been issued again.\<close>

definition discard :: "authority \<Rightarrow> nat \<Rightarrow> nat \<Rightarrow> authority" where
  "discard a address token = (case issued a address of
      None \<Rightarrow> a
    | Some (current, _) \<Rightarrow> if current = token then a\<lparr>issued := (issued a)(address := None)\<rparr> else a)"

definition authorized_fixture :: "authority \<Rightarrow> message_object \<Rightarrow> fixture_spec option" where
  "authorized_fixture a m =
     (if \<not> mo_synthetic m then None
      else case issued a (mo_address m) of
        None \<Rightarrow> None
      | Some (token, spec) \<Rightarrow>
          if token \<noteq> mo_token m then None
          else if fixture_value a (spec_fixture spec) \<noteq> expected_fixture_value spec \<or> role (mo_message m) \<noteq> spec_role spec
            \<or> content (mo_message m) \<noteq> spec_content spec then None
          else Some spec)"

section \<open>Configuration\<close>

record openai_config =
  oc_endpoint :: pystr
  oc_model :: pystr
  credential_env :: pystr
  oc_loopback :: bool
  oc_limits :: limits

definition CONFIG_KEYS :: "string list" where
  "CONFIG_KEYS = [''endpoint'', ''model'', ''credentialEnv'', ''verifyTls'', ''allowLoopbackHttp'', ''dataFlow'', ''limits'']"

abbreviation ipc :: exn where
  "ipc \<equiv> raises INVALID_PROVIDER_CONFIGURATION"

definition closed_config :: "pyval \<Rightarrow> items outcome" where
  "closed_config v =
     bindE (checkE (is_mapping v \<and> keyset_within (items_of v) CONFIG_KEYS
       \<and> has_all (items_of v) [''endpoint'', ''model'', ''credentialEnv'']) ipc) (\<lambda>_. Inr (items_of v))"

definition credential_char :: "nat \<Rightarrow> bool" where
  "credential_char c \<longleftrightarrow> ascii_upper c \<or> ascii_digit c \<or> c = 95"

definition CREDENTIAL_ENV :: regex where
  "CREDENTIAL_ENV = RSeqs [RBegin, RStr (py ''NATIVE_MCP_''), RRep 1 (Some 96) (RChar credential_char), REnd]"

text \<open>The last argument is \<open>None\<close> for limits that are no \<open>Limits\<close>. The strict encoding of an endpoint with a surrogate raises.\<close>

definition OpenAICompatibleConfig ::
    "pyval \<Rightarrow> pyval \<Rightarrow> pyval \<Rightarrow> pyval \<Rightarrow> pyval \<Rightarrow> pyval \<Rightarrow> limits option \<Rightarrow> openai_config outcome" where
  "OpenAICompatibleConfig ep md env tls loop flow supplied =
     bindE (model_as INVALID_PROVIDER_CONFIGURATION md) (\<lambda>m.
     case ep of
       PStr e \<Rightarrow>
         bindE (checkE (e \<noteq> []) ipc) (\<lambda>_.
         case utf8_encode e of
           None \<Rightarrow> Inl UnicodeEncodeError
         | Some b \<Rightarrow>
             bindE (checkE (length b \<le> 2048) ipc) (\<lambda>_.
             case env of
               PStr name \<Rightarrow>
                 bindE (checkE (fullmatch CREDENTIAL_ENV name) ipc) (\<lambda>_.
                 bindE (checkE (tls = PBool True) (raises TLS_VERIFICATION_FAILURE)) (\<lambda>_.
                 bindE (checkE (is_bool loop \<and> flow = PStr (py ''synthetic-only'')) ipc) (\<lambda>_.
                 case supplied of
                   None \<Rightarrow> Inl ipc
                 | Some l \<Rightarrow> Inr \<lparr> oc_endpoint = e, oc_model = m, credential_env = name, oc_loopback = (loop = PBool True), oc_limits = l \<rparr>)))
             | _ \<Rightarrow> Inl ipc))
     | _ \<Rightarrow> Inl ipc)"

definition limit_names :: "string list" where
  "limit_names = map fst limit_table"

definition string_items :: "items \<Rightarrow> (string \<times> pyval) list" where
  "string_items kvs = concat (map (\<lambda>n. case dget kvs n of None \<Rightarrow> [] | Some v \<Rightarrow> [(n, v)]) limit_names)"

definition supplied_limits :: "pyval \<Rightarrow> limits outcome" where
  "supplied_limits v =
     bindE (checkE (is_mapping v \<and> keyset_within (items_of v) limit_names) ipc) (\<lambda>_.
     catchE (replace_limits DEFAULT_LIMITS (string_items (items_of v)))
       (\<lambda>e. Inl (if e = TypeError \<or> is_value_error e \<or> is_provider_error e then ipc else e)))"

definition from_mapping :: "pyval \<Rightarrow> openai_config outcome" where
  "from_mapping v =
     bindE (closed_config v) (\<lambda>raw.
     bindE (case dget raw ''limits'' of None \<Rightarrow> Inr DEFAULT_LIMITS | Some s \<Rightarrow> supplied_limits s) (\<lambda>l.
     OpenAICompatibleConfig (get_or raw ''endpoint'' PNone) (get_or raw ''model'' PNone) (get_or raw ''credentialEnv'' PNone)
       (get_or raw ''verifyTls'' (PBool True)) (get_or raw ''allowLoopbackHttp'' (PBool False))
       (get_or raw ''dataFlow'' (PStr (py ''synthetic-only''))) (Some l)))"

definition config_endpoint :: "ucd \<Rightarrow> (pystr \<Rightarrow> pystr) \<Rightarrow> resolver \<Rightarrow> openai_config \<Rightarrow> validated_endpoint outcome" where
  "config_endpoint u nfkc resolver c =
     (if oc_loopback c then validate_fake_loopback_endpoint u nfkc resolver (PStr (oc_endpoint c)) (PBool True)
      else validate_production_endpoint u nfkc (PStr (oc_endpoint c)) (PBool True))"

section \<open>Requests\<close>

definition wire_tool :: "advertised_tool \<Rightarrow> pyval" where
  "wire_tool t = obj [(''type'', PStr (py ''function'')),
     (''function'', obj [(''name'', PStr (tool_name t)), (''description'', PStr (description t)), (''parameters'', parameters t)])]"

definition wire_message :: "fixture_spec \<Rightarrow> pyval" where
  "wire_message s = obj [(''role'', PStr (wire_role s)), (''content'', PStr (spec_content s))]"

definition wire_generation :: "generation_controls \<Rightarrow> (string \<times> pyval) list" where
  "wire_generation g = filter (\<lambda>(k, v). v \<noteq> PNone) [(''temperature'', temperature g), (''top_p'', top_p g), (''seed'', seed g)]"

definition wire_value :: "openai_config \<Rightarrow> provider_request \<Rightarrow> fixture_spec list \<Rightarrow> pyval" where
  "wire_value c r specs = obj
     ([(''model'', PStr (oc_model c)), (''messages'', PList (map wire_message specs)), (''tools'', PList (map wire_tool (tools r))),
       (''tool_choice'', PStr (py (if tools r = [] then ''none'' else ''auto''))), (''max_tokens'', PInt (max_output_tokens r)),
       (''stream'', PBool False)] @ wire_generation (generation r))"

text \<open>\<open>objs\<close> are the message objects of the request.\<close>

definition openai_request_bytes :: "authority \<Rightarrow> message_object list \<Rightarrow> provider_request \<Rightarrow> openai_config \<Rightarrow> pybytes outcome" where
  "openai_request_bytes a objs r c =
     bindE (checkE (request_model r = oc_model c) lvf) (\<lambda>_.
     bindE (mapE (\<lambda>m. case authorized_fixture a m of None \<Rightarrow> Inl (raises LOCAL_AUTHORIZATION_FAILURE) | Some spec \<Rightarrow> Inr spec) objs) (\<lambda>specs.
     bindE (request_to_json_bytes (r\<lparr>messages := map mo_message objs\<rparr>) (oc_limits c)) (\<lambda>_.
     bindE (dumps (wire_value c r specs)) (\<lambda>encoded.
     bindE (checkE (int (length encoded) \<le> provider_request_bytes (oc_limits c)) (raises REQUEST_TOO_LARGE)) (\<lambda>_.
     Inr encoded)))))"

section \<open>Responses\<close>

abbreviation upc :: exn where
  "upc \<equiv> raises UNSUPPORTED_PROVIDER_CONTENT"

definition openai_closed_object :: "pyval \<Rightarrow> string list \<Rightarrow> string list \<Rightarrow> items outcome" where
  "openai_closed_object v allowed required =
     catchE (closed_object v allowed required) (\<lambda>e. Inl (if is_provider_error e then upc else e))"

definition neutral_call :: "pyval \<Rightarrow> pyval outcome" where
  "neutral_call item =
     bindE (openai_closed_object item [''id'', ''type'', ''function''] [''id'', ''type'', ''function'']) (\<lambda>call.
     bindE (checkE (get_or call ''type'' PNone = PStr (py ''function'')) upc) (\<lambda>_.
     bindE (openai_closed_object (get_or call ''function'' PNone) [''name'', ''arguments''] [''name'', ''arguments'']) (\<lambda>fn.
     bindE (checkE (is_str (get_or call ''id'' PNone) \<and> is_str (get_or fn ''name'' PNone) \<and> is_str (get_or fn ''arguments'' PNone)) itp) (\<lambda>_.
     Inr (obj [(''id'', get_or call ''id'' PNone), (''name'', get_or fn ''name'' PNone), (''arguments'', get_or fn ''arguments'' PNone)])))))"

definition openai_message :: "nat \<Rightarrow> items \<Rightarrow> advertised_tool list \<Rightarrow> limits \<Rightarrow> provider_response outcome" where
  "openai_message rd msg ts l =
     (let text = get_or msg ''content'' PNone; calls = get_or msg ''tool_calls'' PNone in
      bindE (checkE (get_or msg ''role'' PNone = PStr (py ''assistant'')) upc) (\<lambda>_.
      bindE (checkE (text = PNone \<or> calls = PNone) upc) (\<lambda>_.
      if text \<noteq> PNone then
        bindE (bounded_text_arg text (message_bytes l) UNSUPPORTED_PROVIDER_CONTENT) (\<lambda>t.
        bindE (ProviderMessage ASSISTANT (PStr t)) (\<lambda>m. Inr (ProviderFinalMessage m)))
      else
        bindE (checkE (is_list calls \<and> elems calls \<noteq> []) upc) (\<lambda>_.
        bindE (mapE neutral_call (elems calls)) (\<lambda>neutral.
        bindE (dumps (obj [(''toolCalls'', PList neutral)])) (\<lambda>b.
        parse_provider_response rd (PBytes b) ts l))))))"

definition parse_openai_compatible_response :: "nat \<Rightarrow> pyval \<Rightarrow> advertised_tool list \<Rightarrow> limits \<Rightarrow> provider_response outcome" where
  "parse_openai_compatible_response rd raw ts l =
     bindE (parse_closed_json rd raw l None None) (\<lambda>v.
     bindE (openai_closed_object v [''id'', ''object'', ''created'', ''model'', ''choices'', ''usage'', ''system_fingerprint''] [''choices'']) (\<lambda>top.
     let choices = get_or top ''choices'' PNone in
     bindE (checkE (is_list choices \<and> length (elems choices) = 1) upc) (\<lambda>_.
     bindE (openai_closed_object (hd (elems choices)) [''index'', ''message'', ''finish_reason'', ''logprobs''] [''message'']) (\<lambda>choice.
     bindE (openai_closed_object (get_or choice ''message'' PNone) [''role'', ''content'', ''tool_calls'', ''refusal''] [''role'']) (\<lambda>msg.
     openai_message rd msg ts l)))))"

section \<open>Lemmas\<close>

subsection \<open>The authority\<close>

text \<open>
  What can happen to the authority, with the tokens it has issued: it issues a message under a new token, an issued message dies, and any
  code assigns to the fixtures.
\<close>

inductive authority_reaches :: "authority \<Rightarrow> (nat \<times> synthetic_fixture) set \<Rightarrow> bool" where
  start: "authority_reaches synthetic_message_authority {}"
| issue: "authority_reaches a M \<Longrightarrow> authorize_message a address token (Some f) = Inr (m, a') \<Longrightarrow> token \<notin> fst ` M
    \<Longrightarrow> authority_reaches a' (insert (token, f) M)"
| die: "authority_reaches a M \<Longrightarrow> authority_reaches (discard a address token) M"
| assign: "authority_reaches a M \<Longrightarrow> authority_reaches (a\<lparr>fixture_value := v\<rparr>) M"

lemma committed_simps [simp]:
  "spec_fixture (committed f) = f" "expected_fixture_value (committed f) = SYNTHETIC_FIXTURES f"
  "(spec_role (committed f), spec_content (committed f)) = SYNTHETIC_FIXTURES f"
  by (cases f; simp add: committed_def SYNTHETIC_FIXTURES_def)+

lemma authorize_message_Inr:
  assumes "authorize_message a address token arg = Inr (m, a')"
  obtains f where "arg = Some f" and "a' = a\<lparr>issued := (issued a)(address \<mapsto> (token, committed f))\<rparr>" and "fixture_value a f = SYNTHETIC_FIXTURES f"
    and "mo_address m = address" and "mo_token m = token" and "mo_synthetic m"
    and "role (mo_message m) = spec_role (committed f)" and "content (mo_message m) = spec_content (committed f)"
  using assms
  by (auto simp: authorize_message_def committed_fixture_def ProviderMessage_def bindE_eq_Inr bounded_text_arg_Inr split: option.splits)

lemma issued_by_authority:
  "authority_reaches a M \<Longrightarrow> issued a address = Some (token, spec) \<Longrightarrow> \<exists>f. (token, f) \<in> M \<and> spec = committed f"
proof (induction arbitrary: address token spec rule: authority_reaches.induct)
  case (issue a M adr tok f m a')
  from issue.hyps(2) obtain g where "Some f = Some g" "a' = a\<lparr>issued := (issued a)(adr \<mapsto> (tok, committed g))\<rparr>"
    by (rule authorize_message_Inr)
  with issue.IH [of address token spec] issue.prems show ?case by (cases "address = adr") auto
next
  case (die a M adr tok)
  then show ?case by (auto simp: discard_def split: option.splits if_splits)
qed (simp_all add: synthetic_message_authority_def)

lemma authorized_by_authority:
  assumes "authority_reaches a M" and "authorized_fixture a m = Some spec"
  shows "\<exists>f. (mo_token m, f) \<in> M \<and> spec = committed f \<and> mo_synthetic m \<and> (role (mo_message m), content (mo_message m)) = SYNTHETIC_FIXTURES f"
proof -
  from assms(2) have m: "mo_synthetic m" "issued a (mo_address m) = Some (mo_token m, spec)" "role (mo_message m) = spec_role spec"
      "content (mo_message m) = spec_content spec"
    by (auto simp: authorized_fixture_def split: if_splits option.splits)
  with issued_by_authority [OF assms(1) m(2)] show ?thesis by auto
qed

lemma authorized_messages:
  assumes "authority_reaches a M"
    and specs: "mapE (\<lambda>m. case authorized_fixture a m of None \<Rightarrow> Inl (raises LOCAL_AUTHORIZATION_FAILURE) | Some spec \<Rightarrow> Inr spec) objs = Inr specs"
  shows "\<exists>fs. specs = map committed fs
    \<and> list_all2 (\<lambda>m f. (mo_token m, f) \<in> M \<and> mo_synthetic m \<and> (role (mo_message m), content (mo_message m)) = SYNTHETIC_FIXTURES f) objs fs"
proof -
  from specs have all: "list_all2 (\<lambda>m spec. authorized_fixture a m = Some spec) objs specs"
    unfolding mapE_eq_Inr_list_all2 by (rule list_all2_mono) (simp split: option.splits)
  have own: "\<exists>f. (mo_token m, f) \<in> M \<and> spec = committed f \<and> mo_synthetic m \<and> (role (mo_message m), content (mo_message m)) = SYNTHETIC_FIXTURES f"
    if "authorized_fixture a m = Some spec" for m spec using authorized_by_authority [OF assms(1) that] .
  have "list_all2 (\<lambda>m f. (mo_token m, f) \<in> M \<and> mo_synthetic m \<and> (role (mo_message m), content (mo_message m)) = SYNTHETIC_FIXTURES f) objs (map spec_fixture specs)"
    unfolding list_all2_map2 using all by (rule list_all2_mono) (use own in fastforce)
  moreover have "map committed (map spec_fixture specs) = specs"
  proof (simp, rule map_idI)
    fix spec assume "spec \<in> set specs"
    from list_all2_set2 [OF all this] obtain m where "authorized_fixture a m = Some spec" by blast
    from own [OF this] show "(committed \<circ> spec_fixture) spec = spec" by auto
  qed
  ultimately show ?thesis by (intro exI [of _ "map spec_fixture specs"] conjI) simp_all
qed

subsection \<open>Responses\<close>

lemma openai_closed_object_Inr: "openai_closed_object v allowed required = Inr kvs \<longleftrightarrow> closed_object v allowed required = Inr kvs"
  by (auto simp: openai_closed_object_def catchE_eq_Inr)

lemma openai_closed_object_Inl: "openai_closed_object v allowed required = Inl e \<Longrightarrow> e = upc"
  by (cases "closed_object v allowed required") (auto simp: openai_closed_object_def is_provider_error_def dest!: closed_object_Inl)

lemma neutral_call_Inl: "neutral_call v = Inl e \<Longrightarrow> \<exists>c. e = raises c"
  by (auto simp: neutral_call_def bindE_eq_Inl dest!: openai_closed_object_Inl)

lemma neutral_call_Inr: "neutral_call v = Inr w \<Longrightarrow> \<exists>i n t. w = obj [(''id'', PStr i), (''name'', PStr n), (''arguments'', PStr t)]"
  by (auto simp: neutral_call_def bindE_eq_Inr is_str_iff) blast

lemma dumps_neutral_item: "\<exists>b. dumps (obj [(''id'', PStr i), (''name'', PStr n), (''arguments'', PStr t)]) = Inr b"
  by (simp add: obj_def key_text_def)

lemma dumps_neutral:
  assumes "mapE neutral_call xs = Inr ws"
  shows "\<exists>b. dumps (obj [(''toolCalls'', PList ws)]) = Inr b"
proof -
  have "\<exists>b. dumps w = Inr b" if "w \<in> set ws" for w
    using mapE_all [OF assms _ that, where P = "\<lambda>w. \<exists>b. dumps w = Inr b"] neutral_call_Inr
    by (metis dumps_neutral_item)
  then have "\<exists>bs. mapE dumps ws = Inr bs" by (simp add: mapE_Inr_exists)
  then show ?thesis by (auto simp: obj_def key_text_def)
qed

lemma openai_message_Inl: "openai_message rd msg ts l = Inl e \<Longrightarrow> \<exists>c. e = raises c"
  by (auto simp: openai_message_def Let_def bindE_eq_Inl ProviderMessage_def split: if_splits
      dest!: bounded_text_arg_Inl mapE_Inl_member neutral_call_Inl parse_provider_response_Inl dest: dumps_neutral)

lemma openai_response_Inl: "parse_openai_compatible_response rd raw ts l = Inl e \<Longrightarrow> \<exists>c. e = raises c"
  by (auto simp: parse_openai_compatible_response_def Let_def bindE_eq_Inl dest!: openai_closed_object_Inl openai_message_Inl parse_closed_json_Inl)

lemma openai_response_Inr:
  assumes "parse_openai_compatible_response rd raw ts l = Inr response"
  shows "(\<exists>s. response = ProviderFinalMessage \<lparr>role = ASSISTANT, content = s\<rparr> \<and> s \<noteq> [] \<and> bounded_text (message_bytes l) s)
    \<or> (\<exists>b. parse_provider_response rd (PBytes b) ts l = Inr response)"
  using assms
  by (auto simp: parse_openai_compatible_response_def openai_message_def Let_def bindE_eq_Inr ProviderMessage_def bounded_text_arg_Inr split: if_splits)

text \<open>Tool calls in the format of the service and in the neutral format, with sorted keys.\<close>

definition service_call :: "pystr \<times> pystr \<times> pystr \<Rightarrow> pyval" where
  "service_call = (\<lambda>(i, n, t). obj [(''function'', obj [(''arguments'', PStr t), (''name'', PStr n)]), (''id'', PStr i), (''type'', PStr (py ''function''))])"

definition service_calls :: "(pystr \<times> pystr \<times> pystr) list \<Rightarrow> pyval" where
  "service_calls cs = obj [(''choices'', PList [obj [(''message'', obj [(''role'', PStr (py ''assistant'')), (''tool_calls'', PList (map service_call cs))])]])]"

definition neutral_calls :: "(pystr \<times> pystr \<times> pystr) list \<Rightarrow> pyval" where
  "neutral_calls cs = obj [(''toolCalls'', PList (map (\<lambda>(i, n, t). obj [(''id'', PStr i), (''name'', PStr n), (''arguments'', PStr t)]) cs))]"

lemma service_calls_canonical: "canonical (service_calls cs) = service_calls cs"
  by (auto simp: service_calls_def service_call_def obj_def key_str_def py_def)

lemma service_calls_exact:
  assumes "\<forall>(i, n, t) \<in> set cs. list_all scalar i \<and> list_all scalar n \<and> list_all scalar t"
  shows "exact_json (service_calls cs)"
  using assms by (fastforce simp: service_calls_def service_call_def obj_def py_def scalar_def surrogate_def)

lemma service_calls_nesting: "nesting (service_calls cs) \<le> 7"
proof -
  have "foldr max (map nesting (map service_call cs)) 0 \<le> 2"
    by (auto simp: foldr_max_le service_call_def obj_def)
  then show ?thesis by (simp add: service_calls_def obj_def)
qed

lemma neutral_service_call: "neutral_call (service_call (i, n, t)) = Inr (obj [(''id'', PStr i), (''name'', PStr n), (''arguments'', PStr t)])"
  by (simp add: neutral_call_def service_call_def openai_closed_object_def closed_object_def obj_def get_or_def dhas_def)

section \<open>Samples\<close>

definition sample_object :: message_object where
  "sample_object = \<lparr> mo_address = 3, mo_token = 7, mo_synthetic = True, mo_message = \<lparr>role = USER, content = py ''synthetic-only prompt''\<rparr> \<rparr>"

definition sample_authority :: authority where
  "sample_authority = synthetic_message_authority\<lparr>issued := [3 \<mapsto> (7, committed TEST_PROMPT)]\<rparr>"

definition sample_config :: openai_config where
  "sample_config = \<lparr> oc_endpoint = py ''http://localhost:8080/v1'', oc_model = py ''m'', credential_env = py ''NATIVE_MCP_KEY'', oc_loopback = True,
     oc_limits = DEFAULT_LIMITS \<rparr>"

lemma sample_issue: "authorize_message synthetic_message_authority 3 7 (Some TEST_PROMPT) = Inr (sample_object, sample_authority)"
  by (simp add: authorize_message_def committed_fixture_def synthetic_message_authority_def committed_def SYNTHETIC_FIXTURES_def ProviderMessage_def
      bounded_text_arg_def sample_object_def sample_authority_def py_def)

lemma sample_authority_reached: "authority_reaches sample_authority {(7, TEST_PROMPT)}"
  using authority_reaches.issue [OF authority_reaches.start sample_issue] by simp

lemma sample_egress: "\<exists>b. openai_request_bytes sample_authority [sample_object] sample_request sample_config = Inr b"
proof -
  have "authorized_fixture sample_authority sample_object = Some (committed TEST_PROMPT)"
    by (simp add: authorized_fixture_def sample_authority_def sample_object_def synthetic_message_authority_def committed_def SYNTHETIC_FIXTURES_def)
  moreover have "\<exists>b. request_to_json_bytes (sample_request\<lparr>messages := map mo_message [sample_object]\<rparr>) DEFAULT_LIMITS = Inr b"
    using sample_model fresh_correlation_id [of 1]
    by (simp add: request_to_json_bytes_def sample_request_def sample_object_def request_value_def message_value_def generation_items_def
        obj_def key_text_def dumps_str_def escape_char_def dumps_int_def dec_int_def dec.simps MAX_STR_DIGITS_def
        py_def utf8_encode_replace_def surrogate_def utf8_char_def)
  moreover have "\<exists>b. dumps (wire_value sample_config sample_request [committed TEST_PROMPT]) = Inr b \<and> length b \<le> 32768"
    by (simp add: wire_value_def wire_message_def wire_generation_def sample_config_def sample_request_def committed_def obj_def key_text_def dumps_str_def
        escape_char_def dumps_int_def dec_int_def dec.simps MAX_STR_DIGITS_def py_def)
  ultimately show ?thesis by (auto simp: openai_request_bytes_def sample_config_def sample_request_def)
qed

section \<open>Properties\<close>

text \<open>
  C33: only committed text leaves. Whatever other code has done with fixtures, objects and addresses, a request that is encoded for
  the wire consists of message objects that the authority issued itself, each under a token of its own and with the literal of its fixture as
  text; the bytes are the encoding of those literals and the advertised tools, and are within the limit.
\<close>

theorem egress_is_synthetic_only:
  assumes "authority_reaches a M" and "openai_request_bytes a objs r c = Inr b"
  shows "\<exists>fs. list_all2 (\<lambda>m f. (mo_token m, f) \<in> M \<and> mo_synthetic m \<and> (role (mo_message m), content (mo_message m)) = SYNTHETIC_FIXTURES f) objs fs
    \<and> dumps (wire_value c r (map committed fs)) = Inr b \<and> int (length b) \<le> provider_request_bytes (oc_limits c)"
proof -
  from assms(2) obtain specs where specs: "mapE (\<lambda>m. case authorized_fixture a m of None \<Rightarrow> Inl (raises LOCAL_AUTHORIZATION_FAILURE) | Some spec \<Rightarrow> Inr spec) objs = Inr specs"
    and b: "dumps (wire_value c r specs) = Inr b" "int (length b) \<le> provider_request_bytes (oc_limits c)"
    by (auto simp: openai_request_bytes_def bindE_eq_Inr)
  from authorized_messages [OF assms(1) specs] b show ?thesis by blast
qed

theorem egress_is_synthetic_only_witness:
  "\<exists>b. openai_request_bytes sample_authority [sample_object] sample_request sample_config = Inr b
     \<and> dumps (wire_value sample_config sample_request [committed TEST_PROMPT]) = Inr b \<and> int (length b) \<le> 32768"
proof -
  from sample_egress obtain b where b: "openai_request_bytes sample_authority [sample_object] sample_request sample_config = Inr b" by blast
  from egress_is_synthetic_only [OF sample_authority_reached b] obtain f where "(mo_token sample_object, f) \<in> {(7, TEST_PROMPT)}"
      "dumps (wire_value sample_config sample_request (map committed [f])) = Inr b" "int (length b) \<le> provider_request_bytes (oc_limits sample_config)"
    by (auto simp: list_all2_Cons1)
  with b show ?thesis by (auto simp: sample_config_def)
qed

text \<open>
  C34: the boundary towards the service. Whatever bytes it sends, the parser raises a classified failure, or returns a bounded assistant
  message, or proposals that satisfy the neutral contract.
\<close>

theorem openai_boundary:
  "case parse_openai_compatible_response rd raw ts l of
     Inl e \<Rightarrow> \<exists>c. e = raises c
   | Inr (ProviderFinalMessage m) \<Rightarrow> role m = ASSISTANT \<and> content m \<noteq> [] \<and> bounded_text (message_bytes l) (content m)
   | Inr (ToolCalls ps) \<Rightarrow> ps \<noteq> [] \<and> int (length ps) \<le> proposed_tool_call_count l \<and> calls_ok ts l ps"
proof (cases "parse_openai_compatible_response rd raw ts l")
  case (Inl e)
  then show ?thesis using openai_response_Inl [OF Inl] by simp
next
  case (Inr r)
  with openai_response_Inr [OF Inr] show ?thesis
    by (auto split: provider_response.split dest: parse_provider_response_calls parse_provider_response_final)
qed

text \<open>
  C35: the two formats agree. The canonical encoding of a list of tool calls in the format of the service is read as exactly what the encoding
  of the same calls in the neutral format is read as, whether that is a list of proposals or a failure.
\<close>

theorem service_calls_mean_neutral_calls:
  assumes "dumps (service_calls cs) = Inr b" and "dumps (neutral_calls cs) = Inr n" and "cs \<noteq> []"
    and "\<forall>(i, m, t) \<in> set cs. list_all scalar i \<and> list_all scalar m \<and> list_all scalar t"
    and "7 \<le> rd" and "int (length b) \<le> provider_response_bytes l" and "json_value l None 0 (service_calls cs) = Inr ()"
  shows "parse_openai_compatible_response rd (PBytes b) ts l = parse_provider_response rd (PBytes n) ts l"
proof -
  have "parse_closed_json rd (PBytes b) l None None = Inr (service_calls cs)"
    using parse_closed_json_dumps [OF assms(1) service_calls_exact [OF assms(4)], where rd = rd and bl = None and l = l and sb = None] service_calls_nesting [of cs] assms(5-7)
    by (simp add: service_calls_canonical)
  moreover have "mapE neutral_call (map service_call cs) = Inr (map (\<lambda>(i, n, t). obj [(''id'', PStr i), (''name'', PStr n), (''arguments'', PStr t)]) cs)"
    by (induction cs) (auto simp: neutral_service_call)
  ultimately show ?thesis
    using assms(2,3)
    by (simp add: parse_openai_compatible_response_def service_calls_def neutral_calls_def openai_closed_object_def closed_object_def openai_message_def
        obj_def get_or_def dhas_def is_list_def elems_def Let_def)
qed

theorem service_calls_mean_neutral_calls_witness:
  "\<exists>b n. dumps (service_calls [(py ''call-1'', py ''read'', py ''{}'')]) = Inr b \<and> dumps (neutral_calls [(py ''call-1'', py ''read'', py ''{}'')]) = Inr n
     \<and> parse_openai_compatible_response 9 (PBytes b) [sample_tool] DEFAULT_LIMITS = parse_provider_response 9 (PBytes n) [sample_tool] DEFAULT_LIMITS"
proof -
  let ?cs = "[(py ''call-1'', py ''read'', py ''{}'')]"
  obtain b where b: "dumps (service_calls ?cs) = Inr b" "length b \<le> 65536"
    by (simp add: service_calls_def service_call_def obj_def key_text_def dumps_str_def escape_char_def py_def)
  obtain n where n: "dumps (neutral_calls ?cs) = Inr n"
    by (simp add: neutral_calls_def obj_def key_text_def dumps_str_def escape_char_def py_def)
  have "json_value DEFAULT_LIMITS None 0 (service_calls ?cs) = Inr ()"
    by (simp add: service_calls_def service_call_def obj_def py_def too_deep_def check_key_def check_string_def json_string_limit_def)
  with b n service_calls_mean_neutral_calls [OF b(1) n, of 9 DEFAULT_LIMITS "[sample_tool]"] show ?thesis
    by (auto simp: py_def scalar_def surrogate_def)
qed

end
