(* ===== verification/OpenAI_Transport.thy ===== *)
theory OpenAI_Transport
  imports Transport OpenAI_Contracts
begin

text \<open>
  \<open>OpenAICompatibleTransport\<close> of \<open>openai_compatible.py\<close>: requests over verified TLS with a credential, or over loopback HTTP without
  one. Production names are resolved anew before every connection. Connecting and the TLS handshake are one question to the
  network, since one handler serves both.
\<close>

section \<open>Definitions\<close>

definition openai_headers :: "pybytes \<Rightarrow> pyval \<Rightarrow> pyval \<Rightarrow> (string \<times> pystr) list" where
  "openai_headers body credential correlation = request_headers body
     @ [(''X-Request-ID'', case correlation of PStr s \<Rightarrow> s | _ \<Rightarrow> [])]
     @ (case credential of PStr s \<Rightarrow> [(''Authorization'', py ''Bearer '' @ s)] | _ \<Rightarrow> [])"

definition openai_one_attempt :: "network \<Rightarrow> validated_endpoint \<Rightarrow> pybytes \<Rightarrow> pyval \<Rightarrow> pyval \<Rightarrow> limits \<Rightarrow> rat \<Rightarrow> (link, exchange_result) eff" where
  "openai_one_attempt N e body credential correlation l deadline =
     bindM (connect_within N deadline l) (\<lambda>t.
     exchange N id
       (Dialled (ve_connect_host e) (ve_port e) t (if truthy (ve_loopback_only e) then None else Some (ve_host e)))
       (Posted (ve_path e) body (openai_headers body credential correlation)) l deadline)"

definition openai_judge :: "network \<Rightarrow> exchange_result \<Rightarrow> pybytes outcome" where
  "openai_judge N result = (case result of (body, content_type, status, wait) \<Rightarrow>
     bindE (checkE (\<not> (300 \<le> status \<and> status < 400)) (ProviderError redirect_rejection)) (\<lambda>_.
     bindE (checkE (200 \<le> status \<and> status < 300) (ProviderError (http_failure (PInt status) wait))) (\<lambda>_.
     bindE (json_content_type (net_ucd N) content_type) (\<lambda>json.
     bindE (checkE json (raises INVALID_CONTENT_TYPE)) (\<lambda>_.
     Inr body)))))"

definition openai_classify :: "network \<Rightarrow> rat \<Rightarrow> exn \<Rightarrow> (link, classified_failure) eff" where
  "openai_classify N deadline e =
     (case provider_failure e of
        Some f \<Rightarrow> retM f
      | None \<Rightarrow>
          if e = SSLCertVerificationError then retM (failure TLS_VERIFICATION_FAILURE)
          else if e = TimeoutError then
            bindM (ask (net_clock N)) (\<lambda>now. retM (failure (if deadline \<le> now then TOTAL_REQUEST_TIMEOUT else READ_TIMEOUT)))
          else if is_os_error e \<or> is_http_error e then retM (failure DNS_OR_CONNECTION_FAILURE)
          else if is_value_error e \<or> e \<in> {AttributeError, TypeError, OverflowError} then retM (failure MALFORMED_HTTP_RESPONSE)
          else raiseM e)"

text \<open>\<open>replace(last, attempt=attempt)\<close> runs the checks of the dataclass again.\<close>

definition with_attempt :: "int \<Rightarrow> classified_failure \<Rightarrow> classified_failure" where
  "with_attempt k f = ClassifiedFailure (Some (classification f)) (detail f) (map_option PInt (status_code f)) (map_option PInt (retry_after_of f)) (Some (PInt k))"

definition attempt_endpoint :: "network \<Rightarrow> validated_endpoint \<Rightarrow> (link, validated_endpoint) eff" where
  "attempt_endpoint N e =
     (if truthy (ve_loopback_only e) then retM e
      else bindM (ask (net_resolver N)) (\<lambda>resolver. liftM (resolve_production_transport_endpoint (net_ucd N) (net_nfkc N) resolver e)))"

definition openai_attempt ::
    "network \<Rightarrow> validated_endpoint \<Rightarrow> pybytes \<Rightarrow> pyval \<Rightarrow> pyval \<Rightarrow> limits \<Rightarrow> rat \<Rightarrow> int \<Rightarrow> (link, classified_failure + pybytes) eff" where
  "openai_attempt N e body credential correlation l deadline k =
     tryM
       (bindM (bindM (attempt_endpoint N e) (\<lambda>e'. openai_one_attempt N e' body credential correlation l deadline))
          (\<lambda>result. liftM (bindE (openai_judge N result) (\<lambda>response. Inr (Inr response)))))
       (\<lambda>x. bindM (openai_classify N deadline x) (\<lambda>f. retM (Inl (with_attempt k f))))"

definition openai_guard :: "network \<Rightarrow> rat \<Rightarrow> int \<Rightarrow> (link, unit) eff" where
  "openai_guard N deadline k =
     bindM (ask (net_clock N)) (\<lambda>now. checkM (now < deadline) (ProviderError (attempt_failure TOTAL_REQUEST_TIMEOUT (k - 1))))"

definition openai_settle :: "network \<Rightarrow> limits \<Rightarrow> rat \<Rightarrow> int \<Rightarrow> classified_failure \<Rightarrow> (link, unit) eff" where
  "openai_settle N l deadline k f =
     bindM (ask (net_clock N)) (\<lambda>now.
     let decision = decide_retry f k (max 0 (remaining_ms deadline now)) l in
     if \<not> eligible decision then raiseM (give_up l k f)
     else
       bindM (ask (net_clock N)) (\<lambda>now.
       if fl (deadline - now) < seconds (delay_ms decision) then raiseM (ProviderError (attempt_failure TOTAL_REQUEST_TIMEOUT k))
       else note_event (Slept (seconds (delay_ms decision)))))"

text \<open>Here \<open>deadline <= now\<close> is tested, which is false for \<open>nan\<close>, and the minimum with \<open>nan\<close> is the total deadline.\<close>

definition openai_deadline :: "rat \<Rightarrow> limits \<Rightarrow> pyval \<Rightarrow> rat outcome" where
  "openai_deadline now l deadline =
     (if deadline = PFloat FNaN then request_deadline now l PNone else request_deadline now l deadline)"

definition check_authority :: "network \<Rightarrow> validated_endpoint \<Rightarrow> pyval \<Rightarrow> unit outcome" where
  "check_authority N e credential =
     (if truthy (ve_loopback_only e) then
        bindE (validate_loopback_transport_endpoint (net_ucd N) (net_nfkc N) e) (\<lambda>_.
        checkE (credential = PNone) (raises LOCAL_POLICY_FAILURE))
      else checkE (is_str credential \<and> credential \<noteq> PStr []) (raises CREDENTIAL_UNAVAILABLE))"

definition openai_send ::
    "network \<Rightarrow> validated_endpoint \<Rightarrow> pybytes \<Rightarrow> pyval \<Rightarrow> limits \<Rightarrow> pyval \<Rightarrow> pyval \<Rightarrow> (link, pybytes) eff" where
  "openai_send N e body credential l correlation deadline =
     bindM (checkM (int (length body) \<le> provider_request_bytes l) (raises REQUEST_TOO_LARGE)) (\<lambda>_.
     bindM (checkM (case correlation of PStr s \<Rightarrow> starts_with (py ''req-'') s | _ \<Rightarrow> False) lvf) (\<lambda>_.
     bindM (liftM (check_authority N e credential)) (\<lambda>_.
     bindM (ask (net_clock N)) (\<lambda>now.
     bindM (liftM (openai_deadline now l deadline)) (\<lambda>deadline_at.
     retry_loop (openai_guard N deadline_at) (openai_attempt N e body credential correlation l deadline_at) (openai_settle N l deadline_at)
       (raises RETRY_EXHAUSTED) (nat (provider_attempt_count l)) 1)))))"

definition send_production ::
    "network \<Rightarrow> validated_endpoint \<Rightarrow> pybytes \<Rightarrow> pyval \<Rightarrow> limits \<Rightarrow> pyval \<Rightarrow> pyval \<Rightarrow> (link, pybytes) eff" where
  "send_production N e body credential l correlation deadline =
     bindM (checkM (\<not> truthy (ve_loopback_only e) \<and> ve_scheme e = PStr (py ''https'')) epr) (\<lambda>_.
     bindM (checkM (is_str credential \<and> credential \<noteq> PStr []) (raises CREDENTIAL_UNAVAILABLE)) (\<lambda>_.
     openai_send N e body credential l correlation deadline))"

definition send_loopback :: "network \<Rightarrow> validated_endpoint \<Rightarrow> pybytes \<Rightarrow> limits \<Rightarrow> pyval \<Rightarrow> pyval \<Rightarrow> (link, pybytes) eff" where
  "send_loopback N e body l correlation deadline =
     bindM (checkM (ve_loopback_only e = PBool True) epr) (\<lambda>_.
     bindM (liftM (validate_loopback_transport_endpoint (net_ucd N) (net_nfkc N) e)) (\<lambda>_.
     openai_send N e body PNone l correlation deadline))"

section \<open>Lemmas\<close>

text \<open>The destinations of the connections of one send, and its events.\<close>

definition destination :: "network \<Rightarrow> validated_endpoint \<Rightarrow> validated_endpoint \<Rightarrow> bool" where
  "destination N e e' \<longleftrightarrow> (if truthy (ve_loopback_only e) then e' = e
     else \<exists>resolver. resolve_production_transport_endpoint (net_ucd N) (net_nfkc N) resolver e = Inr e')"

definition openai_event :: "network \<Rightarrow> validated_endpoint \<Rightarrow> pybytes \<Rightarrow> pyval \<Rightarrow> pyval \<Rightarrow> limits \<Rightarrow> link_event \<Rightarrow> bool" where
  "openai_event N e body credential correlation l ev = (case ev of
      Dialled host port t name \<Rightarrow> 0 < t \<and> t \<le> seconds (provider_connect_timeout_ms l) \<and> (\<exists>e'. destination N e e'
        \<and> host = ve_connect_host e' \<and> port = ve_port e' \<and> name = (if truthy (ve_loopback_only e') then None else Some (ve_host e')))
    | Posted path b headers \<Rightarrow> b = body \<and> headers = openai_headers body credential correlation
    | ReadWithin t \<Rightarrow> 0 < t \<and> t \<le> seconds (provider_read_inactivity_timeout_ms l)
    | Closed \<Rightarrow> True
    | Slept t \<Rightarrow> sleep_ok l t)"

lemma stays_attempt_endpoint: "stays.keeps (reaches P n L ph k) (attempt_endpoint N e)"
  unfolding attempt_endpoint_def by (intro stays.keeps_if stays.keeps_bind stays_ask stays.keeps_lift)

lemma attempt_endpoint_Inr: "attempt_endpoint N e s = Some (Inr e', t) \<Longrightarrow> destination N e e'"
  by (auto simp: attempt_endpoint_def destination_def bindM_eq_Some split: if_splits)

lemma attempt_endpoint_ends [intro!]: "loop_free (attempt_endpoint N e)"
  unfolding attempt_endpoint_def by (auto simp del: eff_simps)

lemma attempt_endpoint_raises:
  assumes "tame N"
  shows "raises_only link_exn (attempt_endpoint N e)"
proof -
  have "link_exn x" if "resolve_production_transport_endpoint u nfkc (net_resolver N n) e = Inl x" for u nfkc n x
    using that by (rule resolve_production_Inl) (use assms in \<open>auto simp: tame_def\<close>)
  then show ?thesis
    by (auto simp: raises_only_def attempt_endpoint_def ask_def bindM_def)
qed

lemma stays_openai_classify: "stays.keeps (reaches P n L ph k) (openai_classify N deadline e)"
  unfolding openai_classify_def by (auto simp del: eff_simps)

lemma openai_classify_ends: "loop_free (openai_classify N deadline e)"
  unfolding openai_classify_def by (auto simp del: eff_simps)

lemma openai_classify_raises: "link_exn e \<Longrightarrow> raises_only is_provider_error (openai_classify N deadline e)"
  unfolding openai_classify_def
  by (auto simp: link_exn_def provider_failure_def is_provider_error_def split: exn.split simp del: eff_simps)

lemma openai_judge_Inl: "openai_judge N result = Inl e \<Longrightarrow> link_exn e"
  by (auto simp: openai_judge_def bindE_eq_Inl json_content_type_def split: prod.splits pyval.splits)

lemma openai_connection_reaches:
  assumes "reaches (openai_event N e body credential correlation l) n L Idle (Suc k) s"
  shows "after (bindM (attempt_endpoint N e) (\<lambda>e'. openai_one_attempt N e' body credential correlation l deadline))
    (\<lambda>_. reaches (openai_event N e body credential correlation l) n L Idle k) s"
proof (rule after_bindI)
  let ?P = "openai_event N e body credential correlation l"
  fix x t assume "attempt_endpoint N e s = Some (Inl x, t)"
  from stays.keepsD [OF stays_attempt_endpoint this] assms have "reaches ?P n L Idle (Suc k) t" by blast
  then show "reaches ?P n L Idle k t" by (rule reaches_less) simp
next
  let ?P = "openai_event N e body credential correlation l"
  fix e' t assume e': "attempt_endpoint N e s = Some (Inr e', t)"
  from stays.keepsD [OF stays_attempt_endpoint this] assms have "reaches ?P n L Idle (Suc k) t" by blast
  moreover note attempt_endpoint_Inr [OF e']
  moreover have "read_times_ok ?P l" by (simp add: read_times_ok_def openai_event_def)
  ultimately show "after (openai_one_attempt N e' body credential correlation l deadline) (\<lambda>_. reaches ?P n L Idle k) t"
    unfolding openai_one_attempt_def by (intro attempt_reaches) (auto simp: openai_event_def)
qed

interpretation openai: attempt_policy N "openai_event N e body credential correlation l" "openai_guard N deadline"
    "openai_attempt N e body credential correlation l deadline" "openai_settle N l deadline" for N e body credential correlation l deadline
proof
  fix n L k j s f
  let ?P = "openai_event N e body credential correlation l"
  show "stays.keeps (reaches ?P n L Idle k) (openai_guard N deadline j)"
    unfolding openai_guard_def by (intro stays.keeps_bind stays_ask stays.keeps_lift)
  show "stays.keeps (reaches ?P n L Idle k) (openai_settle N l deadline j f)"
    unfolding openai_settle_def Let_def
    by (intro stays.keeps_bind stays_ask stays.keeps_if stays.keeps_lift stays_sleep) (auto simp: openai_event_def sleep_ok_def)
  show "after (openai_attempt N e body credential correlation l deadline j) (\<lambda>_. reaches ?P n L Idle k) s" if "reaches ?P n L Idle (Suc k) s"
    unfolding openai_attempt_def
    by (intro after_handled openai_connection_reaches that stays.keeps_lift stays.keeps_bind stays_openai_classify)
  show "loop_free (openai_guard N deadline j)" "loop_free (openai_attempt N e body credential correlation l deadline j)"
    "loop_free (openai_settle N l deadline j f)"
    unfolding openai_guard_def openai_attempt_def openai_one_attempt_def openai_settle_def Let_def
    by (auto intro: openai_classify_ends simp del: eff_simps)
  show "raises_only is_provider_error (openai_guard N deadline j)" "raises_only is_provider_error (openai_settle N l deadline j f)"
    unfolding openai_guard_def openai_settle_def Let_def give_up_def by (auto simp: is_provider_error_def simp del: eff_simps)
  show "raises_only is_provider_error (openai_attempt N e body credential correlation l deadline j)" if "tame N"
    unfolding openai_attempt_def openai_one_attempt_def
    by (intro raises_only_try [where Q = link_exn] raises_only_bind attempt_endpoint_raises raises_connect_within raises_exchange raises_only_lift
        openai_classify_raises that) (auto simp: bindE_eq_Inl dest: openai_judge_Inl)
qed

lemma openai_send_ends: "loop_free (openai_send N e body credential l correlation deadline)"
  unfolding openai_send_def by (auto intro!: openai.loop_ends simp del: eff_simps)

lemma check_authority_Inl: "check_authority N e credential = Inl x \<Longrightarrow> is_provider_error x"
  by (auto simp: check_authority_def bindE_eq_Inl is_provider_error_def split: if_splits dest: loopback_transport_Inl)

lemma openai_deadline_Inl: "openai_deadline now l deadline = Inl e \<Longrightarrow> (\<And>i. deadline \<noteq> PInt i) \<Longrightarrow> is_provider_error e"
  using request_deadline_Inl [of now l PNone e] request_deadline_Inl [of now l deadline e] by (auto simp: openai_deadline_def split: if_splits)

lemma openai_send_raises:
  assumes "tame N" and "\<And>i. deadline \<noteq> PInt i"
  shows "raises_only is_provider_error (openai_send N e body credential l correlation deadline)"
  unfolding openai_send_def
  using assms openai_deadline_Inl check_authority_Inl
  by (auto intro!: openai.loop_raises simp: is_provider_error_def [of "ProviderError f" for f] simp del: eff_simps)

lemma openai_response_bounded:
  assumes "0 \<le> provider_response_bytes l"
  shows "yields (\<lambda>b _. int (length b) \<le> provider_response_bytes l) (openai_send N e body credential l correlation deadline)"
proof -
  have "yields (\<lambda>result _. \<forall>b. result = Inr b \<longrightarrow> int (length b) \<le> provider_response_bytes l) (openai_attempt N e body credential correlation l deadline k)"
    for deadline k
    unfolding yields_def
  proof (intro allI impI)
    fix s result t b
    assume "openai_attempt N e body credential correlation l deadline k s = Some (Inr result, t)" and "result = Inr b"
    then obtain e' res v u where res: "openai_one_attempt N e' body credential correlation l deadline v = Some (Inr res, u)" and judged: "openai_judge N res = Inr b"
      by (auto simp: openai_attempt_def tryM_def bindM_def bindE_eq_Inr split: option.splits sum.splits)
    from res have "received_ok l res" by (auto simp: openai_one_attempt_def bindM_eq_Some dest: exchange_ok [OF assms])
    with judged show "int (length b) \<le> provider_response_bytes l"
      by (auto simp: openai_judge_def received_ok_def bindE_eq_Inr split: prod.splits)
  qed
  then show ?thesis unfolding openai_send_def by (intro yields_bind openai.loop_yields)
qed

text \<open>A send leaves the log as it is, or runs its loop for an endpoint and a credential that were checked.\<close>

lemma openai_send_cases:
  assumes "openai_send N e body credential l correlation deadline s = Some (res, t)"
  obtains "link_log t = link_log s"
  | due u where "check_authority N e credential = Inr ()" and "link_log u = link_log s" and "int (length body) \<le> provider_request_bytes l"
      and "retry_loop (openai_guard N due) (openai_attempt N e body credential correlation l due) (openai_settle N l due)
       (raises RETRY_EXHAUSTED) (nat (provider_attempt_count l)) 1 u = Some (res, t)"
  using assms that(1) that(2) [of "s\<lparr>link_tick := Suc (link_tick s)\<rparr>"]
  by (auto simp: openai_send_def bindM_eq_Some ask_def checkE_def split: if_splits)

lemma destination_production:
  assumes "destination N e e'" and "\<not> truthy (ve_loopback_only e)"
  shows "\<exists>a checked. ve_connect_host e' = PStr (ip_str a) \<and> is_global a \<and> \<not> is_loopback a \<and> \<not> is_private a \<and> \<not> truthy (ve_loopback_only e')
    \<and> validate_production_endpoint (net_ucd N) (net_nfkc N) (ve_url e) (PBool True) = Inr checked \<and> ve_host e' = ve_host checked"
proof -
  from assms obtain resolver where "resolve_production_transport_endpoint (net_ucd N) (net_nfkc N) resolver e = Inr e'"
    by (auto simp: destination_def)
  then obtain a checked where "ve_connect_host e' = PStr (ip_str a)" "is_global a" "ve_loopback_only e' = PBool False"
      "validate_production_endpoint (net_ucd N) (net_nfkc N) (ve_url e) (PBool True) = Inr checked" "ve_host e' = ve_host checked"
    by (rule resolved_destination)
  with global_not_loopback [of a] show ?thesis by (auto simp: truthy_def)
qed

lemma authorization_header: "''Authorization'' \<in> fst ` set (openai_headers body credential correlation) \<longleftrightarrow> is_str credential"
  by (cases credential) (auto simp: openai_headers_def request_headers_def is_str_def)

text \<open>
  What one event of a send may be. A connection without TLS goes to a loopback address and only when there is no credential; a connection with TLS goes
  to a global address and verifies the host of the configured URL. The \<open>Authorization\<close> header is sent exactly if there is a credential.
\<close>

fun protected_event :: "network \<Rightarrow> validated_endpoint \<Rightarrow> pybytes \<Rightarrow> pyval \<Rightarrow> limits \<Rightarrow> link_event \<Rightarrow> bool" where
  "protected_event N e body credential l (Dialled host port limit None) \<longleftrightarrow>
     credential = PNone \<and> (\<exists>h n. host = PStr h \<and> ip_address h = Some (V4 n) \<and> n div 2 ^ 24 = 127)"
| "protected_event N e body credential l (Dialled host port limit (Some name)) \<longleftrightarrow>
     (\<exists>a. host = PStr (ip_str a) \<and> is_global a \<and> \<not> is_loopback a \<and> \<not> is_private a)
     \<and> (\<exists>checked. validate_production_endpoint (net_ucd N) (net_nfkc N) (ve_url e) (PBool True) = Inr checked \<and> name = ve_host checked)"
| "protected_event N e body credential l (Posted path b headers) \<longleftrightarrow>
     b = body \<and> int (length b) \<le> provider_request_bytes l \<and> (''Authorization'' \<in> fst ` set headers \<longleftrightarrow> is_str credential)"
| "protected_event N e body credential l (ReadWithin limit) \<longleftrightarrow> 0 < limit \<and> limit \<le> seconds (provider_read_inactivity_timeout_ms l)"
| "protected_event N e body credential l Closed \<longleftrightarrow> True"
| "protected_event N e body credential l (Slept limit) \<longleftrightarrow> (\<exists>ms. limit = seconds ms \<and> 0 \<le> ms \<and> ms \<le> retry_after_ms l)"

lemma openai_event_protected:
  assumes "openai_event N e body credential correlation l ev" and "check_authority N e credential = Inr ()"
    and "int (length body) \<le> provider_request_bytes l" and "wf_limits l"
  shows "protected_event N e body credential l ev"
proof (cases ev)
  case (Dialled host port limit name)
  with assms(1) obtain e' where e': "destination N e e'" "host = ve_connect_host e'" "name = (if truthy (ve_loopback_only e') then None else Some (ve_host e'))"
    by (auto simp: openai_event_def)
  show ?thesis
  proof (cases "truthy (ve_loopback_only e)")
    case True
    with assms(2) have "validate_loopback_transport_endpoint (net_ucd N) (net_nfkc N) e = Inr ()" "credential = PNone"
      by (auto simp: check_authority_def bindE_eq_Inr)
    with accepted_destination e' True show ?thesis by (auto simp: Dialled destination_def)
  next
    case False
    with destination_production [OF e'(1)] e' show ?thesis by (auto simp: Dialled)
  qed
qed (use assms(1,3) authorization_header sleep_ok_bounds [OF assms(4)] in \<open>auto simp: openai_event_def\<close>)

lemma openai_send_run:
  assumes "openai_send N e body credential l correlation deadline s = Some (res, t)" and "wf_limits l"
  shows "\<exists>es m. link_log t = link_log s @ es \<and> link_run (Idle, nat (provider_attempt_count l)) es (Idle, m)
    \<and> (\<forall>ev \<in> set es. protected_event N e body credential l ev)"
  using assms(1)
proof (cases rule: openai_send_cases)
  case 1
  then show ?thesis by (auto intro!: exI [of _ "[]"] link_run.start)
next
  case (2 due u)
  from afterD [OF openai.loop_reaches [OF reaches_start] 2(4)] obtain es m where "link_log t = link_log s @ es"
      "link_run (Idle, nat (provider_attempt_count l)) es (Idle, m)" "list_all (openai_event N e body credential correlation l) es"
    unfolding reaches_def 2(2) by blast
  then show ?thesis using openai_event_protected [OF _ 2(1,3) assms(2)] unfolding list_all_iff by blast
qed

lemma sends_run:
  assumes "wf_limits l" and "send_loopback N e body l correlation deadline s = Some (res, t) \<and> credential = PNone
    \<or> send_production N e body credential l correlation deadline s = Some (res, t)"
  shows "\<exists>es m. link_log t = link_log s @ es \<and> link_run (Idle, nat (provider_attempt_count l)) es (Idle, m)
    \<and> (\<forall>ev \<in> set es. protected_event N e body credential l ev)"
proof -
  from assms(2) consider "link_log t = link_log s" | "openai_send N e body credential l correlation deadline s = Some (res, t)"
    by (auto simp: send_loopback_def send_production_def bindM_eq_Some checkE_def split: if_splits)
  then show ?thesis
  proof cases
    case 1
    then show ?thesis by (auto intro!: exI [of _ "[]"] link_run.start)
  qed (rule openai_send_run [OF _ assms(1)])
qed

section \<open>Samples\<close>

lemma sample_production_send:
  "\<exists>res t. openai_send sample_network public_endpoint [] (PStr (py ''key'')) DEFAULT_LIMITS (PStr (py ''req-1'')) PNone fresh_link = Some (res, t)
     \<and> length (link_log t) = 4"
proof -
  have "net_clock sample_network = (\<lambda>_. 0)" "net_fault sample_network = (\<lambda>_. None)" "net_sock sample_network = (\<lambda>_. True)"
    "net_response sample_network = (\<lambda>_. Inl ValueError)" "net_resolver sample_network = (\<lambda>_. public_resolver)"
    "net_ucd sample_network = plain_ucd" "net_nfkc sample_network = id" by (simp_all add: sample_network_def)
  moreover have "check_authority sample_network public_endpoint (PStr (py ''key'')) = Inr ()" "\<not> truthy (ve_loopback_only public_endpoint)"
    "starts_with (py ''req-'') (py ''req-1'')"
    by (simp_all add: check_authority_def public_endpoint_def ValidatedEndpoint_def truthy_def py_def)
  ultimately show ?thesis
    using public_resolved
    by (simp add: default_seconds retry_loop_numeral openai_send_def openai_deadline_def request_deadline_def openai_guard_def openai_attempt_def
        attempt_endpoint_def openai_one_attempt_def connect_within_def exchange_def set_read_timeout_def close_connection_def note_event_def invoke_def
        ask_def bindM_def tryM_def finallyM_def Let_def openai_classify_def provider_failure_def is_os_error_def is_http_error_def is_value_error_def
        openai_settle_def decide_retry_def retryable_def with_attempt_def failure_def ClassifiedFailure_def fresh_link_def)
qed

end
