(* ===== verification/Redaction.thy ===== *)
theory Redaction
  imports Json_Values Py_Regex Py_Net
begin

text \<open>
  The redaction primitives of \<open>redaction.py\<close>: configured secrets are located with all their
  overlapping occurrences, the spans are merged and replaced, and only then is the text cut to its
  byte bound; structured values lose everything under sensitive keys. The lemmas show the byte
  bound, that no configured secret survives, and that no value under a sensitive key survives at any
  depth. \<open>tostr\<close> stands for \<open>str()\<close> of a key object that is no string.
\<close>

section \<open>Definitions\<close>

definition REDACTED :: pystr where
  "REDACTED = py ''<redacted>''"

definition SECRET_KEYS :: "string list" where
  "SECRET_KEYS = [''authorization'', ''proxy-authorization'', ''cookie'', ''set-cookie'', ''api_key'', ''apikey'',
     ''api-key'', ''access_token'', ''refresh_token'', ''token'', ''password'', ''secret'', ''credential'']"

definition PATH_KEYS :: "string list" where
  "PATH_KEYS = [''path'', ''file_path'', ''absolute_path'', ''cwd'', ''working_directory'', ''executable'']"

definition PID_KEYS :: "string list" where
  "PID_KEYS = [''pid'', ''process_id'', ''raw_pid'', ''process-id'']"

definition DIAGNOSTIC_KEYS :: "string list" where
  "DIAGNOSTIC_KEYS = [''diagnostic'', ''detail'', ''error'', ''message'', ''command'', ''argv'', ''output'',
     ''stdout'', ''stderr'']"

text \<open>
  Case-insensitive matching of a lower-case letter, with the four non-ASCII letters that
  \<open>re.IGNORECASE\<close> folds into ASCII.
\<close>

definition ci :: "nat \<Rightarrow> nat \<Rightarrow> bool" where
  "ci c x \<longleftrightarrow> lower_ascii_char x = c \<or> (c = 105 \<and> (x = 304 \<or> x = 305)) \<or> (c = 115 \<and> x = 383)
     \<or> (c = 107 \<and> x = 8490)"

definition ci_alnum :: "nat \<Rightarrow> bool" where
  "ci_alnum x \<longleftrightarrow> ascii_alnum x \<or> x = 304 \<or> x = 305 \<or> x = 383 \<or> x = 8490"

definition ci_letter :: "nat \<Rightarrow> bool" where
  "ci_letter x \<longleftrightarrow> ci_alnum x \<and> \<not> ascii_digit x"

definition RCi :: "string \<Rightarrow> regex" where
  "RCi s = foldr (\<lambda>c r. RSeq (RChar (ci c)) r) (py s) REmpty"

definition one_of :: "string \<Rightarrow> nat \<Rightarrow> bool" where
  "one_of s c \<longleftrightarrow> c \<in> set (py s)"

definition HEADER_RE :: "ucd \<Rightarrow> regex" where
  "HEADER_RE u = RSeqs [RWordB (re_word u),
     RAlts [RCi ''proxy-authorization'', RCi ''authorization'', RCi ''cookie''],
     RStar (RChar (py_space u)), RChar (one_of '':''), RStar (RChar (py_space u)),
     RStar (RChar (\<lambda>c. c \<noteq> 13 \<and> c \<noteq> 10))]"

definition BEARER_RE :: "ucd \<Rightarrow> regex" where
  "BEARER_RE u = RSeqs [RWordB (re_word u), RCi ''bearer'', RPlus (RChar (py_space u)),
     RRep 4 None (RChar (\<lambda>c. ci_alnum c \<or> one_of ''._~+/=-'' c))]"

definition ABSOLUTE_PATH_RE :: "ucd \<Rightarrow> regex" where
  "ABSOLUTE_PATH_RE u = RSeqs [RNotBehind (\<lambda>c. ascii_alnum c \<or> one_of ''_.-'' c), RChar (one_of ''/''),
     RPlus (RAlt (RChar (\<lambda>c. \<not> py_space u c \<and> 32 \<le> c \<and> c \<noteq> 92)) (RChar (\<lambda>c. c = 92)))]"

definition PID_ASSIGNMENT_RE :: "ucd \<Rightarrow> regex" where
  "PID_ASSIGNMENT_RE u = RSeqs [RWordB (re_word u),
     RAlts [RCi ''pid'', RCi ''raw_pid'', RSeqs [RCi ''process'', ROpt (RChar (one_of ''_-'')), RCi ''id'']],
     RStar (RChar (py_space u)), RChar (one_of ''=:''), RStar (RChar (py_space u)),
     RPlus (RChar (re_decimal u)), RWordB (re_word u)]"

definition SECRET_VALUE_RE :: "ucd \<Rightarrow> regex" where
  "SECRET_VALUE_RE u = RSeqs [RWordB (re_word u),
     RAlts [RSeqs [RCi ''api'', ROpt (RChar (one_of ''_-'')), RCi ''key''],
            RSeqs [RCi ''secret'', ROpt (RSeqs [ROpt (RChar (one_of ''_-'')), RCi ''store''])],
            RCi ''token''],
     RStar (RChar (\<lambda>c. ci_alnum c \<or> one_of ''_.=-'' c))]"

definition USERINFO_URL_RE :: "ucd \<Rightarrow> regex" where
  "USERINFO_URL_RE u =
     (let part = RPlus (RChar (\<lambda>c. \<not> py_space u c \<and> c \<noteq> 47 \<and> c \<noteq> 64))
      in RSeqs [RWordB (re_word u), RChar ci_letter, RStar (RChar (\<lambda>c. ci_alnum c \<or> one_of ''+.-'' c)),
           RStr (py ''://''), part, RChar (one_of '':''), part, RChar (one_of ''@''),
           RPlus (RChar (\<lambda>c. \<not> py_space u c))])"

text \<open>\<open>encoded[:maximum]\<close> with Python's meaning of a negative bound.\<close>

definition prefix_slice :: "int \<Rightarrow> 'a list \<Rightarrow> 'a list" where
  "prefix_slice m b = take (if 0 \<le> m then nat m else nat (int (length b) + m)) b"

definition bounded :: "pystr \<Rightarrow> int \<Rightarrow> pystr" where
  "bounded s m =
     (let b = utf8_encode_replace s
      in if int (length b) \<le> m then s else utf8_decode_ignore (prefix_slice m b))"

text \<open>\<open>text.find(secret, start)\<close> and the loop that collects overlapping occurrences.\<close>

definition find_from :: "pystr \<Rightarrow> pystr \<Rightarrow> nat \<Rightarrow> nat option" where
  "find_from text secret start = find (\<lambda>i. starts_with secret (drop i text)) [start..<length text]"

function occurrences_from :: "pystr \<Rightarrow> pystr \<Rightarrow> nat \<Rightarrow> (nat \<times> nat) list" where
  "occurrences_from text secret start =
     (case find_from text secret start of
        None \<Rightarrow> []
      | Some i \<Rightarrow> (i, i + length secret) # occurrences_from text secret (Suc i))"
  by pat_completeness auto
termination
  by (relation "measure (\<lambda>(text, secret, start). length text - start)")
     (auto simp: find_from_def find_Some_iff)

declare occurrences_from.simps [simp del]

definition secret_spans :: "pystr \<Rightarrow> pyval list \<Rightarrow> (nat \<times> nat) list" where
  "secret_spans text secrets = concat (map (\<lambda>s. case s of
      PStr t \<Rightarrow> if t = [] then [] else occurrences_from text t 0
    | _ \<Rightarrow> []) secrets)"

fun merge_from :: "nat \<Rightarrow> nat \<Rightarrow> (nat \<times> nat) list \<Rightarrow> (nat \<times> nat) list" where
  "merge_from s e [] = [(s, e)]"
| "merge_from s e ((s', e') # xs) =
     (if s' \<le> e then merge_from s (max e e') xs else (s, e) # merge_from s' e' xs)"

fun emit :: "pystr \<Rightarrow> nat \<Rightarrow> (nat \<times> nat) list \<Rightarrow> pystr" where
  "emit text cursor [] = drop cursor text"
| "emit text cursor ((s, e) # xs) = take (s - cursor) (drop cursor text) @ REDACTED @ emit text e xs"

text \<open>\<open>spans.sort()\<close> orders the pairs by start, then by end.\<close>

definition sort_spans :: "(nat \<times> nat) list \<Rightarrow> (nat \<times> nat) list" where
  "sort_spans xs = sort_key fst (sort_key snd xs)"

definition merged_spans :: "(nat \<times> nat) list \<Rightarrow> (nat \<times> nat) list" where
  "merged_spans spans = (case sort_spans spans of [] \<Rightarrow> [] | (s, e) # xs \<Rightarrow> merge_from s e xs)"

definition replace_spans :: "pystr \<Rightarrow> (nat \<times> nat) list \<Rightarrow> pystr" where
  "replace_spans text spans = (if spans = [] then text else emit text 0 (merged_spans spans))"

definition structural_text :: "ucd \<Rightarrow> pystr \<Rightarrow> pystr" where
  "structural_text u text = replace_spans text
     (concat (map (\<lambda>r. finditer_spans r text)
        [HEADER_RE u, BEARER_RE u, ABSOLUTE_PATH_RE u, PID_ASSIGNMENT_RE u, SECRET_VALUE_RE u, USERINFO_URL_RE u]))"

definition redact_text :: "pyval \<Rightarrow> pyval list \<Rightarrow> pyval \<Rightarrow> pystr" where
  "redact_text text secrets maximum =
     (case (maximum, text) of
        (PInt m, PStr t) \<Rightarrow>
          if m \<le> 0 then REDACTED else bounded (replace_spans t (secret_spans t secrets)) m
      | _ \<Rightarrow> REDACTED)"

definition redact_sensitive_text :: "ucd \<Rightarrow> pyval \<Rightarrow> pyval list \<Rightarrow> int \<Rightarrow> pystr" where
  "redact_sensitive_text u text secrets maximum =
     (case text of
        PStr t \<Rightarrow>
          bounded (structural_text u
            (redact_text text secrets (PInt (max maximum (int (length (utf8_encode_replace t))))))) maximum
      | _ \<Rightarrow> REDACTED)"

definition key_to_str :: "(nat \<Rightarrow> pystr) \<Rightarrow> pykey \<Rightarrow> pystr" where
  "key_to_str tostr k = (case k of SKey s \<Rightarrow> s | OKey n \<Rightarrow> tostr n)"

definition redact_headers :: "ucd \<Rightarrow> (nat \<Rightarrow> pystr) \<Rightarrow> pyval \<Rightarrow> pyval list \<Rightarrow> (pystr \<times> pystr) list" where
  "redact_headers u tostr headers secrets =
     (if is_mapping headers then
        foldl (\<lambda>out (key, v).
            let normalized = py_lower u (key_to_str tostr key)
            in al_set normalized
                 (if normalized \<in> py ` {''authorization'', ''proxy-authorization'', ''cookie'', ''set-cookie''}
                  then REDACTED else redact_sensitive_text u v secrets 256) out)
          [] (sort_key (\<lambda>(key, v). py_lower u (key_to_str tostr key)) (items_of headers))
      else [(py ''<invalid>'', REDACTED)])"

definition sensitive_key :: "ucd \<Rightarrow> pystr \<Rightarrow> bool" where
  "sensitive_key u k \<longleftrightarrow>
     (let n = py_lower u k
      in n \<in> py ` set SECRET_KEYS \<or> ends_with (py ''_token'') n \<or> n \<in> py ` set PID_KEYS \<or> n \<in> py ` set PATH_KEYS)"

lemma size_take_member [termination_simp]: "x \<in> set (take n xs) \<Longrightarrow> size x < Suc (size_list size xs)"
  by (auto dest!: in_set_takeD simp: less_Suc_eq_le intro: size_list_estimation')

fun redact_json :: "ucd \<Rightarrow> (nat \<Rightarrow> pystr) \<Rightarrow> pyval list \<Rightarrow> int \<Rightarrow> pyval \<Rightarrow> pyval" where
  "redact_json u tostr secrets maximum (PDict k kvs) =
     (if k = OtherMapping then PDict k kvs
      else PDict Plain (foldl (\<lambda>out (key, v). al_set (SKey key) v out) []
        (sort_key fst (map (\<lambda>(key, v).
           (key_to_str tostr key,
            if sensitive_key u (key_to_str tostr key) then PStr REDACTED
            else (case v of
                PStr s \<Rightarrow>
                  if py_lower u (key_to_str tostr key) \<in> py ` set DIAGNOSTIC_KEYS
                  then PStr (redact_sensitive_text u v secrets maximum)
                  else PStr (redact_text v secrets (PInt maximum))
              | _ \<Rightarrow> redact_json u tostr secrets maximum v))) kvs))))"
| "redact_json u tostr secrets maximum (PList xs) = PList (map (redact_json u tostr secrets maximum) (take 128 xs))"
| "redact_json u tostr secrets maximum (PTuple xs) = PList (map (redact_json u tostr secrets maximum) (take 128 xs))"
| "redact_json u tostr secrets maximum (PStr s) = PStr (redact_text (PStr s) secrets (PInt maximum))"
| "redact_json u tostr secrets maximum v = v"

text \<open>Every \<open>ValueError\<close> of \<open>urlsplit\<close> and of \<open>port\<close> gives the marker.\<close>

definition redact_url :: "ucd \<Rightarrow> (pystr \<Rightarrow> pystr) \<Rightarrow> pyval \<Rightarrow> pystr" where
  "redact_url u nfkc url = (case url of
      PStr s \<Rightarrow> (case urlsplit nfkc s of
          None \<Rightarrow> REDACTED
        | Some r \<Rightarrow> (case url_hostname u r of
            None \<Rightarrow> REDACTED
          | Some h \<Rightarrow>
              let host = (if 58 \<in> set h \<and> \<not> starts_with [91] h then [91] @ h @ [93] else h)
              in case url_port r of
                   None \<Rightarrow> REDACTED
                 | Some port \<Rightarrow>
                     bounded (sp_scheme r @ py ''://'' @ host @ (case port of None \<Rightarrow> [] | Some n \<Rightarrow> 58 # dec n)
                       @ (if sp_path r = [] then [47] else sp_path r)) 512))
    | _ \<Rightarrow> REDACTED)"

text \<open>The text argument of \<open>redact_exception\<close> is \<open>None\<close> when \<open>str(error)\<close> raises.\<close>

definition redact_exception :: "ucd \<Rightarrow> pystr option \<Rightarrow> pyval list \<Rightarrow> pystr" where
  "redact_exception u message secrets =
     redact_sensitive_text u (PStr (case message of None \<Rightarrow> REDACTED | Some t \<Rightarrow> t)) secrets 256"

definition redact_provider_excerpt :: "ucd \<Rightarrow> pyval \<Rightarrow> pyval list \<Rightarrow> pystr" where
  "redact_provider_excerpt u body secrets =
     redact_sensitive_text u (case body of PBytes b \<Rightarrow> PStr (utf8_decode_replace b) | _ \<Rightarrow> body) secrets 256"

section \<open>Lemmas\<close>

subsection \<open>The byte bound\<close>

lemma utf8_head_length:
  assumes "utf8_head b bs = Some (c, n)"
  shows "length (if surrogate c then [63] else utf8_char c) \<le> Suc n" and "n \<le> length bs"
  using assms
  by (auto simp: utf8_head_def utf8_char_def Let_def cont_def split: if_splits list.splits)

lemma length_decode_ignore:
  "length (utf8_encode_replace (utf8_decode_ignore b)) \<le> length b"
proof (induction b rule: utf8_decode_ignore.induct)
  case (2 b bs)
  show ?case
  proof (cases "utf8_head b bs")
    case (Some cn)
    obtain c n where cn: "cn = (c, n)" by fastforce
    with Some have "length (if surrogate c then [63] else utf8_char c) \<le> Suc n" "n \<le> length bs"
      using utf8_head_length by blast+
    moreover have "length (utf8_encode_replace (utf8_decode_ignore (drop n bs))) \<le> length bs - n"
      using 2(2) [OF Some] cn by simp
    ultimately show ?thesis using Some cn by (simp add: utf8_encode_replace_def)
  qed (use 2 in \<open>simp add: utf8_encode_replace_def\<close>)
qed (simp add: utf8_encode_replace_def)

lemma bounded_length: "0 \<le> m \<Longrightarrow> int (length (utf8_encode_replace (bounded s m))) \<le> m"
  using length_decode_ignore [of "take (nat m) (utf8_encode_replace s)"]
  by (auto simp: bounded_def Let_def prefix_slice_def)

subsection \<open>Occurrences and merged spans\<close>

lemma occurrences_complete:
  assumes "start \<le> i" and "i < length t" and "starts_with s (drop i t)"
  shows "(i, i + length s) \<in> set (occurrences_from t s start)"
  using assms
proof (induction t s start rule: occurrences_from.induct)
  case (1 t s start)
  have "find_from t s start \<noteq> None"
    using "1.prems" by (auto simp: find_from_def find_None_iff)
  then obtain j where j: "find_from t s start = Some j" by blast
  then obtain n where n: "n < length t - start" "j = start + n" "\<forall>k < n. \<not> starts_with s (drop (start + k) t)"
    by (auto simp: find_from_def find_Some_iff)
  have "j \<le> i"
  proof (rule ccontr)
    assume "\<not> j \<le> i"
    then have "i - start < n" using n(2) "1.prems"(1) by linarith
    with n(3) have "\<not> starts_with s (drop (start + (i - start)) t)" by blast
    with "1.prems" show False by simp
  qed
  then show ?case
    using "1.IH" [OF j] "1.prems" j by (cases "j = i") (auto simp: occurrences_from.simps [of t s start])
qed

lemma occurrences_bound:
  "s \<noteq> [] \<Longrightarrow> x \<in> set (occurrences_from t s start) \<Longrightarrow> fst x \<le> snd x \<and> snd x \<le> length t"
proof (induction t s start rule: occurrences_from.induct)
  case (1 t s start)
  show ?case
  proof (cases "find_from t s start")
    case None
    with "1.prems" show ?thesis by (simp add: occurrences_from.simps [of t s start])
  next
    case (Some j)
    then have "j < length t" "starts_with s (drop j t)" by (auto simp: find_from_def find_Some_iff)
    then obtain q where "drop j t = s @ q" by (auto simp: starts_with_iff)
    from arg_cong [OF this, of length] \<open>j < length t\<close> have "j + length s \<le> length t" by simp
    with "1.prems" "1.IH" [OF Some] Some show ?thesis by (auto simp: occurrences_from.simps [of t s start])
  qed
qed

text \<open>A list of disjoint spans in increasing order, all from \<open>c\<close> on.\<close>

fun disjoint_from :: "nat \<Rightarrow> (nat \<times> nat) list \<Rightarrow> bool" where
  "disjoint_from c [] \<longleftrightarrow> True"
| "disjoint_from c ((s, e) # xs) \<longleftrightarrow> c \<le> s \<and> s \<le> e \<and> disjoint_from e xs"

definition covered :: "nat \<Rightarrow> nat \<Rightarrow> (nat \<times> nat) list \<Rightarrow> bool" where
  "covered a b xs \<longleftrightarrow> (\<exists>(x, y) \<in> set xs. x \<le> a \<and> b \<le> y)"

lemma covered_Cons [simp]: "covered a b ((x, y) # xs) \<longleftrightarrow> (x \<le> a \<and> b \<le> y) \<or> covered a b xs"
  by (simp add: covered_def)

lemma merge_disjoint:
  "s \<le> e \<Longrightarrow> c \<le> s \<Longrightarrow> \<forall>x \<in> set xs. s \<le> fst x \<and> fst x \<le> snd x \<Longrightarrow> sorted (map fst xs)
     \<Longrightarrow> disjoint_from c (merge_from s e xs)"
proof (induction s e xs arbitrary: c rule: merge_from.induct)
  case (2 s e s' e' xs)
  show ?case
  proof (cases "s' \<le> e")
    case True
    then show ?thesis using 2(1) [OF True, of c] 2(3-) by auto
  next
    case False
    then show ?thesis using 2(2) [OF False, of e] 2(3-) by auto
  qed
qed simp

lemma merge_covers:
  "covered a b ((s, e) # xs) \<Longrightarrow> \<forall>x \<in> set xs. s \<le> fst x \<Longrightarrow> sorted (map fst xs)
     \<Longrightarrow> covered a b (merge_from s e xs)"
proof (induction s e xs rule: merge_from.induct)
  case (2 s e s' e' xs)
  show ?case
  proof (cases "s' \<le> e")
    case True
    then show ?thesis using 2(1) [OF True] 2(3-) by (auto simp: le_max_iff_disj)
  next
    case False
    then show ?thesis using 2(2) [OF False] 2(3-) by auto
  qed
qed simp

lemma sort_spans_facts:
  "set (sort_spans xs) = set xs" "sorted (map fst (sort_spans xs))"
  by (simp_all add: sort_spans_def)

lemma merged_spans_facts:
  assumes "\<forall>x \<in> set spans. fst x \<le> snd x"
  shows "disjoint_from 0 (merged_spans spans)" and "(a, b) \<in> set spans \<Longrightarrow> covered a b (merged_spans spans)"
proof -
  show "disjoint_from 0 (merged_spans spans)"
  proof (cases "sort_spans spans")
    case (Cons x xs)
    then have "set (x # xs) = set spans" using sort_spans_facts(1) [of spans] by simp
    then have "fst x \<le> snd x" "\<forall>y \<in> set xs. fst y \<le> snd y" using assms by auto
    with Cons show ?thesis
      using sort_spans_facts(2) [of spans] merge_disjoint [of "fst x" "snd x" 0 xs]
      by (cases x) (auto simp: merged_spans_def)
  qed (simp add: merged_spans_def)
  assume ab: "(a, b) \<in> set spans"
  then have "covered a b (sort_spans spans)" by (auto simp: covered_def sort_spans_facts)
  then show "covered a b (merged_spans spans)"
  proof (cases "sort_spans spans")
    case (Cons x xs)
    with \<open>covered a b (sort_spans spans)\<close> show ?thesis
      using sort_spans_facts(2) [of spans] merge_covers [of a b "fst x" "snd x" xs]
      by (cases x) (auto simp: merged_spans_def)
  qed (simp add: covered_def)
qed

subsection \<open>No secret survives\<close>

text \<open>An occurrence of \<open>p\<close> at position \<open>i\<close>.\<close>

definition occurs_at :: "pystr \<Rightarrow> pystr \<Rightarrow> nat \<Rightarrow> bool" where
  "occurs_at p t i \<longleftrightarrow> starts_with p (drop i t)"

lemma has_sub_occurs: "has_sub p t \<longleftrightarrow> (\<exists>i. i + length p \<le> length t \<and> occurs_at p t i)"
proof
  assume "has_sub p t"
  then obtain a b where "t = a @ p @ b" by (auto simp: has_sub_iff)
  then show "\<exists>i. i + length p \<le> length t \<and> occurs_at p t i"
    by (intro exI [of _ "length a"]) (auto simp: occurs_at_def starts_with_iff)
next
  assume "\<exists>i. i + length p \<le> length t \<and> occurs_at p t i"
  then obtain i b where "drop i t = p @ b" by (auto simp: occurs_at_def starts_with_iff)
  then have "t = take i t @ p @ b" by (metis append_take_drop_id)
  then show "has_sub p t" by (metis has_sub_iff)
qed

text \<open>
  A pattern without angle brackets that is no part of the word \<open>redacted\<close> can only occur beside the
  replacement text.
\<close>

definition visible :: "pystr \<Rightarrow> bool" where
  "visible p \<longleftrightarrow> p \<noteq> [] \<and> 60 \<notin> set p \<and> 62 \<notin> set p \<and> \<not> has_sub p (py ''redacted'')"

lemma has_sub_split_at:
  assumes "has_sub p (a @ [c] @ b)" and "c \<notin> set p"
  shows "has_sub p a \<or> has_sub p b"
proof -
  from assms(1) obtain x y where eq: "a @ [c] @ b = x @ p @ y" by (auto simp: has_sub_iff)
  show ?thesis
  proof (cases "length x + length p \<le> length a")
    case True
    then have "a = x @ p @ take (length a - length x - length p) y"
      using arg_cong [OF eq, of "take (length a)"] by (simp add: take_append)
    then show ?thesis by (metis has_sub_iff)
  next
    case False
    then have len: "length a < length x"
    proof (rule_tac ccontr)
      assume "\<not> length a < length x"
      with False have "(x @ p @ y) ! length a = p ! (length a - length x)" "length a - length x < length p"
        by (auto simp: nth_append)
      moreover have "(a @ [c] @ b) ! length a = c" by simp
      ultimately show False using assms(2) eq by (metis nth_mem)
    qed
    have "b = drop (Suc (length a)) (a @ [c] @ b)" by simp
    also have "\<dots> = drop (Suc (length a)) x @ p @ y" unfolding eq using len by simp
    finally show ?thesis by (metis has_sub_iff)
  qed
qed

lemma has_sub_redacted:
  assumes "has_sub p (a @ REDACTED @ b)" and "visible p"
  shows "has_sub p a \<or> has_sub p b"
proof -
  have "REDACTED = [60] @ py ''redacted'' @ [62]" by (simp add: REDACTED_def py_def)
  then have eq: "a @ REDACTED @ b = a @ [60] @ (py ''redacted'' @ [62] @ b)" by simp
  have "has_sub p a \<or> has_sub p (py ''redacted'' @ [62] @ b)"
    using assms unfolding eq by (intro has_sub_split_at) (auto simp: visible_def)
  then show ?thesis
    using assms(2) has_sub_split_at [of p "py ''redacted''" 62 b] by (auto simp: visible_def)
qed

lemma emit_occurrence:
  assumes "has_sub p (emit t c ms)" and "visible p" and "disjoint_from c ms" and "c \<le> length t"
    and "\<forall>x \<in> set ms. snd x \<le> length t"
  shows "\<exists>i. c \<le> i \<and> i + length p \<le> length t \<and> occurs_at p t i \<and> (\<forall>(s, e) \<in> set ms. i + length p \<le> s \<or> e \<le> i)"
  using assms
proof (induction t c ms rule: emit.induct)
  case (1 t c)
  then obtain i where "i + length p \<le> length (drop c t)" "occurs_at p (drop c t) i"
    by (auto simp: has_sub_occurs)
  with 1 show ?case by (intro exI [of _ "c + i"]) (auto simp: occurs_at_def add.commute)
next
  case (2 t c s e xs)
  then consider "has_sub p (take (s - c) (drop c t))" | "has_sub p (emit t e xs)"
    using has_sub_redacted [of p "take (s - c) (drop c t)" "emit t e xs"] by auto
  then show ?case
  proof cases
    case 1
    then obtain i where i: "i + length p \<le> length (take (s - c) (drop c t))" "occurs_at p (take (s - c) (drop c t)) i"
      by (auto simp: has_sub_occurs)
    have later: "\<forall>(s', e') \<in> set xs. s \<le> s'" if "disjoint_from e xs" "s \<le> e" for xs e
      using that by (induction e xs rule: disjoint_from.induct) auto
    have "take (s - c) (drop c t) = take (s - c) (drop c t)" ..
    from i(2) have "occurs_at p t (c + i)"
      by (auto simp: occurs_at_def starts_with_iff drop_take add.commute)
         (metis append_take_drop_id append.assoc)
    with i 2 later show ?thesis
      by (intro exI [of _ "c + i"]) fastforce
  next
    case b: 2
    then obtain i where "e \<le> i" "i + length p \<le> length t" "occurs_at p t i"
      "\<forall>(s, e) \<in> set xs. i + length p \<le> s \<or> e \<le> i"
      using 2 by auto
    with 2 show ?thesis by (intro exI [of _ i]) auto
  qed
qed

lemma merge_bound:
  "e \<le> n \<Longrightarrow> \<forall>x \<in> set xs. snd x \<le> n \<Longrightarrow> \<forall>x \<in> set (merge_from s e xs). snd x \<le> n"
  by (induction s e xs rule: merge_from.induct) auto

lemma merged_spans_bound:
  assumes "\<forall>x \<in> set spans. snd x \<le> n"
  shows "\<forall>x \<in> set (merged_spans spans). snd x \<le> n"
proof (cases "sort_spans spans")
  case (Cons x xs)
  then have "set (x # xs) = set spans" using sort_spans_facts(1) [of spans] by simp
  then have "snd x \<le> n" "\<forall>y \<in> set xs. snd y \<le> n" using assms by auto
  with Cons merge_bound [of "snd x" n xs "fst x"] show ?thesis by (cases x) (simp add: merged_spans_def)
qed (simp add: merged_spans_def)

lemma secret_spans_facts:
  assumes "x \<in> set (secret_spans t secrets)"
  shows "fst x \<le> snd x \<and> snd x \<le> length t"
proof -
  from assms obtain s where "s \<noteq> []" "x \<in> set (occurrences_from t s 0)"
    by (auto simp: secret_spans_def split: pyval.splits if_splits)
  then show ?thesis by (rule occurrences_bound)
qed

lemma secret_span_present:
  assumes "PStr s \<in> set secrets" and "s \<noteq> []" and "i + length s \<le> length t" and "occurs_at s t i"
  shows "(i, i + length s) \<in> set (secret_spans t secrets)"
proof -
  have "0 < length s" using assms(2) by simp
  then have "i < length t" using assms(3) by linarith
  then have "(i, i + length s) \<in> set (occurrences_from t s 0)"
    using assms by (intro occurrences_complete) (auto simp: occurs_at_def)
  with assms(1,2) show ?thesis unfolding secret_spans_def by (auto intro!: bexI [of _ "PStr s"])
qed

lemma replace_spans_hides:
  assumes "PStr s \<in> set secrets" and "visible s"
  shows "\<not> has_sub s (replace_spans t (secret_spans t secrets))"
proof
  let ?spans = "secret_spans t secrets"
  assume sub: "has_sub s (replace_spans t ?spans)"
  have s: "s \<noteq> []" using assms(2) by (simp add: visible_def)
  have ok: "\<forall>x \<in> set ?spans. fst x \<le> snd x" "\<forall>x \<in> set ?spans. snd x \<le> length t"
    using secret_spans_facts by blast+
  show False
  proof (cases "?spans = []")
    case True
    with sub obtain i where "i + length s \<le> length t" "occurs_at s t i"
      by (auto simp: replace_spans_def has_sub_occurs)
    from secret_span_present [OF assms(1) s this] True show False by simp
  next
    case False
    with sub have "has_sub s (emit t 0 (merged_spans ?spans))" by (simp add: replace_spans_def)
    from emit_occurrence [OF this assms(2) merged_spans_facts(1) [OF ok(1)] _ merged_spans_bound [OF ok(2)]]
    obtain i where i: "i + length s \<le> length t" "occurs_at s t i"
      and apart: "\<forall>(x, y) \<in> set (merged_spans ?spans). i + length s \<le> x \<or> y \<le> i" by auto
    from merged_spans_facts(2) [OF ok(1) secret_span_present [OF assms(1) s i]]
    have "covered i (i + length s) (merged_spans ?spans)" .
    then obtain x y where "(x, y) \<in> set (merged_spans ?spans)" "x \<le> i" "i + length s \<le> y"
      by (auto simp: covered_def)
    with apart have "i + length s \<le> x \<or> y \<le> i" by blast
    with \<open>x \<le> i\<close> \<open>i + length s \<le> y\<close> s show False by (cases s) auto
  qed
qed

subsection \<open>Truncation keeps a prefix\<close>

definition code_points :: "pystr \<Rightarrow> bool" where
  "code_points t \<longleftrightarrow> list_all (\<lambda>c. c < 1114112) t"

definition shown :: "nat \<Rightarrow> nat" where
  "shown c = (if surrogate c then 63 else c)"

lemma shown_scalar: "c < 1114112 \<Longrightarrow> scalar (shown c)"
  by (auto simp: shown_def scalar_def surrogate_def)

lemma encode_replace_shown: "utf8_encode_replace (c # t) = utf8_char (shown c) @ utf8_encode_replace t"
  by (auto simp: utf8_encode_replace_def shown_def utf8_char_def surrogate_def)

lemma decode_ignore_char:
  assumes "scalar c"
  shows "utf8_decode_ignore (utf8_char c @ bs) = c # utf8_decode_ignore bs"
  using assms
  by (auto simp: utf8_char_def scalar_def utf8_head_cont2 utf8_head_cont3 utf8_head_cont4
      simp: utf8_head_def [of c])

lemma decode_ignore_conts: "list_all cont bs \<Longrightarrow> utf8_decode_ignore bs = []"
  by (induction bs) (auto simp: utf8_head_def cont_def)

lemma decode_ignore_partial:
  assumes "m < length (utf8_char c)" and "c < 1114112"
  shows "utf8_decode_ignore (take m (utf8_char c)) = []"
proof (cases m)
  case (Suc n)
  then obtain b bs where b: "utf8_char c = b # bs" "n < length bs" "list_all cont bs" and "192 \<le> b"
    and short: "utf8_head b (take n bs) = None"
    using assms
    by (auto simp: utf8_char_def utf8_head_def cont_def take_Cons' split: if_splits)
  moreover have "list_all cont (take n bs)" using b(3) by (auto simp: list_all_iff dest: in_set_takeD)
  ultimately show ?thesis using Suc by (simp add: decode_ignore_conts)
qed simp

lemma decode_ignore_prefix:
  "code_points t \<Longrightarrow> \<exists>k. utf8_decode_ignore (take m (utf8_encode_replace t)) = take k (map shown t)"
proof (induction t arbitrary: m)
  case Nil
  show ?case by (simp add: utf8_encode_replace_def)
next
  case (Cons c t)
  then have c: "c < 1114112" and t: "code_points t" by (auto simp: code_points_def)
  show ?case
  proof (cases "m < length (utf8_char (shown c))")
    case True
    have "shown c < 1114112" using shown_scalar [OF c] by (simp add: scalar_def)
    with True decode_ignore_partial show ?thesis
      by (intro exI [of _ 0]) (simp add: encode_replace_shown)
  next
    case False
    obtain k where "utf8_decode_ignore (take (m - length (utf8_char (shown c))) (utf8_encode_replace t)) = take k (map shown t)"
      using Cons.IH [OF t] by blast
    with False shown_scalar [OF c] show ?thesis
      by (intro exI [of _ "Suc k"]) (simp add: encode_replace_shown decode_ignore_char)
  qed
qed

lemma has_sub_prefix: "has_sub s (take k t) \<Longrightarrow> has_sub s t"
proof -
  assume "has_sub s (take k t)"
  then obtain a b where "take k t = a @ s @ b" by (auto simp: has_sub_iff)
  then have "t = a @ s @ (b @ drop k t)" by (metis append_assoc append_take_drop_id)
  then show "has_sub s t" by (metis has_sub_iff)
qed

lemma has_sub_shown:
  assumes "has_sub s (map shown t)" and "63 \<notin> set s"
  shows "has_sub s t"
proof -
  from assms(1) obtain a b where "map shown t = a @ s @ b" by (auto simp: has_sub_iff)
  then obtain x y z where t: "t = x @ y @ z" and s: "map shown y = s"
    by (auto simp: map_eq_append_conv append_eq_map_conv)
  have "map shown y = y"
    using s assms(2) by (intro map_idI) (auto simp: shown_def split: if_splits)
  with t s show ?thesis by (auto simp: has_sub_iff)
qed

lemma bounded_hides:
  assumes "\<not> has_sub s t" and "63 \<notin> set s" and "code_points t" and "0 \<le> m"
  shows "\<not> has_sub s (bounded t m)"
proof -
  obtain k where "utf8_decode_ignore (take (nat m) (utf8_encode_replace t)) = take k (map shown t)"
    using decode_ignore_prefix [OF assms(3)] by blast
  then have "\<not> has_sub s (utf8_decode_ignore (take (nat m) (utf8_encode_replace t)))"
    using has_sub_prefix has_sub_shown assms(1,2) by metis
  with assms show ?thesis by (auto simp: bounded_def Let_def prefix_slice_def)
qed

lemma code_points_emit: "code_points t \<Longrightarrow> code_points (emit t c ms)"
proof (induction t c ms rule: emit.induct)
  case (2 t c s e xs)
  then show ?case
    by (auto simp: code_points_def REDACTED_def py_def list_all_iff dest: in_set_takeD in_set_dropD)
qed (auto simp: code_points_def list_all_iff dest: in_set_dropD)

lemma code_points_replace: "code_points t \<Longrightarrow> code_points (replace_spans t spans)"
  by (simp add: replace_spans_def code_points_emit)

subsection \<open>Diagnostic text\<close>

lemma replace_spans_keeps_hidden:
  assumes "\<not> has_sub s t" and "visible s" and "\<forall>x \<in> set spans. fst x \<le> snd x \<and> snd x \<le> length t"
  shows "\<not> has_sub s (replace_spans t spans)"
proof
  assume sub: "has_sub s (replace_spans t spans)"
  with assms(1) have "has_sub s (emit t 0 (merged_spans spans))" by (auto simp: replace_spans_def split: if_splits)
  from emit_occurrence [OF this assms(2) merged_spans_facts(1) _ merged_spans_bound] assms(3)
  obtain i where "i + length s \<le> length t" "occurs_at s t i" by auto
  with assms(1) show False by (auto simp: has_sub_occurs)
qed

lemma structural_text_hides: "\<not> has_sub s t \<Longrightarrow> visible s \<Longrightarrow> \<not> has_sub s (structural_text u t)"
  unfolding structural_text_def
  by (rule replace_spans_keeps_hidden) (auto simp: finditer_spans_def dest: spans_from_sorted)

lemma code_points_structural: "code_points t \<Longrightarrow> code_points (structural_text u t)"
  by (simp add: structural_text_def code_points_replace)

lemma code_points_bounded: "code_points t \<Longrightarrow> code_points (bounded t m)"
proof -
  assume t: "code_points t"
  obtain k where "utf8_decode_ignore (prefix_slice m (utf8_encode_replace t)) = take k (map shown t)"
    using decode_ignore_prefix [OF t] unfolding prefix_slice_def by blast
  moreover have "code_points (take k (map shown t))"
    using t by (auto simp: code_points_def list_all_iff shown_def dest!: in_set_takeD)
  ultimately show ?thesis using t by (simp add: bounded_def Let_def)
qed

lemma redact_sensitive_hides:
  assumes "PStr s \<in> set secrets" and "visible s" and "63 \<notin> set s" and "code_points t" and "0 < m"
  shows "\<not> has_sub s (redact_sensitive_text u (PStr t) secrets m)"
proof -
  let ?k = "max m (int (length (utf8_encode_replace t)))"
  let ?t = "redact_text (PStr t) secrets (PInt ?k)"
  have "?t = bounded (replace_spans t (secret_spans t secrets)) ?k" using assms(5) by (simp add: redact_text_def)
  moreover have "code_points (replace_spans t (secret_spans t secrets))" using assms(4) by (rule code_points_replace)
  ultimately have "code_points ?t" "\<not> has_sub s ?t"
    using bounded_hides [OF replace_spans_hides [OF assms(1,2)] assms(3), of t ?k] assms(5) by (simp_all add: code_points_bounded)
  then have "\<not> has_sub s (bounded (structural_text u ?t) m)"
    using assms by (intro bounded_hides structural_text_hides code_points_structural) simp_all
  then show ?thesis by (simp add: redact_sensitive_text_def)
qed

lemma marker_hides: "visible s \<Longrightarrow> \<not> has_sub s REDACTED"
  using has_sub_redacted [of s "[]" "[]"] by (auto simp: visible_def)

lemma redact_sensitive_length: "10 \<le> m \<Longrightarrow> int (length (utf8_encode_replace (redact_sensitive_text u v secrets m))) \<le> m"
  using bounded_length by (auto simp: redact_sensitive_text_def REDACTED_def py_def utf8_encode_replace_def surrogate_def utf8_char_def split: pyval.splits)

lemma utf8_head_code_point: "utf8_head b bs = Some (c, n) \<Longrightarrow> c < 1114112"
  by (auto simp: utf8_head_def cont_def Let_def split: if_splits list.splits)

lemma decode_replace_code_points: "code_points (utf8_decode_replace b)"
  by (induction b rule: utf8_decode_replace.induct)
     (auto simp: code_points_def dest: utf8_head_code_point split: option.splits)

subsection \<open>Sensitive keys\<close>

text \<open>No value under a sensitive key is visible, at any depth.\<close>

fun hides_sensitive :: "ucd \<Rightarrow> pyval \<Rightarrow> bool" where
  "hides_sensitive u (PDict k kvs) \<longleftrightarrow> k = OtherMapping
     \<or> (\<forall>(key, v) \<in> set kvs. (\<exists>s. key = SKey s \<and> (sensitive_key u s \<longrightarrow> v = PStr REDACTED)) \<and> hides_sensitive u v)"
| "hides_sensitive u (PList xs) \<longleftrightarrow> (\<forall>x \<in> set xs. hides_sensitive u x)"
| "hides_sensitive u (PTuple xs) \<longleftrightarrow> (\<forall>x \<in> set xs. hides_sensitive u x)"
| "hides_sensitive u v \<longleftrightarrow> True"

lemma al_set_members: "(k, v) \<in> set (al_set a b xs) \<Longrightarrow> (k, v) = (a, b) \<or> (k, v) \<in> set xs"
  by (induction a b xs rule: al_set.induct) (auto split: if_splits)

lemma foldl_al_set_members:
  "(k, v) \<in> set (foldl (\<lambda>out (key, v). al_set (SKey key) v out) acc xs) \<Longrightarrow>
     (k, v) \<in> set acc \<or> (\<exists>key. k = SKey key \<and> (key, v) \<in> set xs)"
proof (induction xs arbitrary: acc)
  case (Cons x xs)
  obtain a b where x: "x = (a, b)" by fastforce
  from Cons.prems x Cons.IH [of "al_set (SKey a) b acc"] al_set_members [of k v "SKey a" b acc] show ?case by auto
qed simp

lemma redact_json_hides: "hides_sensitive u (redact_json u tostr secrets m v)"
proof (induction u tostr secrets m v rule: redact_json.induct)
  case (1 u tostr secrets m k kvs)
  show ?case
  proof (cases "k = OtherMapping")
    case False
    let ?f = "\<lambda>(key, v). (key_to_str tostr key,
            if sensitive_key u (key_to_str tostr key) then PStr REDACTED
            else (case v of PStr s \<Rightarrow>
                  if py_lower u (key_to_str tostr key) \<in> py ` set DIAGNOSTIC_KEYS
                  then PStr (redact_sensitive_text u v secrets m) else PStr (redact_text v secrets (PInt m))
              | _ \<Rightarrow> redact_json u tostr secrets m v))"
    have item: "(sensitive_key u s \<longrightarrow> w = PStr REDACTED) \<and> hides_sensitive u w" if "(s, w) \<in> ?f ` set kvs" for s w
    proof -
      from that obtain key v where kv: "(key, v) \<in> set kvs" "?f (key, v) = (s, w)" by auto
      show ?thesis
      proof (cases "\<exists>x. v = PStr x \<or> sensitive_key u s")
        case True
        with kv(2) show ?thesis by auto
      next
        case b: False
        then have "w = redact_json u tostr secrets m v" using kv(2) by (cases v) auto
        with b 1 [OF False kv(1) refl] kv(2) show ?thesis by (cases v) auto
      qed
    qed
    have "(\<exists>s. key = SKey s \<and> (sensitive_key u s \<longrightarrow> w = PStr REDACTED)) \<and> hides_sensitive u w"
      if "(key, w) \<in> set (foldl (\<lambda>out (key, v). al_set (SKey key) v out) [] (sort_key fst (map ?f kvs)))" for key w
      using foldl_al_set_members [OF that] item by fastforce
    then show ?thesis using False by (simp only: redact_json.simps hides_sensitive.simps if_False simp_thms) blast
  qed simp
next
  case (2 u tostr secrets m xs)
  then show ?case by auto
next
  case (3 u tostr secrets m xs)
  then show ?case by auto
qed simp_all

section \<open>Properties\<close>

text \<open>
  \<open>redact_text\<close> with a positive bound returns text of at most that many UTF-8 bytes, and no
  configured secret occurs in it, neither whole nor created by the cut. The conditions on the secret
  (no angle bracket, no question mark, no part of the word \<open>redacted\<close>) exclude secrets that occur in the
  replacement text itself.
\<close>

theorem redact_text_hides_secrets:
  assumes "PStr s \<in> set secrets" and "visible s" and "63 \<notin> set s" and "code_points t" and "0 < m"
  shows "\<not> has_sub s (redact_text (PStr t) secrets (PInt m))
    \<and> int (length (utf8_encode_replace (redact_text (PStr t) secrets (PInt m)))) \<le> m"
  using assms bounded_hides [OF replace_spans_hides [OF assms(1,2)] assms(3) code_points_replace [OF assms(4)]]
    bounded_length [of m]
  by (simp add: redact_text_def)

theorem redact_text_hides_secrets_witness:
  "\<not> has_sub (py ''s3cr'') (redact_text (PStr (py ''x s3cr s3cr3cr'')) [PStr (py ''s3cr''), PStr (py ''r3cr'')] (PInt 8))"
proof -
  have "visible (py ''s3cr'')" "63 \<notin> set (py ''s3cr'')" "code_points (py ''x s3cr s3cr3cr'')"
    by (simp_all add: visible_def code_points_def py_def)
  then show ?thesis
    using redact_text_hides_secrets [of "py ''s3cr''" "[PStr (py ''s3cr''), PStr (py ''r3cr'')]" "py ''x s3cr s3cr3cr''" 8]
    by simp
qed




text \<open>
  What \<open>redact_url\<close> shows of a URL does not depend on its user information, its query or its
  fragment: it is what the URL without them gives.
\<close>

theorem redacted_urls_hide_userinfo_and_query:
  assumes "scheme_name s" and "isascii (user @ rest)" and "set user \<inter> {47, 63, 35, 91, 93} = {}"
    and "set rest \<inter> {63, 35} = {}" and "query = [] \<or> hd query \<in> {63, 35}"
  shows "redact_url u nfkc (PStr (s @ py ''://'' @ user @ [64] @ rest @ query)) = redact_url u nfkc (PStr (s @ py ''://'' @ rest))"
proof -
  let ?clean = "filter (\<lambda>c. c \<notin> {9, 13, 10::nat})" and ?in = "\<lambda>c. c \<notin> {47, 63, 35::nat}"
  have q: "?clean query = [] \<or> hd (?clean query) \<in> {63, 35}" using assms(5) by (cases query) auto
  then have q': "?clean query = [] \<or> \<not> ?in (hd (?clean query))" by auto
  have ui: "takeWhile ?in (?clean user @ 64 # xs) = ?clean user @ 64 # takeWhile ?in xs"
      "dropWhile ?in (?clean user @ 64 # xs) = dropWhile ?in xs" for xs
    using assms(3) by (subst takeWhile_append2 dropWhile_append2; auto)+
  have net: "takeWhile ?in (?clean (user @ [64] @ rest @ query)) = ?clean user @ 64 # takeWhile ?in (?clean rest)"
    and tail: "dropWhile ?in (?clean (user @ [64] @ rest @ query)) = dropWhile ?in (?clean rest) @ ?clean query"
    using ui takeWhile_stops [of "?clean query" ?in] dropWhile_stops [of "?clean query" ?in] q' by simp_all
  have ok: "netloc_ok nfkc (?clean user @ 64 # takeWhile ?in (?clean rest)) = netloc_ok nfkc (takeWhile ?in (?clean rest))"
    using assms(2,3) by (intro netloc_ok_userinfo) (auto simp: isascii_iff dest: set_takeWhileD)
  have p: "set (dropWhile ?in (?clean rest)) \<inter> {63, 35} = {}" using assms(4) by (auto dest: set_dropWhileD)
  note path = path_before_tail [OF p q] path_before_tail [OF p, of "[]"]
  note first = urlsplit_scheme_authority [OF assms(1) refl, of nfkc "user @ [64] @ rest @ query", unfolded net tail ok path]
    and second = urlsplit_scheme_authority [OF assms(1) refl, of nfkc rest]
  show ?thesis
  proof (cases "netloc_ok nfkc (takeWhile ?in (?clean rest))")
    case True
    obtain r where r: "urlsplit nfkc (s @ py ''://'' @ user @ [64] @ rest @ query) = Some r" "sp_scheme r = lower_text s"
        "sp_netloc r = ?clean user @ 64 # takeWhile ?in (?clean rest)" "sp_path r = dropWhile ?in (?clean rest)"
      using first(1) [OF True] by blast
    obtain r' where r': "urlsplit nfkc (s @ py ''://'' @ rest) = Some r'" "sp_scheme r' = lower_text s"
        "sp_netloc r' = takeWhile ?in (?clean rest)" "sp_path r' = dropWhile ?in (?clean rest)"
      using second(1) [OF True] path(2) by auto
    have "host_info r = host_info r'" by (rule host_info_userinfo) (simp add: r r')
    then have "raw_host_port r = raw_host_port r'" by (simp add: raw_host_port_def)
    then have "url_hostname u r = url_hostname u r'" "url_port r = url_port r'" by (simp_all add: url_hostname_def url_port_def)
    moreover have "sp_scheme r = sp_scheme r'" "sp_path r = sp_path r'" by (simp_all add: r r')
    ultimately show ?thesis using r(1) r'(1) by (simp add: redact_url_def Let_def cong: option.case_cong)
  next
    case False
    then show ?thesis using first(2) second(2) by (simp add: redact_url_def Let_def cong: option.case_cong)
  qed
qed

theorem redacted_urls_hide_userinfo_and_query_witness:
  "\<forall>u. redact_url u id (PStr (py ''https://user:pw@h/x?key=1'')) = redact_url u id (PStr (py ''https://h/x''))"
proof -
  have "scheme_name (py ''https'')" "isascii (py ''user:pw'' @ py ''h/x'')" "set (py ''user:pw'') \<inter> {47, 63, 35, 91, 93} = {}"
      "set (py ''h/x'') \<inter> {63, 35} = {}" "py ''?key=1'' = [] \<or> hd (py ''?key=1'') \<in> {63, 35}"
    by (simp_all add: scheme_name_def scheme_char_def ascii_alnum_def ascii_lower_def isascii_iff py_def)
  from redacted_urls_hide_userinfo_and_query [OF this, of _ id] show ?thesis by (simp add: py_def)
qed

end
