(* ===== verification/Mcp_Schemas.thy ===== *)
theory Mcp_Schemas
  imports Contracts Redaction
begin

text \<open>
  The MCP side of the schema discipline in \<open>mcp_orchestrator.py\<close>: closed objects, number bounds,
  normalisation of input schemas, output schemas and values, capture of the tool surface from
  \<open>tools/list\<close> pages, and validation and redaction of tool results.
\<close>

section \<open>Definitions\<close>

abbreviation mpf :: exn where
  "mpf \<equiv> raises MCP_PROTOCOL_FAILURE"

definition TOOL_FIELDS :: "string list" where
  "TOOL_FIELDS = [''name'', ''title'', ''description'', ''inputSchema'', ''outputSchema'', ''annotations'', ''execution'',
     ''icons'', ''_meta'']"

definition INPUT_SCHEMA_FIELDS :: "string list" where
  "INPUT_SCHEMA_FIELDS = [''type'', ''properties'', ''required'', ''items'', ''enum'', ''minLength'', ''maxLength'', ''minimum'',
     ''maximum'', ''additionalProperties'', ''description'', ''default'', ''title'']"

definition OUTPUT_SCHEMA_FIELDS :: "string list" where
  "OUTPUT_SCHEMA_FIELDS = [''type'', ''properties'', ''required'', ''items'', ''enum'', ''minLength'', ''maxLength'', ''minimum'',
     ''maximum'', ''maxItems'', ''additionalProperties'']"

definition mcp_closed :: "pyval \<Rightarrow> string list \<Rightarrow> string list \<Rightarrow> items outcome" where
  "mcp_closed v allowed required =
     (if is_dict v \<and> keyset_within (items_of v) allowed \<and> has_all (items_of v) required then Inr (items_of v)
      else Inl mpf)"

definition bounded_mcp_number :: "pyval \<Rightarrow> bool" where
  "bounded_mcp_number v = (case v of
      PInt n \<Rightarrow> - (2 ^ 63) \<le> n \<and> n \<le> 2 ^ 64 - 1
    | PFloat f \<Rightarrow> finite_float f
    | _ \<Rightarrow> False)"

definition mcp_evidence_limits :: "limits \<Rightarrow> limits outcome" where
  "mcp_evidence_limits l = replace_limits l [(''object_array_items'', PInt (mcp_evidence_items l))]"

subsection \<open>Input schemas\<close>

lemma size_nested:
  "(k, v) \<in> set kvs \<Longrightarrow> (n, c) \<in> set (items_of v) \<Longrightarrow> size c < Suc (size_list (size_prod (\<lambda>_. 0) size) kvs)"
  using size_items [of k v kvs] size_items_of [of n c v] by simp

function normalize_input_schema :: "limits \<Rightarrow> nat \<Rightarrow> pyval \<Rightarrow> pyval outcome" where
  "normalize_input_schema l depth schema =
     (case schema of
        PDict k kvs \<Rightarrow>
          bindE (checkE (k \<noteq> OtherMapping \<and> \<not> too_deep l depth \<and> keyset_within kvs INPUT_SCHEMA_FIELDS) mpf) (\<lambda>_.
          bindE (mapE (\<lambda>(key, v).
              if key \<in> (\<lambda>s. SKey (py s)) ` {''description'', ''default'', ''title''} then Inr []
              else if key = SKey (py ''properties'') then
                bindE (checkE (is_dict v \<and> int (length (items_of v)) \<le> object_array_items l) mpf) (\<lambda>_.
                bindE (mapE (\<lambda>(name, child).
                    bindE (normalize_input_schema l (Suc depth) child) (\<lambda>c. Inr (name, c))) (items_of v)) (\<lambda>ps.
                Inr [(key, PDict Plain ps)]))
              else if key = SKey (py ''items'') then
                bindE (normalize_input_schema l (Suc depth) v) (\<lambda>c. Inr [(key, c)])
              else Inr [(key, v)]) kvs) (\<lambda>parts.
          bindE (freeze_json l None 0 (PDict Plain (concat parts))) (\<lambda>frozen.
          bindE (checkE (is_dict frozen) mpf) (\<lambda>_. Inr frozen))))
      | _ \<Rightarrow> Inl mpf)"
  by pat_completeness auto
termination
  by (relation "measure (\<lambda>(l, depth, s). size s)")
     (auto intro: size_nested size_items)

declare normalize_input_schema.simps [simp del]

subsection \<open>Output schemas\<close>

definition type_of_name :: "pyval \<Rightarrow> string outcome" where
  "type_of_name v = (case v of
      PStr s \<Rightarrow> (case find (\<lambda>n. py n = s) SCHEMA_TYPES of None \<Rightarrow> Inl mpf | Some n \<Rightarrow> Inr n)
    | _ \<Rightarrow> Inl mpf)"

definition schema_types :: "items \<Rightarrow> string list outcome" where
  "schema_types kvs =
     (let raw = get_or kvs ''type'' PNone;
          vs = (if is_str raw then [raw] else elems raw)
      in bindE (checkE (vs \<noteq> [] \<and> list_all is_str vs \<and> distinct vs) mpf) (\<lambda>_. mapE type_of_name vs))"

definition schema_type_matches :: "pyval \<Rightarrow> string \<Rightarrow> bool" where
  "schema_type_matches v t =
     (if t = ''string'' then is_str v
      else if t = ''boolean'' then is_bool v
      else if t = ''integer'' then is_int v \<and> \<not> is_bool v \<and> bounded_mcp_number v
      else if t = ''number'' then bounded_mcp_number v
      else if t = ''object'' then is_mapping v
      else if t = ''array'' then is_seq v
      else v = PNone)"

definition output_enum_ok :: "limits \<Rightarrow> items \<Rightarrow> string list \<Rightarrow> bool" where
  "output_enum_ok l kvs ts = (case dget kvs ''enum'' of
      None \<Rightarrow> True
    | Some vs \<Rightarrow> is_seq vs \<and> elems vs \<noteq> [] \<and> int (length (elems vs)) \<le> object_array_items l
        \<and> list_all (\<lambda>item. list_ex (schema_type_matches item) ts) (elems vs))"

definition output_bounds_ok :: "limits \<Rightarrow> items \<Rightarrow> string list \<Rightarrow> bool" where
  "output_bounds_ok l kvs ts \<longleftrightarrow>
     list_all (\<lambda>key. case dget kvs key of
         None \<Rightarrow> True
       | Some (PInt n) \<Rightarrow> ''string'' \<in> set ts \<and> 0 \<le> n \<and> n \<le> mcp_response_bytes l
       | Some _ \<Rightarrow> False) [''minLength'', ''maxLength'']
     \<and> \<not> out_of_order kvs ''minLength'' ''maxLength''
     \<and> list_all (\<lambda>key. case dget kvs key of
         None \<Rightarrow> True
       | Some v \<Rightarrow> (''integer'' \<in> set ts \<or> ''number'' \<in> set ts) \<and> bounded_mcp_number v) [''minimum'', ''maximum'']
     \<and> \<not> out_of_order kvs ''minimum'' ''maximum''"

definition max_items_ok :: "limits \<Rightarrow> items \<Rightarrow> bool" where
  "max_items_ok l kvs = (case dget kvs ''maxItems'' of
      Some (PInt n) \<Rightarrow> 0 \<le> n \<and> n \<le> mcp_evidence_items l
    | _ \<Rightarrow> False)"

function validate_output_schema_definition :: "limits \<Rightarrow> nat \<Rightarrow> pyval \<Rightarrow> pyval outcome" where
  "validate_output_schema_definition l depth schema =
     (case schema of
        PDict k kvs \<Rightarrow>
          bindE (checkE (k \<noteq> OtherMapping \<and> \<not> too_deep l depth \<and> keyset_within kvs OUTPUT_SCHEMA_FIELDS) mpf) (\<lambda>_.
          bindE (schema_types kvs) (\<lambda>ts.
          bindE
            (if ''object'' \<in> set ts then
               bindE (checkE (dget kvs ''additionalProperties'' = Some (PBool False)) mpf) (\<lambda>_.
               bindE (checkE (is_dict (get_or kvs ''properties'' empty_dict)
                   \<and> int (length (items_of (get_or kvs ''properties'' empty_dict))) \<le> object_array_items l) mpf) (\<lambda>_.
               bindE (checkE (required_ok l (get_or kvs ''required'' (PList []))
                   (items_of (get_or kvs ''properties'' empty_dict))) mpf) (\<lambda>_.
               iterE (\<lambda>(name, child).
                   bindE (checkE (case name of SKey s \<Rightarrow> s \<noteq> [] | OKey _ \<Rightarrow> False) mpf) (\<lambda>_.
                   bindE (validate_output_schema_definition l (Suc depth) child) (\<lambda>_. Inr ())))
                 (items_of (get_or kvs ''properties'' empty_dict)))))
             else checkE (\<not> list_ex (dhas kvs) [''properties'', ''required'', ''additionalProperties'']) mpf) (\<lambda>_.
          bindE
            (if ''array'' \<in> set ts then
               (case dget kvs ''items'' of
                  None \<Rightarrow> Inl mpf
                | Some child \<Rightarrow>
                    bindE (checkE (is_dict child) mpf) (\<lambda>_.
                    bindE (checkE (max_items_ok l kvs) mpf) (\<lambda>_.
                    bindE (validate_output_schema_definition l (Suc depth) child) (\<lambda>_. Inr ()))))
             else checkE (\<not> list_ex (dhas kvs) [''items'', ''maxItems'']) mpf) (\<lambda>_.
          bindE (checkE (output_enum_ok l kvs ts) mpf) (\<lambda>_.
          bindE (checkE (output_bounds_ok l kvs ts) mpf) (\<lambda>_.
          bindE (freeze_json l None 0 schema) (\<lambda>frozen.
          bindE (checkE (is_dict frozen) mpf) (\<lambda>_. Inr frozen))))))))
      | _ \<Rightarrow> Inl mpf)"
  by pat_completeness auto
termination
  by (relation "measure (\<lambda>(l, depth, s). size s)") (auto dest: size_get_or size_dget)

declare validate_output_schema_definition.simps [simp del]

definition output_string_ok :: "limits \<Rightarrow> items \<Rightarrow> nat \<Rightarrow> bool" where
  "output_string_ok l kvs n \<longleftrightarrow> int_or kvs ''minLength'' 0 \<le> int n
     \<and> int n \<le> min (int_or kvs ''maxLength'' (mcp_response_bytes l)) (mcp_response_bytes l)"

definition output_number_ok :: "items \<Rightarrow> pyval \<Rightarrow> bool" where
  "output_number_ok kvs v \<longleftrightarrow>
     (case dget kvs ''minimum'' of None \<Rightarrow> True | Some m \<Rightarrow> \<not> num_less v m)
     \<and> (case dget kvs ''maximum'' of None \<Rightarrow> True | Some m \<Rightarrow> \<not> num_less m v)"

function validate_output_value :: "limits \<Rightarrow> nat \<Rightarrow> pyval \<Rightarrow> pyval \<Rightarrow> unit outcome" where
  "validate_output_value l depth value schema =
     bindE (checkE (\<not> too_deep l depth) mpf) (\<lambda>_.
     bindE (schema_types (items_of schema)) (\<lambda>ts.
     case find (schema_type_matches value) ts of
       None \<Rightarrow> Inl mpf
     | Some t \<Rightarrow>
         bindE (checkE (enum_ok (items_of schema) value) mpf) (\<lambda>_.
         if t = ''object'' then
           bindE (checkE (int (length (items_of value)) \<le> object_array_items l
               \<and> list_all (\<lambda>(key, v). property_schema (items_of schema) key \<noteq> None) (items_of value)) mpf) (\<lambda>_.
           bindE (checkE (required_present (items_of schema) (items_of value)) mpf) (\<lambda>_.
           iterE (\<lambda>(key, child). case property_schema (items_of schema) key of
               None \<Rightarrow> Inl KeyError
             | Some s \<Rightarrow> validate_output_value l (Suc depth) child s) (items_of value)))
         else if t = ''array'' then
           bindE (case dget (items_of schema) ''maxItems'' of
                    Some (PInt n) \<Rightarrow> checkE (int (length (elems value)) \<le> n) mpf
                  | _ \<Rightarrow> Inl KeyError) (\<lambda>_.
           iterE (\<lambda>child. case dget (items_of schema) ''items'' of
               None \<Rightarrow> Inl KeyError
             | Some s \<Rightarrow> validate_output_value l (Suc depth) child s) (elems value))
         else if t = ''string'' then
           (case value of
              PStr s \<Rightarrow> (case utf8_encode s of
                  None \<Rightarrow> Inl UnicodeEncodeError
                | Some b \<Rightarrow> checkE (output_string_ok l (items_of schema) (length b)) mpf)
            | _ \<Rightarrow> Inl AttributeError)
         else if t = ''integer'' \<or> t = ''number'' then checkE (output_number_ok (items_of schema) value) mpf
         else Inr ())))"
  by pat_completeness auto
termination
  by (relation "measure (\<lambda>(l, depth, v, s). size v)") (auto dest: size_items_of size_elems)

declare validate_output_value.simps [simp del]

subsection \<open>The tool surface\<close>

record tool_surface =
  surface_tools :: "advertised_tool list"
  surface_identity :: pystr
  output_schemas :: pyval

definition tool_texts_ok :: "items \<Rightarrow> bool" where
  "tool_texts_ok item \<longleftrightarrow> is_str (get_or item ''name'' PNone) \<and> is_str (get_or item ''title'' (PStr []))
     \<and> is_str (get_or item ''description'' (PStr []))"

definition tool_objects_ok :: "items \<Rightarrow> bool" where
  "tool_objects_ok item \<longleftrightarrow>
     list_all (\<lambda>f. case dget item f of None \<Rightarrow> True | Some v \<Rightarrow> is_dict v)
       [''inputSchema'', ''outputSchema'', ''annotations'', ''execution'', ''_meta'']
     \<and> (case dget item ''icons'' of None \<Rightarrow> True | Some v \<Rightarrow> is_seq v)"

definition as_protocol_failure :: "exn \<Rightarrow> exn" where
  "as_protocol_failure e = (case e of ProviderError _ \<Rightarrow> mpf | _ \<Rightarrow> e)"

definition capture_tool :: "limits \<Rightarrow> pyval \<Rightarrow> (advertised_tool \<times> pyval \<times> pyval) outcome" where
  "capture_tool l raw =
     bindE (mcp_closed raw TOOL_FIELDS [''name'', ''inputSchema'']) (\<lambda>item.
     bindE (checkE (tool_texts_ok item) mpf) (\<lambda>_.
     bindE (checkE (tool_objects_ok item) mpf) (\<lambda>_.
     catchE
       (bindE (normalize_input_schema l 0 (get_or item ''inputSchema'' PNone)) (\<lambda>inp.
        bindE (AdvertisedTool (get_or item ''name'' PNone) inp (get_or item ''description'' (PStr []))) (\<lambda>tool.
        bindE (dumps (obj [(''name'', PStr (tool_name tool)), (''description'', PStr (description tool)),
                 (''inputSchema'', parameters tool)])) (\<lambda>b.
        bindE (checkE (int (length b) \<le> tool_definition_bytes l) mpf) (\<lambda>_.
        bindE (case dget item ''outputSchema'' of
                 None \<Rightarrow> Inr PNone
               | Some s \<Rightarrow> validate_output_schema_definition l 0 s) (\<lambda>out.
        bindE (freeze_json l None 0 raw) (\<lambda>frozen.
        bindE (checkE (is_dict frozen) mpf) (\<lambda>_.
        Inr (tool, frozen, out)))))))))
       (\<lambda>e. Inl (as_protocol_failure e)))))"

definition capture_tool_surface :: "pyval \<Rightarrow> limits \<Rightarrow> tool_surface outcome" where
  "capture_tool_surface result l =
     bindE (mcp_closed result [''tools''] [''tools'']) (\<lambda>kvs.
     let ts = get_or kvs ''tools'' PNone in
     bindE (checkE (is_seq ts \<and> int (length (elems ts)) \<le> advertised_tool_count l) mpf) (\<lambda>_.
     bindE (mapE (capture_tool l) (elems ts)) (\<lambda>captured.
     bindE (checkE (distinct (map (\<lambda>(t, f, out). tool_name t) captured)) mpf) (\<lambda>_.
     bindE (freeze_json l None 0 (PDict Plain (map (\<lambda>(t, f, out). (SKey (tool_name t), out)) captured))) (\<lambda>outs.
     bindE (checkE (is_dict outs) mpf) (\<lambda>_.
     bindE (dumps (PList (map (\<lambda>(t, f, out). f) captured))) (\<lambda>b.
     Inr \<lparr> surface_tools = map fst captured, surface_identity = sha256_hex b, output_schemas = outs \<rparr>)))))))"

definition tools_list_page :: "pyval \<Rightarrow> limits \<Rightarrow> (pyval list \<times> pystr option) outcome" where
  "tools_list_page result l =
     bindE (mcp_closed result [''tools'', ''nextCursor'', ''_meta''] [''tools'']) (\<lambda>page.
     bindE (checkE (is_seq (get_or page ''tools'' PNone)) mpf) (\<lambda>_.
     bindE (case dget page ''_meta'' of
              None \<Rightarrow> Inr ()
            | Some m \<Rightarrow> bindE (freeze_json l None 0 m) (\<lambda>f. checkE (is_dict f) mpf)) (\<lambda>_.
     case get_or page ''nextCursor'' PNone of
       PNone \<Rightarrow> Inr (elems (get_or page ''tools'' PNone), None)
     | PStr c \<Rightarrow>
         if c = [] then Inl mpf
         else (case utf8_encode c of
             None \<Rightarrow> Inl UnicodeEncodeError
           | Some b \<Rightarrow> if message_bytes l < int (length b) then Inl mpf
               else Inr (elems (get_or page ''tools'' PNone), Some c))
     | _ \<Rightarrow> Inl mpf)))"

subsection \<open>Tool results\<close>

definition result_block :: "ucd \<Rightarrow> (nat \<Rightarrow> pystr) \<Rightarrow> limits \<Rightarrow> pyval \<Rightarrow> pyval outcome" where
  "result_block u tostr l block =
     bindE (mcp_closed block [''type'', ''text''] [''type'', ''text'']) (\<lambda>item.
     case (get_or item ''type'' PNone = PStr (py ''text''), get_or item ''text'' PNone) of
       (True, PStr s) \<Rightarrow> (case utf8_encode s of
           None \<Rightarrow> Inl UnicodeEncodeError
         | Some b \<Rightarrow>
             if mcp_evidence_response_bytes l < int (length b) then Inl mpf
             else Inr (obj [(''type'', PStr (py ''text'')),
               (''text'', get_or (items_of (redact_json u tostr [] 4096 (obj [(''message'', PStr s)]))) ''message'' PNone)]))
     | _ \<Rightarrow> Inl mpf)"

definition validate_tool_result :: "ucd \<Rightarrow> (nat \<Rightarrow> pystr) \<Rightarrow> pyval \<Rightarrow> limits \<Rightarrow> pyval \<Rightarrow> pyval outcome" where
  "validate_tool_result u tostr value l output_schema =
     bindE (mcp_evidence_limits l) (\<lambda>ml.
     let sb = Some (PInt (mcp_evidence_response_bytes l)) in
     bindE (mcp_closed value [''content'', ''structuredContent'', ''isError'', ''_meta''] [''content'']) (\<lambda>kvs.
     let content = get_or kvs ''content'' PNone; is_error = get_or kvs ''isError'' (PBool False) in
     bindE (checkE (is_seq content \<and> int (length (elems content)) \<le> object_array_items l \<and> is_bool is_error) mpf) (\<lambda>_.
     bindE (case dget kvs ''_meta'' of
              None \<Rightarrow> Inr ()
            | Some m \<Rightarrow> bindE (freeze_json ml sb 0 m) (\<lambda>f. checkE (is_dict f) mpf)) (\<lambda>_.
     bindE (mapE (result_block u tostr l) (elems content)) (\<lambda>blocks.
     bindE (case dget kvs ''structuredContent'' of
              None \<Rightarrow>
                if output_schema \<noteq> PNone \<and> is_error = PBool False then Inl mpf else Inr []
            | Some s \<Rightarrow>
                bindE (freeze_json ml sb 0 s) (\<lambda>structured.
                bindE (checkE (is_dict structured) mpf) (\<lambda>_.
                bindE (if output_schema \<noteq> PNone \<and> is_error = PBool False
                       then validate_output_value l 0 structured output_schema else Inr ()) (\<lambda>_.
                Inr [(''structuredContent'', redact_json u tostr [] 4096 structured)])))) (\<lambda>structured.
     freeze_json ml sb 0 (obj ([(''content'', PList blocks)]
       @ (if dhas kvs ''isError'' then [(''isError'', is_error)] else []) @ structured))))))))"

section \<open>Specification\<close>

text \<open>What a captured tool surface guarantees.\<close>

definition tool_ok :: "advertised_tool \<Rightarrow> bool" where
  "tool_ok t \<longleftrightarrow> check_identifier (PStr (tool_name t)) LOCAL_VALIDATION_FAILURE = Inr ()
     \<and> deep_frozen (parameters t) \<and> is_dict (parameters t)
     \<and> validate_schema_definition HARD_LIMITS 0 (parameters t) = Inr ()"

definition surface_ok :: "limits \<Rightarrow> tool_surface \<Rightarrow> bool" where
  "surface_ok l s \<longleftrightarrow> int (length (surface_tools s)) \<le> advertised_tool_count l
     \<and> distinct (map tool_name (surface_tools s)) \<and> (\<forall>t \<in> set (surface_tools s). tool_ok t)
     \<and> length (surface_identity s) = 64 \<and> list_all lower_hex (surface_identity s)
     \<and> deep_frozen (output_schemas s)"

section \<open>Lemmas\<close>

lemma mcp_closed_Inr:
  "mcp_closed v allowed required = Inr kvs \<longleftrightarrow>
     is_dict v \<and> kvs = items_of v \<and> keyset_within kvs allowed \<and> has_all kvs required"
  by (auto simp: mcp_closed_def)

lemma AdvertisedTool_Inr:
  assumes "AdvertisedTool name params descr = Inr t"
  shows "tool_ok t" and "name = PStr (tool_name t)" and "freeze_json HARD_LIMITS None 0 params = Inr (parameters t)"
proof -
  from assms have ident: "check_identifier name LOCAL_VALIDATION_FAILURE = Inr ()"
    by (auto simp: AdvertisedTool_def bindE_eq_Inr)
  then obtain n where n: "name = PStr n" by (auto simp: check_identifier_Inr)
  with assms have "tool_name t = n" "freeze_json HARD_LIMITS None 0 params = Inr (parameters t)" "is_dict (parameters t)"
    "validate_schema_definition HARD_LIMITS 0 (parameters t) = Inr ()"
    by (auto simp: AdvertisedTool_def bindE_eq_Inr)
  with ident n freeze_deep_frozen show "tool_ok t" "name = PStr (tool_name t)"
    "freeze_json HARD_LIMITS None 0 params = Inr (parameters t)"
    by (auto simp: tool_ok_def)
qed

lemma capture_tool_Inr: "capture_tool l raw = Inr (t, f, out) \<Longrightarrow> tool_ok t"
  by (auto simp: capture_tool_def bindE_eq_Inr catchE_eq_Inr dest: AdvertisedTool_Inr(1))

lemma capture_tool_surface_ok:
  assumes "capture_tool_surface result l = Inr s"
  shows "surface_ok l s"
proof -
  from assms obtain xs captured outs b where xs: "int (length xs) \<le> advertised_tool_count l"
    "mapE (capture_tool l) xs = Inr captured" "distinct (map (\<lambda>(t, f, out). tool_name t) captured)"
    "freeze_json l None 0 (PDict Plain (map (\<lambda>(t, f, out). (SKey (tool_name t), out)) captured)) = Inr outs"
    "s = \<lparr> surface_tools = map fst captured, surface_identity = sha256_hex b, output_schemas = outs \<rparr>"
    unfolding capture_tool_surface_def Let_def bindE_eq_Inr checkE_eq_Inr by blast
  have "tool_ok t" if "t \<in> set (map fst captured)" for t
  proof -
    from that obtain f out where "(t, f, out) \<in> set captured" by auto
    with mapE_all [OF xs(2), of "\<lambda>y. tool_ok (fst y)"] capture_tool_Inr show ?thesis by fastforce
  qed
  moreover have names: "map (\<lambda>(t, f, out). tool_name t) captured = map (tool_name \<circ> fst) captured"
    by (simp add: comp_def case_prod_unfold)
  moreover have "surface_tools s = map fst captured" "surface_identity s = sha256_hex b" "output_schemas s = outs"
    using xs(5) by simp_all
  ultimately show ?thesis
    using xs(1,3) mapE_length [OF xs(2)] freeze_deep_frozen [OF xs(4)] sha256_hex_lower_hex [of b]
    unfolding surface_ok_def names by (simp del: freeze_json.simps)
qed


subsection \<open>Tool results\<close>

text \<open>Every mapping of the value is a \<open>dict\<close>, so that redaction looks inside it.\<close>

fun transparent :: "pyval \<Rightarrow> bool" where
  "transparent (PDict k kvs) \<longleftrightarrow> k \<noteq> OtherMapping \<and> (\<forall>(key, v) \<in> set kvs. transparent v)"
| "transparent (PList xs) \<longleftrightarrow> (\<forall>x \<in> set xs. transparent x)"
| "transparent (PTuple xs) \<longleftrightarrow> (\<forall>x \<in> set xs. transparent x)"
| "transparent v \<longleftrightarrow> True"

lemma deep_frozen_transparent: "deep_frozen v \<Longrightarrow> transparent v"
  by (induction v rule: transparent.induct) auto

lemma redact_transparent: "transparent v \<Longrightarrow> transparent (redact_json u tostr secrets m v)"
proof (induction u tostr secrets m v rule: redact_json.induct)
  case (1 u tostr secrets m k kvs)
  let ?f = "\<lambda>(key, v). (key_to_str tostr key,
            if sensitive_key u (key_to_str tostr key) then PStr REDACTED
            else (case v of PStr s \<Rightarrow>
                  if py_lower u (key_to_str tostr key) \<in> py ` set DIAGNOSTIC_KEYS
                  then PStr (redact_sensitive_text u v secrets m) else PStr (redact_text v secrets (PInt m))
              | _ \<Rightarrow> redact_json u tostr secrets m v))"
  from 1 have k: "k \<noteq> OtherMapping" by simp
  have "transparent w" if "(s, w) \<in> ?f ` set kvs" for s w
  proof -
    from that obtain key v where kv: "(key, v) \<in> set kvs" "?f (key, v) = (s, w)" by auto
    with "1.prems" have "transparent v" by (metis (no_types, lifting) case_prodD transparent.simps(1))
    show ?thesis
    proof (cases "\<exists>x. v = PStr x \<or> sensitive_key u s")
      case True
      with kv(2) show ?thesis by auto
    next
      case b: False
      then have "w = redact_json u tostr secrets m v" using kv(2) by (cases v) auto
      with b "1.IH" [OF k kv(1) refl] kv(2) \<open>transparent v\<close> show ?thesis by (cases v) (simp_all del: redact_json.simps transparent.simps)
    qed
  qed
  moreover have "(key, w) \<in> set (foldl (\<lambda>out (key, v). al_set (SKey key) v out) [] (sort_key fst (map ?f kvs)))
      \<Longrightarrow> \<exists>s. (s, w) \<in> ?f ` set kvs" for key w
    using foldl_al_set_members [of key w "[]" "sort_key fst (map ?f kvs)"] by auto
  ultimately show ?case using k
    by (simp only: redact_json.simps transparent.simps if_False simp_thms dkind.distinct) blast
qed (auto dest: in_set_takeD)

lemma freeze_hides:
  "freeze_json l sb d v = Inr r \<Longrightarrow> transparent v \<Longrightarrow> hides_sensitive u v \<Longrightarrow> hides_sensitive u r"
proof (induction v arbitrary: d r)
  case (PDict k kvs)
  then obtain kvs' where r: "r = PDict Frozen kvs'" and rel: "list_all2 (frozen_item l sb (Suc d)) kvs kvs'"
    by (auto simp: freeze_dict_Inr simp del: freeze_json.simps)
  have "(\<exists>s. key = SKey s \<and> (sensitive_key u s \<longrightarrow> w = PStr REDACTED)) \<and> hides_sensitive u w"
    if "(key, w) \<in> set kvs'" for key w
  proof -
    from list_all2_set2 [OF rel that] obtain v where
      v: "(key, v) \<in> set kvs" "freeze_json l sb (Suc d) v = Inr w"
      by (auto simp: frozen_item_def)
    with PDict.prems(2,3) PDict.IH [of "(key, v)" v "Suc d" w] show ?thesis
      by (auto simp: freeze_leaf_Inr snds.simps simp del: freeze_json.simps)
  qed
  with r show ?case by auto
next
  case (PList xs)
  then obtain ys where r: "r = PTuple ys" and rel: "list_all2 (\<lambda>x y. freeze_json l sb (Suc d) x = Inr y) xs ys"
    by (auto simp: freeze_seq_Inr simp del: freeze_json.simps)
  have "hides_sensitive u y" if "y \<in> set ys" for y
    using list_all2_set2 [OF rel that] PList.IH PList.prems(2,3) by (auto simp del: freeze_json.simps)
  with r show ?case by simp
next
  case (PTuple xs)
  then obtain ys where r: "r = PTuple ys" and rel: "list_all2 (\<lambda>x y. freeze_json l sb (Suc d) x = Inr y) xs ys"
    by (auto simp: freeze_seq_Inr simp del: freeze_json.simps)
  have "hides_sensitive u y" if "y \<in> set ys" for y
    using list_all2_set2 [OF rel that] PTuple.IH PTuple.prems(2,3) by (auto simp del: freeze_json.simps)
  with r show ?case by simp
qed (auto simp: bindE_eq_Inr split: if_splits)

lemma plain_key:
  "\<not> sensitive_key u (py ''content'')" "\<not> sensitive_key u (py ''isError'')"
  "\<not> sensitive_key u (py ''structuredContent'')" "\<not> sensitive_key u (py ''type'')" "\<not> sensitive_key u (py ''text'')"
  by code_simp+

lemma mcp_evidence_limits_wf:
  "wf_limits l \<Longrightarrow> mcp_evidence_limits l = Inr (l\<lparr>object_array_items := mcp_evidence_items l\<rparr>)"
  unfolding mcp_evidence_limits_def
  by (rule replace_object_array_items) (use wf_limits_bounds in auto)

lemma result_block_Inr:
  assumes "result_block u tostr l block = Inr r"
  shows "transparent r \<and> hides_sensitive u r"
proof -
  from assms obtain s where r: "r = obj [(''type'', PStr (py ''text'')),
      (''text'', get_or (items_of (redact_json u tostr [] 4096 (obj [(''message'', PStr s)]))) ''message'' PNone)]"
    by (auto simp: result_block_def bindE_eq_Inr split: bool.splits pyval.splits option.splits if_splits)
  have "is_str (get_or (items_of (redact_json u tostr [] 4096 (obj [(''message'', PStr s)]))) ''message'' PNone)"
    by (simp add: obj_def get_or_def dget_def key_to_str_def)
  then show ?thesis
    unfolding r obj_def by (auto simp: plain_key is_str_def split: pyval.splits)
qed

abbreviation evidence_limits :: "limits \<Rightarrow> limits" where
  "evidence_limits l \<equiv> l\<lparr>object_array_items := mcp_evidence_items l\<rparr>"

abbreviation evidence_string_bytes :: "limits \<Rightarrow> pyval option" where
  "evidence_string_bytes l \<equiv> Some (PInt (mcp_evidence_response_bytes l))"

abbreviation reports_error :: "pyval \<Rightarrow> pyval" where
  "reports_error v \<equiv> get_or (items_of v) ''isError'' (PBool False)"

text \<open>The structured part of a tool result: absent, or frozen, checked against the output schema and redacted.\<close>

definition structured_ok :: "ucd \<Rightarrow> (nat \<Rightarrow> pystr) \<Rightarrow> limits \<Rightarrow> pyval \<Rightarrow> pyval \<Rightarrow> (string \<times> pyval) list \<Rightarrow> bool" where
  "structured_ok u tostr l schema v part \<longleftrightarrow>
     (case dget (items_of v) ''structuredContent'' of
        None \<Rightarrow> part = [] \<and> (schema = PNone \<or> reports_error v \<noteq> PBool False)
      | Some raw \<Rightarrow> \<exists>x. freeze_json (evidence_limits l) (evidence_string_bytes l) 0 raw = Inr x \<and> is_dict x
          \<and> part = [(''structuredContent'', redact_json u tostr [] 4096 x)]
          \<and> (schema \<noteq> PNone \<and> reports_error v = PBool False \<longrightarrow> validate_output_value l 0 x schema = Inr ()))"

lemma validate_tool_result_Inr:
  assumes "validate_tool_result u tostr v l schema = Inr r" and "wf_limits l"
  obtains blocks part where "mapE (result_block u tostr l) (elems (get_or (items_of v) ''content'' PNone)) = Inr blocks"
    and "structured_ok u tostr l schema v part" and "is_bool (reports_error v)"
    and "freeze_json (evidence_limits l) (evidence_string_bytes l) 0 (obj ([(''content'', PList blocks)]
       @ (if dhas (items_of v) ''isError'' then [(''isError'', reports_error v)] else []) @ part)) = Inr r"
proof -
  let ?s = "case dget (items_of v) ''structuredContent'' of
              None \<Rightarrow> if schema \<noteq> PNone \<and> reports_error v = PBool False then Inl mpf else Inr []
            | Some s \<Rightarrow>
                bindE (freeze_json (evidence_limits l) (evidence_string_bytes l) 0 s) (\<lambda>structured.
                bindE (checkE (is_dict structured) mpf) (\<lambda>_.
                bindE (if schema \<noteq> PNone \<and> reports_error v = PBool False
                       then validate_output_value l 0 structured schema else Inr ()) (\<lambda>_.
                Inr [(''structuredContent'', redact_json u tostr [] 4096 structured)])))"
  from assms(1) obtain blocks part where *: "mapE (result_block u tostr l) (elems (get_or (items_of v) ''content'' PNone)) = Inr blocks"
    "?s = Inr part" "is_bool (reports_error v)"
    "freeze_json (evidence_limits l) (evidence_string_bytes l) 0 (obj ([(''content'', PList blocks)]
       @ (if dhas (items_of v) ''isError'' then [(''isError'', reports_error v)] else []) @ part)) = Inr r"
    unfolding validate_tool_result_def mcp_evidence_limits_wf [OF assms(2)] bindE_simps Let_def bindE_eq_Inr
      checkE_eq_Inr mcp_closed_Inr by blast
  from *(2) have "structured_ok u tostr l schema v part"
    by (auto simp: structured_ok_def bindE_eq_Inr split: option.splits if_splits simp del: freeze_json.simps)
  with * that show thesis by blast
qed

lemma structured_ok_hides:
  "structured_ok u tostr l schema v part \<Longrightarrow> transparent (obj part) \<and> hides_sensitive u (obj part)"
  by (auto simp: structured_ok_def obj_def redact_json_hides plain_key dest!: freeze_deep_frozen deep_frozen_transparent
      intro!: redact_transparent split: option.splits)

lemma validate_tool_result_safe:
  assumes "validate_tool_result u tostr v l schema = Inr r" and "wf_limits l"
  shows "deep_frozen r" and "hides_sensitive u r"
    and "bounded_json (json_nesting_depth l) (mcp_evidence_items l) (mcp_evidence_response_bytes l) r"
proof -
  from assms obtain blocks part where *: "mapE (result_block u tostr l) (elems (get_or (items_of v) ''content'' PNone)) = Inr blocks"
    "structured_ok u tostr l schema v part" "is_bool (reports_error v)"
    and r: "freeze_json (evidence_limits l) (evidence_string_bytes l) 0 (obj ([(''content'', PList blocks)]
       @ (if dhas (items_of v) ''isError'' then [(''isError'', reports_error v)] else []) @ part)) = Inr r"
    by (rule validate_tool_result_Inr)
  show "deep_frozen r" by (rule freeze_deep_frozen [OF r])
  have "0 < mcp_evidence_response_bytes l" using wf_limits_bounds [OF assms(2)] by simp
  then show "bounded_json (json_nesting_depth l) (mcp_evidence_items l) (mcp_evidence_response_bytes l) r"
    using freeze_accepts_iff [of "evidence_limits l" "evidence_string_bytes l" "mcp_evidence_response_bytes l" 0 r]
      freeze_idem [OF r] by (auto simp: json_string_limit_def simp del: freeze_json.simps)
  have "transparent b \<and> hides_sensitive u b" if "b \<in> set blocks" for b
    using mapE_all [OF *(1) _ that] result_block_Inr by metis
  moreover from *(3) have "transparent (reports_error v)" "hides_sensitive u (reports_error v)"
    by (auto simp: is_bool_def split: pyval.splits)
  ultimately have "transparent (obj ([(''content'', PList blocks)]
       @ (if dhas (items_of v) ''isError'' then [(''isError'', reports_error v)] else []) @ part))"
    "hides_sensitive u (obj ([(''content'', PList blocks)]
       @ (if dhas (items_of v) ''isError'' then [(''isError'', reports_error v)] else []) @ part))"
    using structured_ok_hides [OF *(2)] by (auto simp: obj_def plain_key)
  with r show "hides_sensitive u r" by (rule freeze_hides)
qed

section \<open>Properties\<close>

text \<open>A listing with one tool, and the surface it gives.\<close>

definition sample_listing :: pyval where
  "sample_listing = obj [(''tools'', PTuple [obj [(''name'', PStr (py ''read'')),
     (''inputSchema'', obj [(''type'', PStr (py ''object''))])]])]"

definition sample_surface :: tool_surface where
  "sample_surface = \<lparr> surface_tools = [sample_tool],
     surface_identity = sha256_hex (py ''[{\"inputSchema\":{\"type\":\"object\"},\"name\":\"read\"}]''),
     output_schemas = PDict Frozen [(SKey (py ''read''), PNone)] \<rparr>"

lemmas freeze_eval = too_deep_def check_key_def py_def check_string_def json_string_limit_def utf8_encode_def surrogate_def
  utf8_char_def

lemma sample_normalize:
  "normalize_input_schema DEFAULT_LIMITS 0 (PDict Plain [(SKey (py ''type''), PStr (py ''object''))]) = Inr (parameters sample_tool)"
  by (subst normalize_input_schema.simps)
     (simp add: sample_tool_def too_deep_def keyset_within_def
      INPUT_SCHEMA_FIELDS_def check_key_def py_def check_string_def json_string_limit_def utf8_encode_def surrogate_def
      utf8_char_def)

lemma sample_vsd: "validate_schema_definition HARD_LIMITS 0 (parameters sample_tool) = Inr ()"
  using sample_schema [OF HARD_LIMITS_wf] by (simp add: validate_schema_Inr)

lemma sample_advertised: "AdvertisedTool (PStr (py ''read'')) (parameters sample_tool) (PStr []) = Inr sample_tool"
proof -
  have "freeze_json HARD_LIMITS None 0 (parameters sample_tool) = Inr (parameters sample_tool)"
    by (simp add: freeze_eval sample_tool_def obj_def)
  moreover have "check_identifier (PStr (py ''read'')) LOCAL_VALIDATION_FAILURE = Inr ()"
    by (simp add: check_identifier_def py_def name_char_def ascii_alnum_def ascii_lower_def ascii_digit_def ascii_upper_def)
  moreover have "check_description (PStr []) = Inr []" by code_simp
  ultimately show ?thesis
    using sample_vsd by (simp add: AdvertisedTool_def sample_tool_def del: freeze_json.simps)
qed

lemma sample_capture_tool:
  "capture_tool DEFAULT_LIMITS (obj [(''name'', PStr (py ''read'')), (''inputSchema'', obj [(''type'', PStr (py ''object''))])])
     = Inr (sample_tool, PDict Frozen [(SKey (py ''name''), PStr (py ''read'')),
         (SKey (py ''inputSchema''), PDict Frozen [(SKey (py ''type''), PStr (py ''object''))])], PNone)"
proof -
  let ?raw = "obj [(''name'', PStr (py ''read'')), (''inputSchema'', obj [(''type'', PStr (py ''object''))])]"
  have "mcp_closed ?raw TOOL_FIELDS [''name'', ''inputSchema''] = Inr (items_of ?raw)" by code_simp
  moreover have "tool_texts_ok (items_of ?raw)" by code_simp
  moreover have "tool_objects_ok (items_of ?raw)" by code_simp
  moreover have "\<exists>b. dumps (obj [(''name'', PStr (tool_name sample_tool)), (''description'', PStr (description sample_tool)),
                 (''inputSchema'', parameters sample_tool)]) = Inr b \<and> int (length b) \<le> tool_definition_bytes DEFAULT_LIMITS"
    by (simp add: sample_tool_def obj_def py_def key_text_def dumps_str_def escape_char_def)
  moreover have "freeze_json DEFAULT_LIMITS None 0 ?raw = Inr (PDict Frozen [(SKey (py ''name''), PStr (py ''read'')),
         (SKey (py ''inputSchema''), PDict Frozen [(SKey (py ''type''), PStr (py ''object''))])])"
    by (simp add: freeze_eval sample_tool_def obj_def)
  moreover have "get_or (items_of ?raw) ''inputSchema'' PNone = PDict Plain [(SKey (py ''type''), PStr (py ''object''))]"
    "get_or (items_of ?raw) ''name'' PNone = PStr (py ''read'')" "get_or (items_of ?raw) ''description'' (PStr []) = PStr []"
    "dget (items_of ?raw) ''outputSchema'' = None" by code_simp+
  ultimately show ?thesis
    using sample_normalize sample_advertised
    unfolding capture_tool_def by (auto simp del: freeze_json.simps dumps.simps)
qed

lemma sample_capture: "capture_tool_surface sample_listing DEFAULT_LIMITS = Inr sample_surface"
proof -
  have "dumps (PList [PDict Frozen [(SKey (py ''name''), PStr (py ''read'')),
         (SKey (py ''inputSchema''), PDict Frozen [(SKey (py ''type''), PStr (py ''object''))])]])
      = Inr (py ''[{\"inputSchema\":{\"type\":\"object\"},\"name\":\"read\"}]'')"
    by code_simp
  moreover have "freeze_json DEFAULT_LIMITS None 0 (PDict Plain [(SKey (tool_name sample_tool), PNone)])
      = Inr (PDict Frozen [(SKey (py ''read''), PNone)])"
    by (simp add: freeze_eval sample_tool_def obj_def)
  moreover have "mcp_closed sample_listing [''tools''] [''tools''] = Inr (items_of sample_listing)"
    by code_simp
  ultimately show ?thesis
    by (simp add: capture_tool_surface_def sample_surface_def sample_listing_def obj_def get_or_def dget_def
        sample_capture_tool [unfolded obj_def, simplified] del: dumps.simps freeze_json.simps)
qed

text \<open>
  C13: a captured tool surface holds at most \<open>advertised_tool_count\<close> tools with pairwise different names;
  every tool has a valid identifier as its name and a frozen parameter schema that the schema validator accepts
  under the hard limits; the surface identity is a lower-case SHA-256 digest and the output schemas are frozen.
\<close>

theorem captured_surface_is_well_formed:
  assumes "capture_tool_surface result l = Inr s"
  shows "surface_ok l s"
  using assms by (rule capture_tool_surface_ok)

theorem captured_surface_is_well_formed_witness:
  "capture_tool_surface sample_listing DEFAULT_LIMITS = Inr sample_surface \<and> surface_ok DEFAULT_LIMITS sample_surface"
  using sample_capture captured_surface_is_well_formed [OF sample_capture] by blast

text \<open>
  C14: a tool result that \<open>validate_tool_result\<close> accepts is deeply frozen and bounded by the evidence limits, shows
  nothing under a sensitive key, and, when the tool has an output schema and the result is no error,
  carries structured content: the redaction of a frozen object that the output schema accepts.
\<close>

theorem accepted_tool_result_is_safe:
  assumes "validate_tool_result u tostr v l schema = Inr r" and "wf_limits l"
  shows "deep_frozen r \<and> hides_sensitive u r
    \<and> bounded_json (json_nesting_depth l) (mcp_evidence_items l) (mcp_evidence_response_bytes l) r
    \<and> (\<exists>part. structured_ok u tostr l schema v part)"
  using validate_tool_result_safe [OF assms] validate_tool_result_Inr [OF assms] by blast

definition sample_ucd :: ucd where
  "sample_ucd = \<lparr>uc_lower = (\<lambda>c. [c]), uc_space = (\<lambda>_. False), uc_word = (\<lambda>_. False), uc_decimal = (\<lambda>_. False)\<rparr>"

definition sample_output_schema :: pyval where
  "sample_output_schema = obj [(''type'', PStr (py ''object'')),
     (''properties'', obj [(''token'', obj [(''type'', PStr (py ''string''))])]), (''additionalProperties'', PBool False)]"

definition sample_result :: pyval where
  "sample_result = obj [(''content'', PTuple []), (''structuredContent'', obj [(''token'', PStr (py ''hunter2''))])]"

lemma sample_token_value:
  "validate_output_value DEFAULT_LIMITS (Suc 0) (PStr (py ''hunter2'')) (obj [(''type'', PStr (py ''string''))]) = Inr ()"
proof -
  have "schema_types (items_of (obj [(''type'', PStr (py ''string''))])) = Inr [''string'']" by code_simp
  moreover have "enum_ok (items_of (obj [(''type'', PStr (py ''string''))])) (PStr (py ''hunter2''))" by code_simp
  moreover have "output_string_ok DEFAULT_LIMITS (items_of (obj [(''type'', PStr (py ''string''))])) 7" by code_simp
  moreover have "\<exists>b. utf8_encode (py ''hunter2'') = Some b \<and> length b = 7"
    by (simp add: utf8_encode_def py_def surrogate_def utf8_char_def)
  ultimately show ?thesis
    by (subst validate_output_value.simps) (auto simp: schema_type_matches_def too_deep_def)
qed

lemma sample_structured_value:
  "validate_output_value DEFAULT_LIMITS 0 (PDict Frozen [(SKey (py ''token''), PStr (py ''hunter2''))]) sample_output_schema = Inr ()"
proof -
  have "schema_types (items_of sample_output_schema) = Inr [''object'']" by code_simp
  moreover have "enum_ok (items_of sample_output_schema) (PDict Frozen [(SKey (py ''token''), PStr (py ''hunter2''))])" by code_simp
  moreover have "property_schema (items_of sample_output_schema) (SKey (py ''token'')) = Some (obj [(''type'', PStr (py ''string''))])" by code_simp
  moreover have "required_present (items_of sample_output_schema) [(SKey (py ''token''), PStr (py ''hunter2''))]" by code_simp
  ultimately show ?thesis using sample_token_value
    by (subst validate_output_value.simps) (simp add: schema_type_matches_def too_deep_def)
qed

theorem accepted_tool_result_is_safe_witness:
  "\<exists>r. validate_tool_result sample_ucd (\<lambda>_. []) sample_result DEFAULT_LIMITS sample_output_schema = Inr r
     \<and> hides_sensitive sample_ucd r
     \<and> r = PDict Frozen [(SKey (py ''content''), PTuple []),
         (SKey (py ''structuredContent''), PDict Frozen [(SKey (py ''token''), PStr REDACTED)])]"
proof -
  have "mcp_closed sample_result [''content'', ''structuredContent'', ''isError'', ''_meta''] [''content''] = Inr (items_of sample_result)"
    by code_simp
  moreover have "freeze_json (evidence_limits DEFAULT_LIMITS) (evidence_string_bytes DEFAULT_LIMITS) 0 (obj [(''token'', PStr (py ''hunter2''))])
      = Inr (PDict Frozen [(SKey (py ''token''), PStr (py ''hunter2''))])"
    by (simp add: freeze_eval obj_def)
  moreover have "redact_json sample_ucd (\<lambda>_. []) [] 4096 (PDict Frozen [(SKey (py ''token''), PStr (py ''hunter2''))])
      = PDict Plain [(SKey (py ''token''), PStr REDACTED)]"
    by code_simp
  moreover have "freeze_json (evidence_limits DEFAULT_LIMITS) (evidence_string_bytes DEFAULT_LIMITS) 0 (obj [(''content'', PList []),
      (''structuredContent'', PDict Plain [(SKey (py ''token''), PStr REDACTED)])])
      = Inr (PDict Frozen [(SKey (py ''content''), PTuple []),
         (SKey (py ''structuredContent''), PDict Frozen [(SKey (py ''token''), PStr REDACTED)])])"
    by (simp add: freeze_eval obj_def REDACTED_def)
  moreover have "get_or (items_of sample_result) ''content'' PNone = PTuple []"
    "dget (items_of sample_result) ''_meta'' = None" "\<not> dhas (items_of sample_result) ''isError''"
    "get_or (items_of sample_result) ''isError'' (PBool False) = PBool False"
    "dget (items_of sample_result) ''structuredContent'' = Some (obj [(''token'', PStr (py ''hunter2''))])"
    by code_simp+
  moreover have "sample_output_schema \<noteq> PNone" by (simp add: sample_output_schema_def obj_def)
  ultimately have "validate_tool_result sample_ucd (\<lambda>_. []) sample_result DEFAULT_LIMITS sample_output_schema
      = Inr (PDict Frozen [(SKey (py ''content''), PTuple []),
         (SKey (py ''structuredContent''), PDict Frozen [(SKey (py ''token''), PStr REDACTED)])])"
    using sample_structured_value
    by (simp add: validate_tool_result_def mcp_evidence_limits_wf del: freeze_json.simps redact_json.simps)
  with accepted_tool_result_is_safe [OF this DEFAULT_LIMITS_wf] show ?thesis by blast
qed

end
