(* ===== verification/Regex_Language.thy ===== *)
theory Regex_Language
  imports Py_Regex
begin

text \<open>
  The language of a pattern. \<open>recognises r A\<close> says that, wherever it starts, the backtracking matcher of \<open>r\<close>
  ends exactly behind the words of \<open>A\<close>. The rules follow the constructors, so the patterns of the sources
  that nest groups in repetitions get their language by composition, and \<open>fullmatch\<close> of an anchored pattern is
  membership in it.
\<close>

definition recognises :: "regex \<Rightarrow> pystr set \<Rightarrow> bool" where
  "recognises r A \<longleftrightarrow> (\<forall>a b j. j \<in> set (ends r (a @ b) (length a)) \<longleftrightarrow> (\<exists>w c. b = w @ c \<and> w \<in> A \<and> j = length (a @ w)))"

definition words_seq :: "pystr set \<Rightarrow> pystr set \<Rightarrow> pystr set" where
  "words_seq A B = {u @ v | u v. u \<in> A \<and> v \<in> B}"

definition words_star :: "pystr set \<Rightarrow> pystr set" where
  "words_star A = {concat ws | ws. set ws \<subseteq> A}"

lemma words_seq_char_left: "s \<in> words_seq {[c] | c. p c} A \<longleftrightarrow> (\<exists>c v. s = c # v \<and> p c \<and> v \<in> A)"
  by (auto simp: words_seq_def) (metis append_Cons append_Nil)

lemma words_seq_char_right: "s \<in> words_seq A {[c] | c. p c} \<longleftrightarrow> (\<exists>v c. s = v @ [c] \<and> v \<in> A \<and> p c)"
  by (auto simp: words_seq_def)

lemma recognisesI:
  assumes "\<And>a b j. j \<in> set (ends r (a @ b) (length a)) \<Longrightarrow> \<exists>w c. b = w @ c \<and> w \<in> A \<and> j = length (a @ w)"
    and "\<And>a w c. w \<in> A \<Longrightarrow> length (a @ w) \<in> set (ends r (a @ w @ c) (length a))"
  shows "recognises r A"
  using assms unfolding recognises_def by blast

lemma recognises_sound:
  assumes "recognises r A" and "j \<in> set (ends r (a @ b) (length a))"
  obtains w c where "b = w @ c" and "w \<in> A" and "j = length (a @ w)"
  using assms unfolding recognises_def by blast

lemma recognises_complete: "recognises r A \<Longrightarrow> w \<in> A \<Longrightarrow> length (a @ w) \<in> set (ends r (a @ w @ c) (length a))"
  unfolding recognises_def by blast

lemma recognises_char: "recognises (RChar p) {[c] | c. p c}"
proof (rule recognisesI)
  show "\<exists>w c. b = w @ c \<and> w \<in> {[c] | c. p c} \<and> j = length (a @ w)"
    if "j \<in> set (ends (RChar p) (a @ b) (length a))" for a b j
    using that by (intro exI [of _ "[hd b]"] exI [of _ "tl b"]) (cases b; auto split: if_splits)
qed auto

lemma recognises_empty: "recognises REmpty {[]}"
  by (rule recognisesI) auto

lemma recognises_seq: "recognises r A \<Longrightarrow> recognises s B \<Longrightarrow> recognises (RSeq r s) (words_seq A B)"
proof (rule recognisesI)
  assume r: "recognises r A" and s: "recognises s B"
  show "\<exists>w c. b = w @ c \<and> w \<in> words_seq A B \<and> k = length (a @ w)"
    if k: "k \<in> set (ends (RSeq r s) (a @ b) (length a))" for a b k
  proof -
    from k obtain j where j: "j \<in> set (ends r (a @ b) (length a))" "k \<in> set (ends s (a @ b) j)" by auto
    obtain u c where u: "b = u @ c" "u \<in> A" "j = length (a @ u)" by (rule recognises_sound [OF r j(1)])
    with j(2) have "k \<in> set (ends s ((a @ u) @ c) (length (a @ u)))" by simp
    then obtain v d where "c = v @ d" "v \<in> B" "k = length ((a @ u) @ v)" by (rule recognises_sound [OF s])
    with u show ?thesis by (intro exI [of _ "u @ v"] exI [of _ d]) (auto simp: words_seq_def)
  qed
  show "length (a @ w) \<in> set (ends (RSeq r s) (a @ w @ c) (length a))" if "w \<in> words_seq A B" for a w c
  proof -
    from that obtain u v where w: "w = u @ v" "u \<in> A" "v \<in> B" by (auto simp: words_seq_def)
    have "length (a @ u) \<in> set (ends r (a @ w @ c) (length a))"
      using recognises_complete [OF r w(2), of a "v @ c"] w(1) by simp
    moreover have "length (a @ w) \<in> set (ends s (a @ w @ c) (length (a @ u)))"
      using recognises_complete [OF s w(3), of "a @ u" c] w(1) by simp
    ultimately show ?thesis unfolding ends_RSeq_iff by blast
  qed
qed

lemma recognises_class: "recognises (RRep lo (Some hi) (RChar p)) {w. lo \<le> length w \<and> length w \<le> hi \<and> list_all p w}"
proof (rule recognisesI)
  show "\<exists>w c. b = w @ c \<and> w \<in> {w. lo \<le> length w \<and> length w \<le> hi \<and> list_all p w} \<and> j = length (a @ w)"
    if "j \<in> set (ends (RRep lo (Some hi) (RChar p)) (a @ b) (length a))" for a b j
    using that ends_class_bounded [of "length a" "a @ b" j lo hi p]
    by (intro exI [of _ "take (j - length a) b"] exI [of _ "drop (j - length a) b"]) auto
  show "length (a @ w) \<in> set (ends (RRep lo (Some hi) (RChar p)) (a @ w @ c) (length a))"
    if "w \<in> {w. lo \<le> length w \<and> length w \<le> hi \<and> list_all p w}" for a w c
    using that ends_class_bounded [of "length a" "a @ w @ c" "length (a @ w)" lo hi p] by simp
qed

text \<open>
  Rounds of a group that matches no empty word; as many as the text has characters are enough.
\<close>

lemma rep_ends_sound:
  assumes r: "recognises r A"
  shows "j \<in> set (rep_ends (ends r (a @ b)) 0 n (length a)) \<Longrightarrow>
     \<exists>ws c. length ws \<le> n \<and> set ws \<subseteq> A \<and> b = concat ws @ c \<and> j = length (a @ concat ws)"
proof (induction n arbitrary: a b)
  case (Suc n)
  then consider "j = length a"
    | k where "k \<in> set (ends r (a @ b) (length a))" "j \<in> set (rep_ends (ends r (a @ b)) 0 n k)"
    by (auto split: if_splits)
  then show ?case
  proof cases
    case 2
    obtain w c where w: "b = w @ c" "w \<in> A" "k = length (a @ w)" by (rule recognises_sound [OF r 2(1)])
    with 2(2) have "j \<in> set (rep_ends (ends r ((a @ w) @ c)) 0 n (length (a @ w)))" by simp
    from Suc.IH [OF this] obtain ws d where "length ws \<le> n" "set ws \<subseteq> A" "c = concat ws @ d" "j = length ((a @ w) @ concat ws)"
      by blast
    with w show ?thesis by (intro exI [of _ "w # ws"] exI [of _ d]) simp
  qed (intro exI [of _ "[]"] exI [of _ b]; simp)
qed simp

lemma rep_ends_complete:
  assumes r: "recognises r A" and "[] \<notin> A"
  shows "set ws \<subseteq> A \<Longrightarrow> length ws \<le> n \<Longrightarrow> length (a @ concat ws) \<in> set (rep_ends (ends r (a @ concat ws @ c)) 0 n (length a))"
proof (induction ws arbitrary: a n)
  case Nil
  then show ?case by (cases n) simp_all
next
  case (Cons w ws)
  then obtain m where n: "n = Suc m" by (cases n) simp_all
  have "length (a @ w) \<in> set (ends r (a @ concat (w # ws) @ c) (length a))"
    using recognises_complete [OF r, of w a "concat ws @ c"] Cons.prems by simp
  moreover have "length (a @ w) \<noteq> length a" using Cons.prems(1) assms(2) by auto
  moreover have "length (a @ concat (w # ws)) \<in> set (rep_ends (ends r (a @ concat (w # ws) @ c)) 0 m (length (a @ w)))"
    using Cons.IH [of m "a @ w"] Cons.prems n by simp
  ultimately show ?case unfolding n by (auto simp del: length_append append.simps concat.simps)
qed

lemma recognises_opt: "recognises r A \<Longrightarrow> [] \<notin> A \<Longrightarrow> recognises (ROpt r) (insert [] A)"
proof (rule recognisesI)
  assume r: "recognises r A" and A: "[] \<notin> A"
  show "\<exists>w c. b = w @ c \<and> w \<in> insert [] A \<and> j = length (a @ w)" if j: "j \<in> set (ends (ROpt r) (a @ b) (length a))" for a b j
  proof -
    from j have "j \<in> set (rep_ends (ends r (a @ b)) 0 1 (length a))" by simp
    from rep_ends_sound [OF r this] obtain ws c where "length ws \<le> 1" "set ws \<subseteq> A" "b = concat ws @ c" "j = length (a @ concat ws)"
      by blast
    then show ?thesis by (intro exI [of _ "concat ws"] exI [of _ c]) (cases ws; auto)
  qed
  show "length (a @ w) \<in> set (ends (ROpt r) (a @ w @ c) (length a))" if "w \<in> insert [] A" for a w c
    using rep_ends_complete [OF r A, of "if w = [] then [] else [w]" 1 a c] that by (auto split: if_splits)
qed

lemma length_concat_ge: "[] \<notin> set ws \<Longrightarrow> length ws \<le> length (concat ws)"
proof (induction ws)
  case (Cons w ws)
  then have "0 < length w" "length ws \<le> length (concat ws)" by auto
  then show ?case by (simp del: length_greater_0_conv)
qed simp

lemma recognises_star: "recognises r A \<Longrightarrow> [] \<notin> A \<Longrightarrow> recognises (RStar r) (words_star A)"
proof (rule recognisesI)
  assume r: "recognises r A" and A: "[] \<notin> A"
  show "\<exists>w c. b = w @ c \<and> w \<in> words_star A \<and> j = length (a @ w)" if "j \<in> set (ends (RStar r) (a @ b) (length a))" for a b j
    using rep_ends_sound [OF r, of j a b "length (a @ b)"] that by (auto simp: words_star_def)
  show "length (a @ w) \<in> set (ends (RStar r) (a @ w @ c) (length a))" if w: "w \<in> words_star A" for a w c
  proof -
    from w obtain ws where ws: "set ws \<subseteq> A" "w = concat ws" by (auto simp: words_star_def)
    with A have "length ws \<le> length w" using length_concat_ge [of ws] by blast
    then show ?thesis using rep_ends_complete [OF r A ws(1), of "length (a @ w @ c)" a c] ws(2) by simp
  qed
qed

lemma fullmatch_anchored: "recognises r A \<Longrightarrow> fullmatch (RSeqs [RBegin, r, REnd]) t \<longleftrightarrow> t \<in> A"
proof -
  assume r: "recognises r A"
  have "fullmatch (RSeqs [RBegin, r, REnd]) t \<longleftrightarrow> length t \<in> set (ends r t 0)"
    by (auto simp: fullmatch_def RSeqs_def split: if_splits)
  also have "\<dots> \<longleftrightarrow> t \<in> A"
    using recognises_sound [OF r, of "length t" "[]" t] recognises_complete [OF r, of t "[]" "[]"] by auto
  finally show ?thesis .
qed

end
