(* ===== verification/Child_Environment.thy ===== *)
theory Child_Environment
  imports Endpoint_Policy Regex_Language Json_Text
begin

text \<open>
  \<open>environment.py\<close>: the environment a child process gets. Only allowlisted names pass, none of them may look
  like a secret or a provider setting, and values are bounded; proxy settings pass for a child that is no provider,
  when they are allowed, and only in a shape without credentials. All arguments are values of any type.
\<close>

section \<open>Definitions\<close>

abbreviation lpf :: exn where
  "lpf \<equiv> raises LOCAL_POLICY_FAILURE"

definition NAME :: regex where
  "NAME = head_class (\<lambda>c. ascii_upper c \<or> ascii_lower c \<or> c = 95) (\<lambda>c. ascii_alnum c \<or> c = 95) None"

definition NEVER_ALLOW :: "string list" where
  "NEVER_ALLOW = [''OPENAI_API_KEY'', ''NVIDIA_API_KEY'', ''NIM_API_KEY'', ''API_KEY'', ''AUTHORIZATION'', ''PROXY_USER'', ''PROXY_PASSWORD'',
     ''SECRET_STORE_TOKEN'', ''VAULT_TOKEN'', ''HTTP_PROXY'', ''HTTPS_PROXY'', ''ALL_PROXY'', ''NO_PROXY'']"

definition SECRET_HINTS :: "string list" where
  "SECRET_HINTS = [''API_KEY'', ''TOKEN'', ''PASSWORD'', ''SECRET'', ''AUTH'', ''CREDENTIAL'']"

definition PROVIDER_HINTS :: "string list" where
  "PROVIDER_HINTS = [''PROVIDER'', ''OPENAI'', ''NVIDIA'', ''NIM'', ''MODEL_ENDPOINT'', ''MODEL_URL'']"

definition PROXY_NAMES :: "string list" where
  "PROXY_NAMES = [''HTTP_PROXY'', ''HTTPS_PROXY'', ''ALL_PROXY'']"

definition NO_PROXY_NAME :: string where
  "NO_PROXY_NAME = ''NO_PROXY''"

definition DNS_LABEL :: regex where
  "DNS_LABEL = RSeq (RChar ascii_alnum)
     (ROpt (RSeq (RRep 0 (Some 61) (RChar (\<lambda>c. ascii_alnum c \<or> c = 45))) (RChar ascii_alnum)))"

definition DNS_NAME :: regex where
  "DNS_NAME = RSeqs [RBegin,
     RSeq (RSeq DNS_LABEL (RStar (RSeq (RChar (\<lambda>c. c = 46)) DNS_LABEL))) (ROpt (RChar (\<lambda>c. c = 46))), REnd]"

definition validate_name :: "pyval \<Rightarrow> unit outcome" where
  "validate_name v = (case v of PStr name \<Rightarrow> checkE (fullmatch NAME name) lvf | _ \<Rightarrow> Inl lvf)"

definition valid_dns_name :: "pystr \<Rightarrow> bool" where
  "valid_dns_name s \<longleftrightarrow> fullmatch DNS_NAME s \<and> length (filter (\<lambda>c. c < 128) s) \<le> 253"

definition unprintable :: "nat \<Rightarrow> bool" where
  "unprintable c \<longleftrightarrow> c < 32 \<or> c = 127"

definition host_is_valid :: "pystr \<Rightarrow> bool" where
  "host_is_valid host = (case ip_address host of Some _ \<Rightarrow> True | None \<Rightarrow> valid_dns_name host)"

definition validate_proxy :: "ucd \<Rightarrow> (pystr \<Rightarrow> pystr) \<Rightarrow> pystr \<Rightarrow> unit outcome" where
  "validate_proxy u nfkc s =
     bindE (checkE (isascii s \<and> \<not> list_ex unprintable s) lvf) (\<lambda>_.
     bindE (checkE (\<not> list_ex (\<lambda>c. c \<in> {64, 92, 63, 35}) s) lvf) (\<lambda>_.
     case urlsplit nfkc s of
       None \<Rightarrow> Inl lvf
     | Some r \<Rightarrow> (case url_port r of
         None \<Rightarrow> Inl lvf
       | Some port \<Rightarrow>
           bindE (checkE (lower_text (sp_scheme r) \<in> {py ''http'', py ''https''} \<and> \<not> has_userinfo r) lvf) (\<lambda>_.
           case (url_hostname u r, port) of
             (Some host, Some n) \<Rightarrow>
               bindE (checkE (host \<noteq> [] \<and> 1 \<le> n \<and> n \<le> 65535 \<and> sp_query r = [] \<and> sp_fragment r = []
                  \<and> sp_path r \<in> {[], [47]}) lvf) (\<lambda>_.
               checkE (host_is_valid host) lvf)
           | _ \<Rightarrow> Inl lvf))))"

text \<open>
  The port of an entry: \<open>int\<close> raises \<open>ValueError\<close> on more than 4300 digits.
\<close>

definition validate_no_proxy_port :: "pystr \<Rightarrow> unit outcome" where
  "validate_no_proxy_port port =
     bindE (checkE (port \<noteq> [] \<and> list_all ascii_digit port) lvf) (\<lambda>_.
     bindE (checkE (length port \<le> MAX_STR_DIGITS) ValueError) (\<lambda>_.
     checkE (1 \<le> undec port \<and> undec port \<le> 65535) lvf))"

definition validate_bracketed :: "pystr \<Rightarrow> pystr option outcome" where
  "validate_bracketed entry = (case partition_at 93 entry of (before, found, remainder) \<Rightarrow>
     bindE (checkE found lvf) (\<lambda>_.
     bindE (checkE (remainder = [] \<or> starts_with [58] remainder) lvf) (\<lambda>_.
     bindE (checkE (IPv6Address (tl before) \<noteq> None) lvf) (\<lambda>_.
     Inr (if remainder = [] then None else Some (tl remainder))))))"

definition validate_plain :: "pystr \<Rightarrow> pystr option outcome" where
  "validate_plain entry =
     bindE (checkE (length (filter (\<lambda>c. c = 58) entry) \<le> 1) lvf) (\<lambda>_.
     case partition_at 58 entry of (host, colon, port) \<Rightarrow>
     let host_value = (if starts_with [46] host then tl host else host) in
     bindE (checkE (case IPv4Address host_value of Some _ \<Rightarrow> host = host_value | None \<Rightarrow> valid_dns_name host_value) lvf) (\<lambda>_.
     Inr (if colon then Some port else None)))"

definition validate_no_proxy_entry :: "pystr \<Rightarrow> unit outcome" where
  "validate_no_proxy_entry entry =
     (if entry = py ''*'' then Inr ()
      else
        bindE (checkE (\<not> has_sub (py ''://'') entry \<and> \<not> list_ex (\<lambda>c. c \<in> {64, 47, 92, 63, 35}) entry) lvf) (\<lambda>_.
        bindE (if starts_with [91] entry then validate_bracketed entry else validate_plain entry) (\<lambda>port.
        case port of None \<Rightarrow> Inr () | Some p \<Rightarrow> validate_no_proxy_port p)))"

definition validate_no_proxy :: "ucd \<Rightarrow> pystr \<Rightarrow> unit outcome" where
  "validate_no_proxy u s =
     bindE (checkE (isascii s \<and> \<not> list_ex (\<lambda>c. py_space u c \<or> unprintable c) s) lvf) (\<lambda>_.
     bindE (checkE (length (split_on 44 s) \<le> 64 \<and> [] \<notin> set (split_on 44 s)) lvf) (\<lambda>_.
     iterE validate_no_proxy_entry (split_on 44 s)))"

definition upper_text :: "pystr \<Rightarrow> pystr" where
  "upper_text = map upper_ascii_char"

definition protected_name :: "pystr \<Rightarrow> bool" where
  "protected_name upper \<longleftrightarrow> upper \<in> py ` set NEVER_ALLOW \<or> list_ex (\<lambda>hint. has_sub (py hint) upper) (SECRET_HINTS @ PROVIDER_HINTS)"

definition proxy_setting :: "pystr \<Rightarrow> bool" where
  "proxy_setting upper \<longleftrightarrow> upper \<in> py ` set [''HTTP_PROXY'', ''HTTPS_PROXY'', ''ALL_PROXY'', ''NO_PROXY'']"

definition child_value :: "items \<Rightarrow> items \<Rightarrow> pystr \<Rightarrow> pyval" where
  "child_value values parent name = (case map_of values (SKey name) of
      Some v \<Rightarrow> v
    | None \<Rightarrow> (case map_of parent (SKey name) of Some v \<Rightarrow> v | None \<Rightarrow> PNone))"

text \<open>One round of the last loop; \<open>None\<close> is its \<open>continue\<close>.\<close>

definition child_entry :: "ucd \<Rightarrow> (pystr \<Rightarrow> pystr) \<Rightarrow> items \<Rightarrow> items \<Rightarrow> bool \<Rightarrow> int \<Rightarrow> pystr \<Rightarrow> (pystr \<times> pystr) option outcome" where
  "child_entry u nfkc parent values allow_proxy max_value_bytes name =
     (let upper = upper_text name in
      bindE (checkE (\<not> protected_name upper \<or> proxy_setting upper \<and> allow_proxy) lpf) (\<lambda>_.
      case child_value values parent name of
        PNone \<Rightarrow> Inr None
      | PStr s \<Rightarrow>
          bindE (checkE (0 \<notin> set s) lvf) (\<lambda>_.
          case utf8_encode s of
            None \<Rightarrow> Inl UnicodeEncodeError
          | Some b \<Rightarrow>
              bindE (checkE (int (length b) \<le> max_value_bytes) lvf) (\<lambda>_.
              bindE (if upper \<in> py ` set PROXY_NAMES then validate_proxy u nfkc s
                     else if upper = py NO_PROXY_NAME then validate_no_proxy u s else Inr ()) (\<lambda>_.
              Inr (Some (name, s)))))
      | _ \<Rightarrow> Inl lvf))"

definition key_value :: "pykey \<Rightarrow> pyval" where
  "key_value k = (case k of SKey s \<Rightarrow> PStr s | OKey n \<Rightarrow> PObj n)"

definition inherited :: "pykey \<times> pyval \<Rightarrow> unit outcome" where
  "inherited kv = bindE (validate_name (key_value (fst kv))) (\<lambda>_.
     case snd kv of PStr s \<Rightarrow> checkE (0 \<notin> set s) lvf | _ \<Rightarrow> Inl lvf)"

definition texts_of :: "pyval list \<Rightarrow> pystr list" where
  "texts_of vs = map (\<lambda>v. case v of PStr s \<Rightarrow> s | _ \<Rightarrow> []) vs"

definition value_limit :: "pyval \<Rightarrow> int outcome" where
  "value_limit v = (case v of PInt n \<Rightarrow> if 0 < n \<and> n \<le> 64 * 1024 then Inr n else Inl lvf | _ \<Rightarrow> Inl lvf)"

definition build_child_environment ::
    "ucd \<Rightarrow> (pystr \<Rightarrow> pystr) \<Rightarrow> pyval \<Rightarrow> pyval \<Rightarrow> pyval \<Rightarrow> pyval \<Rightarrow> pyval \<Rightarrow> pyval \<Rightarrow> (pystr \<times> pystr) list outcome" where
  "build_child_environment u nfkc parent allowlist required allow_proxy provider_child max_value_bytes =
     bindE (value_limit max_value_bytes) (\<lambda>limit.
     bindE (checkE (is_bool provider_child \<and> \<not> (truthy allow_proxy \<and> provider_child = PBool True)) lpf) (\<lambda>_.
     bindE (checkE (is_mapping parent) lvf) (\<lambda>_.
     bindE (iterE inherited (items_of parent)) (\<lambda>_.
     bindE (checkE (is_seq allowlist) lvf) (\<lambda>_.
     bindE (iterE validate_name (elems allowlist)) (\<lambda>_.
     let names = texts_of (elems allowlist) in
     bindE (checkE (distinct names) lvf) (\<lambda>_.
     bindE (checkE (required = PNone \<or> is_mapping required) lvf) (\<lambda>_.
     bindE (iterE (\<lambda>(k, v). validate_name (key_value k)) (items_of required)) (\<lambda>_.
     bindE (checkE (list_all (\<lambda>(k, v). k \<in> SKey ` set names) (items_of required)) lvf) (\<lambda>_.
     bindE (mapE (child_entry u nfkc (items_of parent) (items_of required) (truthy allow_proxy) limit) (sort names)) (\<lambda>entries.
     Inr (List.map_filter id entries))))))))))))"

section \<open>Host names\<close>

text \<open>The reference: labels of letters, digits and inner hyphens, between dots, with an optional dot at the end.\<close>

definition dns_label :: "pystr \<Rightarrow> bool" where
  "dns_label s \<longleftrightarrow> s \<noteq> [] \<and> length s \<le> 63 \<and> list_all (\<lambda>c. ascii_alnum c \<or> c = 45) s \<and> hd s \<noteq> 45 \<and> last s \<noteq> 45"

definition without_root :: "pystr \<Rightarrow> pystr" where
  "without_root s = (if s \<noteq> [] \<and> last s = 46 then butlast s else s)"

definition dotted :: "pystr \<Rightarrow> pystr list \<Rightarrow> pystr" where
  "dotted l ls = l @ concat (map (Cons 46) ls)"

lemma dns_label_cases: "dns_label s \<longleftrightarrow>
   (\<exists>c. s = [c] \<and> ascii_alnum c)
   \<or> (\<exists>c w d. s = c # w @ [d] \<and> ascii_alnum c \<and> length w \<le> 61 \<and> list_all (\<lambda>c. ascii_alnum c \<or> c = 45) w \<and> ascii_alnum d)"
proof (cases s)
  case (Cons c t)
  then show ?thesis by (cases t rule: rev_cases) (auto simp: dns_label_def ascii_alnum_def ascii_digit_def ascii_upper_def ascii_lower_def)
qed (simp add: dns_label_def)

lemma recognises_label: "recognises DNS_LABEL {s. dns_label s}"
proof -
  let ?inner = "{w. 0 \<le> length w \<and> length w \<le> 61 \<and> list_all (\<lambda>c. ascii_alnum c \<or> c = 45) w}"
  have "recognises DNS_LABEL (words_seq {[c] | c. ascii_alnum c} (insert [] (words_seq ?inner {[c] | c. ascii_alnum c})))"
    unfolding DNS_LABEL_def by (intro recognises_seq recognises_opt recognises_char recognises_class) (auto simp: words_seq_def)
  moreover have "words_seq {[c] | c. ascii_alnum c} (insert [] (words_seq ?inner {[c] | c. ascii_alnum c})) = {s. dns_label s}"
    unfolding set_eq_iff words_seq_char_left insert_iff words_seq_char_right mem_Collect_eq dns_label_cases by auto
  ultimately show ?thesis by simp
qed

lemma words_star_tails: "words_star (words_seq {[46]} {s. dns_label s}) = {concat (map (Cons 46) ls) | ls. \<forall>l \<in> set ls. dns_label l}"
proof -
  have "\<exists>ls. concat ws = concat (map (Cons 46) ls) \<and> (\<forall>l \<in> set ls. dns_label l)"
    if "set ws \<subseteq> words_seq {[46]} {s. dns_label s}" for ws
    using that
  proof (induction ws)
    case (Cons w ws)
    then obtain l ls where "w = 46 # l" "dns_label l" "concat ws = concat (map (Cons 46) ls)" "\<forall>l \<in> set ls. dns_label l"
      by (auto simp: words_seq_def)
    then show ?case by (intro exI [of _ "l # ls"]) simp
  qed (intro exI [of _ "[]"]; simp)
  moreover have "\<exists>ws. concat (map (Cons 46) ls) = concat ws \<and> set ws \<subseteq> words_seq {[46]} {s. dns_label s}"
    if "\<forall>l \<in> set ls. dns_label l" for ls
    using that by (intro exI [of _ "map (Cons 46) ls"]) (auto simp: words_seq_def)
  ultimately show ?thesis by (auto simp: words_star_def)
qed

lemma fullmatch_DNS_NAME:
  "fullmatch DNS_NAME s \<longleftrightarrow> (\<exists>l ls. (s = dotted l ls \<or> s = dotted l ls @ [46]) \<and> (\<forall>x \<in> set (l # ls). dns_label x))"
proof -
  have "recognises (RSeq (RSeq DNS_LABEL (RStar (RSeq (RChar (\<lambda>c. c = 46)) DNS_LABEL))) (ROpt (RChar (\<lambda>c. c = 46))))
      (words_seq (words_seq {s. dns_label s} (words_star (words_seq {[c] | c. c = 46} {s. dns_label s}))) (insert [] {[c] | c. c = 46}))"
    by (intro recognises_seq recognises_star recognises_opt recognises_char recognises_label) (auto simp: words_seq_def)
  from fullmatch_anchored [OF this] have "fullmatch DNS_NAME s \<longleftrightarrow> s \<in>
      words_seq (words_seq {s. dns_label s} {concat (map (Cons 46) ls) | ls. \<forall>l \<in> set ls. dns_label l}) {[], [46]}"
    by (simp add: DNS_NAME_def words_star_tails)
  also have "\<dots> \<longleftrightarrow> (\<exists>l ls. (s = dotted l ls \<or> s = dotted l ls @ [46]) \<and> (\<forall>x \<in> set (l # ls). dns_label x))"
  proof
    assume "s \<in> words_seq (words_seq {s. dns_label s} {concat (map (Cons 46) ls) | ls. \<forall>l \<in> set ls. dns_label l}) {[], [46]}"
    then obtain l ls e where "s = (l @ concat (map (Cons 46) ls)) @ e" "dns_label l" "\<forall>l \<in> set ls. dns_label l" "e \<in> {[], [46]}"
      unfolding words_seq_def by blast
    then show "\<exists>l ls. (s = dotted l ls \<or> s = dotted l ls @ [46]) \<and> (\<forall>x \<in> set (l # ls). dns_label x)"
      by (intro exI [of _ l] exI [of _ ls]) (auto simp: dotted_def)
  next
    assume "\<exists>l ls. (s = dotted l ls \<or> s = dotted l ls @ [46]) \<and> (\<forall>x \<in> set (l # ls). dns_label x)"
    then obtain l ls where s: "s = dotted l ls @ [] \<or> s = dotted l ls @ [46]" and ls: "dns_label l" "\<forall>l \<in> set ls. dns_label l" by auto
    have "dotted l ls \<in> words_seq {s. dns_label s} {concat (map (Cons 46) ls) | ls. \<forall>l \<in> set ls. dns_label l}"
      using ls unfolding words_seq_def dotted_def by blast
    with s show "s \<in> words_seq (words_seq {s. dns_label s} {concat (map (Cons 46) ls) | ls. \<forall>l \<in> set ls. dns_label l}) {[], [46]}"
      unfolding words_seq_def [of _ "{[], [46]}"] by blast
  qed
  finally show ?thesis .
qed

lemma split_on_dotted: "\<forall>x \<in> set (l # ls). 46 \<notin> set x \<Longrightarrow> split_on 46 (dotted l ls) = l # ls"
proof (induction ls arbitrary: l)
  case Nil
  then show ?case by (induction l) (auto simp: dotted_def)
next
  case (Cons k ks)
  then have "split_on 46 (dotted k ks) = k # ks" by simp
  with Cons.prems show ?case by (induction l) (auto simp: dotted_def)
qed

lemma dotted_split_on: "\<exists>l ls. split_on 46 s = l # ls \<and> s = dotted l ls"
proof (induction s)
  case (Cons c s)
  then obtain l ls where "split_on 46 s = l # ls" "s = dotted l ls" by blast
  then show ?case by (cases "c = 46") (auto simp: dotted_def)
qed (simp add: dotted_def)

lemma dns_label_chars: "dns_label x \<Longrightarrow> c \<in> set x \<Longrightarrow> c \<noteq> 46" "dns_label x \<Longrightarrow> c \<in> set x \<Longrightarrow> c < 128"
  by (auto simp: dns_label_def list_all_iff ascii_alnum_def ascii_digit_def ascii_upper_def ascii_lower_def)

lemma last_dotted: "dns_label l \<Longrightarrow> \<forall>x \<in> set ls. dns_label x \<Longrightarrow> dotted l ls \<noteq> [] \<and> last (dotted l ls) \<noteq> 46"
proof (cases ls rule: rev_cases)
  case Nil
  assume "dns_label l"
  with Nil show ?thesis using dns_label_chars(1) [of l "last l"] by (auto simp: dotted_def dns_label_def)
next
  case (snoc ks k)
  assume "\<forall>x \<in> set ls. dns_label x"
  with snoc have "dns_label k" by simp
  then show ?thesis using snoc dns_label_chars(1) [of k "last k"] by (auto simp: dotted_def dns_label_def)
qed

lemma DNS_NAME_chars:
  assumes "fullmatch DNS_NAME s"
  shows "filter (\<lambda>c. c < 128) s = s"
proof -
  obtain l ls where s: "s = dotted l ls \<or> s = dotted l ls @ [46]" and ls: "\<forall>x \<in> set (l # ls). dns_label x"
    using assms unfolding fullmatch_DNS_NAME by blast
  have "c < 128" if "c \<in> set s" for c
  proof -
    from s that have "c = 46 \<or> (\<exists>x \<in> set (l # ls). c \<in> set x)" by (auto simp: dotted_def split: if_splits)
    with ls show ?thesis using dns_label_chars(2) by auto
  qed
  then show ?thesis by (simp add: filter_id_conv)
qed

section \<open>The environment\<close>

text \<open>What a child may see: the allowlisted names in order, each with its required or inherited text.\<close>

definition text_of :: "pyval \<Rightarrow> pystr option" where
  "text_of v = (case v of PStr s \<Rightarrow> Some s | _ \<Rightarrow> None)"

definition child_view :: "items \<Rightarrow> items \<Rightarrow> pystr list \<Rightarrow> (pystr \<times> pystr) list" where
  "child_view required parent names =
     List.map_filter (\<lambda>n. map_option (Pair n) (text_of (child_value required parent n))) (sort names)"

lemma text_of_Some [simp]: "text_of v = Some s \<longleftrightarrow> v = PStr s"
  by (cases v) (simp_all add: text_of_def)

lemma child_entry_Inr:
  assumes "child_entry u nfkc parent values allow limit name = Inr r"
  shows "r = map_option (Pair name) (text_of (child_value values parent name))"
    and "protected_name (upper_text name) \<Longrightarrow> proxy_setting (upper_text name) \<and> allow"
    and "r = Some (n, s) \<Longrightarrow> 0 \<notin> set s \<and> \<not> list_ex surrogate s \<and> int (length (utf8_bytes s)) \<le> limit"
    and "r = Some (n, s) \<Longrightarrow> upper_text name \<in> py ` set PROXY_NAMES \<Longrightarrow> validate_proxy u nfkc s = Inr ()"
  using assms
  by (auto simp: child_entry_def Let_def bindE_eq_Inr utf8_encode_def text_of_def split: pyval.splits if_splits)

lemma validate_proxy_Inr: "validate_proxy u nfkc s = Inr x \<Longrightarrow> 64 \<notin> set s"
  by (auto simp: validate_proxy_def bindE_eq_Inr list_ex_iff)

lemma iter_validate_name: "iterE validate_name vs = Inr x \<Longrightarrow> vs = map PStr (texts_of vs)"
  by (auto simp: iterE_eq_Inr validate_name_def texts_of_def split: pyval.splits intro!: map_idI [symmetric])

lemma map_filter_entries:
  assumes "list_all2 (\<lambda>n r. r = f n) ns rs"
  shows "List.map_filter id rs = List.map_filter f ns"
  using assms by (induction rule: list_all2_induct) (simp_all add: map_filter_simps split: option.splits)

lemma build_Inr:
  assumes "build_child_environment u nfkc parent allowlist required allow_proxy provider_child max_value_bytes = Inr env"
  obtains limit names where "max_value_bytes = PInt limit" and "limit \<le> 65536" and "elems allowlist = map PStr names"
    and "env = child_view (items_of required) (items_of parent) names"
    and "truthy allow_proxy \<Longrightarrow> provider_child = PBool False"
    and "\<And>n. n \<in> set names \<Longrightarrow> \<exists>r. child_entry u nfkc (items_of parent) (items_of required) (truthy allow_proxy) limit n = Inr r"
proof -
  let ?entry = "child_entry u nfkc (items_of parent) (items_of required) (truthy allow_proxy)"
  let ?names = "texts_of (elems allowlist)"
  from assms obtain limit rs where l: "value_limit max_value_bytes = Inr limit"
    and p: "is_bool provider_child" "\<not> (truthy allow_proxy \<and> provider_child = PBool True)"
    and n: "iterE validate_name (elems allowlist) = Inr ()"
    and rs: "mapE (?entry limit) (sort ?names) = Inr rs" and env: "env = List.map_filter id rs"
    by (auto simp: build_child_environment_def bindE_eq_Inr Let_def)
  have "list_all2 (\<lambda>n r. r = map_option (Pair n) (text_of (child_value (items_of required) (items_of parent) n))) (sort ?names) rs"
    using rs unfolding mapE_eq_Inr_list_all2 by (rule list_all2_mono) (rule child_entry_Inr(1))
  from map_filter_entries [OF this] have "env = child_view (items_of required) (items_of parent) ?names"
    unfolding env child_view_def .
  moreover have "\<exists>r. ?entry limit n = Inr r" if "n \<in> set ?names" for n
    using rs that by (auto elim: mapE_member)
  moreover have "elems allowlist = map PStr ?names" using n by (rule iter_validate_name)
  ultimately show thesis using that l p by (auto simp: value_limit_def is_bool_iff split: pyval.splits if_splits)
qed

lemma map_filter_member: "y \<in> set (List.map_filter f xs) \<longleftrightarrow> (\<exists>x \<in> set xs. f x = Some y)"
  by (induction xs) (auto simp: map_filter_simps split: option.splits)

lemma child_view_member:
  "(n, s) \<in> set (child_view required parent names) \<longleftrightarrow> n \<in> set names \<and> child_value required parent n = PStr s"
  by (auto simp: child_view_def map_filter_member)

lemma build_entry:
  assumes "build_child_environment u nfkc parent allowlist required allow_proxy provider_child max_value_bytes = Inr env"
    and "(n, s) \<in> set env"
  shows "protected_name (upper_text n) \<Longrightarrow> proxy_setting (upper_text n) \<and> truthy allow_proxy \<and> provider_child = PBool False"
    and "0 \<notin> set s \<and> \<not> list_ex surrogate s \<and> length (utf8_bytes s) \<le> 65536"
    and "max_value_bytes = PInt m \<Longrightarrow> int (length (utf8_bytes s)) \<le> m"
    and "upper_text n \<in> py ` set PROXY_NAMES \<Longrightarrow> 64 \<notin> set s"
    and "PStr n \<in> set (elems allowlist) \<and> child_value (items_of required) (items_of parent) n = PStr s"
proof -
  obtain limit names where b: "max_value_bytes = PInt limit" "limit \<le> 65536" "elems allowlist = map PStr names"
      "env = child_view (items_of required) (items_of parent) names" "truthy allow_proxy \<Longrightarrow> provider_child = PBool False"
      "\<And>n. n \<in> set names \<Longrightarrow> \<exists>r. child_entry u nfkc (items_of parent) (items_of required) (truthy allow_proxy) limit n = Inr r"
    using build_Inr [OF assms(1)] by metis
  have n: "n \<in> set names" "child_value (items_of required) (items_of parent) n = PStr s"
    using assms(2) b(4) by (auto simp: child_view_member)
  then obtain r where r: "child_entry u nfkc (items_of parent) (items_of required) (truthy allow_proxy) limit n = Inr r" using b(6) by blast
  have "r = Some (n, s)" using child_entry_Inr(1) [OF r] n(2) by (simp add: text_of_def)
  with child_entry_Inr(2-4) [OF r] b n
  show "protected_name (upper_text n) \<Longrightarrow> proxy_setting (upper_text n) \<and> truthy allow_proxy \<and> provider_child = PBool False"
    and "0 \<notin> set s \<and> \<not> list_ex surrogate s \<and> length (utf8_bytes s) \<le> 65536"
    and "max_value_bytes = PInt m \<Longrightarrow> int (length (utf8_bytes s)) \<le> m"
    and "upper_text n \<in> py ` set PROXY_NAMES \<Longrightarrow> 64 \<notin> set s"
    and "PStr n \<in> set (elems allowlist) \<and> child_value (items_of required) (items_of parent) n = PStr s"
    by (auto dest: validate_proxy_Inr)
qed

subsection \<open>Failures\<close>

text \<open>A port of a \<open>NO_PROXY\<close> entry is no longer than the value, so a bounded value raises nothing but a project failure.\<close>

lemma split_on_length: "w \<in> set (split_on c s) \<Longrightarrow> length w \<le> length s"
proof (induction s arbitrary: w)
  case (Cons x s)
  then show ?case by (fastforce split: if_splits list.splits)
qed simp

lemma partition_at_lengths: "partition_at c s = (a, found, b) \<Longrightarrow> length a \<le> length s \<and> length b \<le> length s"
  by (induction s arbitrary: a found b) (fastforce split: if_splits prod.splits)+

lemma no_proxy_port_Inl: "validate_no_proxy_port p = Inl e \<Longrightarrow> e = lvf \<or> (e = ValueError \<and> MAX_STR_DIGITS < length p)"
  by (auto simp: validate_no_proxy_port_def bindE_eq_Inl)

lemma bracketed_result: "validate_bracketed s = Inl e \<Longrightarrow> e = lvf" "validate_bracketed s = Inr (Some p) \<Longrightarrow> length p \<le> length s"
  using partition_at_lengths [of 93 s]
  by (auto simp: validate_bracketed_def bindE_eq_Inl bindE_eq_Inr split: prod.splits if_splits)

lemma plain_result: "validate_plain s = Inl e \<Longrightarrow> e = lvf" "validate_plain s = Inr (Some p) \<Longrightarrow> length p \<le> length s"
  using partition_at_lengths [of 58 s]
  by (auto simp: validate_plain_def bindE_eq_Inl bindE_eq_Inr Let_def split: prod.splits if_splits)

lemma no_proxy_entry_Inl: "validate_no_proxy_entry s = Inl e \<Longrightarrow> e = lvf \<or> (e = ValueError \<and> MAX_STR_DIGITS < length s)"
  by (auto simp: validate_no_proxy_entry_def bindE_eq_Inl split: if_splits option.splits
      dest!: no_proxy_port_Inl bracketed_result plain_result)

lemma no_proxy_Inl: "validate_no_proxy u s = Inl e \<Longrightarrow> e = lvf \<or> (e = ValueError \<and> MAX_STR_DIGITS < length (utf8_bytes s))"
  by (auto simp: validate_no_proxy_def bindE_eq_Inl utf8_bytes_ascii dest!: iterE_Inl_member no_proxy_entry_Inl split_on_length)

lemma proxy_Inl: "validate_proxy u nfkc s = Inl e \<Longrightarrow> e = lvf"
  by (auto simp: validate_proxy_def bindE_eq_Inl split: option.splits if_splits)

definition encodable_items :: "items \<Rightarrow> bool" where
  "encodable_items kvs \<longleftrightarrow> list_all (\<lambda>(k, v). case v of PStr s \<Rightarrow> \<not> list_ex surrogate s | _ \<Rightarrow> True) kvs"

lemma child_value_encodable:
  "encodable_items values \<Longrightarrow> encodable_items parent \<Longrightarrow> child_value values parent n = PStr s \<Longrightarrow> \<not> list_ex surrogate s"
  by (auto simp: encodable_items_def child_value_def list_all_iff split: option.splits dest!: map_of_SomeD)

lemma child_entry_Inl:
  assumes "child_entry u nfkc parent values allow limit n = Inl e" and "encodable_items values" and "encodable_items parent" and "limit \<le> 4300"
  shows "e = lvf \<or> e = lpf"
proof (cases "child_value values parent n")
  case (PStr s)
  have enc: "utf8_encode s = Some (utf8_bytes s)" using child_value_encodable [OF assms(2,3) PStr] by (simp add: utf8_encode_def)
  have "MAX_STR_DIGITS < length (utf8_bytes s) \<Longrightarrow> int (length (utf8_bytes s)) \<le> limit \<Longrightarrow> False"
    using assms(4) by (simp add: MAX_STR_DIGITS_def)
  with assms(1) PStr enc show ?thesis
    by (auto simp: child_entry_def Let_def bindE_eq_Inl split: if_splits dest: proxy_Inl dest!: no_proxy_Inl)
qed (use assms(1) in \<open>auto simp: child_entry_def Let_def bindE_eq_Inl\<close>)

lemma validate_name_Inl: "validate_name v = Inl e \<Longrightarrow> e = lvf"
  by (auto simp: validate_name_def split: pyval.splits)

lemma inherited_Inl: "inherited kv = Inl e \<Longrightarrow> e = lvf"
  by (auto simp: inherited_def bindE_eq_Inl dest: validate_name_Inl split: pyval.splits)

section \<open>Samples\<close>

definition sample_parent :: pyval where
  "sample_parent = PDict Plain [(SKey (py ''LANG''), PStr (py ''C'')), (SKey (py ''API_KEY''), PStr (py ''k'')),
     (SKey (py ''HTTP_PROXY''), PStr (py ''http://127.0.0.1:80''))]"

definition sample_names :: pyval where
  "sample_names = PTuple [PStr (py ''LANG''), PStr (py ''HTTP_PROXY'')]"

lemma fullmatch_NAME: "fullmatch NAME t \<longleftrightarrow> t \<noteq> [] \<and> (ascii_upper (hd t) \<or> ascii_lower (hd t) \<or> hd t = 95) \<and> list_all (\<lambda>c. ascii_alnum c \<or> c = 95) (tl t)"
  unfolding NAME_def fullmatch_head_class_unbounded by (cases t) auto

lemma sample_proxy: "validate_proxy plain_ucd id (py ''http://127.0.0.1:80'') = Inr ()"
proof -
  have "urlsplit id (py ''http://127.0.0.1:80'') = Some \<lparr> sp_scheme = py ''http'', sp_netloc = py ''127.0.0.1:80'', sp_path = [],
     sp_query = [], sp_fragment = [] \<rparr>"
    by (simp add: urlsplit_def split_scheme_def Let_def lower_text_def py_def netloc_ok_def isascii_iff lower_ascii_char_def ascii_upper_def
        ascii_lower_def scheme_char_def ascii_alnum_def)
  then show ?thesis
    using sample_address(1) by (simp add: validate_proxy_def url_port_def raw_host_port_def host_info_def url_hostname_def has_userinfo_def
        host_is_valid_def lower_text_def lower_ascii_char_def ascii_upper_def py_lower_def py_def isascii_iff unprintable_def ascii_digit_def undec_def)
qed

lemma sample_names_valid: "iterE validate_name (elems sample_names) = Inr ()" "texts_of (elems sample_names) = [py ''LANG'', py ''HTTP_PROXY'']"
  by (simp_all add: sample_names_def validate_name_def fullmatch_NAME texts_of_def py_def ascii_alnum_def ascii_upper_def)

lemma sample_sorted: "sort [py ''LANG'', py ''HTTP_PROXY''] = [py ''HTTP_PROXY'', py ''LANG'']"
  by (simp add: py_def)

lemma sample_environment:
  "build_child_environment plain_ucd id sample_parent sample_names PNone (PBool True) (PBool False) (PInt 4096)
     = Inr [(py ''HTTP_PROXY'', py ''http://127.0.0.1:80''), (py ''LANG'', py ''C'')]"
proof -
  have "iterE inherited (items_of sample_parent) = Inr ()"
    by (simp add: sample_parent_def inherited_def key_value_def validate_name_def fullmatch_NAME py_def ascii_alnum_def ascii_upper_def)
  moreover have "child_entry plain_ucd id (items_of sample_parent) [] True 4096 (py ''LANG'') = Inr (Some (py ''LANG'', py ''C''))"
    by (simp add: child_entry_def child_value_def sample_parent_def protected_name_def upper_text_def upper_ascii_char_def ascii_lower_def py_def
        NEVER_ALLOW_def SECRET_HINTS_def PROVIDER_HINTS_def PROXY_NAMES_def NO_PROXY_NAME_def utf8_encode_def utf8_bytes_def utf8_char_def surrogate_def)
  moreover have "child_entry plain_ucd id (items_of sample_parent) [] True 4096 (py ''HTTP_PROXY'')
      = Inr (Some (py ''HTTP_PROXY'', py ''http://127.0.0.1:80''))"
    using sample_proxy
    by (simp add: child_entry_def child_value_def sample_parent_def proxy_setting_def upper_text_def upper_ascii_char_def ascii_lower_def py_def
        PROXY_NAMES_def utf8_encode_def utf8_bytes_def utf8_char_def surrogate_def)
  ultimately show ?thesis
    using sample_names_valid sample_sorted
    by (simp add: build_child_environment_def value_limit_def truthy_def sample_parent_def sample_names_def items_of_def map_filter_simps)
qed

lemma sample_refusal:
  "build_child_environment plain_ucd id sample_parent (PList [PStr (py ''API_KEY'')]) PNone (PBool False) (PBool True) (PInt 4096)
     = Inl (raises LOCAL_POLICY_FAILURE)"
  by (simp add: build_child_environment_def value_limit_def truthy_def sample_parent_def items_of_def inherited_def key_value_def validate_name_def
      fullmatch_NAME texts_of_def child_entry_def protected_name_def proxy_setting_def upper_text_def upper_ascii_char_def ascii_lower_def
      NEVER_ALLOW_def py_def ascii_alnum_def ascii_upper_def)

text \<open>An allowlisted variable whose bytes are no Unicode text, which the parent holds as a lone surrogate, leaves the failure unclassified.\<close>

lemma undecodable_variable_escapes:
  "build_child_environment plain_ucd id (PDict Plain [(SKey (py ''LANG''), PStr [56447])]) (PList [PStr (py ''LANG'')]) PNone
     (PBool False) (PBool False) (PInt 4096) = Inl UnicodeEncodeError"
  by (simp add: build_child_environment_def value_limit_def truthy_def items_of_def inherited_def key_value_def validate_name_def
      fullmatch_NAME texts_of_def child_entry_def child_value_def protected_name_def upper_text_def upper_ascii_char_def ascii_lower_def
      NEVER_ALLOW_def SECRET_HINTS_def PROVIDER_HINTS_def py_def ascii_alnum_def ascii_upper_def utf8_encode_def surrogate_def)

section \<open>Properties\<close>

text \<open>
  C20: The environment of a child is exactly the allowlisted names in order, each with its required text or else the
  one inherited. No name looks like a secret or a provider setting, except a proxy setting that is allowed for a child that is
  no provider and then has no room for credentials; no value holds a NUL byte, and each fits its byte bound.
\<close>

lemma child_environments_hold_no_secret:
  assumes "build_child_environment u nfkc parent allowlist required allow_proxy provider_child max_value_bytes = Inr env"
  shows "(\<exists>names. elems allowlist = map PStr names \<and> env = child_view (items_of required) (items_of parent) names)
    \<and> (\<forall>(n, s) \<in> set env. (protected_name (upper_text n) \<longrightarrow> proxy_setting (upper_text n) \<and> truthy allow_proxy \<and> provider_child = PBool False)
         \<and> (upper_text n \<in> py ` set PROXY_NAMES \<longrightarrow> 64 \<notin> set s)
         \<and> 0 \<notin> set s \<and> length (utf8_bytes s) \<le> 65536 \<and> (\<forall>m. max_value_bytes = PInt m \<longrightarrow> int (length (utf8_bytes s)) \<le> m))"
proof (intro conjI ballI, goal_cases)
  case 1
  show ?case using build_Inr [OF assms] by metis
next
  case (2 ns)
  then show ?case using build_entry [OF assms, of "fst ns" "snd ns"] by (cases ns) auto
qed

theorem child_environments_hold_no_secret_witness:
  "\<exists>env. build_child_environment plain_ucd id sample_parent sample_names PNone (PBool True) (PBool False) (PInt 4096) = Inr env
     \<and> length env = 2 \<and> (\<forall>(n, s) \<in> set env. 0 \<notin> set s \<and> (protected_name (upper_text n) \<longrightarrow> 64 \<notin> set s))"
proof -
  have "\<forall>n s. protected_name (upper_text n) \<longrightarrow> proxy_setting (upper_text n) \<longrightarrow> upper_text n \<noteq> py ''NO_PROXY'' \<longrightarrow> upper_text n \<in> py ` set PROXY_NAMES"
    by (auto simp: proxy_setting_def PROXY_NAMES_def)
  moreover have "upper_text (py ''HTTP_PROXY'') \<noteq> py ''NO_PROXY''" "upper_text (py ''LANG'') \<noteq> py ''NO_PROXY''"
    by (simp_all add: upper_text_def py_def upper_ascii_char_def ascii_lower_def)
  ultimately show ?thesis
    using child_environments_hold_no_secret [OF sample_environment] sample_environment by auto
qed

text \<open>
  When the inherited and required texts can be encoded and the byte bound is at most 4300, a refused environment is a
  classified local failure and no other exception.
\<close>

lemma child_environment_failures_are_classified:
  assumes "build_child_environment u nfkc parent allowlist required allow_proxy provider_child max_value_bytes = Inl e"
    and "encodable_items (items_of parent)" and "encodable_items (items_of required)" and "\<forall>m. max_value_bytes = PInt m \<longrightarrow> m \<le> 4300"
  shows "e = raises LOCAL_VALIDATION_FAILURE \<or> e = raises LOCAL_POLICY_FAILURE"
proof (cases "value_limit max_value_bytes")
  case (Inl x)
  then have "x = lvf" by (auto simp: value_limit_def split: pyval.splits if_splits)
  with Inl assms(1) show ?thesis by (simp add: build_child_environment_def)
next
  case (Inr limit)
  then have "limit \<le> 4300" using assms(4) by (auto simp: value_limit_def split: pyval.splits if_splits)
  with assms(2,3) Inr assms(1) show ?thesis
    by (auto simp: build_child_environment_def bindE_eq_Inl Let_def
        dest!: iterE_Inl_member mapE_Inl_member validate_name_Inl inherited_Inl dest: child_entry_Inl)
qed

theorem child_environment_failures_are_classified_witness:
  "\<exists>e. build_child_environment plain_ucd id sample_parent (PList [PStr (py ''API_KEY'')]) PNone (PBool False) (PBool True) (PInt 4096) = Inl e
     \<and> (e = raises LOCAL_VALIDATION_FAILURE \<or> e = raises LOCAL_POLICY_FAILURE)"
proof -
  have "encodable_items (items_of sample_parent)" "encodable_items (items_of PNone)"
    by (simp_all add: encodable_items_def sample_parent_def items_of_def py_def surrogate_def)
  then show ?thesis using child_environment_failures_are_classified [OF sample_refusal] sample_refusal by simp
qed

text \<open>
  The names that \<open>_valid_dns_name\<close> accepts are those of at most 253 characters that, without a dot at the end, are
  dot-separated labels of one to 63 letters, digits and inner hyphens.
\<close>

lemma host_names_are_dotted_labels:
  "valid_dns_name s \<longleftrightarrow> length s \<le> 253 \<and> list_all dns_label (split_on 46 (without_root s))"
proof
  assume valid: "valid_dns_name s"
  then obtain l ls where s: "s = dotted l ls \<or> s = dotted l ls @ [46]" and ls: "\<forall>x \<in> set (l # ls). dns_label x"
    unfolding valid_dns_name_def fullmatch_DNS_NAME by blast
  have "without_root s = dotted l ls" using s last_dotted [of l ls] ls by (auto simp: without_root_def)
  moreover have "split_on 46 (dotted l ls) = l # ls" using ls dns_label_chars(1) by (intro split_on_dotted) blast
  ultimately show "length s \<le> 253 \<and> list_all dns_label (split_on 46 (without_root s))"
    using valid ls DNS_NAME_chars [of s] by (simp add: valid_dns_name_def list_all_iff)
next
  assume *: "length s \<le> 253 \<and> list_all dns_label (split_on 46 (without_root s))"
  obtain l ls where l: "split_on 46 (without_root s) = l # ls" "without_root s = dotted l ls" using dotted_split_on by blast
  have "s = without_root s \<or> s = without_root s @ [46]"
    by (auto simp: without_root_def) (metis append_butlast_last_id)
  with * l have "fullmatch DNS_NAME s" unfolding fullmatch_DNS_NAME list_all_iff by auto
  with * show "valid_dns_name s" using DNS_NAME_chars [of s] by (simp add: valid_dns_name_def)
qed

end
