(* ===== verification/Mcp_Client.thy ===== *)
theory Mcp_Client
  imports Mcp_Schemas Deadlines Child_Environment
begin

text \<open>
  \<open>McpStdioClient\<close> of \<open>mcp_orchestrator.py\<close>: one child process, one outstanding JSON-RPC request,
  authorisation of tool calls against the captured surface, and shutdown.

  What the interpreter and the operating system answer is the record \<open>world\<close>: one stream per kind of question,
  read at the client's \<open>tick\<close>, which every question advances. The streams are arbitrary, so the
  lemmas hold for every child, clock and scheduling. The loop of \<open>_request\<close> has a fuel argument.
  Fields \<open>sent\<close> and \<open>waits\<close> record what was written to the child and how long the client was
  ready to block; no operation reads them.
\<close>

section \<open>Definitions\<close>

datatype read_result = Data pybytes | WouldBlock | ReadError

record world =
  w_clock :: "nat \<Rightarrow> rat"
  w_cancelled :: "nat \<Rightarrow> bool"
  w_exited :: "nat \<Rightarrow> bool"
  w_ready :: "nat \<Rightarrow> (bool \<times> read_result) list"
  w_fault :: "nat \<Rightarrow> exn option"
  w_alloc :: "nat \<Rightarrow> nat"
  w_nesting :: nat
  w_ucd :: ucd
  w_str :: "nat \<Rightarrow> pystr"

record authorized_action =
  aa_surface :: pystr
  aa_action :: pystr
  aa_proposal :: pystr
  aa_name :: pystr
  aa_arguments :: pyval
  aa_argument_bytes :: pybytes
  aa_issuer :: "nat option"
  aa_handle :: nat

record 'a mcp_response =
  request_id :: int
  response_action :: "'a option"
  response_result :: pyval
  byte_count :: nat

type_synonym grant = "pystr \<times> pystr \<times> pystr \<times> pystr \<times> pyval \<times> pybytes"

record client =
  c_executable :: pystr
  c_arguments :: "pystr list"
  c_environment :: "(pystr \<times> pystr) list"
  c_limits :: limits
  process :: bool
  selector :: bool
  surface :: "tool_surface option"
  out :: pybytes
  err :: pybytes
  out_total :: nat
  err_total :: nat
  next_id :: int
  issuer :: nat
  authorizations :: "nat \<Rightarrow> grant option"
  startup_pending :: bool
  last_initialize :: "unit mcp_response option"
  last_tools_list :: "unit mcp_response option"
  tick :: nat
  sent :: "(int \<times> string \<times> pyval) list"
  waits :: "rat list"

record process_environment =
  pe_ucd :: ucd
  pe_nfkc :: "pystr \<Rightarrow> pystr"
  pe_parent :: items
  pe_allowlist :: "pyval list"

text \<open>The environment is the parent's mapping and the allowlist, with the Unicode data that its validators read.\<close>

definition McpStdioClient :: "nat \<Rightarrow> pyval \<Rightarrow> pyval list \<Rightarrow> process_environment \<Rightarrow> limits \<Rightarrow> client outcome" where
  "McpStdioClient iss executable args E l = (case executable of
      PStr x \<Rightarrow>
        if x = [] \<or> \<not> list_all is_str args then Inl (raises INVALID_PROVIDER_CONFIGURATION)
        else bindE (build_child_environment (pe_ucd E) (pe_nfkc E) (PDict Plain (pe_parent E)) (PList (pe_allowlist E))
            PNone (PBool False) (PBool False) (PInt 4096)) (\<lambda>env. Inr
          \<lparr> c_executable = x, c_arguments = map (\<lambda>v. case v of PStr s \<Rightarrow> s | _ \<Rightarrow> []) args,
            c_environment = env, c_limits = l, process = False, selector = False, surface = None, out = [], err = [],
            out_total = 0, err_total = 0, next_id = 1, issuer = iss, authorizations = (\<lambda>_. None), startup_pending = True,
            last_initialize = None, last_tools_list = None, tick = 0, sent = [], waits = [] \<rparr>)
    | _ \<Rightarrow> Inl (raises INVALID_PROVIDER_CONFIGURATION))"

subsection \<open>Questions to the world\<close>

definition observe :: "(nat \<Rightarrow> 'a) \<Rightarrow> (client, 'a) eff" where
  "observe f = (\<lambda>c. Some (Inr (f (tick c)), c\<lparr>tick := Suc (tick c)\<rparr>))"

definition syscall :: "world \<Rightarrow> (client, unit) eff" where
  "syscall W = bindM (observe (w_fault W)) (\<lambda>fault. case fault of None \<Rightarrow> retM () | Some e \<Rightarrow> raiseM e)"

definition deadline_timeout :: "world \<Rightarrow> rat \<Rightarrow> int \<Rightarrow> (client, int) eff" where
  "deadline_timeout W absolute configured = bindM (observe (w_clock W)) (\<lambda>now. liftM (timeout absolute now configured))"

subsection \<open>Authorisation\<close>

definition authorize :: "world \<Rightarrow> pystr \<Rightarrow> pystr \<Rightarrow> pystr \<Rightarrow> pyval \<Rightarrow> (client, authorized_action) eff" where
  "authorize W action_id proposal name args =
     bindM (getM id) (\<lambda>c. case surface c of
       None \<Rightarrow> raiseM (raises LOCAL_AUTHORIZATION_FAILURE)
     | Some sf \<Rightarrow>
         bindM (liftM (freeze_json (c_limits c) None 0 args)) (\<lambda>frozen.
         bindM (checkM (is_dict frozen) (raises LOCAL_AUTHORIZATION_FAILURE)) (\<lambda>_.
         case find (\<lambda>x. tool_name x = name) (surface_tools sf) of
           None \<Rightarrow> raiseM (raises LOCAL_AUTHORIZATION_FAILURE)
         | Some tool \<Rightarrow>
             bindM (liftM (validate_schema (c_limits c) frozen (parameters tool))) (\<lambda>_.
             bindM (liftM (dumps frozen)) (\<lambda>canon.
             bindM (observe (w_alloc W)) (\<lambda>handle.
             bindM (modifyM (\<lambda>c. c\<lparr>authorizations := (authorizations c)(handle \<mapsto>
               (surface_identity sf, action_id, proposal, name, frozen, canon))\<rparr>)) (\<lambda>_.
             retM \<lparr> aa_surface = surface_identity sf, aa_action = action_id, aa_proposal = proposal, aa_name = name,
               aa_arguments = frozen, aa_argument_bytes = canon, aa_issuer = Some (issuer c), aa_handle = handle \<rparr>)))))))"

subsection \<open>Shutdown\<close>

definition wait :: "world \<Rightarrow> rat \<Rightarrow> (client, unit) eff" where
  "wait W t = bindM (modifyM (\<lambda>c. c\<lparr>waits := waits c @ [t]\<rparr>)) (\<lambda>_. syscall W)"

definition graceful_wait :: "world \<Rightarrow> rat option \<Rightarrow> int \<Rightarrow> (client, unit) eff" where
  "graceful_wait W deadline configured = (case deadline of
      None \<Rightarrow> wait W (seconds configured)
    | Some absolute \<Rightarrow>
        bindM (observe (w_clock W)) (\<lambda>now.
        if 0 < remaining_ms absolute now then
          bindM (observe (w_clock W)) (\<lambda>now'. wait W (seconds (min configured (remaining_ms absolute now'))))
        else retM ()))"

definition reap_wait :: "world \<Rightarrow> rat option \<Rightarrow> (client, unit) eff" where
  "reap_wait W deadline = (case deadline of
      None \<Rightarrow> wait W (fl (1 / 5))
    | Some absolute \<Rightarrow>
        bindM (observe (w_clock W)) (\<lambda>now.
        if 0 < remaining_ms absolute now then
          bindM (observe (w_clock W)) (\<lambda>now'. wait W (seconds (remaining_ms absolute now')))
        else wait W 0))"

definition shutdown :: "world \<Rightarrow> rat option \<Rightarrow> bool \<Rightarrow> (client, string) eff" where
  "shutdown W deadline suppress =
     bindM (getM (graceful_shutdown_timeout_ms \<circ> c_limits)) (\<lambda>grace.
     bindM (syscall W) (\<lambda>_.
     bindM (observe (w_exited W)) (\<lambda>exited.
     bindM (if exited then retM ''none''
            else bindM (syscall W) (\<lambda>_. bindM (graceful_wait W deadline grace) (\<lambda>_. retM ''terminate''))) (\<lambda>mode.
     bindM (observe (w_exited W)) (\<lambda>exited.
     bindM (if exited then retM mode
            else bindM (syscall W) (\<lambda>_. bindM (reap_wait W deadline) (\<lambda>_. retM ''kill''))) (\<lambda>mode.
     bindM (observe (w_exited W)) (\<lambda>exited.
     if exited then retM mode
     else if suppress then retM ''unreaped''
     else raiseM (raises MCP_PROCESS_EXIT))))))))"

definition close :: "world \<Rightarrow> rat option \<Rightarrow> bool \<Rightarrow> (client, string) eff" where
  "close W deadline suppress =
     bindM (getM process) (\<lambda>running.
     if \<not> running then retM ''none''
     else
       finallyM
         (tryM (shutdown W deadline suppress)
            (\<lambda>e. if is_os_error e then (if suppress then retM ''unreaped'' else raiseM (raises MCP_PROCESS_EXIT))
                 else raiseM e))
         (modifyM (\<lambda>c. c\<lparr>selector := False, process := False\<rparr>)))"

subsection \<open>Starting the child\<close>

text \<open>The system calls after \<open>Popen\<close>: two pipes made non-blocking, two streams registered.\<close>

definition start :: "world \<Rightarrow> rat \<Rightarrow> (client, unit) eff" where
  "start W deadline =
     bindM (getM id) (\<lambda>c.
     bindM (checkM (\<not> process c) (raises LOCAL_POLICY_FAILURE)) (\<lambda>_.
     bindM (deadline_timeout W deadline (process_startup_timeout_ms (c_limits c))) (\<lambda>_.
     tryM
       (bindM (syscall W) (\<lambda>_.
        bindM (modifyM (\<lambda>c. c\<lparr>process := True\<rparr>)) (\<lambda>_.
        bindM (syscall W) (\<lambda>_.
        bindM (syscall W) (\<lambda>_.
        bindM (modifyM (\<lambda>c. c\<lparr>selector := True\<rparr>)) (\<lambda>_.
        bindM (syscall W) (\<lambda>_.
        bindM (syscall W) (\<lambda>_.
        bindM (deadline_timeout W deadline (process_startup_timeout_ms (c_limits c))) (\<lambda>_. retM ())))))))))
       (\<lambda>e. if is_os_error e \<or> is_value_error e \<or> is_provider_error e then
              bindM (close W (Some deadline) True) (\<lambda>_. raiseM (raises MCP_PROCESS_EXIT))
            else raiseM e))))"

subsection \<open>Reading the child\<close>

text \<open>The inner loop of \<open>_drain\<close>: complete lines leave the buffer; an oversized one has left it when the loop raises.\<close>

function take_lines :: "int \<Rightarrow> pybytes list \<Rightarrow> pybytes \<Rightarrow> pybytes list outcome \<times> pybytes" where
  "take_lines limit records buf =
     (if 10 \<in> set buf then
        let line = takeWhile (\<lambda>b. b \<noteq> 10) buf; rest = tl (dropWhile (\<lambda>b. b \<noteq> 10) buf)
        in if limit < int (length line) then (Inl (raises OVERSIZED_RESPONSE), rest)
           else take_lines limit (records @ [line]) rest
      else if limit < int (length buf) then (Inl (raises OVERSIZED_RESPONSE), buf)
      else (Inr records, buf))"
  by pat_completeness auto
termination
proof (relation "measure (\<lambda>(limit, records, buf). length buf)", goal_cases)
  case (2 limit records buf line rest)
  then have "dropWhile (\<lambda>b. b \<noteq> 10) buf \<noteq> []" by (auto simp: dropWhile_eq_Nil_conv)
  then have "length (tl (dropWhile (\<lambda>b. b \<noteq> 10) buf)) < length (dropWhile (\<lambda>b. b \<noteq> 10) buf)" by simp
  also have "\<dots> \<le> length buf" by (rule length_dropWhile_le)
  finally show ?case using 2 by simp
qed simp

declare take_lines.simps [simp del]

definition REDACTED_MARKER :: pybytes where
  "REDACTED_MARKER = py ''<redacted>''"

definition drain_out :: "int \<Rightarrow> pybytes \<Rightarrow> pybytes list \<Rightarrow> (client, pybytes list) eff" where
  "drain_out response_limit data records = (\<lambda>c.
     let c' = c\<lparr>out_total := out_total c + length data, out := out c @ data\<rparr>
     in if child_stdout_bytes (c_limits c) < int (out_total c') then Some (Inl (raises OVERSIZED_RESPONSE), c')
        else case take_lines response_limit records (out c') of (r, rest) \<Rightarrow> Some (r, c'\<lparr>out := rest\<rparr>))"

definition drain_err :: "pybytes \<Rightarrow> (client, unit) eff" where
  "drain_err data =
     bindM (modifyM (\<lambda>c. c\<lparr>err_total := err_total c + length data, err := err c @ REDACTED_MARKER\<rparr>)) (\<lambda>_.
     bindM (getM id) (\<lambda>c. checkM (\<not> child_stderr_bytes (c_limits c) < int (err_total c)) (raises OVERSIZED_RESPONSE)))"

fun drain_ready :: "int \<Rightarrow> (bool \<times> read_result) list \<Rightarrow> pybytes list \<Rightarrow> (client, pybytes list) eff" where
  "drain_ready response_limit [] records = retM records"
| "drain_ready response_limit ((is_out, result) # ready) records = (case result of
      WouldBlock \<Rightarrow> drain_ready response_limit ready records
    | ReadError \<Rightarrow> raiseM OSError
    | Data bytes \<Rightarrow>
        if bytes = [] then drain_ready response_limit ready records
        else if is_out then
          bindM (drain_out response_limit (take 8192 bytes) records) (\<lambda>records'. drain_ready response_limit ready records')
        else bindM (drain_err (take 8192 bytes)) (\<lambda>_. drain_ready response_limit ready records))"

definition drain :: "world \<Rightarrow> rat \<Rightarrow> int \<Rightarrow> (client, pybytes list) eff" where
  "drain W t response_limit =
     bindM (getM id) (\<lambda>c.
     bindM (checkM (process c \<and> selector c) (raises LOCAL_POLICY_FAILURE)) (\<lambda>_.
     bindM (modifyM (\<lambda>c. c\<lparr>waits := waits c @ [max 0 t]\<rparr>)) (\<lambda>_.
     bindM (observe (w_ready W)) (\<lambda>ready. drain_ready response_limit ready []))))"

subsection \<open>One request\<close>

definition as_invalid_json :: "exn \<Rightarrow> exn" where
  "as_invalid_json e = (case e of ProviderError f \<Rightarrow> raises (classification f) | _ \<Rightarrow> e)"

text \<open>The body of the loop over the lines of one drain: it raises or returns at the first line.\<close>

definition response_of_line :: "nat \<Rightarrow> limits \<Rightarrow> int \<Rightarrow> 'a option \<Rightarrow> int \<Rightarrow> int \<Rightarrow> pybytes \<Rightarrow> 'a mcp_response outcome" where
  "response_of_line nest l rid action response_limit string_limit line =
     bindE (mcp_evidence_limits l) (\<lambda>ml.
     bindE (catchE (parse_closed_json nest (PBytes line) ml (Some response_limit) (Some (PInt string_limit)))
              (\<lambda>e. Inl (as_invalid_json e))) (\<lambda>msg.
     bindE (mcp_closed msg [''jsonrpc'', ''id'', ''result'', ''error''] [''jsonrpc'', ''id'']) (\<lambda>kvs.
     bindE (checkE (get_or kvs ''jsonrpc'' PNone = PStr (py ''2.0'') \<and> get_or kvs ''id'' PNone = PInt rid) mpf) (\<lambda>_.
     bindE (checkE (dhas kvs ''result'' \<noteq> dhas kvs ''error'') mpf) (\<lambda>_.
     case dget kvs ''error'' of
       Some e \<Rightarrow>
         bindE (mcp_closed e [''code'', ''message'', ''data''] [''code'', ''message'']) (\<lambda>_. Inl mpf)
     | None \<Rightarrow>
         bindE (freeze_json ml (Some (PInt string_limit)) 0 (get_or kvs ''result'' PNone)) (\<lambda>result.
         Inr \<lparr> request_id = rid, response_action = action, response_result = result, byte_count = length line \<rparr>))))))"

fun await ::
    "world \<Rightarrow> nat \<Rightarrow> string \<Rightarrow> int \<Rightarrow> rat \<Rightarrow> rat \<Rightarrow> int \<Rightarrow> int \<Rightarrow> int \<Rightarrow> 'a option \<Rightarrow> (client, 'a mcp_response) eff" where
  "await W 0 mthd rid stop deadline operation_ms response_limit string_limit action = (\<lambda>c. None)"
| "await W (Suc fuel) mthd rid stop deadline operation_ms response_limit string_limit action =
     bindM (observe (w_cancelled W)) (\<lambda>cancelled.
     bindM (checkM (\<not> cancelled) (raises CANCELLED)) (\<lambda>_.
     bindM (observe (w_exited W)) (\<lambda>exited.
     bindM (getM id) (\<lambda>c.
     bindM (checkM (\<not> exited) (raises (if out c \<noteq> [] then TRUNCATED_RESPONSE else MCP_AMBIGUOUS_COMPLETION))) (\<lambda>_.
     bindM (observe (w_clock W)) (\<lambda>now.
     bindM (deadline_timeout W deadline operation_ms) (\<lambda>t.
     let remaining = min (fl (stop - now)) (min (seconds t) (fl (1 / 100))) in
     bindM (checkM (0 < remaining) (raises MCP_TIMEOUT)) (\<lambda>_.
     bindM (drain W remaining response_limit) (\<lambda>records. case records of
       [] \<Rightarrow> await W fuel mthd rid stop deadline operation_ms response_limit string_limit action
     | line # _ \<Rightarrow>
         bindM (liftM (response_of_line (w_nesting W) (c_limits c) rid action response_limit string_limit line)) (\<lambda>response.
         bindM (modifyM (\<lambda>c. if mthd = ''initialize'' then c\<lparr>startup_pending := False\<rparr> else c)) (\<lambda>_.
         retM response)))))))))))"

definition response_limit_of :: "limits \<Rightarrow> string \<Rightarrow> int" where
  "response_limit_of l mthd = (if mthd = ''tools/call'' then mcp_evidence_response_bytes l else mcp_response_bytes l)"

definition string_limit_of :: "limits \<Rightarrow> string \<Rightarrow> int" where
  "string_limit_of l mthd = (if mthd = ''tools/call'' then mcp_evidence_response_bytes l
     else max (message_bytes l) (max (tool_argument_bytes l) (tool_definition_bytes l)))"

definition request_bytes :: "int \<Rightarrow> string \<Rightarrow> pyval \<Rightarrow> pybytes outcome" where
  "request_bytes rid mthd params = bindE (dumps (obj [(''jsonrpc'', PStr (py ''2.0'')), (''id'', PInt rid),
     (''method'', PStr (py mthd)), (''params'', params)])) (\<lambda>b. Inr (b @ [10]))"

text \<open>A write that fails may have reached the child, so the trace \<open>sent\<close> records the attempt.\<close>

definition write_child :: "world \<Rightarrow> int \<Rightarrow> string \<Rightarrow> pyval \<Rightarrow> (client, unit) eff" where
  "write_child W rid mthd params =
     bindM (modifyM (\<lambda>c. c\<lparr>sent := sent c @ [(rid, mthd, params)]\<rparr>)) (\<lambda>_.
     tryM (syscall W) (\<lambda>e. raiseM (if is_os_error e then raises MCP_AMBIGUOUS_COMPLETION else e)))"

definition request ::
    "world \<Rightarrow> nat \<Rightarrow> string \<Rightarrow> pyval \<Rightarrow> rat \<Rightarrow> int \<Rightarrow> 'a option \<Rightarrow> (client, 'a mcp_response) eff" where
  "request W fuel mthd params deadline operation_ms action =
     bindM (checkM (mthd \<in> {''initialize'', ''tools/list'', ''tools/call''}) (raises LOCAL_POLICY_FAILURE)) (\<lambda>_.
     bindM (getM process) (\<lambda>running.
     bindM (if running then retM () else start W deadline) (\<lambda>_.
     bindM (getM id) (\<lambda>c.
     let l = c_limits c; rid = next_id c;
         configured = (if startup_pending c then min operation_ms (process_startup_timeout_ms l) else operation_ms) in
     bindM (deadline_timeout W deadline configured) (\<lambda>timeout_ms.
     bindM (modifyM (\<lambda>c. c\<lparr>next_id := next_id c + 1\<rparr>)) (\<lambda>_.
     bindM (liftM (request_bytes rid mthd params)) (\<lambda>raw.
     bindM (checkM (int (length raw) \<le> mcp_request_bytes l) (raises REQUEST_TOO_LARGE)) (\<lambda>_.
     bindM (write_child W rid mthd params) (\<lambda>_.
     bindM (observe (w_clock W)) (\<lambda>now.
     await W fuel mthd rid (fl (now + seconds timeout_ms)) deadline operation_ms (response_limit_of l mthd)
       (string_limit_of l mthd) action))))))))))"

subsection \<open>Capturing the tool surface\<close>

lemma page_progress: "\<not> k < int n + int (length xs) \<Longrightarrow> xs \<noteq> [] \<Longrightarrow> nat (k + 1) - (n + length xs) < nat (k + 1) - n"
  by (cases xs) auto

function list_pages ::
    "world \<Rightarrow> nat \<Rightarrow> rat \<Rightarrow> limits \<Rightarrow> pyval list \<Rightarrow> pystr list \<Rightarrow> pystr option \<Rightarrow> client
     \<Rightarrow> (tool_surface outcome \<times> client) option" where
  "list_pages W fuel deadline l collected seen cursor c =
     bindM (request W fuel ''tools/list'' (obj (case cursor of None \<Rightarrow> [] | Some t \<Rightarrow> [(''cursor'', PStr t)]))
              deadline (mcp_tools_list_timeout_ms l) None) (\<lambda>listed.
     bindM (modifyM (\<lambda>c. c\<lparr>last_tools_list := Some listed\<rparr>)) (\<lambda>_.
     bindM (liftM (tools_list_page (response_result listed) l)) (\<lambda>(ts, next_cursor) s.
     if advertised_tool_count l < int (length collected + length ts) then raiseM mpf s
     else case next_cursor of
       None \<Rightarrow> liftM (capture_tool_surface (obj [(''tools'', PList (collected @ ts))]) l) s
     | Some t \<Rightarrow>
         if t \<in> set seen \<or> ts = [] then raiseM mpf s
         else list_pages W fuel deadline l (collected @ ts) (seen @ [t]) (Some t) s))) c"
  by pat_completeness auto
termination
  by (relation "measure (\<lambda>(W, fuel, deadline, l, collected, seen, cursor, c). nat (advertised_tool_count l + 1) - length collected)")
     (auto intro!: page_progress)

declare list_pages.simps [simp del]

definition list_and_capture :: "world \<Rightarrow> nat \<Rightarrow> rat \<Rightarrow> (client, tool_surface) eff" where
  "list_and_capture W fuel deadline = bindM (getM c_limits) (\<lambda>l. list_pages W fuel deadline l [] [] None)"

definition MCP_PROTOCOL_VERSION :: string where
  "MCP_PROTOCOL_VERSION = ''2025-11-25''"

definition MCP_CLIENT_VERSION :: string where
  "MCP_CLIENT_VERSION = ''0.11.0''"

definition initialize_params :: pyval where
  "initialize_params = obj [(''protocolVersion'', PStr (py MCP_PROTOCOL_VERSION)), (''capabilities'', obj []),
     (''clientInfo'', obj [(''name'', PStr (py ''native-mcp-agent'')), (''version'', PStr (py MCP_CLIENT_VERSION))])]"

definition initialize_result_ok :: "items \<Rightarrow> bool" where
  "initialize_result_ok kvs \<longleftrightarrow> get_or kvs ''protocolVersion'' PNone = PStr (py MCP_PROTOCOL_VERSION)
     \<and> is_dict (get_or kvs ''capabilities'' PNone) \<and> is_dict (get_or kvs ''serverInfo'' PNone)
     \<and> (case dget kvs ''_meta'' of None \<Rightarrow> True | Some m \<Rightarrow> is_dict m)"

definition initialize_and_capture :: "world \<Rightarrow> nat \<Rightarrow> rat \<Rightarrow> (client, tool_surface) eff" where
  "initialize_and_capture W fuel deadline =
     bindM (getM c_limits) (\<lambda>l.
     bindM (request W fuel ''initialize'' initialize_params deadline (mcp_initialize_timeout_ms l) None) (\<lambda>init.
     bindM (modifyM (\<lambda>c. c\<lparr>last_initialize := Some init\<rparr>)) (\<lambda>_.
     bindM (liftM (mcp_closed (response_result init) [''protocolVersion'', ''capabilities'', ''serverInfo'', ''instructions'', ''_meta'']
              [''protocolVersion'', ''capabilities'', ''serverInfo''])) (\<lambda>kvs.
     bindM (checkM (initialize_result_ok kvs) mpf) (\<lambda>_.
     bindM (deadline_timeout W deadline (mcp_initialize_timeout_ms l)) (\<lambda>_.
     bindM (tryM (syscall W) (\<lambda>e. raiseM (if is_os_error e then raises MCP_AMBIGUOUS_COMPLETION else e))) (\<lambda>_.
     bindM (list_and_capture W fuel deadline) (\<lambda>sf.
     bindM (modifyM (\<lambda>c. c\<lparr>surface := Some sf\<rparr>)) (\<lambda>_. retM sf)))))))))"

definition revalidate_surface :: "world \<Rightarrow> nat \<Rightarrow> rat \<Rightarrow> (client, unit) eff" where
  "revalidate_surface W fuel deadline =
     bindM (getM surface) (\<lambda>sf. case sf of
       None \<Rightarrow> raiseM (raises LOCAL_POLICY_FAILURE)
     | Some current \<Rightarrow>
         bindM (list_and_capture W fuel deadline) (\<lambda>later.
         checkM (surface_identity later = surface_identity current) mpf))"

subsection \<open>Executing an authorised call\<close>

definition grant_of :: "authorized_action \<Rightarrow> grant" where
  "grant_of a = (aa_surface a, aa_action a, aa_proposal a, aa_name a, aa_arguments a, aa_argument_bytes a)"

text \<open>Equality of the recorded tuple and the presented one, with Python's \<open>==\<close> on the arguments.\<close>

definition grant_eq :: "grant \<Rightarrow> grant \<Rightarrow> bool" where
  "grant_eq x y = (case (x, y) of
      ((s, a, p, n, v, b), (s', a', p', n', v', b')) \<Rightarrow> s = s' \<and> a = a' \<and> p = p' \<and> n = n' \<and> py_eq v v' \<and> b = b')"

definition genuine :: "client \<Rightarrow> authorized_action \<Rightarrow> bool" where
  "genuine c a \<longleftrightarrow> aa_issuer a = Some (issuer c)
     \<and> (case surface c of None \<Rightarrow> False | Some sf \<Rightarrow> aa_surface a = surface_identity sf)
     \<and> (case authorizations c (aa_handle a) of None \<Rightarrow> False | Some g \<Rightarrow> grant_eq g (grant_of a))"

definition as_unauthorized :: "exn \<Rightarrow> exn" where
  "as_unauthorized e = (if is_provider_error e then raises LOCAL_AUTHORIZATION_FAILURE else e)"

definition recheck_arguments :: "limits \<Rightarrow> authorized_action \<Rightarrow> advertised_tool \<Rightarrow> pyval outcome" where
  "recheck_arguments l a tool =
     bindE (catchE (bindE (freeze_json l None 0 (aa_arguments a)) (\<lambda>frozen.
              bindE (validate_schema l frozen (parameters tool)) (\<lambda>_. Inr frozen)))
              (\<lambda>e. Inl (as_unauthorized e))) (\<lambda>frozen.
     bindE (checkE (is_dict frozen) (raises LOCAL_AUTHORIZATION_FAILURE)) (\<lambda>_.
     bindE (dumps frozen) (\<lambda>canon.
     bindE (checkE (canon = aa_argument_bytes a \<and> int (length (aa_argument_bytes a)) \<le> tool_argument_bytes l)
              (raises LOCAL_AUTHORIZATION_FAILURE)) (\<lambda>_. Inr frozen))))"

definition call_params :: "pystr \<Rightarrow> pyval \<Rightarrow> pyval" where
  "call_params name frozen = obj [(''name'', PStr name), (''arguments'', frozen)]"

definition output_schema_of :: "tool_surface \<Rightarrow> pystr \<Rightarrow> pyval" where
  "output_schema_of sf name = (case map_of (items_of (output_schemas sf)) (SKey name) of None \<Rightarrow> PNone | Some s \<Rightarrow> s)"

definition execute :: "world \<Rightarrow> nat \<Rightarrow> authorized_action \<Rightarrow> rat \<Rightarrow> (client, pystr mcp_response) eff" where
  "execute W fuel a deadline =
     bindM (getM id) (\<lambda>c.
     bindM (checkM (genuine c a) (raises LOCAL_AUTHORIZATION_FAILURE)) (\<lambda>_.
     case surface c of
       None \<Rightarrow> raiseM (raises LOCAL_AUTHORIZATION_FAILURE)
     | Some sf \<Rightarrow> (case find (\<lambda>x. tool_name x = aa_name a) (surface_tools sf) of
         None \<Rightarrow> raiseM (raises LOCAL_AUTHORIZATION_FAILURE)
       | Some tool \<Rightarrow>
           bindM (liftM (recheck_arguments (c_limits c) a tool)) (\<lambda>frozen.
           bindM (request W fuel ''tools/call'' (call_params (aa_name a) frozen) deadline (mcp_call_timeout_ms (c_limits c)) (Some a)) (\<lambda>response.
           bindM (liftM (validate_tool_result (w_ucd W) (w_str W) (response_result response) (c_limits c)
                    (output_schema_of sf (aa_name a)))) (\<lambda>result.
           retM \<lparr> request_id = request_id response, response_action = Some (aa_action a), response_result = result,
                  byte_count = byte_count response \<rparr>))))))"

section \<open>Lemmas\<close>

subsection \<open>Steps that send nothing\<close>

text \<open>What every operation but a request and an authorisation leaves alone; standard error only gains markers.\<close>

definition quiet :: "client \<Rightarrow> client \<Rightarrow> bool" where
  "quiet c c' \<longleftrightarrow> c_limits c' = c_limits c \<and> c_environment c' = c_environment c \<and> issuer c' = issuer c \<and> surface c' = surface c
     \<and> authorizations c' = authorizations c \<and> next_id c' = next_id c \<and> sent c' = sent c \<and> tick c \<le> tick c'
     \<and> (\<exists>k. err c' = err c @ concat (replicate k REDACTED_MARKER))"

lemma markers_append:
  "concat (replicate j REDACTED_MARKER) @ concat (replicate k REDACTED_MARKER) = concat (replicate (j + k) REDACTED_MARKER)"
  by (simp add: replicate_add)

lemma no_marker: "\<exists>k. concat (replicate k REDACTED_MARKER) = []"
  by (rule exI [of _ 0]) simp

lemma markers_trans:
  "\<exists>j. t = s @ concat (replicate j REDACTED_MARKER) \<Longrightarrow> \<exists>k. u = t @ concat (replicate k REDACTED_MARKER) \<Longrightarrow>
     \<exists>k. u = s @ concat (replicate k REDACTED_MARKER)"
  using markers_append by fastforce

interpretation quiet: step_relation quiet
proof
  show "quiet c c" for c by (simp add: quiet_def no_marker)
  show "quiet a c" if "quiet a b" "quiet b c" for a b c
    using that markers_trans [of "err b" "err a" "err c"] by (auto simp: quiet_def)
qed

lemma quiet_observe [intro!]: "quiet.keeps (observe f)"
  by (rule quiet.keepsI) (auto simp: observe_def quiet_def no_marker)

lemma quiet_syscall [intro!]: "quiet.keeps (syscall W)"
  unfolding syscall_def by auto

lemma quiet_deadline_timeout [intro!]: "quiet.keeps (deadline_timeout W d n)"
  unfolding deadline_timeout_def by auto

lemma quiet_wait [intro!]: "quiet.keeps (wait W t)"
  unfolding wait_def by (auto simp: quiet_def no_marker)

lemma quiet_shutdown [intro!]: "quiet.keeps (shutdown W d b)"
  unfolding shutdown_def graceful_wait_def reap_wait_def by auto

lemma quiet_close [intro!]: "quiet.keeps (close W d b)"
  unfolding close_def by (auto simp: quiet_def no_marker)

lemma quiet_start [intro!]: "quiet.keeps (start W d)"
  unfolding start_def by (auto simp: quiet_def no_marker)

lemma quiet_drain_out [intro!]: "quiet.keeps (drain_out n d rs)"
  by (rule quiet.keepsI) (auto simp: drain_out_def quiet_def no_marker Let_def split: if_splits prod.splits)

lemma quiet_drain_err [intro!]: "quiet.keeps (drain_err d)"
  unfolding drain_err_def by (auto simp: quiet_def intro!: exI [of _ "Suc 0"])

lemma quiet_drain_ready [intro!]: "quiet.keeps (drain_ready n rd rs)"
  by (induction n rd rs rule: drain_ready.induct) (auto split: read_result.splits simp del: eff_simps)

lemma quiet_drain [intro!]: "quiet.keeps (drain W t n)"
  unfolding drain_def by (auto simp: quiet_def no_marker)

lemma quiet_startup [intro!]: "quiet c (if b then c\<lparr>startup_pending := False\<rparr> else c)"
  by (simp add: quiet_def no_marker)

lemma quiet_await [intro!]: "quiet.keeps (await W fuel m i st d opr rl sl a)"
proof (induction fuel)
  case 0
  show ?case by (rule quiet.keepsI) simp
next
  case (Suc fuel)
  then show ?case unfolding await.simps Let_def
    by (intro quiet.keeps_bind quiet.keeps_lift quiet.keeps_get quiet_observe quiet_deadline_timeout quiet_drain)
       (auto split: list.split simp del: eff_simps)
qed

subsection \<open>Requests\<close>

lemma after_quiet:
  "quiet.keeps m \<Longrightarrow> (\<And>r t. m s = Some (r, t) \<Longrightarrow> quiet s t \<Longrightarrow> Q r t) \<Longrightarrow> after m Q s"
  by (auto intro!: afterI dest: quiet.keepsD)

text \<open>A step that may send requests: their ids are fresh and strictly increasing.\<close>

definition talks :: "client \<Rightarrow> client \<Rightarrow> bool" where
  "talks c c' \<longleftrightarrow> c_limits c' = c_limits c \<and> c_environment c' = c_environment c \<and> issuer c' = issuer c \<and> surface c' = surface c
     \<and> authorizations c' = authorizations c \<and> tick c \<le> tick c' \<and> next_id c \<le> next_id c'
     \<and> (\<exists>k. err c' = err c @ concat (replicate k REDACTED_MARKER))
     \<and> (\<exists>xs. sent c' = sent c @ xs \<and> sorted_wrt (<) (map fst xs)
          \<and> (\<forall>x \<in> set xs. next_id c \<le> fst x \<and> fst x < next_id c'))"

lemma quiet_talks: "quiet c c' \<Longrightarrow> talks c c'"
  by (auto simp: quiet_def talks_def)

lemma talks_trans:
  assumes "talks a b" and "talks b c"
  shows "talks a c"
proof -
  from assms obtain xs ys where xs: "sent b = sent a @ xs" "sorted_wrt (<) (map fst xs)"
      "\<forall>x \<in> set xs. next_id a \<le> fst x \<and> fst x < next_id b"
    and ys: "sent c = sent b @ ys" "sorted_wrt (<) (map fst ys)" "\<forall>x \<in> set ys. next_id b \<le> fst x \<and> fst x < next_id c"
    by (auto simp: talks_def)
  have "next_id a \<le> next_id b" "next_id b \<le> next_id c" using assms by (auto simp: talks_def)
  with xs ys have "sent c = sent a @ (xs @ ys)" "sorted_wrt (<) (map fst (xs @ ys))"
    "\<forall>x \<in> set (xs @ ys). next_id a \<le> fst x \<and> fst x < next_id c"
    by (fastforce simp: sorted_wrt_append)+
  then show ?thesis
    using assms markers_trans [of "err b" "err a" "err c"] unfolding talks_def by auto
qed

interpretation talks: step_relation talks
  by unfold_locales (auto intro: talks_trans quiet_talks quiet.rel_refl)

lemma quiet_keeps_talks: "quiet.keeps m \<Longrightarrow> talks.keeps m"
  by (auto intro!: talks.keepsI quiet_talks dest: quiet.keepsD)

text \<open>
  What a request did: it raised before anything was sent, perhaps with an id used up, or exactly one
  message was sent under the next id.
\<close>

definition numbered :: "client \<Rightarrow> client" where
  "numbered c = c\<lparr>next_id := next_id c + 1\<rparr>"

definition spoken :: "string \<Rightarrow> pyval \<Rightarrow> client \<Rightarrow> client" where
  "spoken m p c = c\<lparr>next_id := next_id c + 1, sent := sent c @ [(next_id c, m, p)]\<rparr>"

definition request_effect :: "string \<Rightarrow> pyval \<Rightarrow> client \<Rightarrow> 'a outcome \<Rightarrow> client \<Rightarrow> bool" where
  "request_effect m p c r c' \<longleftrightarrow>
     (\<exists>e. r = Inl e \<and> (quiet c c' \<or> quiet (numbered c) c')) \<or> quiet (spoken m p c) c'"

lemma quiet_cong:
  "quiet c c' \<Longrightarrow> quiet (numbered c) (numbered c')"
  "quiet c c' \<Longrightarrow> quiet (spoken m p c) (spoken m p c')"
  by (auto simp: quiet_def numbered_def spoken_def)

lemma request_effect_quiet:
  "quiet c c1 \<Longrightarrow> request_effect m p c1 r c' \<Longrightarrow> request_effect m p c r c'"
  "quiet c c' \<Longrightarrow> request_effect m p c (Inl e) c'"
  unfolding request_effect_def
  using quiet.rel_trans [of c c1 c'] quiet.rel_trans [of "numbered c" "numbered c1" c']
    quiet.rel_trans [of "spoken m p c" "spoken m p c1" c'] quiet_cong [of c c1] by blast+

lemma after_bind_quiet:
  assumes "quiet.keeps m" and "\<And>e t. quiet s t \<Longrightarrow> Q (Inl e) t" and "\<And>x t. m s = Some (Inr x, t) \<Longrightarrow> quiet s t \<Longrightarrow> after (f x) Q t"
  shows "after (bindM m f) Q s"
  using assms by (auto intro!: after_bindI dest: quiet.keepsD)

lemma write_quiet: "write_child W i m p c = Some (r, t) \<Longrightarrow> quiet (c\<lparr>sent := sent c @ [(i, m, p)]\<rparr>) t"
  by (rule afterD [where m = "write_child W i m p" and s = c])
     (auto simp: write_child_def after_simps intro!: after_quiet [OF quiet_syscall] split: sum.splits)

lemma request_effect:
  assumes "request W fuel m p d opr a c = Some (r, c')"
  shows "request_effect m p c r c'"
proof (rule afterD [where m = "request W fuel m p d opr a" and s = c and Q = "request_effect m p c", OF _ assms])
  have body: "after (bindM (write_child W (next_id c1) m p) (\<lambda>_. bindM (observe (w_clock W)) (\<lambda>now.
      await W fuel m (next_id c1) (fl (now + seconds tm)) d opr rl sl a))) (request_effect m p c) (numbered c2)"
    if "quiet c c1" "quiet c1 c2" for c1 c2 tm rl sl
  proof -
    have sp: "(numbered c2)\<lparr>sent := sent (numbered c2) @ [(next_id c1, m, p)]\<rparr> = spoken m p c2"
      using that by (simp add: numbered_def spoken_def quiet_def)
    have spoken: "request_effect m p c r' t'" if "quiet (spoken m p c2) t'" for r' t'
      using that quiet_cong(2) [OF quiet.rel_trans [OF \<open>quiet c c1\<close> \<open>quiet c1 c2\<close>]]
      unfolding request_effect_def by (blast intro: quiet.rel_trans)
    note written = write_quiet [of W "next_id c1" m p "numbered c2", unfolded sp]
    show ?thesis
    proof (rule after_bindI)
      show "request_effect m p c (Inl e) t" if "write_child W (next_id c1) m p (numbered c2) = Some (Inl e, t)" for e t
        by (rule spoken) (rule written [OF that])
      show "after (bindM (observe (w_clock W)) (\<lambda>now. await W fuel m (next_id c1) (fl (now + seconds tm)) d opr rl sl a))
          (request_effect m p c) t" if "write_child W (next_id c1) m p (numbered c2) = Some (Inr x, t)" for x t
        by (rule after_bind_quiet [OF quiet_observe], rule spoken, erule quiet.rel_trans [OF written [OF that]],
            rule after_quiet [OF quiet_await], rule spoken)
           (blast intro: quiet.rel_trans written [OF that])
    qed
  qed
  have raised: "request_effect m p c (Inl e) (numbered c2)" if "quiet c c1" "quiet c1 c2" for c1 c2 e
    using quiet_cong(1) [OF quiet.rel_trans [OF that]] unfolding request_effect_def by blast
  have numbered: "c2\<lparr>next_id := next_id c2 + 1\<rparr> = numbered c2" for c2 by (simp add: numbered_def)
  show "after (request W fuel m p d opr a) (request_effect m p c) c"
    unfolding request_def Let_def
    apply (rule after_bind_check)
     apply (rule request_effect_quiet(2) [OF quiet.rel_refl])
    apply (rule after_bind_get, rule after_bind_quiet)
      apply blast
     apply (erule request_effect_quiet(2))
    apply (rule after_bind_get, rule after_bind_quiet [OF quiet_deadline_timeout])
     apply (erule request_effect_quiet(2) [OF quiet.rel_trans], assumption)
    apply (rule after_bind_modify, unfold numbered id_apply, rule after_bind_lift)
     apply (erule (1) raised)
    apply (rule after_bind_check)
     apply (erule (1) raised)
    apply (erule (1) body)
    done
qed

text \<open>A successful request: one message was sent, and the answer carries its id.\<close>

lemma response_of_line_Inr:
  assumes "response_of_line nest l i a rl sl line = Inr resp" and "wf_limits l"
  shows "request_id resp = i" and "response_action resp = a" and "int (byte_count resp) \<le> rl"
    and "deep_frozen (response_result resp)"
proof -
  from assms obtain msg res ml kvs where
    parse: "parse_closed_json nest (PBytes line) ml (Some rl) (Some (PInt sl)) = Inr msg"
    and frz: "freeze_json ml (Some (PInt sl)) 0 (get_or kvs ''result'' PNone) = Inr res"
    and resp: "resp = \<lparr> request_id = i, response_action = a, response_result = res, byte_count = length line \<rparr>"
    by (auto simp: response_of_line_def bindE_eq_Inr catchE_eq_Inr split: option.splits simp del: freeze_json.simps)
  from parse have "int (length line) \<le> rl" by (auto elim!: parse_closed_json_Inr)
  with freeze_deep_frozen [OF frz] show "request_id resp = i" "response_action resp = a" "int (byte_count resp) \<le> rl"
    "deep_frozen (response_result resp)"
    by (simp_all add: resp)
qed

lemma quiet_limits: "quiet c c' \<Longrightarrow> c_limits c' = c_limits c"
  by (simp add: quiet_def)

lemma await_line:
  "c_limits c = l \<Longrightarrow> after (await W fuel m i st d opr rl sl a)
     (\<lambda>r t. case r of Inl e \<Rightarrow> True | Inr resp \<Rightarrow> \<exists>line. response_of_line (w_nesting W) l i a rl sl line = Inr resp) c"
proof (induction fuel arbitrary: c)
  case 0
  show ?case by (simp add: after_def)
next
  case (Suc fuel)
  show ?case unfolding await.simps Let_def
    apply (rule after_bind_quiet [OF quiet_observe], simp)
    apply (rule after_bind_check, simp)
    apply (rule after_bind_quiet [OF quiet_observe], simp)
    apply (rule after_bind_get, rule after_bind_check, simp)
    apply (rule after_bind_quiet [OF quiet_observe], simp)
    apply (rule after_bind_quiet [OF quiet_deadline_timeout], simp)
    apply (rule after_bind_check, simp)
    apply (rule after_bind_quiet [OF quiet_drain], simp)
    apply (simp split: list.split)
    apply (intro conjI impI allI)
    subgoal for _ c1 _ c2 _ c3 _ c4 _ c5
      by (rule Suc.IH) (use Suc.prems in \<open>auto dest!: quiet_limits\<close>)
    subgoal
      by (rule after_bind_lift, simp, rule after_bind_modify) (use Suc.prems in \<open>auto simp: after_def dest!: quiet_limits\<close>)
    done
qed

lemma await_Inr:
  assumes "await W fuel m i st d opr rl sl a c = Some (Inr resp, c')"
  obtains line where "response_of_line (w_nesting W) (c_limits c) i a rl sl line = Inr resp"
  using afterD [OF await_line [OF refl] assms] by auto

lemma request_Inr:
  assumes "request W fuel m p d opr a c = Some (Inr resp, c')"
  shows "quiet (spoken m p c) c'"
    and "\<exists>line. response_of_line (w_nesting W) (c_limits c) (next_id c) a (response_limit_of (c_limits c) m)
          (string_limit_of (c_limits c) m) line = Inr resp"
    and "m \<in> {''initialize'', ''tools/list'', ''tools/call''}"
proof -
  show "quiet (spoken m p c) c'" using request_effect [OF assms] by (simp add: request_effect_def)
  show "m \<in> {''initialize'', ''tools/list'', ''tools/call''}"
    using assms unfolding request_def by (auto simp: bindM_eq_Some)
  have "after (request W fuel m p d opr a) (\<lambda>r t. case r of Inl e \<Rightarrow> True | Inr resp \<Rightarrow>
      \<exists>line. response_of_line (w_nesting W) (c_limits c) (next_id c) a (response_limit_of (c_limits c) m)
          (string_limit_of (c_limits c) m) line = Inr resp) c"
    unfolding request_def Let_def
    apply (rule after_bind_check, simp)
    apply (rule after_bind_get, rule after_bind_quiet, blast, simp)
    apply (rule after_bind_get, rule after_bind_quiet [OF quiet_deadline_timeout], simp)
    apply (rule after_bind_modify, rule after_bind_lift, simp)
    apply (rule after_bind_check, simp)
    apply (rule after_bindI, simp)
    apply (drule write_quiet, rule after_bind_quiet [OF quiet_observe], simp)
    apply (rule after_mono [OF await_line [OF refl]])
    apply (simp add: quiet_def split: sum.splits)
    done
  from afterD [OF this assms] show "\<exists>line. response_of_line (w_nesting W) (c_limits c) (next_id c) a
      (response_limit_of (c_limits c) m) (string_limit_of (c_limits c) m) line = Inr resp" by simp
qed

lemma request_effect_talks: "request_effect m p c r c' \<Longrightarrow> talks c c'"
proof -
  have "talks c (numbered c)" "talks c (spoken m p c)"
    by (auto simp: talks_def numbered_def spoken_def no_marker)
  then show "request_effect m p c r c' \<Longrightarrow> talks c c'"
    unfolding request_effect_def using quiet_talks talks_trans by blast
qed

lemma talks_request [intro!]: "talks.keeps (request W fuel m p d opr a)"
  by (auto intro: talks.keepsI request_effect_talks dest: request_effect)

subsection \<open>Listing the tools\<close>

lemma list_pages_unfold:
  "list_pages W fuel d l collected seen cursor =
     bindM (request W fuel ''tools/list'' (obj (case cursor of None \<Rightarrow> [] | Some t \<Rightarrow> [(''cursor'', PStr t)]))
              d (mcp_tools_list_timeout_ms l) None) (\<lambda>listed.
     bindM (modifyM (\<lambda>c. c\<lparr>last_tools_list := Some listed\<rparr>)) (\<lambda>_.
     bindM (liftM (tools_list_page (response_result listed) l)) (\<lambda>page.
     if advertised_tool_count l < int (length collected + length (fst page)) then raiseM mpf
     else case snd page of
       None \<Rightarrow> liftM (capture_tool_surface (obj [(''tools'', PList (collected @ fst page))]) l)
     | Some t \<Rightarrow>
         if t \<in> set seen \<or> fst page = [] then raiseM mpf
         else list_pages W fuel d l (collected @ fst page) (seen @ [t]) (Some t))))"
proof (rule ext, subst list_pages.simps, rule bindM_cong [OF refl refl], rule bindM_cong [OF refl refl],
    rule bindM_cong [OF refl refl], goal_cases)
  case (1 c listed t u t' page t'')
  then show ?case by (cases page) (auto split: option.splits)
qed

text \<open>
  A listing asks for at most one page more than tools are still allowed, asks for nothing else, and
  captures a well-formed surface.
\<close>

definition listing_effect :: "limits \<Rightarrow> nat \<Rightarrow> client \<Rightarrow> tool_surface outcome \<Rightarrow> client \<Rightarrow> bool" where
  "listing_effect l n c r c' \<longleftrightarrow> talks c c'
     \<and> (\<exists>xs. sent c' = sent c @ xs \<and> (\<forall>x \<in> set xs. fst (snd x) = ''tools/list'') \<and> length xs \<le> n)
     \<and> (case r of Inl e \<Rightarrow> True | Inr sf \<Rightarrow> surface_ok l sf)"

lemma listing_effect_raise: "talks c c' \<Longrightarrow> sent c' = sent c @ xs \<Longrightarrow> length xs \<le> n \<Longrightarrow> (\<forall>x \<in> set xs. fst (snd x) = ''tools/list'')
    \<Longrightarrow> listing_effect l n c (Inl e) c'"
  by (auto simp: listing_effect_def)

lemma listing_effect_page:
  assumes "talks c c'" and "sent c' = sent c @ [(i, ''tools/list'', p)]" and "listing_effect l n c' r c''" and "Suc n \<le> n'"
  shows "listing_effect l n' c r c''"
proof -
  from assms(3) obtain xs where "sent c'' = sent c' @ xs" "\<forall>x \<in> set xs. fst (snd x) = ''tools/list''" "length xs \<le> n"
    by (auto simp: listing_effect_def)
  with assms(2,4) have "\<exists>xs. sent c'' = sent c @ xs \<and> (\<forall>x \<in> set xs. fst (snd x) = ''tools/list'') \<and> length xs \<le> n'"
    by (intro exI [of _ "(i, ''tools/list'', p) # xs"]) auto
  moreover have "talks c c''" using talks_trans [OF assms(1)] assms(3) by (simp add: listing_effect_def)
  ultimately show ?thesis using assms(3) unfolding listing_effect_def by blast
qed

lemma list_pages_effect:
  assumes "int (length collected) \<le> advertised_tool_count l"
  shows "after (list_pages W fuel d l collected seen cursor)
    (listing_effect l (nat (advertised_tool_count l + 1) - length collected) c) c"
  using assms
proof (induction W fuel d l collected seen cursor c rule: list_pages.induct)
  case (1 W fuel d l collected seen cursor c)
  let ?p = "obj (case cursor of None \<Rightarrow> [] | Some t \<Rightarrow> [(''cursor'', PStr t)])"
  let ?n = "nat (advertised_tool_count l + 1) - length collected"
  have n: "0 < ?n" using "1.prems" by auto
  show ?case
    unfolding list_pages_unfold [of W fuel d l collected]
  proof (rule after_bindI)
    fix e t assume "request W fuel ''tools/list'' ?p d (mcp_tools_list_timeout_ms l) (None :: unit option) c = Some (Inl e, t)"
    then have eff: "request_effect ''tools/list'' ?p c (Inl e :: unit mcp_response outcome) t" by (rule request_effect)
    have "sent t = sent c \<or> sent t = sent c @ [(next_id c, ''tools/list'', ?p)]"
      using eff by (auto simp: request_effect_def quiet_def numbered_def spoken_def)
    with request_effect_talks [OF eff] show "listing_effect l ?n c (Inl e) t"
      using n by (auto intro: listing_effect_raise [where xs = "[]"] listing_effect_raise [where xs = "[_]"])
  next
    fix listed t
    assume req: "request W fuel ''tools/list'' ?p d (mcp_tools_list_timeout_ms l) (None :: unit option) c = Some (Inr listed, t)"
    let ?t = "t\<lparr>last_tools_list := Some listed\<rparr>"
    from request_Inr(1) [OF req] have t: "sent ?t = sent c @ [(next_id c, ''tools/list'', ?p)]" "talks c ?t"
      by (auto simp: quiet_def spoken_def talks_def)
    have stop: "listing_effect l ?n c r ?t" if "case r of Inl e \<Rightarrow> True | Inr sf \<Rightarrow> surface_ok l sf" for r
      using t n that by (auto simp: listing_effect_def)
    show "after (bindM (modifyM (\<lambda>c. c\<lparr>last_tools_list := Some listed\<rparr>)) (\<lambda>_.
     bindM (liftM (tools_list_page (response_result listed) l)) (\<lambda>page.
     if advertised_tool_count l < int (length collected + length (fst page)) then raiseM mpf
     else case snd page of
       None \<Rightarrow> liftM (capture_tool_surface (obj [(''tools'', PList (collected @ fst page))]) l)
     | Some t \<Rightarrow>
         if t \<in> set seen \<or> fst page = [] then raiseM mpf
         else list_pages W fuel d l (collected @ fst page) (seen @ [t]) (Some t)))) (listing_effect l ?n c) t"
    proof (rule after_bind_modify, rule after_bind_lift, goal_cases)
      case 1
      show ?case by (rule stop) simp
    next
      case (2 page)
      obtain ts cur where page: "page = (ts, cur)" by fastforce
      show ?case
      proof (cases "advertised_tool_count l < int (length collected + length ts)")
        case True
        then show ?thesis using stop by (simp add: page after_simps)
      next
        case small: False
        show ?thesis
        proof (cases "cur = None \<or> ts = [] \<or> the cur \<in> set seen")
          case True
          then show ?thesis using small
            by (auto simp: page after_simps intro!: stop capture_tool_surface_ok split: option.splits sum.splits)
        next
          case False
          then obtain x where x: "cur = Some x" "x \<notin> set seen" "ts \<noteq> []" by auto
          have IH: "after (list_pages W fuel d l (collected @ ts) (seen @ [x]) (Some x))
             (listing_effect l (nat (advertised_tool_count l + 1) - length (collected @ ts)) ?t) ?t"
            by (rule "1.IH") (use 2 small x req page in auto)
          have suc: "Suc (nat (advertised_tool_count l + 1) - length (collected @ ts)) \<le> ?n"
            using small x(3) by (cases ts) auto
          have "after (list_pages W fuel d l (collected @ ts) (seen @ [x]) (Some x)) (listing_effect l ?n c) ?t"
            by (rule after_mono [OF IH]) (rule listing_effect_page [OF t(2,1) _ suc])
          with small x show ?thesis by (simp add: page)
        qed
      qed
    qed
  qed
qed

definition page_budget :: "limits \<Rightarrow> nat" where
  "page_budget l = nat (advertised_tool_count l + 1)"

lemma list_and_capture_effect:
  assumes "wf_limits (c_limits c)"
  shows "after (list_and_capture W fuel d) (listing_effect (c_limits c) (page_budget (c_limits c)) c) c"
  unfolding list_and_capture_def page_budget_def
  by (rule after_bind_get) (use list_pages_effect [of "[]" "c_limits c"] wf_limits_bounds [OF assms] in simp)

text \<open>The messages of an initialisation: one \<open>initialize\<close>, then at most \<open>page_budget\<close> listings.\<close>

definition initialize_trace :: "limits \<Rightarrow> (int \<times> string \<times> pyval) list \<Rightarrow> bool" where
  "initialize_trace l xs \<longleftrightarrow> xs = [] \<or> (\<exists>i p ys. xs = (i, ''initialize'', p) # ys
     \<and> (\<forall>y \<in> set ys. fst (snd y) = ''tools/list'') \<and> length ys \<le> page_budget l)"

text \<open>The part of \<open>talks\<close> that also holds when the surface or the grants change.\<close>

definition evolves :: "client \<Rightarrow> client \<Rightarrow> bool" where
  "evolves c c' \<longleftrightarrow> talks (c\<lparr>surface := surface c', authorizations := authorizations c'\<rparr>) c'"

lemma talks_same: "talks c c' \<Longrightarrow> c_limits c' = c_limits c \<and> issuer c' = issuer c \<and> surface c' = surface c
    \<and> authorizations c' = authorizations c"
  by (simp add: talks_def)

lemma talks_evolves: "talks c c' \<Longrightarrow> evolves c c'"
  by (simp add: evolves_def talks_def)

interpretation evolves: step_relation evolves
proof
  show "evolves c c" for c using talks.rel_refl by (simp add: talks_evolves)
  show "evolves a c" if "evolves a b" "evolves b c" for a b c
  proof -
    have "talks (a\<lparr>surface := surface c, authorizations := authorizations c\<rparr>)
            (b\<lparr>surface := surface c, authorizations := authorizations c\<rparr>)"
      using that(1) by (simp add: evolves_def talks_def)
    with that(2) show ?thesis unfolding evolves_def by (blast intro: talks_trans)
  qed
qed

definition initialize_effect :: "client \<Rightarrow> tool_surface outcome \<Rightarrow> client \<Rightarrow> bool" where
  "initialize_effect c r c' \<longleftrightarrow> evolves c c' \<and> authorizations c' = authorizations c
     \<and> (\<exists>xs. sent c' = sent c @ xs \<and> initialize_trace (c_limits c) xs)
     \<and> (case r of Inl e \<Rightarrow> surface c' = surface c | Inr sf \<Rightarrow> surface c' = Some sf \<and> surface_ok (c_limits c) sf)"

lemma initialize_and_capture_effect:
  assumes wf: "wf_limits (c_limits c)"
  shows "after (initialize_and_capture W fuel d) (initialize_effect c) c"
proof -
  have ini: "initialize_effect c (Inl e) t"
    if "talks c t" "sent t = sent c @ xs" "initialize_trace (c_limits c) xs" for t xs e
    using that talks_evolves [OF that(1)] talks_same [OF that(1)] by (auto simp: initialize_effect_def)
  show ?thesis
    unfolding initialize_and_capture_def
  proof (rule after_bind_get, rule after_bindI)
    fix e t
    assume "request W fuel ''initialize'' initialize_params d (mcp_initialize_timeout_ms (c_limits c)) (None :: unit option) c = Some (Inl e, t)"
    then have eff: "request_effect ''initialize'' initialize_params c (Inl e :: unit mcp_response outcome) t" by (rule request_effect)
    then have "sent t = sent c @ [] \<or> sent t = sent c @ [(next_id c, ''initialize'', initialize_params)]"
      by (auto simp: request_effect_def quiet_def numbered_def spoken_def)
    then show "initialize_effect c (Inl e) t"
      using ini [OF request_effect_talks [OF eff]] by (auto simp: initialize_trace_def)
  next
    fix init t
    assume "request W fuel ''initialize'' initialize_params d (mcp_initialize_timeout_ms (c_limits c)) (None :: unit option) c = Some (Inr init, t)"
    from request_Inr(1) [OF this] have t: "talks c t" "sent t = sent c @ [(next_id c, ''initialize'', initialize_params)]"
      by (auto simp: quiet_def spoken_def talks_def)
    have along: "talks c t'" "sent t' = sent c @ [(next_id c, ''initialize'', initialize_params)]"
      if "quiet (t\<lparr>last_initialize := Some init\<rparr>) t'" for t'
    proof -
      have "talks c (t\<lparr>last_initialize := Some init\<rparr>)" using t(1) by (simp add: talks_def)
      then show "talks c t'" by (rule talks_trans) (rule quiet_talks [OF that])
      show "sent t' = sent c @ [(next_id c, ''initialize'', initialize_params)]" using that t(2) by (simp add: quiet_def)
    qed
    have quietly: "initialize_effect c (Inl e) t'" if "quiet (t\<lparr>last_initialize := Some init\<rparr>) t'" for t' e
      by (rule ini [OF along [OF that]]) (simp add: initialize_trace_def)
    have listing: "talks c t'' \<and> (\<exists>xs. sent t'' = sent c @ xs \<and> initialize_trace (c_limits c) xs)"
      if q: "quiet (t\<lparr>last_initialize := Some init\<rparr>) t'" and eff: "listing_effect (c_limits c) (page_budget (c_limits c)) t' r t''"
      for t' r t''
    proof -
      from eff along [OF q] show ?thesis
        by (auto simp: listing_effect_def initialize_trace_def intro: talks_trans)
    qed
    have limits: "c_limits t' = c_limits c" if "quiet (t\<lparr>last_initialize := Some init\<rparr>) t'" for t'
      using that t(1) by (simp add: quiet_def talks_def)
    have captured: "initialize_effect c (Inr sf) (t''\<lparr>surface := Some sf\<rparr>)"
      if "quiet (t\<lparr>last_initialize := Some init\<rparr>) t'" "listing_effect (c_limits c) (page_budget (c_limits c)) t' (Inr sf) t''"
      for t' t'' sf
      using listing [OF that] that(2) by (auto simp: initialize_effect_def listing_effect_def evolves_def talks_def)
    show "after (bindM (modifyM (\<lambda>c. c\<lparr>last_initialize := Some init\<rparr>)) (\<lambda>_.
        bindM (liftM (mcp_closed (response_result init) [''protocolVersion'', ''capabilities'', ''serverInfo'', ''instructions'', ''_meta'']
              [''protocolVersion'', ''capabilities'', ''serverInfo''])) (\<lambda>kvs.
        bindM (checkM (initialize_result_ok kvs) mpf) (\<lambda>_.
        bindM (deadline_timeout W d (mcp_initialize_timeout_ms (c_limits c))) (\<lambda>_.
        bindM (tryM (syscall W) (\<lambda>e. raiseM (if is_os_error e then raises MCP_AMBIGUOUS_COMPLETION else e))) (\<lambda>_.
        bindM (list_and_capture W fuel d) (\<lambda>sf.
        bindM (modifyM (\<lambda>c. c\<lparr>surface := Some sf\<rparr>)) (\<lambda>_. retM sf))))))))
        (initialize_effect c) t"
    proof (rule after_bind_modify, rule after_bind_lift, goal_cases)
      case 1
      show ?case by (rule quietly [OF quiet.rel_refl])
    next
      case 2
      show ?case
      proof (rule after_bind_check, goal_cases)
        case 1
        show ?case by (rule quietly [OF quiet.rel_refl])
      next
        case 2
        show ?case
        proof (rule after_bind_quiet [OF quiet_deadline_timeout], erule quietly, rule after_bind_quiet, blast, goal_cases)
          case (1 _ t1 _ t2)
          then show ?case by (blast intro: quietly quiet.rel_trans)
        next
          case (2 _ t1 _ t2)
          then have q: "quiet (t\<lparr>last_initialize := Some init\<rparr>) t2" by (blast intro: quiet.rel_trans)
          have cap: "listing_effect (c_limits c) (page_budget (c_limits c)) t2 r t3" if "list_and_capture W fuel d t2 = Some (r, t3)" for r t3
            using afterD [OF list_and_capture_effect that] wf limits [OF q] by simp
          show ?case
          proof (rule after_bindI)
            show "initialize_effect c (Inl e) t3" if "list_and_capture W fuel d t2 = Some (Inl e, t3)" for e t3
              using listing [OF q cap [OF that]] by (blast intro: ini)
            show "after (bindM (modifyM (\<lambda>c. c\<lparr>surface := Some sf\<rparr>)) (\<lambda>_. retM sf)) (initialize_effect c) t3"
              if "list_and_capture W fuel d t2 = Some (Inr sf, t3)" for sf t3
              using captured [OF q cap [OF that]] by (simp add: after_simps)
          qed
        qed
      qed
    qed
  qed
qed

subsection \<open>Authorised calls\<close>

text \<open>What justifies a \<open>tools/call\<close> message: the surface, the issued grant and the schema of the tool it names.\<close>

definition justified :: "client \<Rightarrow> authorized_action \<Rightarrow> pyval \<Rightarrow> bool" where
  "justified c a frozen \<longleftrightarrow> aa_issuer a = Some (issuer c)
     \<and> (\<exists>g. authorizations c (aa_handle a) = Some g \<and> grant_eq g (grant_of a))
     \<and> (\<exists>sf tool. surface c = Some sf \<and> aa_surface a = surface_identity sf
          \<and> tool \<in> set (surface_tools sf) \<and> tool_name tool = aa_name a
          \<and> validate_schema (c_limits c) frozen (parameters tool) = Inr ())
     \<and> freeze_json (c_limits c) None 0 (aa_arguments a) = Inr frozen \<and> is_dict frozen
     \<and> dumps frozen = Inr (aa_argument_bytes a) \<and> int (length (aa_argument_bytes a)) \<le> tool_argument_bytes (c_limits c)"

lemma recheck_arguments_Inr:
  "recheck_arguments l a tool = Inr frozen \<Longrightarrow>
     freeze_json l None 0 (aa_arguments a) = Inr frozen \<and> validate_schema l frozen (parameters tool) = Inr ()
     \<and> is_dict frozen \<and> dumps frozen = Inr (aa_argument_bytes a) \<and> int (length (aa_argument_bytes a)) \<le> tool_argument_bytes l"
  by (auto simp: recheck_arguments_def bindE_eq_Inr catchE_eq_Inr simp del: freeze_json.simps dumps.simps)

definition execute_effect :: "world \<Rightarrow> authorized_action \<Rightarrow> client \<Rightarrow> pystr mcp_response outcome \<Rightarrow> client \<Rightarrow> bool" where
  "execute_effect W a c r c' \<longleftrightarrow> talks c c'
     \<and> (sent c' = sent c \<and> (\<exists>e. r = Inl e)
        \<or> (\<exists>frozen. justified c a frozen \<and> next_id c' = next_id c + 1
             \<and> sent c' = sent c @ [(next_id c, ''tools/call'', call_params (aa_name a) frozen)]))
     \<and> (case r of Inl e \<Rightarrow> True | Inr resp \<Rightarrow> request_id resp = next_id c \<and> response_action resp = Some (aa_action a)
          \<and> (\<exists>raw schema. validate_tool_result (w_ucd W) (w_str W) raw (c_limits c) schema = Inr (response_result resp)))"

lemma execute_effect:
  assumes "execute W fuel a d c = Some (r, c')" and "wf_limits (c_limits c)"
  shows "execute_effect W a c r c'"
proof -
  have refuse: "execute_effect W a c (Inl e) c" for e
    by (simp add: execute_effect_def talks.rel_refl)
  have "after (execute W fuel a d) (execute_effect W a c) c"
    unfolding execute_def
  proof (rule after_bind_get, rule after_bind_check, rule refuse, unfold id_apply)
    assume gen: "genuine c a"
    then obtain sf g where sf: "surface c = Some sf" "aa_surface a = surface_identity sf" and g: "authorizations c (aa_handle a) = Some g"
        "grant_eq g (grant_of a)" and iss: "aa_issuer a = Some (issuer c)"
      by (auto simp: genuine_def split: option.splits)
    show "after (case surface c of
       None \<Rightarrow> raiseM (raises LOCAL_AUTHORIZATION_FAILURE)
     | Some sf \<Rightarrow> (case find (\<lambda>x. tool_name x = aa_name a) (surface_tools sf) of
         None \<Rightarrow> raiseM (raises LOCAL_AUTHORIZATION_FAILURE)
       | Some tool \<Rightarrow>
           bindM (liftM (recheck_arguments (c_limits c) a tool)) (\<lambda>frozen.
           bindM (request W fuel ''tools/call'' (call_params (aa_name a) frozen) d (mcp_call_timeout_ms (c_limits c)) (Some a)) (\<lambda>response.
           bindM (liftM (validate_tool_result (w_ucd W) (w_str W) (response_result response) (c_limits c)
                    (output_schema_of sf (aa_name a)))) (\<lambda>result.
           retM \<lparr> request_id = request_id response, response_action = Some (aa_action a), response_result = result,
                  byte_count = byte_count response \<rparr>))))) (execute_effect W a c) c"
    proof (cases "find (\<lambda>x. tool_name x = aa_name a) (surface_tools sf)")
      case None
      with sf refuse show ?thesis by (simp add: after_simps)
    next
      case (Some tool)
      then have tool: "tool \<in> set (surface_tools sf)" "tool_name tool = aa_name a"
        by (auto simp: find_Some_iff)
      have just: "justified c a frozen" if "recheck_arguments (c_limits c) a tool = Inr frozen" for frozen
        using recheck_arguments_Inr [OF that] sf g iss tool unfolding justified_def by blast
      show ?thesis
        unfolding sf Some option.case
      proof (rule after_bind_lift, rule refuse, rule after_bindI, goal_cases)
        case (1 frozen e t)
        then have eff: "request_effect ''tools/call'' (call_params (aa_name a) frozen) c (Inl e :: authorized_action mcp_response outcome) t"
          by (intro request_effect)
        have "sent t = sent c \<or> sent t = sent c @ [(next_id c, ''tools/call'', call_params (aa_name a) frozen)] \<and> next_id t = next_id c + 1"
          using eff by (auto simp: request_effect_def quiet_def numbered_def spoken_def)
        with request_effect_talks [OF eff] just 1 show ?case by (auto simp: execute_effect_def)
      next
        case (2 frozen response t)
        from request_Inr(1) [OF 2(2)] have t: "talks c t" "next_id t = next_id c + 1"
          "sent t = sent c @ [(next_id c, ''tools/call'', call_params (aa_name a) frozen)]"
          by (auto simp: quiet_def spoken_def talks_def)
        from request_Inr(2) [OF 2(2)] assms(2) have "request_id response = next_id c"
          by (auto dest: response_of_line_Inr(1))
        with t just [OF 2(1)] show ?case
          by (intro after_bind_lift) (auto simp: execute_effect_def after_simps)
      qed
    qed
  qed
  from afterD [OF this assms(1)] show ?thesis .
qed

end
