(* ===== verification/Mcp_Client_Laws.thy ===== *)
theory Mcp_Client_Laws
  imports Mcp_Client
begin

text \<open>
  What the stdio client guarantees: line framing loses no byte, every request ends once the clock has
  passed its deadline, shutdown always releases the child, an issued authorisation is accepted and
  nothing else is sent as a tool call, and the invariant of every reachable client.
\<close>

section \<open>Line framing\<close>

text \<open>The bytes of standard output one \<open>select\<close> made available.\<close>

definition stdout_of :: "(bool \<times> read_result) list \<Rightarrow> pybytes" where
  "stdout_of ready = concat (map (\<lambda>(is_out, result). case result of
     Data b \<Rightarrow> if is_out then take 8192 b else [] | _ \<Rightarrow> []) ready)"

lemma stdout_of_simps [simp]:
  "stdout_of [] = []"
  "stdout_of ((is_out, Data b) # ready) = (if is_out then take 8192 b else []) @ stdout_of ready"
  "stdout_of ((is_out, WouldBlock) # ready) = stdout_of ready"
  by (simp_all add: stdout_of_def)

definition unlines :: "pybytes list \<Rightarrow> pybytes" where
  "unlines ls = concat (map (\<lambda>line. line @ [10]) ls)"

definition framed :: "int \<Rightarrow> pybytes list \<Rightarrow> bool" where
  "framed n ls \<longleftrightarrow> (\<forall>line \<in> set ls. 10 \<notin> set line \<and> int (length line) \<le> n)"

lemma split_line:
  assumes "(10 :: nat) \<in> set buf"
  shows "takeWhile (\<lambda>b. b \<noteq> 10) buf @ 10 # tl (dropWhile (\<lambda>b. b \<noteq> 10) buf) = buf"
proof -
  have "dropWhile (\<lambda>b. b \<noteq> 10) buf \<noteq> []" using assms by (auto simp: dropWhile_eq_Nil_conv)
  moreover from hd_dropWhile [OF this] have "hd (dropWhile (\<lambda>b. b \<noteq> 10) buf) = 10" by simp
  ultimately have "10 # tl (dropWhile (\<lambda>b. b \<noteq> 10) buf) = dropWhile (\<lambda>b. b \<noteq> 10) buf" by (metis list.collapse)
  then show ?thesis by simp
qed

lemma take_lines_Inr:
  "take_lines n rs buf = (Inr rs', rest) \<Longrightarrow> framed n rs \<Longrightarrow>
     framed n rs' \<and> 10 \<notin> set rest \<and> int (length rest) \<le> n \<and> unlines rs' @ rest = unlines rs @ buf"
proof (induction n rs buf rule: take_lines.induct)
  case (1 n rs buf)
  let ?line = "takeWhile (\<lambda>b. b \<noteq> 10) buf" and ?rest = "tl (dropWhile (\<lambda>b. b \<noteq> 10) buf)"
  show ?case
  proof (cases "10 \<in> set buf")
    case True
    have "\<not> n < int (length ?line) \<and> take_lines n (rs @ [?line]) ?rest = (Inr rs', rest)"
      using "1.prems"(1) True by (subst (asm) take_lines.simps) (auto simp: Let_def split: if_splits)
    then have len: "\<not> n < int (length ?line)" and rec: "take_lines n (rs @ [?line]) ?rest = (Inr rs', rest)" by auto
    have "framed n (rs @ [?line])" using "1.prems"(2) len by (auto simp: framed_def dest: set_takeWhileD)
    from "1.IH" [OF True refl refl len rec this] split_line [OF True] show ?thesis by (auto simp: unlines_def)
  next
    case False
    with "1.prems" show ?thesis by (subst (asm) take_lines.simps) (auto split: if_splits)
  qed
qed

lemma drain_ready_frames:
  "drain_ready n ready rs c = Some (Inr rs', c') \<Longrightarrow> framed n rs \<Longrightarrow> 10 \<notin> set (out c) \<Longrightarrow> int (length (out c)) \<le> n \<Longrightarrow>
     framed n rs' \<and> 10 \<notin> set (out c') \<and> int (length (out c')) \<le> n
     \<and> unlines rs' @ out c' = unlines rs @ out c @ stdout_of ready \<and> out_total c' = out_total c + length (stdout_of ready)
     \<and> (int (out_total c) \<le> child_stdout_bytes (c_limits c) \<longrightarrow> int (out_total c') \<le> child_stdout_bytes (c_limits c))"
proof (induction n ready rs arbitrary: c rule: drain_ready.induct)
  case (1 n rs)
  then show ?case by simp
next
  case (2 n is_out result ready rs)
  show ?case
  proof (cases "\<exists>b. result = Data b \<and> b \<noteq> []")
    case False
    then consider "result = Data []" | "result = WouldBlock" | "result = ReadError" by (cases result) auto
    then show ?thesis
    proof cases
      case 1
      with "2.prems"(1) have rec: "drain_ready n ready rs c = Some (Inr rs', c')" by simp
      from "2.IH"(1) [OF 1 refl rec "2.prems"(2-)] 1 show ?thesis by auto
    next
      case 2
      with "2.prems"(1) have rec: "drain_ready n ready rs c = Some (Inr rs', c')" by simp
      from "2.IH"(4) [OF 2 rec "2.prems"(2-)] 2 show ?thesis by auto
    next
      case 3
      with "2.prems"(1) show ?thesis by simp
    qed
  next
    case True
    then obtain b where b: "result = Data b" "b \<noteq> []" by blast
    show ?thesis
    proof (cases is_out)
      case False
      with "2.prems"(1) b obtain u where u: "drain_err (take 8192 b) c = Some (Inr (), u)" "drain_ready n ready rs u = Some (Inr rs', c')"
        by (auto simp: bindM_eq_Some)
      then have "out u = out c" "out_total u = out_total c" "c_limits u = c_limits c"
        by (auto simp: drain_err_def bindM_eq_Some)
      with "2.IH"(3) [OF b False u(2)] "2.prems"(2-) b False show ?thesis by auto
    next
      case True
      with "2.prems"(1) b obtain rs1 u where u: "drain_out n (take 8192 b) rs c = Some (Inr rs1, u)" "drain_ready n ready rs1 u = Some (Inr rs', c')"
        by (auto simp: bindM_eq_Some)
      from u(1) have tk: "take_lines n rs (out c @ take 8192 b) = (Inr rs1, out u)"
        and tot: "out_total u = out_total c + length (take 8192 b)" "int (out_total u) \<le> child_stdout_bytes (c_limits c)"
        and lim: "c_limits u = c_limits c"
        by (auto simp: drain_out_def Let_def split: if_splits prod.splits)
      note step = take_lines_Inr [OF tk "2.prems"(2)]
      with "2.IH"(2) [OF b True u(2)] tot lim b True show ?thesis by auto
    qed
  qed
qed

section \<open>Requests end\<close>

lemma loop_free_observe [intro!]: "loop_free (observe f)"
  by (simp add: loop_free_def observe_def)

lemma loop_free_syscall [intro!]: "loop_free (syscall W)"
  unfolding syscall_def by auto

lemma loop_free_deadline_timeout [intro!]: "loop_free (deadline_timeout W d n)"
  unfolding deadline_timeout_def by auto

lemma loop_free_wait [intro!]: "loop_free (wait W t)"
  unfolding wait_def by auto

lemma loop_free_close [intro!]: "loop_free (close W d b)"
  unfolding close_def shutdown_def graceful_wait_def reap_wait_def by auto

lemma loop_free_start [intro!]: "loop_free (start W d)"
  unfolding start_def by auto

lemma loop_free_authorize [intro!]: "loop_free (authorize W a p n v)"
  unfolding authorize_def by auto

lemma loop_free_drain_out [intro!]: "loop_free (drain_out n d rs)"
  by (auto simp: loop_free_def drain_out_def Let_def split: prod.splits)

lemma loop_free_drain_ready [intro!]: "loop_free (drain_ready n ready rs)"
  by (induction n ready rs rule: drain_ready.induct) (auto simp: drain_err_def simp del: eff_simps split: read_result.split)

lemma loop_free_drain [intro!]: "loop_free (drain W t n)"
  unfolding drain_def by auto

text \<open>From the \<open>k\<close>-th reading on, the clock shows that the deadline has passed.\<close>

definition expires :: "world \<Rightarrow> rat \<Rightarrow> nat \<Rightarrow> bool" where
  "expires W deadline k \<longleftrightarrow> (\<forall>n \<ge> k. deadline \<le> w_clock W n)"

lemma quiet_tick: "quiet c c' \<Longrightarrow> tick c \<le> tick c'"
  by (simp add: quiet_def)

lemma deadline_timeout_expired:
  "expires W d k \<Longrightarrow> k \<le> tick c \<Longrightarrow> \<exists>c'. deadline_timeout W d n c = Some (Inl (raises MCP_TIMEOUT), c')"
  by (simp add: deadline_timeout_def observe_def bindM_def expires_def timeout_expired)

lemma await_ends:
  "expires W d k \<Longrightarrow> k < tick c + fuel \<Longrightarrow> 0 < fuel \<Longrightarrow> ends (await W fuel m i st d opr rl sl a) c"
proof (induction fuel arbitrary: c)
  case (Suc fuel)
  show ?case
    unfolding await.simps Let_def
  proof (rule ends_bind, rule loop_freeD, force, rule ends_bind, simp, rule ends_bind, rule loop_freeD, force, rule ends_bind, simp,
      rule ends_bind, simp, rule ends_bind, rule loop_freeD, force, rule ends_bind, rule loop_freeD, force, rule ends_bind, simp,
      rule ends_bind, rule loop_freeD, force, goal_cases)
    case (1 x1 c1 x2 c2 x3 c3 x4 c4 x5 c5 x6 c6 x7 c7 x8 c8 x9 c9)
    then have ticks: "tick c1 = Suc (tick c)" "c2 = c1" "c4 = c3" "c5 = c4" "c8 = c7" "tick c \<le> tick c6"
      by (auto simp: observe_def)
    have "tick c7 \<le> tick c9" using 1(9) quiet.keepsD [OF quiet_drain] quiet_tick ticks by metis
    moreover have "tick c6 \<le> tick c7" using 1(7) quiet.keepsD [OF quiet_deadline_timeout] quiet_tick by blast
    moreover have "tick c < tick c6" using 1 by (auto simp: observe_def)
    moreover have "\<not> k \<le> tick c6" using deadline_timeout_expired [OF Suc.prems(1), of c6 opr] 1(7) by auto
    ultimately have "0 < fuel \<and> k < tick c9 + fuel" using Suc.prems(2) by linarith
    then have "ends (await W fuel m i st d opr rl sl a) c9" using Suc.IH [OF Suc.prems(1)] by blast
    then show ?case
      by (cases x9) (auto intro!: loop_freeD simp del: eff_simps)
  qed
qed simp

lemma request_ends:
  assumes "expires W d k" and "k < fuel"
  shows "ends (request W fuel m p d opr a) c"
  unfolding request_def Let_def write_child_def
  apply (intro ends_bind; (rule loop_freeD, force)?)
  apply (rule await_ends [OF assms(1)])
  using assms(2) by simp_all

lemma list_pages_ends:
  assumes "expires W d k" and "k < fuel"
  shows "ends (list_pages W fuel d l collected seen cursor) c"
  using assms
proof (induction W fuel d l collected seen cursor c rule: list_pages.induct)
  case (1 W fuel d l collected seen cursor c)
  show ?case
    unfolding list_pages_unfold [of W fuel d l collected]
  proof (rule ends_bind, rule request_ends [OF "1.prems"], rule ends_bind, simp, rule ends_bind, simp, goal_cases)
    case (1 listed t u t' page t'')
    have "ends (list_pages W fuel d l (collected @ fst page) (seen @ [x]) (Some x)) t''"
      if "\<not> advertised_tool_count l < int (length collected + length (fst page))" "snd page = Some x"
        "\<not> (x \<in> set seen \<or> fst page = [])" for x
      by (rule "1.IH" [OF 1(1-3) prod.collapse that]) (use "1.prems" in auto)
    then show ?case by (auto simp del: eff_simps split: option.split)
  qed
qed

lemma list_and_capture_ends:
  "expires W d k \<Longrightarrow> k < fuel \<Longrightarrow> ends (list_and_capture W fuel d) c"
  unfolding list_and_capture_def by (rule ends_bind) (auto intro: list_pages_ends)

lemma initialize_and_capture_ends:
  assumes "expires W d k" and "k < fuel"
  shows "ends (initialize_and_capture W fuel d) c"
  unfolding initialize_and_capture_def
  by (intro ends_bind request_ends [OF assms] list_and_capture_ends [OF assms]; (rule loop_freeD, force)?)

lemma execute_ends:
  assumes "expires W d k" and "k < fuel"
  shows "ends (execute W fuel a d) c"
  unfolding execute_def
  by (intro ends_bind; (rule loop_freeD, force)?)
     (auto intro!: ends_bind request_ends [OF assms] split: option.split simp del: eff_simps)

section \<open>Shutdown\<close>

definition released :: "client \<Rightarrow> bool" where
  "released c \<longleftrightarrow> \<not> process c \<and> \<not> selector c"

text \<open>The system calls fail in one way only: with an \<open>OSError\<close>.\<close>

definition os_faults :: "world \<Rightarrow> bool" where
  "os_faults W \<longleftrightarrow> (\<forall>n. case w_fault W n of None \<Rightarrow> True | Some e \<Rightarrow> is_os_error e)"

lemma close_releases:
  assumes "close W d suppress c = Some (r, c')" and "process c \<or> \<not> selector c"
  shows "released c'"
  using assms
  by (auto simp: close_def bindM_eq_Some finallyM_def released_def split: if_splits option.splits sum.splits prod.splits)

lemma raises_observe [intro!]: "raises_only P (observe f)"
  by (simp add: raises_only_def observe_def)

lemma raises_syscall: "os_faults W \<Longrightarrow> (\<And>e. is_os_error e \<Longrightarrow> P e) \<Longrightarrow> raises_only P (syscall W)"
  unfolding syscall_def raises_only_def
  by (auto simp: observe_def bindM_def os_faults_def split: option.splits)

lemma raises_wait: "os_faults W \<Longrightarrow> (\<And>e. is_os_error e \<Longrightarrow> P e) \<Longrightarrow> raises_only P (wait W t)"
  unfolding wait_def by (intro raises_only_bind raises_only_basic raises_syscall)

lemma raises_shutdown: "os_faults W \<Longrightarrow> raises_only is_os_error (shutdown W d True)"
  unfolding shutdown_def graceful_wait_def reap_wait_def
  by (auto intro!: raises_syscall raises_wait split: option.split)

definition shutdown_modes :: "string set" where
  "shutdown_modes = {''none'', ''terminate'', ''kill'', ''unreaped''}"

lemma shutdown_mode: "shutdown W d suppress c = Some (Inr mode, c') \<Longrightarrow> mode \<in> shutdown_modes"
  unfolding shutdown_def by (auto simp: bindM_eq_Some shutdown_modes_def split: if_splits)

lemma close_mode: "close W d suppress c = Some (Inr mode, c') \<Longrightarrow> mode \<in> shutdown_modes"
  by (auto simp: close_def bindM_eq_Some finallyM_def tryM_def shutdown_modes_def dest!: shutdown_mode
      split: if_splits option.splits sum.splits prod.splits)

lemma close_never_raises: "os_faults W \<Longrightarrow> raises_only (\<lambda>_. False) (close W d True)"
  unfolding close_def by (auto intro!: raises_only_try [OF raises_shutdown])

text \<open>Once the clock has passed the deadline, shutdown only polls.\<close>

definition polls :: "client \<Rightarrow> client \<Rightarrow> bool" where
  "polls c c' \<longleftrightarrow> tick c \<le> tick c' \<and> (\<exists>ws. waits c' = waits c @ ws \<and> set ws \<subseteq> {0})"

definition polling :: "nat \<Rightarrow> client \<Rightarrow> client \<Rightarrow> bool" where
  "polling k c c' \<longleftrightarrow> tick c \<le> tick c' \<and> (k \<le> tick c \<longrightarrow> polls c c')"

interpretation polling: step_relation "polling k" for k
  by unfold_locales (auto simp: polling_def polls_def)

lemma polling_observe [intro!]: "polling.keeps k (observe f)"
  by (rule polling.keepsI) (auto simp: observe_def polling_def polls_def)

lemma polling_syscall [intro!]: "polling.keeps k (syscall W)"
  unfolding syscall_def by auto

lemma polling_wait_zero [intro!]: "polling.keeps k (wait W 0)"
  unfolding wait_def by (auto simp: polling_def polls_def)

lemma polling_waits:
  assumes "expires W d k"
  shows "polling.keeps k (graceful_wait W (Some d) n)" and "polling.keeps k (reap_wait W (Some d))"
proof -
  have tick: "tick c \<le> tick c'" if "graceful_wait W (Some d) n c = Some (r, c') \<or> reap_wait W (Some d) c = Some (r, c')" for c r c'
    using that quiet_tick quiet.keepsD [of "graceful_wait W (Some d) n"] quiet.keepsD [of "reap_wait W (Some d)"]
    by (fastforce simp: graceful_wait_def reap_wait_def)
  have late: "\<not> 0 < remaining_ms d (w_clock W (tick c))" if "k \<le> tick c" for c :: client
    using assms that remaining_ms_expired [of d "w_clock W (tick c)"] by (auto simp: expires_def)
  show "polling.keeps k (graceful_wait W (Some d) n)"
  proof (rule polling.keepsI)
    fix c r c' assume g: "graceful_wait W (Some d) n c = Some (r, c')"
    moreover have "polls c c'" if "k \<le> tick c"
      using g late [OF that] by (auto simp: graceful_wait_def observe_def bindM_def polls_def)
    ultimately show "polling k c c'" using tick by (auto simp: polling_def)
  qed
  show "polling.keeps k (reap_wait W (Some d))"
  proof (rule polling.keepsI)
    fix c r c' assume g: "reap_wait W (Some d) c = Some (r, c')"
    moreover have "polls c c'" if "k \<le> tick c"
    proof -
      from g late [OF that] have "wait W 0 (c\<lparr>tick := Suc (tick c)\<rparr>) = Some (r, c')"
        by (auto simp: reap_wait_def observe_def bindM_def)
      from polling.keepsD [OF polling_wait_zero this] that show ?thesis by (fastforce simp: polling_def polls_def)
    qed
    ultimately show "polling k c c'" using tick by (auto simp: polling_def)
  qed
qed

lemma close_only_polls:
  assumes "expires W d k" and "k \<le> tick c" and "close W (Some d) suppress c = Some (r, c')"
  shows "polls c c'"
proof -
  have "polling.keeps k (close W (Some d) suppress)"
    unfolding close_def shutdown_def
    by (auto intro!: polling_waits [OF assms(1)]) (auto simp: polling_def polls_def)
  from polling.keepsD [OF this assms(3)] assms(2) show ?thesis by (simp add: polling_def)
qed

section \<open>Authorisations\<close>

lemma py_eq_list_refl: "(\<And>x. x \<in> set xs \<Longrightarrow> py_eq x x) \<Longrightarrow> py_eq_list xs xs"
  by (induction xs) auto

lemma py_eq_items_refl:
  "(\<forall>(k, v) \<in> set kvs. map_of kvs' k = Some v \<and> py_eq v v) \<Longrightarrow> py_eq_items kvs kvs'"
  by (induction kvs) auto

lemma py_eq_refl: "wf_val v \<Longrightarrow> bounded_json d n m v \<Longrightarrow> py_eq v v"
proof (induction v arbitrary: d)
  case (PDict k kvs)
  have "map_of kvs key = Some v \<and> py_eq v v" if "(key, v) \<in> set kvs" for key v
    using that PDict.prems PDict.IH [OF that _ , of v "d - 1"]
    by (auto simp: map_of_is_SomeI list_all_iff snds.simps)
  then show ?case by (auto intro!: py_eq_items_refl)
next
  case (PList xs)
  then show ?case by (auto intro!: py_eq_list_refl simp: list_all_iff)
next
  case (PTuple xs)
  then show ?case by (auto intro!: py_eq_list_refl simp: list_all_iff)
next
  case (PFloat f)
  then show ?case by (cases f) (auto simp: number_of_def float_extended_def finite_float_def)
qed (auto simp: number_of_def)

lemma freeze_wf_val: "freeze_json l sb d v = Inr r \<Longrightarrow> wf_val v \<Longrightarrow> wf_val r"
proof (induction v arbitrary: d r)
  case (PDict k kvs)
  then obtain kvs' where r: "r = PDict Frozen kvs'" and rel: "list_all2 (frozen_item l sb (Suc d)) kvs kvs'"
    by (auto simp: freeze_dict_Inr simp del: freeze_json.simps)
  have "map fst kvs' = map fst kvs"
    using rel by (induction rule: list_all2_induct) (auto simp: frozen_item_def)
  moreover have "wf_val (snd y)" if "y \<in> set kvs'" for y
    using list_all2_set2 [OF rel that] PDict.IH PDict.prems(2) by (fastforce simp: frozen_item_def snds.simps list_all_iff)
  ultimately show ?case using r PDict.prems(2) by (auto simp: list_all_iff)
next
  case (PList xs)
  then obtain ys where r: "r = PTuple ys" and rel: "list_all2 (\<lambda>x y. freeze_json l sb (Suc d) x = Inr y) xs ys"
    by (auto simp: freeze_seq_Inr simp del: freeze_json.simps)
  have "wf_val y" if "y \<in> set ys" for y
    using list_all2_set2 [OF rel that] PList.IH PList.prems(2) by (auto simp: list_all_iff simp del: freeze_json.simps)
  with r show ?case by (simp add: list_all_iff)
next
  case (PTuple xs)
  then obtain ys where r: "r = PTuple ys" and rel: "list_all2 (\<lambda>x y. freeze_json l sb (Suc d) x = Inr y) xs ys"
    by (auto simp: freeze_seq_Inr simp del: freeze_json.simps)
  have "wf_val y" if "y \<in> set ys" for y
    using list_all2_set2 [OF rel that] PTuple.IH PTuple.prems(2) by (auto simp: list_all_iff simp del: freeze_json.simps)
  with r show ?case by (simp add: list_all_iff)
qed (auto simp: bindE_eq_Inr split: if_splits)

lemma find_SomeD: "find P xs = Some x \<Longrightarrow> x \<in> set xs \<and> P x"
  by (auto simp: find_Some_iff)

text \<open>An authorisation that was granted: what it records and how it changes the client.\<close>

lemma authorize_Inr:
  assumes "authorize W aid pid name args c = Some (Inr a, c')"
  obtains sf tool frozen canon where "surface c = Some sf" and "tool \<in> set (surface_tools sf)" and "tool_name tool = name"
    and "freeze_json (c_limits c) None 0 args = Inr frozen" and "is_dict frozen"
    and "validate_schema (c_limits c) frozen (parameters tool) = Inr ()" and "dumps frozen = Inr canon"
    and "a = \<lparr> aa_surface = surface_identity sf, aa_action = aid, aa_proposal = pid, aa_name = name, aa_arguments = frozen,
       aa_argument_bytes = canon, aa_issuer = Some (issuer c), aa_handle = w_alloc W (tick c) \<rparr>"
    and "c' = c\<lparr>tick := Suc (tick c), authorizations := (authorizations c)(w_alloc W (tick c) \<mapsto> grant_of a)\<rparr>"
proof (cases "surface c")
  case None
  with assms show ?thesis by (simp add: authorize_def bindM_eq_Some)
next
  case (Some sf)
  show ?thesis
  proof (cases "find (\<lambda>x. tool_name x = name) (surface_tools sf)")
    case None
    with assms Some show ?thesis by (auto simp: authorize_def bindM_eq_Some)
  next
    case tool: (Some tool)
    with assms Some obtain frozen canon where "freeze_json (c_limits c) None 0 args = Inr frozen" "is_dict frozen"
      "validate_schema (c_limits c) frozen (parameters tool) = Inr ()" "dumps frozen = Inr canon"
      "a = \<lparr> aa_surface = surface_identity sf, aa_action = aid, aa_proposal = pid, aa_name = name, aa_arguments = frozen,
         aa_argument_bytes = canon, aa_issuer = Some (issuer c), aa_handle = w_alloc W (tick c) \<rparr>"
      "c' = c\<lparr>tick := Suc (tick c), authorizations := (authorizations c)(w_alloc W (tick c) \<mapsto> grant_of a)\<rparr>"
      by (auto simp: authorize_def bindM_eq_Some observe_def grant_of_def simp del: freeze_json.simps dumps.simps)
    with that Some find_SomeD [OF tool] show ?thesis by blast
  qed
qed

lemma authorize_Inl:
  assumes "authorize W aid pid name args c = Some (Inl e, c')"
  shows "c' = c"
  using assms
  by (auto simp: authorize_def bindM_eq_Some observe_def split: option.splits simp del: freeze_json.simps dumps.simps)

lemma authorize_genuine:
  assumes "authorize W aid pid name args c = Some (Inr a, c')" and "wf_val args" and "talks c' c''" and "wf_limits (c_limits c)"
  shows "genuine c'' a"
proof -
  from assms(1) obtain sf tool frozen canon where *: "surface c = Some sf" "freeze_json (c_limits c) None 0 args = Inr frozen"
    "a = \<lparr> aa_surface = surface_identity sf, aa_action = aid, aa_proposal = pid, aa_name = name, aa_arguments = frozen,
       aa_argument_bytes = canon, aa_issuer = Some (issuer c), aa_handle = w_alloc W (tick c) \<rparr>"
    "c' = c\<lparr>tick := Suc (tick c), authorizations := (authorizations c)(w_alloc W (tick c) \<mapsto> grant_of a)\<rparr>"
    by (rule authorize_Inr)
  have "bounded_json (json_nesting_depth (c_limits c)) (object_array_items (c_limits c))
      (max (message_bytes (c_limits c)) (max (tool_argument_bytes (c_limits c)) (tool_definition_bytes (c_limits c)))) frozen"
    using freeze_accepts_iff [of "c_limits c" None _ 0 frozen] freeze_idem [OF *(2)]
    by (auto simp: json_string_limit_def simp del: freeze_json.simps)
  from py_eq_refl [OF freeze_wf_val [OF *(2) assms(2)] this] talks_same [OF assms(3)] *(1,3,4) show ?thesis
    by (simp add: genuine_def grant_eq_def grant_of_def)
qed

section \<open>Reachable clients\<close>

text \<open>The public operations of a client, finished normally or with an exception.\<close>

inductive client_op :: "world \<Rightarrow> client \<Rightarrow> client \<Rightarrow> bool" for W where
  authorize: "authorize W aid pid name args c = Some (r, c') \<Longrightarrow> client_op W c c'"
| initialize: "initialize_and_capture W fuel d c = Some (r, c') \<Longrightarrow> client_op W c c'"
| revalidate: "revalidate_surface W fuel d c = Some (r, c') \<Longrightarrow> client_op W c c'"
| execute: "execute W fuel a d c = Some (r, c') \<Longrightarrow> client_op W c c'"
| close: "close W dl suppress c = Some (r, c') \<Longrightarrow> client_op W c c'"

inductive reachable :: "world \<Rightarrow> limits \<Rightarrow> client \<Rightarrow> bool" for W l where
  fresh: "McpStdioClient iss x args env l = Inr c \<Longrightarrow> reachable W l c"
| step: "reachable W l c \<Longrightarrow> client_op W c c' \<Longrightarrow> reachable W l c'"

text \<open>
  A recorded grant is deeply frozen and carries its own canonical bytes.
\<close>

definition grant_ok :: "grant \<Rightarrow> bool" where
  "grant_ok g = (case g of (sf, a, p, n, v, b) \<Rightarrow> deep_frozen v \<and> is_dict v \<and> dumps v = Inr b)"

text \<open>The environment of the child: no name that looks like a secret or a provider setting, and bounded text.\<close>

definition confined :: "(pystr \<times> pystr) list \<Rightarrow> bool" where
  "confined env \<longleftrightarrow> list_all (\<lambda>(n, s). \<not> protected_name (upper_text n) \<and> 0 \<notin> set s \<and> length (utf8_bytes s) \<le> 4096) env"

lemma environment_confined:
  "build_child_environment u nfkc parent allowlist required (PBool False) p (PInt 4096) = Inr env \<Longrightarrow> confined env"
  using build_entry [of u nfkc parent allowlist required "PBool False" p "PInt 4096" env]
  by (fastforce simp: confined_def list_all_iff truthy_def)

definition client_inv :: "limits \<Rightarrow> client \<Rightarrow> bool" where
  "client_inv l c \<longleftrightarrow> c_limits c = l \<and> confined (c_environment c)
     \<and> (\<exists>k. err c = concat (replicate k REDACTED_MARKER))
     \<and> sorted_wrt (<) (map fst (sent c)) \<and> (\<forall>x \<in> set (sent c). 1 \<le> fst x \<and> fst x < next_id c) \<and> 1 \<le> next_id c
     \<and> (case surface c of None \<Rightarrow> True | Some sf \<Rightarrow> surface_ok l sf)
     \<and> (\<forall>h g. authorizations c h = Some g \<longrightarrow> grant_ok g)"

lemma evolves_inv:
  assumes "client_inv l c" and "evolves c c'"
    and "case surface c' of None \<Rightarrow> True | Some sf \<Rightarrow> surface_ok l sf"
    and "\<forall>h g. authorizations c' h = Some g \<longrightarrow> grant_ok g"
  shows "client_inv l c'"
proof -
  from assms(2) obtain xs where xs: "sent c' = sent c @ xs" "sorted_wrt (<) (map fst xs)"
      "\<forall>x \<in> set xs. next_id c \<le> fst x \<and> fst x < next_id c'" "next_id c \<le> next_id c'"
    by (auto simp: evolves_def talks_def)
  with assms(1) have "sorted_wrt (<) (map fst (sent c'))" "\<forall>x \<in> set (sent c'). 1 \<le> fst x \<and> fst x < next_id c'"
    by (fastforce simp: client_inv_def sorted_wrt_append)+
  moreover have "\<exists>k. err c' = concat (replicate k REDACTED_MARKER)"
    using assms(1,2) markers_append by (auto simp: client_inv_def evolves_def talks_def)
  ultimately show ?thesis using assms xs(4) by (auto simp: client_inv_def evolves_def talks_def)
qed

lemma talks_inv:
  assumes "client_inv l c" and "talks c c'"
  shows "client_inv l c'"
  by (rule evolves_inv [OF assms(1) talks_evolves [OF assms(2)]])
     (use assms(1) talks_same [OF assms(2)] in \<open>simp_all add: client_inv_def\<close>)

lemma inv_limits: "client_inv l c \<Longrightarrow> c_limits c = l"
  by (simp add: client_inv_def)

lemma revalidate_talks:
  assumes "wf_limits (c_limits c)" and "revalidate_surface W fuel d c = Some (r, c')"
  shows "talks c c' \<and> (\<exists>xs. sent c' = sent c @ xs \<and> (\<forall>x \<in> set xs. fst (snd x) = ''tools/list''))"
proof (cases "surface c")
  case None
  with assms(2) show ?thesis by (auto simp: revalidate_surface_def bindM_eq_Some talks.rel_refl)
next
  case (Some sf)
  with assms(2) obtain r0 where "list_and_capture W fuel d c = Some (r0, c')"
    by (auto simp: revalidate_surface_def bindM_eq_Some)
  from afterD [OF list_and_capture_effect [OF assms(1)] this] show ?thesis by (auto simp: listing_effect_def)
qed

lemma client_op_inv:
  assumes "client_op W c c'" and "client_inv l c" and wf: "wf_limits l"
  shows "client_inv l c'"
  using assms(1)
proof cases
  case (authorize aid pid name args r)
  show ?thesis
  proof (cases r)
    case (Inl e)
    with authorize authorize_Inl assms(2) show ?thesis by blast
  next
    case (Inr a)
    from authorize [unfolded Inr] obtain sf tool frozen canon where *: "freeze_json (c_limits c) None 0 args = Inr frozen" "is_dict frozen"
      "dumps frozen = Inr canon" "aa_arguments a = frozen" "aa_argument_bytes a = canon"
      "c' = c\<lparr>tick := Suc (tick c), authorizations := (authorizations c)(w_alloc W (tick c) \<mapsto> grant_of a)\<rparr>"
      by (rule authorize_Inr) simp
    then have "grant_ok (grant_of a)" using freeze_deep_frozen [OF *(1)] by (simp add: grant_ok_def grant_of_def)
    moreover have "evolves c c'" by (simp add: * evolves_def talks_def no_marker)
    ultimately show ?thesis using assms(2) * by (intro evolves_inv [OF assms(2)]) (auto simp: client_inv_def split: if_splits)
  qed
next
  case (initialize fuel d r)
  have "initialize_effect c r c'"
    using afterD [OF initialize_and_capture_effect initialize] assms(2) wf by (simp add: client_inv_def)
  with assms(2) show ?thesis
    by (intro evolves_inv [OF assms(2)]) (auto simp: initialize_effect_def client_inv_def split: sum.splits)
next
  case (revalidate fuel d r)
  then show ?thesis using revalidate_talks talks_inv [OF assms(2)] wf inv_limits [OF assms(2)] by blast
next
  case (execute fuel a d r)
  then show ?thesis using execute_effect [OF execute] talks_inv [OF assms(2)] wf inv_limits [OF assms(2)]
    by (auto simp: execute_effect_def)
next
  case (close dl suppress r)
  from quiet.keepsD [OF quiet_close this] assms(2) show ?thesis by (auto intro: talks_inv quiet_talks)
qed

lemma fresh_inv: "McpStdioClient iss x args env l = Inr c \<Longrightarrow> client_inv l c"
  by (auto simp: McpStdioClient_def client_inv_def bindE_eq_Inr no_marker split: pyval.splits if_splits intro: environment_confined)

lemma reachable_inv: "reachable W l c \<Longrightarrow> wf_limits l \<Longrightarrow> client_inv l c"
  by (induction rule: reachable.induct) (auto intro: fresh_inv client_op_inv)

section \<open>Properties\<close>

text \<open>A quiet world and a client that has captured the sample surface.\<close>

definition sample_world :: world where
  "sample_world = \<lparr> w_clock = of_nat, w_cancelled = (\<lambda>_. True), w_exited = (\<lambda>_. False), w_ready = (\<lambda>_. [(True, Data [97, 10, 98])]),
     w_fault = (\<lambda>_. None), w_alloc = id, w_nesting = 5, w_ucd = sample_ucd, w_str = (\<lambda>_. []) \<rparr>"

definition fresh_client :: client where
  "fresh_client = \<lparr> c_executable = py ''server'', c_arguments = [], c_environment = [], c_limits = DEFAULT_LIMITS, process = False,
     selector = False, surface = None, out = [], err = [], out_total = 0, err_total = 0, next_id = 1, issuer = 7,
     authorizations = (\<lambda>_. None), startup_pending = True, last_initialize = None, last_tools_list = None, tick = 0, sent = [],
     waits = [] \<rparr>"

definition sample_client :: client where
  "sample_client = fresh_client\<lparr>process := True, selector := True, surface := Some sample_surface, next_id := 3\<rparr>"

definition sample_action :: authorized_action where
  "sample_action = \<lparr> aa_surface = surface_identity sample_surface, aa_action = [], aa_proposal = py ''call-1'', aa_name = py ''read'',
     aa_arguments = PDict Frozen [], aa_argument_bytes = py ''{}'', aa_issuer = Some 7, aa_handle = 0 \<rparr>"

definition empty_environment :: process_environment where
  "empty_environment = \<lparr> pe_ucd = plain_ucd, pe_nfkc = id, pe_parent = [], pe_allowlist = [] \<rparr>"

lemma sample_fresh: "McpStdioClient 7 (PStr (py ''server'')) [] empty_environment DEFAULT_LIMITS = Inr fresh_client"
  by (simp add: McpStdioClient_def fresh_client_def py_def empty_environment_def build_child_environment_def value_limit_def texts_of_def
      truthy_def items_of_def map_filter_simps)

lemma sample_frozen_schema: "validate_schema DEFAULT_LIMITS (PDict Frozen []) (parameters sample_tool) = Inr ()"
proof -
  have "schema_type [(SKey (py ''type''), PStr (py ''object''))] = Some ''object''"
    by (simp add: schema_type_def SCHEMA_TYPES_def)
  then have "conforms DEFAULT_LIMITS (PDict Frozen []) (parameters sample_tool)"
    by (subst conforms.simps) (simp add: sample_tool_def schema_value_matches_def enum_ok_def required_present_def get_or_def)
  with sample_schema [OF DEFAULT_LIMITS_wf] show ?thesis by (simp add: validate_schema_Inr)
qed

lemma sample_authorize:
  "authorize sample_world [] (py ''call-1'') (py ''read'') (PDict Plain []) sample_client
     = Some (Inr sample_action, sample_client\<lparr>tick := 1, authorizations := [0 \<mapsto> grant_of sample_action]\<rparr>)"
proof -
  have "find (\<lambda>x. tool_name x = py ''read'') (surface_tools sample_surface) = Some sample_tool"
    by (simp add: sample_surface_def sample_tool_def)
  with sample_frozen_schema show ?thesis
    by (simp add: authorize_def bindM_def observe_def sample_client_def fresh_client_def sample_world_def sample_action_def
        grant_of_def too_deep_def py_def)
qed

text \<open>
  C4: in every client that the public operations can reach from a fresh one, in every world, request ids
  are positive, strictly increasing in the order of sending and below the next id; standard error of the
  child is kept as a sequence of fixed markers only; the child's environment names no secret and no provider
  setting; the captured surface is well formed; every recorded grant
  is deeply frozen and carries its canonical bytes.
\<close>

theorem reachable_clients_are_consistent:
  assumes "reachable W l c" and "wf_limits l"
  shows "client_inv l c"
  using assms by (rule reachable_inv)

theorem reachable_clients_are_consistent_witness:
  "\<exists>c. client_op sample_world fresh_client c \<and> client_inv DEFAULT_LIMITS c"
proof -
  obtain r c where "close sample_world None True fresh_client = Some (r, c)"
    using loop_freeD [OF loop_free_close, of sample_world None True fresh_client] by (auto simp: ends_def)
  then have "client_op sample_world fresh_client c" by (rule client_op.close)
  with reachable_clients_are_consistent [OF reachable.step [OF reachable.fresh [OF sample_fresh]] DEFAULT_LIMITS_wf]
  show ?thesis by blast
qed

text \<open>
  C3: a \<open>tools/call\<close> message is sent by no operation of the client except \<open>execute\<close>, and then once, under the
  next id, for an action that this client issued under the current surface and has on record unchanged, with the
  arguments that were frozen, whose canonical bytes are within the limit and which the schema of the
  named tool accepts.
\<close>

theorem tool_calls_are_justified:
  assumes "client_op W c c'" and "wf_limits (c_limits c)" and "x \<in> set (drop (length (sent c)) (sent c'))" and "fst (snd x) = ''tools/call''"
  shows "\<exists>a frozen. justified c a frozen \<and> x = (next_id c, ''tools/call'', call_params (aa_name a) frozen)
    \<and> sent c' = sent c @ [x]"
  using assms(1)
proof cases
  case (authorize aid pid name args r)
  then have "sent c' = sent c"
    by (cases r) (auto dest: authorize_Inl elim: authorize_Inr)
  with assms(3) show ?thesis by simp
next
  case (initialize fuel d r)
  from afterD [OF initialize_and_capture_effect [OF assms(2)] this] assms(3,4) show ?thesis
    by (auto simp: initialize_effect_def initialize_trace_def)
next
  case (revalidate fuel d r)
  from revalidate_talks [OF assms(2) this] assms(3,4) show ?thesis by auto
next
  case (execute fuel a d r)
  from execute_effect [OF this assms(2)] assms(3) show ?thesis by (auto simp: execute_effect_def) blast
next
  case (close dl suppress r)
  from quiet.keepsD [OF quiet_close this] assms(3) show ?thesis by (simp add: quiet_def)
qed

text \<open>The sample client after the grant, and what its \<open>execute\<close> does in the sample world: the call is sent, then cancelled.\<close>

definition granted_client :: client where
  "granted_client = sample_client\<lparr>tick := 1, authorizations := [0 \<mapsto> grant_of sample_action]\<rparr>"

lemma sample_execute:
  "\<exists>c'. execute sample_world 1 sample_action 9 granted_client = Some (Inl (raises CANCELLED), c')
     \<and> sent c' = [(3, ''tools/call'', call_params (py ''read'') (PDict Frozen []))]"
proof -
  have genuine: "genuine granted_client sample_action"
    using authorize_genuine [OF sample_authorize _ talks.rel_refl] by (simp add: granted_client_def sample_client_def fresh_client_def)
  have recheck: "recheck_arguments DEFAULT_LIMITS sample_action sample_tool = Inr (PDict Frozen [])"
    using sample_frozen_schema by (simp add: recheck_arguments_def sample_action_def too_deep_def py_def)
  have tool: "find (\<lambda>x. tool_name x = py ''read'') (surface_tools sample_surface) = Some sample_tool"
    by (simp add: sample_surface_def sample_tool_def)
  have time: "timeout 9 1 1000 = Inr 1000"
    by (simp add: timeout_def remaining_ms_def trunc_def fl_def binary_exponent_def bit_count.simps pow2_def round_half_even_def)
  obtain b where raw: "request_bytes 3 ''tools/call'' (call_params (py ''read'') (PDict Frozen [])) = Inr b"
      "int (length b) \<le> mcp_request_bytes DEFAULT_LIMITS"
    by (simp add: request_bytes_def call_params_def obj_def py_def key_text_def dumps_str_def escape_char_def dumps_int_def
        MAX_STR_DIGITS_def dec.simps dec_int_def)
  have "surface granted_client = Some sample_surface" "c_limits granted_client = DEFAULT_LIMITS" "aa_name sample_action = py ''read''"
    by (simp_all add: granted_client_def sample_client_def fresh_client_def sample_action_def)
  then have "execute sample_world 1 sample_action 9 granted_client =
      bindM (request sample_world 1 ''tools/call'' (call_params (py ''read'') (PDict Frozen [])) 9 2000 (Some sample_action)) (\<lambda>response.
           bindM (liftM (validate_tool_result sample_ucd (\<lambda>_. []) (response_result response) DEFAULT_LIMITS
                    (output_schema_of sample_surface (py ''read'')))) (\<lambda>result.
           retM \<lparr> request_id = request_id response, response_action = Some (aa_action sample_action), response_result = result,
                  byte_count = byte_count response \<rparr>)) granted_client"
    using genuine recheck tool by (simp add: execute_def bindM_def sample_world_def)
  moreover have "\<exists>c'. request sample_world 1 ''tools/call'' (call_params (py ''read'') (PDict Frozen [])) 9 2000 (Some sample_action) granted_client
      = Some (Inl (raises CANCELLED), c') \<and> sent c' = [(3, ''tools/call'', call_params (py ''read'') (PDict Frozen []))]"
    using time raw
    by (auto simp: request_def bindM_def granted_client_def sample_client_def fresh_client_def deadline_timeout_def observe_def
        sample_world_def write_child_def tryM_def syscall_def Let_def)
  ultimately show ?thesis by (auto simp: bindM_def)
qed

theorem tool_calls_are_justified_witness:
  "\<exists>a frozen. justified granted_client a frozen
     \<and> (3, ''tools/call'', call_params (py ''read'') (PDict Frozen [])) = (next_id granted_client, ''tools/call'', call_params (aa_name a) frozen)"
proof -
  obtain c' where c': "execute sample_world 1 sample_action 9 granted_client = Some (Inl (raises CANCELLED), c')"
      "sent c' = [(3, ''tools/call'', call_params (py ''read'') (PDict Frozen []))]"
    using sample_execute by blast
  have "sent granted_client = []" "wf_limits (c_limits granted_client)"
    by (simp_all add: granted_client_def sample_client_def fresh_client_def)
  with tool_calls_are_justified [OF client_op.execute [OF c'(1)],
      of "(3, ''tools/call'', call_params (py ''read'') (PDict Frozen []))"] c'(2)
  show ?thesis by auto
qed

text \<open>
  an authorisation that a client has granted stays acceptable to it: whatever requests the client makes in between,
  \<open>execute\<close> takes the action for genuine.
\<close>

theorem granted_authorizations_are_accepted:
  assumes "authorize W aid pid name args c = Some (Inr a, c')" and "wf_val args" and "wf_limits (c_limits c)" and "talks c' c''"
  shows "genuine c'' a \<and> aa_name a = name \<and> aa_action a = aid"
  using authorize_genuine [OF assms(1,2,4,3)] assms(1) by (auto elim: authorize_Inr)

theorem granted_authorizations_are_accepted_witness: "genuine granted_client sample_action \<and> aa_name sample_action = py ''read''"
proof -
  have "wf_limits (c_limits sample_client)" by (simp add: sample_client_def fresh_client_def)
  from granted_authorizations_are_accepted [OF sample_authorize _ this talks.rel_refl] show ?thesis
    by (simp add: granted_client_def)
qed

text \<open>
  C11: no request hangs: when the clock shows from some reading on that the deadline has passed, a single request, the
  initialisation with all its listing pages and an executed call end, with a result or an exception,
  within as many rounds of the polling loop as there were readings.
\<close>

theorem requests_end_by_their_deadline:
  assumes "expires W d k" and "k < fuel"
  shows "request W fuel m p d ms act c \<noteq> None \<and> initialize_and_capture W fuel d c \<noteq> None
    \<and> revalidate_surface W fuel d c \<noteq> None \<and> execute W fuel a d c \<noteq> None"
  using request_ends [OF assms] initialize_and_capture_ends [OF assms] execute_ends [OF assms]
    list_and_capture_ends [OF assms, of c]
  by (auto simp: ends_def revalidate_surface_def bindM_def split: option.splits sum.splits)

theorem requests_end_by_their_deadline_witness:
  "expires sample_world 4 4 \<and> initialize_and_capture sample_world 5 4 fresh_client \<noteq> None"
proof -
  have e: "expires sample_world 4 4" by (simp add: expires_def sample_world_def)
  from requests_end_by_their_deadline [OF e, where fuel = 5 and c = fresh_client and m = "''initialize''" and p = PNone and ms = 1
      and act = "None :: unit option" and a = sample_action] e show ?thesis by simp
qed

text \<open>
  C12: reading the child loses and invents no byte. After a drain without an exception, the lines returned (each
  without newline and within the response limit), followed by the kept remainder, are exactly the old remainder followed by the
  bytes read; the remainder holds no newline and is within the limit, and the total stays within the output budget.
\<close>

theorem drain_frames_the_stream:
  assumes "drain W t n c = Some (Inr records, c')" and "10 \<notin> set (out c)" and "int (length (out c)) \<le> n"
    and "int (out_total c) \<le> child_stdout_bytes (c_limits c)"
  shows "framed n records \<and> 10 \<notin> set (out c') \<and> int (length (out c')) \<le> n
    \<and> unlines records @ out c' = out c @ stdout_of (w_ready W (tick c))
    \<and> out_total c' = out_total c + length (stdout_of (w_ready W (tick c)))
    \<and> int (out_total c') \<le> child_stdout_bytes (c_limits c)"
proof -
  from assms(1) obtain c1 where "drain_ready n (w_ready W (tick c)) [] c1 = Some (Inr records, c')"
    "out c1 = out c" "out_total c1 = out_total c" "c_limits c1 = c_limits c"
    by (auto simp: drain_def bindM_eq_Some observe_def)
  with drain_ready_frames [of n "w_ready W (tick c)" "[]" c1 records c'] assms(2-4) show ?thesis
    by (simp add: framed_def unlines_def)
qed

theorem drain_frames_the_stream_witness:
  "\<exists>c'. drain sample_world 0 9 sample_client = Some (Inr [[97]], c') \<and> unlines [[97]] @ out c' = [97, 10, 98]"
proof -
  have "\<exists>c'. drain sample_world 0 9 sample_client = Some (Inr [[97]], c')"
    by (simp add: drain_def bindM_def sample_client_def fresh_client_def sample_world_def observe_def drain_out_def take_lines.simps)
  then obtain c' where c': "drain sample_world 0 9 sample_client = Some (Inr [[97]], c')" by blast
  from drain_frames_the_stream [OF this] c' show ?thesis
    by (simp add: sample_client_def fresh_client_def sample_world_def)
qed

text \<open>
  shutdown returns or raises in every world, and in both cases the client has let go of the child and of the selector; with
  \<open>suppress\<close>, when system calls fail with \<open>OSError\<close> only, it never raises and reports one of its four modes.
\<close>

theorem shutdown_releases_the_child:
  assumes "process c \<or> \<not> selector c"
  shows "\<exists>r c'. close W d suppress c = Some (r, c') \<and> released c'
    \<and> (suppress \<and> os_faults W \<longrightarrow> (\<exists>mode \<in> shutdown_modes. r = Inr mode))"
proof -
  obtain r c' where rc: "close W d suppress c = Some (r, c')"
    using loop_freeD [OF loop_free_close, of W d suppress c] by (auto simp: ends_def)
  moreover have "\<exists>mode \<in> shutdown_modes. r = Inr mode" if "suppress" "os_faults W"
    using rc that raises_onlyD [OF close_never_raises [OF that(2)], of d c] close_mode [of W d suppress c]
    by (cases r) auto
  ultimately show ?thesis using close_releases [OF rc assms] by blast
qed

theorem shutdown_releases_the_child_witness:
  "\<exists>r c'. close sample_world (Some 1) True sample_client = Some (r, c') \<and> released c' \<and> (\<exists>mode \<in> shutdown_modes. r = Inr mode)"
proof -
  have "process sample_client \<or> \<not> selector sample_client" "os_faults sample_world"
    by (simp_all add: sample_client_def os_faults_def sample_world_def)
  with shutdown_releases_the_child [of sample_client sample_world "Some 1" True] show ?thesis by auto
qed

text \<open>
  shutdown does not outlive the orchestration deadline: once the clock shows that it has passed, every wait for the
  child that \<open>close\<close> makes has timeout zero.
\<close>

theorem late_shutdown_only_polls:
  assumes "expires W d k" and "k \<le> tick c" and "close W (Some d) suppress c = Some (r, c')"
  shows "\<exists>ws. waits c' = waits c @ ws \<and> set ws \<subseteq> {0}"
  using close_only_polls [OF assms] by (simp add: polls_def)

theorem late_shutdown_only_polls_witness:
  "\<exists>r c' ws. close sample_world (Some 0) True sample_client = Some (r, c') \<and> waits c' = waits sample_client @ ws \<and> set ws \<subseteq> {0}"
proof -
  obtain r c' where rc: "close sample_world (Some 0) True sample_client = Some (r, c')"
    using loop_freeD [OF loop_free_close, of sample_world "Some 0" True sample_client] by (auto simp: ends_def)
  have "expires sample_world 0 0" by (simp add: expires_def sample_world_def)
  from late_shutdown_only_polls [OF this _ rc] rc show ?thesis by auto
qed

text \<open>
  initialisation sends one \<open>initialize\<close> and then at most one page request more than tools are allowed, and nothing else;
  it keeps every grant; the surface changes exactly when it succeeds, to a well-formed one.
\<close>

theorem initialization_is_bounded:
  assumes "initialize_and_capture W fuel d c = Some (r, c')" and "wf_limits (c_limits c)"
  shows "(\<exists>xs. sent c' = sent c @ xs \<and> initialize_trace (c_limits c) xs) \<and> authorizations c' = authorizations c
    \<and> (case r of Inl e \<Rightarrow> surface c' = surface c | Inr sf \<Rightarrow> surface c' = Some sf \<and> surface_ok (c_limits c) sf)"
  using afterD [OF initialize_and_capture_effect [OF assms(2)] assms(1)] by (simp add: initialize_effect_def)

theorem initialization_is_bounded_witness:
  "\<exists>r c' xs. initialize_and_capture sample_world 5 4 fresh_client = Some (r, c') \<and> sent c' = xs \<and> initialize_trace DEFAULT_LIMITS xs"
proof -
  have "expires sample_world 4 4" by (simp add: expires_def sample_world_def)
  from initialize_and_capture_ends [OF this, of 5 fresh_client] obtain r c' where
    rc: "initialize_and_capture sample_world 5 4 fresh_client = Some (r, c')" by (auto simp: ends_def)
  from initialization_is_bounded [OF this] rc show ?thesis by (simp add: fresh_client_def)
qed

end
