(* ===== verification/Transcript.thy ===== *)
theory Transcript
  imports Contracts Redaction
begin

text \<open>
  The transcripts of \<open>transcript.py\<close>: \<open>TranscriptEvent\<close> with its validation, serialization and parser;
  \<open>BoundedTranscript\<close>, the append-only control log that reserves room for its terminal marker; and
  \<open>parse_bounded_transcript\<close> with its correlation state. The lemmas show the size bounds of every
  reachable log, that a limited log is final, that an accepted transcript has every piece of
  evidence behind an authorization, a request and a response, and that the log's own bytes are
  accepted exactly when its events are correlated.
\<close>

section \<open>Definitions\<close>

subsection \<open>Transcript events\<close>

definition SAFE_ID :: regex where
  "SAFE_ID = head_class ascii_alnum name_char (Some 63)"

definition SAFE_METADATA_KEYS :: "string list" where
  "SAFE_METADATA_KEYS = [''mode'', ''phase'', ''source'', ''reason'', ''status'', ''retry'', ''category'',
     ''provider'', ''operation'']"

definition SUSPICIOUS :: "string list" where
  "SUSPICIOUS = [''authorization'', ''proxy-authorization'', ''bearer'', ''api-key'', ''api-'', ''apikey'', ''sk-'',
     ''password'', ''secret'', ''token'']"

definition suspicious :: "pystr \<Rightarrow> bool" where
  "suspicious lowered \<longleftrightarrow> list_ex (\<lambda>m. has_sub (py m) lowered) SUSPICIOUS"

definition safe_identity :: "pyval \<Rightarrow> pystr outcome" where
  "safe_identity v = (case v of
      PStr s \<Rightarrow>
        (case utf8_encode s of
           None \<Rightarrow> Inl lvf
         | Some b \<Rightarrow>
             if \<not> fullmatch SAFE_ID s \<or> length b < 1 \<or> 64 < length b then Inl lvf
             else if suspicious (lower_ascii s) \<or> list_all ascii_digit s then Inl lvf
             else Inr s)
    | _ \<Rightarrow> Inl lvf)"

definition metadata_item :: "ucd \<Rightarrow> pykey \<times> pyval \<Rightarrow> unit outcome" where
  "metadata_item u kv = (case kv of
      (SKey k, PStr s) \<Rightarrow>
        if k \<notin> py ` set SAFE_METADATA_KEYS then Inl lvf
        else (case utf8_encode s of
            None \<Rightarrow> Inl lvf
          | Some b \<Rightarrow>
              if s = [] \<or> message_bytes HARD_LIMITS < int (length b) \<or> list_ex (\<lambda>c. c < 32 \<or> c = 127) s then Inl lvf
              else if suspicious (py_lower u s) \<or> starts_with [47] s \<or> list_ex (py_space u) s then Inl lvf
              else Inr ())
    | _ \<Rightarrow> Inl lvf)"

definition check_metadata :: "ucd \<Rightarrow> pyval \<Rightarrow> int \<Rightarrow> pyval outcome" where
  "check_metadata u v limit =
     bindE (checkE (is_mapping v \<and> int (length (items_of v)) \<le> limit) lvf) (\<lambda>_.
     bindE (iterE (metadata_item u) (items_of v)) (\<lambda>_.
     Inr (PDict Frozen (items_of v))))"

record transcript_event =
  event_name :: pystr
  adapter :: pystr
  event_model :: pystr
  event_correlation :: pystr
  provenance :: evidence_provenance
  proposal_ids :: "pystr list"
  event_failure :: "failure_class option"
  retry_eligible :: "bool option"
  byte_count :: int
  metadata :: pyval

definition check_byte_count :: "pyval \<Rightarrow> int outcome" where
  "check_byte_count v = (case v of PInt n \<Rightarrow> if 0 \<le> n \<and> n \<le> 524288 then Inr n else Inl lvf | _ \<Rightarrow> Inl lvf)"

definition check_retry_flag :: "pyval \<Rightarrow> bool option outcome" where
  "check_retry_flag v = (case v of PNone \<Rightarrow> Inr None | PBool b \<Rightarrow> Inr (Some b) | _ \<Rightarrow> Inl lvf)"

definition TranscriptEvent ::
    "ucd \<Rightarrow> pyval \<Rightarrow> pyval \<Rightarrow> pyval \<Rightarrow> pystr \<Rightarrow> evidence_provenance \<Rightarrow> pystr list \<Rightarrow> failure_class option
     \<Rightarrow> pyval \<Rightarrow> pyval \<Rightarrow> pyval \<Rightarrow> transcript_event outcome" where
  "TranscriptEvent u ev ad md cid prov ids fc retry bytes meta =
     bindE (safe_identity ev) (\<lambda>e.
     bindE (safe_identity ad) (\<lambda>a.
     bindE (model_as LOCAL_VALIDATION_FAILURE md) (\<lambda>m.
     bindE (checkE (int (length ids) \<le> proposed_tool_call_count HARD_LIMITS \<and> distinct ids) lvf) (\<lambda>_.
     bindE (check_retry_flag retry) (\<lambda>r.
     bindE (check_byte_count bytes) (\<lambda>n.
     bindE (check_metadata u meta (object_array_items HARD_LIMITS)) (\<lambda>mt.
     Inr \<lparr> event_name = e, adapter = a, event_model = m, event_correlation = cid, provenance = prov,
           proposal_ids = ids, event_failure = fc, retry_eligible = r, byte_count = n, metadata = mt \<rparr>)))))))"

definition event_value :: "ucd \<Rightarrow> (nat \<Rightarrow> pystr) \<Rightarrow> transcript_event \<Rightarrow> pyval" where
  "event_value u tostr e = obj
     ([(''schemaVersion'', PInt 1), (''event'', PStr (event_name e)), (''adapter'', PStr (adapter e)),
       (''model'', PStr (event_model e)), (''correlationId'', PStr (event_correlation e)),
       (''provenance'', PStr (py (provenance_value (provenance e)))),
       (''proposalIds'', PList (map PStr (proposal_ids e))), (''byteCount'', PInt (byte_count e)),
       (''metadata'', redact_json u tostr [] 4096 (metadata e))]
      @ (case event_failure e of None \<Rightarrow> [] | Some c \<Rightarrow> [(''failureClass'', PStr (py (failure_value c)))])
      @ (case retry_eligible e of None \<Rightarrow> [] | Some b \<Rightarrow> [(''retryEligible'', PBool b)]))"

definition metadata_within :: "limits \<Rightarrow> pyval \<Rightarrow> unit outcome" where
  "metadata_within l v = iterE (\<lambda>(k, s). case s of
      PStr t \<Rightarrow> (case utf8_encode t of
          None \<Rightarrow> Inl UnicodeEncodeError
        | Some b \<Rightarrow> checkE (int (length b) \<le> message_bytes l) lvf)
    | _ \<Rightarrow> Inl AttributeError) (items_of v)"

definition event_to_json_bytes :: "ucd \<Rightarrow> (nat \<Rightarrow> pystr) \<Rightarrow> transcript_event \<Rightarrow> limits \<Rightarrow> pybytes outcome" where
  "event_to_json_bytes u tostr e l =
     bindE (safe_identity (PStr (event_name e))) (\<lambda>_.
     bindE (safe_identity (PStr (adapter e))) (\<lambda>_.
     bindE (ModelIdentifier (PStr (event_model e))) (\<lambda>_.
     bindE (canonical_correlation_id (PStr (event_correlation e))) (\<lambda>_.
     bindE (iterE (\<lambda>i. bindE (require_canonical (PStr i)) (\<lambda>_. Inr ())) (proposal_ids e)) (\<lambda>_.
     bindE (check_byte_count (PInt (byte_count e))) (\<lambda>_.
     bindE (checkE (int (length (proposal_ids e)) \<le> proposed_tool_call_count l) lvf) (\<lambda>_.
     bindE (check_metadata u (metadata e) (object_array_items l)) (\<lambda>mt.
     bindE (metadata_within l mt) (\<lambda>_.
     bindE (dumps (event_value u tostr (e\<lparr>metadata := mt\<rparr>))) (\<lambda>b.
     bindE (checkE (int (length b) \<le> transcript_bytes l) (raises OVERSIZED_RESPONSE)) (\<lambda>_.
     Inr b)))))))))))"

definition EVENT_REQUIRED :: "string list" where
  "EVENT_REQUIRED = [''schemaVersion'', ''event'', ''adapter'', ''model'', ''correlationId'', ''provenance'',
     ''proposalIds'', ''byteCount'', ''metadata'']"

definition EVENT_ALLOWED :: "string list" where
  "EVENT_ALLOWED = EVENT_REQUIRED @ [''failureClass'', ''retryEligible'']"

definition parse_event_fields :: "ucd \<Rightarrow> items \<Rightarrow> limits \<Rightarrow> transcript_event outcome" where
  "parse_event_fields u kvs l =
     bindE (checkE (keyset_within kvs EVENT_ALLOWED \<and> has_all kvs EVENT_REQUIRED
        \<and> dget kvs ''schemaVersion'' = Some (PInt 1)) lvf) (\<lambda>_.
     let ids = get_or kvs ''proposalIds'' PNone; count = get_or kvs ''byteCount'' PNone in
     bindE (checkE (is_list ids \<and> int (length (elems ids)) \<le> proposed_tool_call_count l) lvf) (\<lambda>_.
     bindE (checkE (case count of PInt n \<Rightarrow> 0 \<le> n | _ \<Rightarrow> False) lvf) (\<lambda>_.
     bindE (check_metadata u (get_or kvs ''metadata'' PNone) (object_array_items l)) (\<lambda>mt.
     bindE (mapE require_canonical (elems ids)) (\<lambda>proposals.
     bindE (case dget kvs ''failureClass'' of
              None \<Rightarrow> Inr None
            | Some (PStr s) \<Rightarrow> (case failure_of_value s of None \<Rightarrow> Inl ValueError | Some c \<Rightarrow> Inr (Some c))
            | Some _ \<Rightarrow> Inl ValueError) (\<lambda>fc.
     bindE (canonical_correlation_id (get_or kvs ''correlationId'' PNone)) (\<lambda>cid.
     bindE (case get_or kvs ''provenance'' PNone of
              PStr s \<Rightarrow> (case provenance_of_value s of None \<Rightarrow> Inl ValueError | Some p \<Rightarrow> Inr p)
            | _ \<Rightarrow> Inl ValueError) (\<lambda>prov.
     TranscriptEvent u (get_or kvs ''event'' PNone) (get_or kvs ''adapter'' PNone) (get_or kvs ''model'' PNone) cid prov
       proposals fc (get_or kvs ''retryEligible'' PNone) count mt))))))))"

text \<open>The handler of \<open>parse_transcript\<close>: what is no \<open>ProviderError\<close> becomes a local validation failure.\<close>

definition as_local_failure :: "exn \<Rightarrow> exn" where
  "as_local_failure e =
     (if e \<in> {AttributeError, KeyError, TypeError, ValueError, UnicodeEncodeError, OverflowError, RecursionError}
      then lvf else e)"

definition parse_transcript :: "nat \<Rightarrow> ucd \<Rightarrow> pyval \<Rightarrow> limits \<Rightarrow> transcript_event outcome" where
  "parse_transcript rd u raw l =
     bindE (case raw of
              PBytes b \<Rightarrow> Inr b
            | PStr s \<Rightarrow> (case utf8_encode s of None \<Rightarrow> Inl (raises MALFORMED_JSON) | Some b \<Rightarrow> Inr b)
            | _ \<Rightarrow> Inl (raises MALFORMED_JSON)) (\<lambda>encoded.
     bindE (checkE (int (length encoded) \<le> transcript_bytes l) (raises OVERSIZED_RESPONSE)) (\<lambda>_.
     catchE
       (bindE (parse_closed_json rd (PBytes encoded) l (Some (transcript_bytes l)) None) (\<lambda>v.
        bindE (checkE (is_dict v) lvf) (\<lambda>_. parse_event_fields u (items_of v) l)))
       (\<lambda>e. Inl (as_local_failure e))))"

subsection \<open>The bounded control transcript\<close>

definition TRANSCRIPT_SCHEMA :: "(string \<times> string list) list" where
  "TRANSCRIPT_SCHEMA =
    [(''process_start'', []), (''initialize_request'', []), (''initialize_response'', [''response'']),
     (''initialized_notification'', []), (''tools_list_request'', []), (''tools_list_response'', [''response'']),
     (''surface_captured'', [''surface'']), (''surface_revalidated'', [''surface'']),
     (''provider_turn_start'', [''turn'', ''bytes'']), (''provider_turn_response'', [''turn'', ''bytes'']),
     (''proposal_rejected'', [''proposal'']), (''proposal_duplicate'', [''proposal'']),
     (''authorized'', [''action'', ''proposal'']), (''mcp_request'', [''action'', ''response'']),
     (''mcp_response'', [''action'', ''response'']), (''evidence_validated'', [''action'', ''response'']),
     (''skipped'', [''proposal'']), (''deadline'', []), (''cancelled'', []), (''failure'', [''failure'']),
     (''shutdown_start'', []), (''shutdown_terminate'', []), (''shutdown_kill'', []), (''shutdown_complete'', []),
     (''shutdown_unreaped'', []), (''outcome'', [''outcome'']), (''transcript_limit'', []),
     (''surface'', [''surface'']), (''provider_turn'', [''turn'', ''bytes'']), (''failed'', [''failure'', ''action''])]"

text \<open>
  \<open>event in _TRANSCRIPT_EVENTS\<close> and the key set the schema asks for. The source keeps the names in a
  set beside the schema, with the same members.
\<close>

definition schema_keys_ok :: "string \<Rightarrow> pykey set \<Rightarrow> bool" where
  "schema_keys_ok event ks = (case map_of TRANSCRIPT_SCHEMA event of
      None \<Rightarrow> False
    | Some req \<Rightarrow> ks = (\<lambda>s. SKey (py s)) ` set req \<or> (event = ''failed'' \<and> ks = {SKey (py ''failure'')}))"

record control_event =
  ce_event :: string
  ce_metadata :: "(string \<times> pystr) list"

record bounded_transcript =
  bt_limits :: limits
  bt_events :: "control_event list"
  bt_limited :: bool

definition BoundedTranscript :: "limits \<Rightarrow> bounded_transcript" where
  "BoundedTranscript l = \<lparr> bt_limits = l, bt_events = [], bt_limited = False \<rparr>"

definition terminal_event :: control_event where
  "terminal_event = \<lparr> ce_event = ''transcript_limit'', ce_metadata = [] \<rparr>"

definition control_value :: "control_event \<Rightarrow> pyval" where
  "control_value e = obj [(''event'', PStr (py (ce_event e))),
     (''metadata'', obj (map (\<lambda>(k, s). (k, PStr s)) (ce_metadata e)))]"

definition transcript_value :: "control_event list \<Rightarrow> bool \<Rightarrow> pyval" where
  "transcript_value es limited = obj [(''schemaVersion'', PInt 2), (''events'', PList (map control_value es)),
     (''limited'', PBool limited)]"

definition encode_transcript :: "control_event list \<Rightarrow> bool \<Rightarrow> pybytes outcome" where
  "encode_transcript es limited = dumps (transcript_value es limited)"

text \<open>The value check of \<open>add\<close>: \<open>None\<close> is the refusal.\<close>

definition control_text :: "pyval \<Rightarrow> pystr option" where
  "control_text v = (case v of
      PStr s \<Rightarrow>
        if s = [] \<or> \<not> isascii s \<or> 64 < length s then None
        else if suspicious (lower_ascii s) \<or> starts_with [47] s \<or> 92 \<in> set s then Some (py ''redacted'')
        else Some s
    | _ \<Rightarrow> None)"

definition control_item :: "string \<times> pyval \<Rightarrow> (string \<times> pystr) outcome" where
  "control_item kv = (case control_text (snd kv) of None \<Rightarrow> Inl lvf | Some s \<Rightarrow> Inr (fst kv, s))"

text \<open>A call with a repeated keyword is Python's own \<open>TypeError\<close>.\<close>

definition add :: "bounded_transcript \<Rightarrow> string \<times> (string \<times> pyval) list \<Rightarrow> bounded_transcript outcome" where
  "add t call = (case call of (event, kwargs) \<Rightarrow>
     bindE (checkE (distinct (map fst kwargs)) TypeError) (\<lambda>_.
     if bt_limited t then Inr t
     else
       bindE (checkE (schema_keys_ok event ((\<lambda>(k, v). SKey (py k)) ` set kwargs)) lvf) (\<lambda>_.
       bindE (mapE control_item kwargs) (\<lambda>values.
       let candidate = bt_events t @ [\<lparr> ce_event = event, ce_metadata = values \<rparr>] in
       bindE (encode_transcript (candidate @ [terminal_event]) True) (\<lambda>b.
       if event \<noteq> ''transcript_limit'' \<and> int (length candidate) < transcript_event_count (bt_limits t)
            \<and> int (length b) \<le> transcript_bytes (bt_limits t)
       then Inr (t\<lparr>bt_events := candidate\<rparr>)
       else
         bindE (encode_transcript (bt_events t @ [terminal_event]) True) (\<lambda>b'.
         if transcript_bytes (bt_limits t) < int (length b') then Inl (raises OVERSIZED_RESPONSE)
         else Inr (t\<lparr>bt_events := bt_events t @ [terminal_event], bt_limited := True\<rparr>)))))))"

definition transcript_to_json_bytes :: "bounded_transcript \<Rightarrow> pybytes outcome" where
  "transcript_to_json_bytes t = encode_transcript (bt_events t) (bt_limited t)"

subsection \<open>Parsing a control transcript\<close>

record correlation =
  authorized_actions :: "pystr set"
  requested_pairs :: "(pystr \<times> pystr) set"
  responded_pairs :: "(pystr \<times> pystr) set"
  evidenced_pairs :: "(pystr \<times> pystr) set"
  request_actions :: "pystr set"
  request_responses :: "pystr set"

definition no_correlation :: correlation where
  "no_correlation = \<lparr> authorized_actions = {}, requested_pairs = {}, responded_pairs = {}, evidenced_pairs = {},
     request_actions = {}, request_responses = {} \<rparr>"

definition meta :: "(string \<times> pystr) list \<Rightarrow> string \<Rightarrow> pystr" where
  "meta m k = (case map_of m k of None \<Rightarrow> [] | Some s \<Rightarrow> s)"

definition correlate :: "correlation \<Rightarrow> control_event \<Rightarrow> correlation outcome" where
  "correlate c e =
     (let a = meta (ce_metadata e) ''action''; r = meta (ce_metadata e) ''response'' in
      if ce_event e = ''authorized'' then
        (if a \<in> authorized_actions c then Inl lvf
         else Inr (c\<lparr>authorized_actions := insert a (authorized_actions c)\<rparr>))
      else if ce_event e = ''mcp_request'' then
        (if a \<notin> authorized_actions c \<or> (a, r) \<in> requested_pairs c \<or> a \<in> request_actions c
            \<or> r \<in> request_responses c
         then Inl lvf
         else Inr (c\<lparr>requested_pairs := insert (a, r) (requested_pairs c),
                     request_actions := insert a (request_actions c),
                     request_responses := insert r (request_responses c)\<rparr>))
      else if ce_event e = ''mcp_response'' then
        (if (a, r) \<notin> requested_pairs c \<or> (a, r) \<in> responded_pairs c then Inl lvf
         else Inr (c\<lparr>responded_pairs := insert (a, r) (responded_pairs c)\<rparr>))
      else if ce_event e = ''evidence_validated'' then
        (if (a, r) \<notin> responded_pairs c \<or> (a, r) \<in> evidenced_pairs c then Inl lvf
         else Inr (c\<lparr>evidenced_pairs := insert (a, r) (evidenced_pairs c)\<rparr>))
      else Inr c)"

text \<open>
  The shape test of one item. Membership of an unhashable value in a set raises \<open>TypeError\<close>; the
  parser has no handler for it.
\<close>

definition hashable :: "pyval \<Rightarrow> bool" where
  "hashable v = (case v of PList _ \<Rightarrow> False | PDict _ _ \<Rightarrow> False | _ \<Rightarrow> True)"

definition event_of_name :: "pystr \<Rightarrow> string option" where
  "event_of_name s = find (\<lambda>n. py n = s) (map fst TRANSCRIPT_SCHEMA)"

definition metadata_texts :: "items \<Rightarrow> (string \<times> pystr) list option" where
  "metadata_texts kvs = those (map (\<lambda>(k, v). case (k, v) of
      (SKey s, PStr t) \<Rightarrow> if length t \<le> 64
        then map_option (\<lambda>n. (n, t)) (find (\<lambda>n. py n = s) [''surface'', ''turn'', ''bytes'', ''action'', ''proposal'',
               ''response'', ''failure'', ''outcome'']) else None
    | _ \<Rightarrow> None) kvs)"

definition parse_control_item :: "pyval \<Rightarrow> control_event outcome" where
  "parse_control_item item =
     bindE (checkE (is_dict item \<and> fst ` set (items_of item) = {SKey (py ''event''), SKey (py ''metadata'')}) lvf) (\<lambda>_.
     let ev = get_or (items_of item) ''event'' PNone; md = get_or (items_of item) ''metadata'' PNone in
     bindE (checkE (hashable ev) TypeError) (\<lambda>_.
     case ev of
       PStr s \<Rightarrow> (case event_of_name s of
           None \<Rightarrow> Inl lvf
         | Some n \<Rightarrow>
             bindE (checkE (is_dict md \<and> schema_keys_ok n (fst ` set (items_of md))) lvf) (\<lambda>_.
             case metadata_texts (items_of md) of
               None \<Rightarrow> Inl lvf
             | Some ms \<Rightarrow> Inr \<lparr> ce_event = n, ce_metadata = ms \<rparr>))
     | _ \<Rightarrow> Inl lvf))"

definition parse_control_step :: "correlation \<times> control_event list \<Rightarrow> pyval \<Rightarrow> (correlation \<times> control_event list) outcome" where
  "parse_control_step s item = (case s of (c, acc) \<Rightarrow>
     bindE (parse_control_item item) (\<lambda>e.
     bindE (correlate c e) (\<lambda>c'. Inr (c', acc @ [e]))))"

definition terminal_indexes :: "control_event list \<Rightarrow> nat list" where
  "terminal_indexes es = filter (\<lambda>i. ce_event (es ! i) = ''transcript_limit'') [0..<length es]"

definition parse_bounded_transcript :: "nat \<Rightarrow> pyval \<Rightarrow> limits \<Rightarrow> control_event list outcome" where
  "parse_bounded_transcript rd raw l =
     bindE (replace_limits l [(''object_array_items'', PInt (max (object_array_items l) (transcript_event_count l)))]) (\<lambda>cl.
     bindE (parse_closed_json rd raw cl (Some (transcript_bytes l)) None) (\<lambda>v.
     bindE (checkE (is_dict v
        \<and> fst ` set (items_of v) = {SKey (py ''schemaVersion''), SKey (py ''events''), SKey (py ''limited'')}
        \<and> py_eq (get_or (items_of v) ''schemaVersion'' PNone) (PInt 2)
        \<and> is_bool (get_or (items_of v) ''limited'' PNone) \<and> is_list (get_or (items_of v) ''events'' PNone)
        \<and> int (length (elems (get_or (items_of v) ''events'' PNone))) \<le> transcript_event_count l) lvf) (\<lambda>_.
     bindE (runE parse_control_step (no_correlation, []) (elems (get_or (items_of v) ''events'' PNone))) (\<lambda>(c, es).
     bindE (checkE (if get_or (items_of v) ''limited'' PNone = PBool True
                    then es \<noteq> [] \<and> terminal_indexes es = [length es - 1] else terminal_indexes es = []) lvf) (\<lambda>_.
     Inr es)))))"

section \<open>Specification\<close>

text \<open>The events that a log can hold.\<close>

definition wf_control :: "control_event \<Rightarrow> bool" where
  "wf_control e \<longleftrightarrow> schema_keys_ok (ce_event e) ((\<lambda>(k, s). SKey (py k)) ` set (ce_metadata e))
     \<and> distinct (map fst (ce_metadata e))
     \<and> (\<forall>(k, s) \<in> set (ce_metadata e). s \<noteq> [] \<and> isascii s \<and> length s \<le> 64)"

definition encoded_length :: "control_event list \<Rightarrow> bool \<Rightarrow> nat" where
  "encoded_length es limited = (case encode_transcript es limited of Inr b \<Rightarrow> length b | Inl _ \<Rightarrow> 0)"

definition is_terminal :: "control_event \<Rightarrow> bool" where
  "is_terminal e \<longleftrightarrow> ce_event e = ''transcript_limit''"

text \<open>The invariant of a log under the limits \<open>l\<close>: its events are well formed, it stays within the count and byte
  limits with room for the marker, and it is limited exactly when the marker ends it.\<close>

definition bt_inv :: "limits \<Rightarrow> bounded_transcript \<Rightarrow> bool" where
  "bt_inv l t \<longleftrightarrow> bt_limits t = l \<and> (\<forall>e \<in> set (bt_events t). wf_control e)
     \<and> (if bt_limited t
        then (\<exists>es. bt_events t = es @ [terminal_event] \<and> (\<forall>e \<in> set es. \<not> is_terminal e))
          \<and> int (length (bt_events t)) \<le> max 1 (transcript_event_count l)
          \<and> int (encoded_length (bt_events t) True) \<le> transcript_bytes l
        else (\<forall>e \<in> set (bt_events t). \<not> is_terminal e)
          \<and> (bt_events t = [] \<or> int (length (bt_events t)) < transcript_event_count l
              \<and> int (encoded_length (bt_events t @ [terminal_event]) True) \<le> transcript_bytes l))"

section \<open>Lemmas\<close>

subsection \<open>The text of a log\<close>

definition control_dump :: "control_event \<Rightarrow> pystr" where
  "control_dump e = (case dumps (control_value e) of Inr t \<Rightarrow> t | Inl _ \<Rightarrow> [])"

lemma dumps_total_str: "\<exists>t. dumps (obj (map (\<lambda>(k, s). (k, PStr s)) m)) = Inr t"
proof -
  have "\<exists>ts. mapE (\<lambda>(key, v). bindE (key_text key) (\<lambda>t. bindE (dumps v) (\<lambda>d. Inr (t, d))))
      (map (\<lambda>(k, v). (SKey (py k), v)) (map (\<lambda>(k, s). (k, PStr s)) m)) = Inr ts"
    unfolding mapE_Inr_exists by (auto simp: key_text_def)
  then show ?thesis by (auto simp: obj_def simp del: map_map)
qed

lemma dumps_control: "dumps (control_value e) = Inr (control_dump e)"
proof -
  obtain t where "dumps (obj (map (\<lambda>(k, s). (k, PStr s)) (ce_metadata e))) = Inr t" using dumps_total_str by blast
  then show ?thesis
    by (simp add: control_dump_def control_value_def obj_def [of "[(''event'', _), (''metadata'', _)]"] key_text_def)
qed

lemma encode_transcript_eq:
  "encode_transcript es limited = Inr (py ''{\"events\":['' @ join (map control_dump es) @ py ''],\"limited\":''
     @ py (if limited then ''true'' else ''false'') @ py '',\"schemaVersion\":2}'')"
proof -
  have "mapE dumps (map control_value es) = Inr (map control_dump es)"
    by (induction es) (simp_all add: dumps_control)
  then show ?thesis
    by (simp add: encode_transcript_def transcript_value_def obj_def key_text_def dumps_str_def escape_char_def py_def
        dumps_int_def dec_int_def dec.simps MAX_STR_DIGITS_def)
qed

lemma encode_transcript_Inr:
  obtains b where "encode_transcript es limited = Inr b" and "length b = encoded_length es limited"
  by (simp add: encoded_length_def encode_transcript_eq)

lemma length_join_snoc: "length (join (xs @ [x])) = length (join xs) + (if xs = [] then 0 else 1) + length x"
  by (induction xs rule: join.induct) auto

lemma encoded_length_eq:
  "encoded_length es limited = length (join (map control_dump es)) + (if limited then 46 else 47)"
  by (simp add: encoded_length_def encode_transcript_eq)

lemma encoded_length_terminal: "encoded_length es False \<le> encoded_length (es @ [terminal_event]) True"
proof -
  have "1 \<le> length (control_dump terminal_event)"
    by (simp add: control_dump_def control_value_def terminal_event_def obj_def key_text_def dumps_str_def)
  then show ?thesis by (simp add: encoded_length_eq length_join_snoc)
qed

lemma to_json_bytes_length:
  "\<exists>b. transcript_to_json_bytes t = Inr b \<and> length b = encoded_length (bt_events t) (bt_limited t)"
  by (simp add: transcript_to_json_bytes_def encode_transcript_eq encoded_length_def)

subsection \<open>Adding events\<close>

lemma control_text_ok: "control_text v = Some s \<Longrightarrow> s \<noteq> [] \<and> isascii s \<and> length s \<le> 64"
  by (auto simp: control_text_def py_def split: pyval.splits if_splits)

lemma control_items_ok:
  assumes "mapE control_item kwargs = Inr ms"
  shows "map fst ms = map fst kwargs" and "(k, s) \<in> set ms \<Longrightarrow> s \<noteq> [] \<and> isascii s \<and> length s \<le> 64"
proof -
  have rel: "list_all2 (\<lambda>x y. control_item x = Inr y) kwargs ms" using assms by (simp add: mapE_eq_Inr_list_all2)
  then show "map fst ms = map fst kwargs"
    by (induction rule: list_all2_induct) (auto simp: control_item_def split: option.splits)
  assume "(k, s) \<in> set ms"
  from list_all2_set2 [OF rel this] obtain x where "control_item x = Inr (k, s)" by blast
  then show "s \<noteq> [] \<and> isascii s \<and> length s \<le> 64"
    by (auto simp: control_item_def split: option.splits dest!: control_text_ok)
qed

lemma wf_terminal: "wf_control terminal_event"
  by (simp add: wf_control_def terminal_event_def schema_keys_ok_def TRANSCRIPT_SCHEMA_def)

lemma add_cases:
  assumes "add t (event, kwargs) = Inr t'"
  obtains (full) "bt_limited t" "t' = t"
    | (kept) ms where "\<not> bt_limited t" "event \<noteq> ''transcript_limit''"
        "t' = t\<lparr>bt_events := bt_events t @ [\<lparr>ce_event = event, ce_metadata = ms\<rparr>]\<rparr>"
        "wf_control \<lparr>ce_event = event, ce_metadata = ms\<rparr>" "mapE control_item kwargs = Inr ms"
        "int (length (bt_events t)) + 1 < transcript_event_count (bt_limits t)"
        "int (encoded_length (bt_events t' @ [terminal_event]) True) \<le> transcript_bytes (bt_limits t)"
    | (marked) "\<not> bt_limited t" "t' = t\<lparr>bt_events := bt_events t @ [terminal_event], bt_limited := True\<rparr>"
        "int (encoded_length (bt_events t') True) \<le> transcript_bytes (bt_limits t)"
proof (cases "bt_limited t")
  case True
  have dist: "distinct (map fst kwargs)"
    by (rule ccontr) (use assms in \<open>simp add: add_def\<close>)
  have "t' = t" using assms True dist by (simp add: add_def)
  then show thesis by (rule full [OF True])
next
  case False
  have dist: "distinct (map fst kwargs)"
    by (rule ccontr) (use assms in \<open>simp add: add_def\<close>)
  have keys: "schema_keys_ok event ((\<lambda>(k, v). SKey (py k)) ` set kwargs)"
    by (rule ccontr) (use assms False dist in \<open>simp add: add_def\<close>)
  obtain ms where ms: "mapE control_item kwargs = Inr ms"
    using assms False dist keys by (cases "mapE control_item kwargs") (simp_all add: add_def)
  let ?c = "bt_events t @ [\<lparr>ce_event = event, ce_metadata = ms\<rparr>]"
  obtain b where b: "encode_transcript (?c @ [terminal_event]) True = Inr b"
    "length b = encoded_length (?c @ [terminal_event]) True" by (rule encode_transcript_Inr)
  obtain b' where b': "encode_transcript (bt_events t @ [terminal_event]) True = Inr b'"
    "length b' = encoded_length (bt_events t @ [terminal_event]) True" by (rule encode_transcript_Inr)
  have "add t (event, kwargs) = (if event \<noteq> ''transcript_limit'' \<and> int (length ?c) < transcript_event_count (bt_limits t)
            \<and> int (length b) \<le> transcript_bytes (bt_limits t) then Inr (t\<lparr>bt_events := ?c\<rparr>)
         else if transcript_bytes (bt_limits t) < int (length b') then Inl (raises OVERSIZED_RESPONSE)
         else Inr (t\<lparr>bt_events := bt_events t @ [terminal_event], bt_limited := True\<rparr>))"
    using False keys dist ms b(1) b'(1) by (simp add: add_def Let_def split del: if_split cong: if_cong)
  with assms have t': "t' = t\<lparr>bt_events := ?c\<rparr> \<and> event \<noteq> ''transcript_limit''
         \<and> int (length (bt_events t)) + 1 < transcript_event_count (bt_limits t)
         \<and> int (encoded_length (bt_events t' @ [terminal_event]) True) \<le> transcript_bytes (bt_limits t)
       \<or> t' = t\<lparr>bt_events := bt_events t @ [terminal_event], bt_limited := True\<rparr>
         \<and> int (encoded_length (bt_events t') True) \<le> transcript_bytes (bt_limits t)"
    using b(2) b'(2) by (auto split: if_splits)
  have "(\<lambda>(k, s). SKey (py k)) ` set ms = (\<lambda>(k, v). SKey (py k)) ` set kwargs"
    using arg_cong [OF control_items_ok(1) [OF ms], of "\<lambda>ks. (\<lambda>k. SKey (py k)) ` set ks"]
    by (simp add: image_image case_prod_unfold)
  then have "wf_control \<lparr>ce_event = event, ce_metadata = ms\<rparr>"
    using keys dist control_items_ok [OF ms] by (auto simp: wf_control_def)
  with False t' ms kept marked show thesis by blast
qed

lemma add_inv:
  assumes inv: "bt_inv l t" and step: "add t call = Inr t'"
  shows "bt_inv l t'"
proof -
  obtain event kwargs where "call = (event, kwargs)" by fastforce
  with step have "add t (event, kwargs) = Inr t'" by simp
  then show ?thesis
  proof (cases rule: add_cases)
    case full
    with inv show ?thesis by simp
  next
    case (kept ms)
    with inv show ?thesis by (auto simp: bt_inv_def is_terminal_def)
  next
    case marked
    from inv marked(1) have "int (length (bt_events t)) + 1 \<le> max 1 (transcript_event_count l)"
      by (auto simp: bt_inv_def)
    with inv marked show ?thesis by (auto simp: bt_inv_def wf_terminal)
  qed
qed

lemma initial_inv: "bt_inv l (BoundedTranscript l)"
  by (simp add: bt_inv_def BoundedTranscript_def)

interpretation control_log: guarded_machine add "bt_inv l" for l
  by unfold_locales (rule add_inv)

lemma add_extends:
  assumes "add t call = Inr t'"
  shows "\<exists>more. bt_events t' = bt_events t @ more" and "bt_limited t \<Longrightarrow> t' = t"
proof -
  obtain event kwargs where "call = (event, kwargs)" by fastforce
  with assms have "add t (event, kwargs) = Inr t'" by simp
  then have "(\<exists>more. bt_events t' = bt_events t @ more) \<and> (bt_limited t \<longrightarrow> t' = t)"
    by (cases rule: add_cases) auto
  then show "\<exists>more. bt_events t' = bt_events t @ more" and "bt_limited t \<Longrightarrow> t' = t" by blast+
qed

lemma run_add_extends:
  "runE add t calls = Inr t' \<Longrightarrow> (\<exists>more. bt_events t' = bt_events t @ more) \<and> (bt_limited t \<longrightarrow> t' = t)"
proof (induction calls arbitrary: t)
  case (Cons call calls)
  then obtain u where u: "add t call = Inr u" "runE add u calls = Inr t'" by (auto simp: bindE_eq_Inr)
  from Cons.IH [OF u(2)] add_extends [OF u(1)] show ?case by auto
qed simp

lemma inv_bytes:
  assumes "bt_inv l t" and "47 \<le> transcript_bytes l"
  shows "int (encoded_length (bt_events t) (bt_limited t)) \<le> transcript_bytes l"
proof (cases "bt_limited t \<or> bt_events t = []")
  case True
  then show ?thesis using assms by (auto simp: bt_inv_def encoded_length_eq split: if_splits)
next
  case False
  then show ?thesis using assms encoded_length_terminal [of "bt_events t"] by (auto simp: bt_inv_def)
qed

subsection \<open>Correlation\<close>

definition is_event :: "string \<Rightarrow> pystr \<Rightarrow> pystr \<Rightarrow> control_event \<Rightarrow> bool" where
  "is_event name a r e \<longleftrightarrow> ce_event e = name \<and> meta (ce_metadata e) ''action'' = a \<and> meta (ce_metadata e) ''response'' = r"

text \<open>The correlation state summarises the events read so far.\<close>

definition pairs_of :: "string \<Rightarrow> control_event list \<Rightarrow> (pystr \<times> pystr) set" where
  "pairs_of name es = {(a, r). \<exists>e \<in> set es. is_event name a r e}"

definition summary :: "control_event list \<Rightarrow> correlation" where
  "summary es = \<lparr> authorized_actions = fst ` pairs_of ''authorized'' es, requested_pairs = pairs_of ''mcp_request'' es,
     responded_pairs = pairs_of ''mcp_response'' es, evidenced_pairs = pairs_of ''evidence_validated'' es,
     request_actions = fst ` pairs_of ''mcp_request'' es, request_responses = snd ` pairs_of ''mcp_request'' es \<rparr>"

lemma pairs_of_snoc:
  "pairs_of name (es @ [e]) = pairs_of name es \<union>
     (if ce_event e = name then {(meta (ce_metadata e) ''action'', meta (ce_metadata e) ''response'')} else {})"
  by (auto simp: pairs_of_def is_event_def)

lemma correlate_summary: "correlate (summary es) e = Inr c \<Longrightarrow> c = summary (es @ [e])"
  by (auto simp: correlate_def summary_def pairs_of_snoc Let_def split: if_splits)

lemma run_correlate: "runE correlate no_correlation es = Inr c \<Longrightarrow> c = summary es"
proof (induction es arbitrary: c rule: rev_induct)
  case Nil
  then show ?case by (simp add: no_correlation_def summary_def pairs_of_def)
next
  case (snoc e es)
  then obtain d where "runE correlate no_correlation es = Inr d" "correlate d e = Inr c"
    by (auto simp: runE_append bindE_eq_Inr)
  with snoc.IH correlate_summary show ?case by blast
qed

lemma run_correlate_step:
  assumes "runE correlate no_correlation (xs @ e # ys) = Inr c"
  shows "\<exists>d. correlate (summary xs) e = Inr d"
  using assms run_correlate by (fastforce simp: runE_append bindE_eq_Inr)

lemma parse_steps:
  "runE parse_control_step (c0, acc) items = Inr (c, es) \<longleftrightarrow>
     (\<exists>more. mapE parse_control_item items = Inr more \<and> runE correlate c0 more = Inr c \<and> es = acc @ more)"
proof (induction items arbitrary: c0 acc)
  case (Cons item items)
  have "runE parse_control_step (c0, acc) (item # items) = Inr (c, es) \<longleftrightarrow>
      (\<exists>e d. parse_control_item item = Inr e \<and> correlate c0 e = Inr d
         \<and> runE parse_control_step (d, acc @ [e]) items = Inr (c, es))"
    by (auto simp: parse_control_step_def bindE_eq_Inr)
  also have "\<dots> \<longleftrightarrow> (\<exists>e d more. parse_control_item item = Inr e \<and> correlate c0 e = Inr d
      \<and> mapE parse_control_item items = Inr more \<and> runE correlate d more = Inr c \<and> es = (acc @ [e]) @ more)"
    unfolding Cons.IH by blast
  also have "\<dots> \<longleftrightarrow> (\<exists>more. mapE parse_control_item (item # items) = Inr more
      \<and> runE correlate c0 more = Inr c \<and> es = acc @ more)"
    by (auto simp: bindE_eq_Inr) (metis append_Cons)?
  finally show ?case .
qed auto

lemma parse_bounded_transcript_Inr:
  assumes "parse_bounded_transcript rd raw l = Inr es"
  shows "\<exists>c. runE correlate no_correlation es = Inr c" and "int (length es) \<le> transcript_event_count l"
    and "terminal_indexes es = [] \<or> terminal_indexes es = [length es - 1]"
proof -
  from assms obtain c items where run: "runE parse_control_step (no_correlation, []) items = Inr (c, es)"
    and len: "int (length items) \<le> transcript_event_count l"
    and "terminal_indexes es = [] \<or> terminal_indexes es = [length es - 1]"
    by (auto simp: parse_bounded_transcript_def bindE_eq_Inr split: if_splits)
  then show "terminal_indexes es = [] \<or> terminal_indexes es = [length es - 1]" by simp
  from run have *: "mapE parse_control_item items = Inr es" "runE correlate no_correlation es = Inr c"
    by (auto simp: parse_steps)
  then show "\<exists>c. runE correlate no_correlation es = Inr c" by blast
  show "int (length es) \<le> transcript_event_count l" using mapE_length [OF *(1)] len by simp
qed

text \<open>Each kind of event is preceded by the kind its correlation test asks for.\<close>

lemma correlated_before:
  assumes run: "runE correlate no_correlation es = Inr c" and k: "k < length es"
  shows "is_event ''mcp_request'' a r (es ! k) \<Longrightarrow> \<exists>i < k. \<exists>q. is_event ''authorized'' a q (es ! i)"
    and "is_event ''mcp_response'' a r (es ! k) \<Longrightarrow> \<exists>i < k. is_event ''mcp_request'' a r (es ! i)"
    and "is_event ''evidence_validated'' a r (es ! k) \<Longrightarrow> \<exists>i < k. is_event ''mcp_response'' a r (es ! i)"
proof -
  have split: "es = take k es @ es ! k # drop (Suc k) es" using k by (simp add: id_take_nth_drop)
  then obtain d where d: "correlate (summary (take k es)) (es ! k) = Inr d"
    using run run_correlate_step [of "take k es" "es ! k" "drop (Suc k) es"] by fastforce
  have member: "\<exists>i < k. P (es ! i)" if "\<exists>e \<in> set (take k es). P e" for P
  proof -
    from that obtain e where "e \<in> set (take k es)" "P e" by blast
    then obtain i where "i < k" "es ! i = e" using k by (auto simp: in_set_conv_nth)
    with \<open>P e\<close> show ?thesis by blast
  qed
  show "is_event ''mcp_request'' a r (es ! k) \<Longrightarrow> \<exists>i < k. \<exists>q. is_event ''authorized'' a q (es ! i)"
    using d by (intro member) (auto simp: is_event_def correlate_def summary_def pairs_of_def Let_def split: if_splits)
  show "is_event ''mcp_response'' a r (es ! k) \<Longrightarrow> \<exists>i < k. is_event ''mcp_request'' a r (es ! i)"
    using d by (intro member) (auto simp: is_event_def correlate_def summary_def pairs_of_def Let_def split: if_splits)
  show "is_event ''evidence_validated'' a r (es ! k) \<Longrightarrow> \<exists>i < k. is_event ''mcp_response'' a r (es ! i)"
    using d by (intro member) (auto simp: is_event_def correlate_def summary_def pairs_of_def Let_def split: if_splits)
qed

lemma request_unique:
  assumes run: "runE correlate no_correlation es = Inr c" and "i < j" and "j < length es"
    and "is_event ''mcp_request'' a r (es ! i)" and "is_event ''mcp_request'' b s (es ! j)"
  shows "a \<noteq> b \<and> r \<noteq> s"
proof -
  have split: "es = take j es @ es ! j # drop (Suc j) es" using assms(3) by (simp add: id_take_nth_drop)
  then obtain d where d: "correlate (summary (take j es)) (es ! j) = Inr d"
    using run run_correlate_step [of "take j es" "es ! j" "drop (Suc j) es"] by fastforce
  have "es ! i \<in> set (take j es)" using assms(2,3) by (force simp: in_set_conv_nth)
  then have "(a, r) \<in> pairs_of ''mcp_request'' (take j es)" using assms(4) by (auto simp: pairs_of_def)
  then have "a \<in> request_actions (summary (take j es))" "r \<in> request_responses (summary (take j es))"
    by (force simp: summary_def)+
  with d assms(5) show ?thesis
    by (auto simp: is_event_def correlate_def Let_def split: if_splits)
qed

subsection \<open>The log read back\<close>

definition sorted_event :: "control_event \<Rightarrow> control_event" where
  "sorted_event e = e\<lparr>ce_metadata := sort_key (\<lambda>kv. py (fst kv)) (ce_metadata e)\<rparr>"

lemma sort_key_map: "sort_key f (map g xs) = map g (sort_key (\<lambda>x. f (g x)) xs)"
proof -
  have "insort_key f (g x) (map g ys) = map g (insort_key (\<lambda>x. f (g x)) x ys)" for x ys
    by (induction ys) auto
  then show ?thesis by (induction xs) auto
qed

definition texts :: "(string \<times> pystr) list \<Rightarrow> pyval" where
  "texts m = obj (map (\<lambda>(k, s). (k, PStr s)) m)"

lemma canonical_texts: "canonical (texts m) = texts (sort_key (\<lambda>kv. py (fst kv)) m)"
proof -
  have "map (\<lambda>(key, v). (key_str key, canonical v)) (items_of (texts m)) = map (\<lambda>(k, s). (py k, PStr s)) m"
    by (induction m) (auto simp: texts_def obj_def key_str_def)
  moreover have "sort_key fst (map (\<lambda>(k, s). (py k, PStr s)) m) = map (\<lambda>(k, s). (py k, PStr s)) (sort_key (\<lambda>kv. py (fst kv)) m)"
    by (simp add: sort_key_map case_prod_unfold)
  ultimately show ?thesis
    by (simp add: texts_def obj_def) (simp add: case_prod_unfold comp_def key_str_def)
qed

lemma canonical_control: "canonical (control_value e) = control_value (sorted_event e)"
proof -
  have "control_value e = obj [(''event'', PStr (py (ce_event e))), (''metadata'', texts (ce_metadata e))]" for e
    by (simp add: control_value_def texts_def)
  then show ?thesis by (simp add: sorted_event_def obj_def key_str_def py_def canonical_texts)
qed

lemma canonical_transcript:
  "canonical (transcript_value es limited) = obj [(''events'', PList (map (\<lambda>e. control_value (sorted_event e)) es)),
     (''limited'', PBool limited), (''schemaVersion'', PInt 2)]"
  by (simp add: transcript_value_def obj_def key_str_def py_def canonical_control)

lemma sorted_event_wf: "wf_control e \<Longrightarrow> wf_control (sorted_event e)"
  by (simp add: wf_control_def sorted_event_def distinct_map)

lemma sorted_event_sel [simp]: "ce_event (sorted_event e) = ce_event e"
  by (simp add: sorted_event_def)

lemma sorted_event_meta: "wf_control e \<Longrightarrow> meta (ce_metadata (sorted_event e)) k = meta (ce_metadata e) k"
proof -
  assume "wf_control e"
  then have "distinct (map fst (ce_metadata e))" by (simp add: wf_control_def)
  then have "map_of (ce_metadata (sorted_event e)) k = map_of (ce_metadata e) k"
    by (intro map_of_eqI [THEN fun_cong]) (auto simp: sorted_event_def distinct_map)
  then show ?thesis by (simp add: meta_def)
qed

lemma correlate_sorted: "wf_control e \<Longrightarrow> correlate c (sorted_event e) = correlate c e"
  by (simp add: correlate_def sorted_event_meta Let_def)

lemma run_correlate_sorted:
  "\<forall>e \<in> set es. wf_control e \<Longrightarrow> runE correlate c (map sorted_event es) = runE correlate c es"
  by (induction es arbitrary: c) (simp_all add: correlate_sorted)

definition KNOWN_KEYS :: "string list" where
  "KNOWN_KEYS = [''surface'', ''turn'', ''bytes'', ''action'', ''proposal'', ''response'', ''failure'', ''outcome'']"

lemma schema_known:
  assumes "schema_keys_ok n ks"
  shows "n \<in> set (map fst TRANSCRIPT_SCHEMA)" and "ks \<subseteq> (\<lambda>s. SKey (py s)) ` set KNOWN_KEYS"
    and "finite ks" and "card ks \<le> 2"
proof -
  from assms obtain req where req: "map_of TRANSCRIPT_SCHEMA n = Some req"
    and ks: "ks = (\<lambda>s. SKey (py s)) ` set req \<or> ks = {SKey (py ''failure'')}"
    by (auto simp: schema_keys_ok_def split: option.splits)
  have mem: "(n, req) \<in> set TRANSCRIPT_SCHEMA" using req by (rule map_of_SomeD)
  then show "n \<in> set (map fst TRANSCRIPT_SCHEMA)" by force
  have "list_all (\<lambda>(n, req). set req \<subseteq> set KNOWN_KEYS \<and> length req \<le> 2) TRANSCRIPT_SCHEMA"
    by (simp add: TRANSCRIPT_SCHEMA_def KNOWN_KEYS_def)
  with mem have "set req \<subseteq> set KNOWN_KEYS" "length req \<le> 2" by (auto simp: list_all_iff)
  moreover have "card ((\<lambda>s. SKey (py s)) ` set req) \<le> length req"
    using card_image_le [of "set req" "\<lambda>s. SKey (py s)"] card_length [of req] by simp
  ultimately show "ks \<subseteq> (\<lambda>s. SKey (py s)) ` set KNOWN_KEYS" "finite ks" "card ks \<le> 2"
    using ks by (auto simp: KNOWN_KEYS_def)
qed

lemma find_self: "n \<in> set ns \<Longrightarrow> find (\<lambda>m. m = n) ns = Some n"
  by (induction ns) auto

lemma known_member:
  "schema_keys_ok n ((\<lambda>(k, s). SKey (py k)) ` set m) \<Longrightarrow> (k, s) \<in> set m \<Longrightarrow> k \<in> set KNOWN_KEYS"
  by (drule schema_known(2)) force

lemma metadata_texts_texts:
  assumes "\<forall>(k, s) \<in> set m. k \<in> set KNOWN_KEYS \<and> length s \<le> 64"
  shows "metadata_texts (items_of (texts m)) = Some m"
  using assms
proof (induction m)
  case Nil
  show ?case by (simp add: metadata_texts_def texts_def obj_def)
next
  case (Cons x m)
  obtain k s where x: "x = (k, s)" by fastforce
  with Cons have "find (\<lambda>n. n = k) KNOWN_KEYS = Some k" by (simp add: find_self)
  with Cons x show ?case by (simp add: metadata_texts_def texts_def obj_def KNOWN_KEYS_def)
qed

lemma fst_items_texts: "fst ` set (items_of (texts m)) = (\<lambda>(k, s). SKey (py k)) ` set m"
  by (force simp: texts_def obj_def)

lemma parse_control_value:
  assumes "wf_control e"
  shows "parse_control_item (control_value e) = Inr e"
proof -
  let ?n = "ce_event e" and ?m = "ce_metadata e"
  have keys: "schema_keys_ok ?n ((\<lambda>(k, s). SKey (py k)) ` set ?m)" using assms by (simp add: wf_control_def)
  have "\<forall>(k, s) \<in> set ?m. k \<in> set KNOWN_KEYS \<and> length s \<le> 64"
    using known_member [OF keys] assms by (auto simp: wf_control_def)
  then have "metadata_texts (items_of (texts ?m)) = Some ?m" by (rule metadata_texts_texts)
  moreover have "event_of_name (py ?n) = Some ?n"
    using schema_known(1) [OF keys] by (simp add: event_of_name_def find_self del: set_map)
  moreover have "control_value e = PDict Plain [(SKey (py ''event''), PStr (py ?n)), (SKey (py ''metadata''), texts ?m)]"
    by (simp add: control_value_def texts_def obj_def)
  moreover have "is_dict (texts ?m)" by (simp add: texts_def obj_def)
  ultimately show ?thesis
    using keys by (simp add: parse_control_item_def get_or_def hashable_def fst_items_texts)
qed

lemma bounded_ascii: "isascii s \<Longrightarrow> int (length s) \<le> m \<Longrightarrow> bounded_text m s"
  by (simp add: bounded_text_def isascii_not_surrogate)

lemma event_name_short:
  assumes "schema_keys_ok n ks"
  shows "isascii (py n)" and "length n \<le> 64"
proof -
  have "list_all (\<lambda>(n, req). isascii (py n) \<and> length n \<le> 64) TRANSCRIPT_SCHEMA"
    by (simp add: TRANSCRIPT_SCHEMA_def py_def)
  then show "isascii (py n)" "length n \<le> 64"
    using schema_known(1) [OF assms] by (auto simp: list_all_iff)
qed

lemma bounded_control:
  assumes "wf_control e" and "2 \<le> d" and "2 \<le> n" and "64 \<le> m"
  shows "bounded_json d n m (control_value e)"
proof -
  have keys: "schema_keys_ok (ce_event e) ((\<lambda>(k, s). SKey (py k)) ` set (ce_metadata e))"
    and dist: "distinct (map fst (ce_metadata e))" using assms(1) by (auto simp: wf_control_def)
  have "(\<lambda>(k, s). SKey (py k)) ` set (ce_metadata e) = (\<lambda>k. SKey (py k)) ` set (map fst (ce_metadata e))"
    by (auto simp: image_image case_prod_unfold)
  then have "card ((\<lambda>k. SKey (py k)) ` set (map fst (ce_metadata e))) \<le> 2" using schema_known(4) [OF keys] by simp
  moreover have "card ((\<lambda>k. SKey (py k)) ` set (map fst (ce_metadata e))) = card (set (map fst (ce_metadata e)))"
    by (rule card_image) (simp add: inj_on_def)
  ultimately have len: "length (ce_metadata e) \<le> 2" using distinct_card [OF dist] by simp
  have "k \<noteq> []" if "(k, s) \<in> set (ce_metadata e)" for k s
    using known_member [OF keys that] by (auto simp: KNOWN_KEYS_def)
  moreover have "bounded_text m s" if "(k, s) \<in> set (ce_metadata e)" for k s
    using that assms(1,4) by (fastforce simp: wf_control_def intro: bounded_ascii)
  moreover have "bounded_text m (py (ce_event e))"
    using event_name_short [OF keys] assms(4) by (intro bounded_ascii) auto
  ultimately show ?thesis
    using len assms(2,3) by (fastforce simp: control_value_def obj_def)
qed

lemma exact_control: "wf_control e \<Longrightarrow> exact_json (control_value e)"
proof -
  assume wf: "wf_control e"
  have ascii: "isascii s \<Longrightarrow> list_all scalar s" for s
    by (auto simp: isascii_iff list_all_iff scalar_def surrogate_def)
  have keys: "schema_keys_ok (ce_event e) ((\<lambda>(k, s). SKey (py k)) ` set (ce_metadata e))"
    using wf by (simp add: wf_control_def)
  have known: "list_all scalar (py k)" if "(k, s) \<in> set (ce_metadata e)" for k s
  proof -
    have "k \<in> set KNOWN_KEYS" by (rule known_member [OF keys that])
    moreover have "list_all (\<lambda>k. isascii (py k)) KNOWN_KEYS" by (simp add: KNOWN_KEYS_def py_def)
    ultimately show ?thesis using ascii by (auto simp: list_all_iff)
  qed
  have "distinct (map (\<lambda>k. SKey (py k)) (map fst (ce_metadata e)))"
    using wf by (simp only: wf_control_def distinct_map [of "\<lambda>k. SKey (py k)"]) (simp add: inj_on_def)
  moreover have "map (\<lambda>k. SKey (py k)) (map fst (ce_metadata e)) = map (\<lambda>(k, s). SKey (py k)) (ce_metadata e)" by auto
  ultimately have "distinct (map (\<lambda>(k, s). SKey (py k)) (ce_metadata e))" by metis
  with wf known ascii event_name_short [OF keys] show ?thesis
    by (auto simp: control_value_def obj_def wf_control_def py_def comp_def case_prod_unfold scalar_def surrogate_def)
qed

lemma parse_control_values:
  "\<forall>e \<in> set es. wf_control e \<Longrightarrow> runE parse_control_step (c, acc) (map control_value es) =
     bindE (runE correlate c es) (\<lambda>c'. Inr (c', acc @ es))"
proof (induction es arbitrary: c acc)
  case (Cons e es)
  then show ?case
    by (cases "correlate c e") (simp_all add: parse_control_step_def parse_control_value bindE_assoc)
qed simp

lemma terminal_indexes_snoc:
  "terminal_indexes (es @ [e]) = terminal_indexes es @ (if is_terminal e then [length es] else [])"
  by (auto simp: terminal_indexes_def is_terminal_def nth_append intro!: filter_cong)

lemma terminal_indexes_none: "\<forall>e \<in> set es. \<not> is_terminal e \<Longrightarrow> terminal_indexes es = []"
  by (induction es rule: rev_induct) (simp_all add: terminal_indexes_snoc, simp add: terminal_indexes_def)

lemma terminal_indexes_inv:
  assumes "bt_inv l t"
  shows "if bt_limited t then bt_events t \<noteq> [] \<and> terminal_indexes (map sorted_event (bt_events t)) = [length (bt_events t) - 1]
         else terminal_indexes (map sorted_event (bt_events t)) = []"
proof -
  have same: "is_terminal (sorted_event e) = is_terminal e" for e by (simp add: is_terminal_def)
  show ?thesis
  proof (cases "bt_limited t")
    case True
    with assms obtain es where "bt_events t = es @ [terminal_event]" "\<forall>e \<in> set es. \<not> is_terminal e"
      by (auto simp: bt_inv_def)
    then show ?thesis
      using True terminal_indexes_none [of "map sorted_event es"] same
      by (simp add: terminal_indexes_snoc) (simp add: is_terminal_def terminal_event_def)
  next
    case False
    with assms show ?thesis
      using terminal_indexes_none [of "map sorted_event (bt_events t)"] same by (auto simp: bt_inv_def)
  qed
qed

lemma nesting_transcript: "nesting (transcript_value es limited) \<le> 4"
proof -
  have "foldr max (map (\<lambda>(key, v). nesting v) (items_of (texts m))) 0 \<le> 0" for m
    unfolding foldr_max_le by (auto simp: texts_def obj_def)
  then have "nesting (control_value e) \<le> 2" for e
    by (simp add: control_value_def texts_def obj_def)
  then show ?thesis by (auto simp: transcript_value_def obj_def foldr_max_le)
qed

lemma exact_transcript: "\<forall>e \<in> set es. wf_control e \<Longrightarrow> exact_json (transcript_value es limited)"
  by (auto simp: transcript_value_def obj_def py_def exact_control scalar_def surrogate_def dec.simps MAX_STR_DIGITS_def)

lemma bounded_transcript_value:
  assumes "\<forall>e \<in> set es. wf_control e" and "4 \<le> d" and "3 \<le> n" and "64 \<le> m" and "int (length es) \<le> n"
  shows "bounded_json d n m (canonical (transcript_value es limited))"
proof -
  have "bounded_json (d - 2) n m (control_value (sorted_event e))" if "e \<in> set es" for e
    using assms that by (intro bounded_control sorted_event_wf) auto
  then show ?thesis unfolding canonical_transcript using assms(2,3,5)
    by (auto simp: obj_def diff_diff_add)
qed

lemma parse_own_transcript:
  assumes l: "wf_limits l" "4 \<le> json_nesting_depth l" "64 \<le> message_bytes l" "3 \<le> object_array_items l"
      "47 \<le> transcript_bytes l" and rd: "4 \<le> rd"
    and inv: "bt_inv l t" and b: "transcript_to_json_bytes t = Inr b"
  shows "parse_bounded_transcript rd (PBytes b) l =
    bindE (runE correlate no_correlation (bt_events t)) (\<lambda>_. Inr (map sorted_event (bt_events t)))"
proof -
  let ?es = "bt_events t" and ?N = "max (object_array_items l) (transcript_event_count l)"
  let ?cl = "l\<lparr>object_array_items := ?N\<rparr>" and ?v = "transcript_value ?es (bt_limited t)"
  have wf: "\<forall>e \<in> set ?es. wf_control e" using inv by (simp add: bt_inv_def)
  then have wfs: "\<forall>e \<in> set (map sorted_event ?es). wf_control e" by (simp add: sorted_event_wf)
  have cl: "replace_limits l [(''object_array_items'', PInt ?N)] = Inr ?cl"
    using wf_limits_bounds [OF l(1)] by (intro replace_object_array_items [OF l(1)]) auto
  have cnt: "int (length ?es) \<le> transcript_event_count l"
    using inv wf_limits_bounds [OF l(1)] by (auto simp: bt_inv_def split: if_splits)
  have d: "dumps ?v = Inr b" using b by (simp add: transcript_to_json_bytes_def encode_transcript_def)
  have len: "int (length b) \<le> transcript_bytes l"
    using inv_bytes [OF inv l(5)] to_json_bytes_length [of t] b by auto
  have "json_value ?cl None 0 (canonical ?v) = Inr ()"
    unfolding json_value_accepts
    using bounded_transcript_value [OF wf, where limited = "bt_limited t" and d = "json_nesting_depth l" and n = ?N] l cnt
    by (subst freeze_accepts_iff [where m = "max (message_bytes l) (max (tool_argument_bytes l) (tool_definition_bytes l))"])
       (auto simp: json_string_limit_def)
  then have parsed: "parse_closed_json rd (PBytes b) ?cl (Some (transcript_bytes l)) None = Inr (canonical ?v)"
    using parse_closed_json_dumps [OF d exact_transcript [OF wf], where rd = rd and bl = "Some (transcript_bytes l)"
        and l = ?cl and sb = None] nesting_transcript [of ?es "bt_limited t"] rd len by simp
  have run: "runE parse_control_step (no_correlation, []) (map (\<lambda>e. control_value (sorted_event e)) ?es) =
      bindE (runE correlate no_correlation ?es) (\<lambda>c. Inr (c, map sorted_event ?es))"
    using parse_control_values [OF wfs, of no_correlation "[]"] run_correlate_sorted [OF wf] by (simp add: comp_def)
  have "(if bt_limited t then ?es \<noteq> [] \<and> terminal_indexes (map sorted_event ?es) = [length ?es - 1]
      else terminal_indexes (map sorted_event ?es) = [])" by (rule terminal_indexes_inv [OF inv])
  then show ?thesis
    using cnt run
    by (cases "runE correlate no_correlation ?es")
       (simp_all add: parse_bounded_transcript_def cl parsed canonical_transcript obj_def get_or_def number_of_def
         insert_commute split: if_splits)
qed

subsection \<open>Parsing transcript events\<close>

definition local_handled :: "exn \<Rightarrow> bool" where
  "local_handled e \<longleftrightarrow> (\<exists>c. as_local_failure e = raises c)"

lemma local_handled_simps [simp]:
  "local_handled (raises c)" "local_handled ValueError" "as_local_failure (raises c) = raises c"
  by (simp_all add: local_handled_def as_local_failure_def)

lemma safe_identity_Inl: "safe_identity v = Inl e \<Longrightarrow> e = lvf"
  by (auto simp: safe_identity_def split: pyval.splits option.splits if_splits)

lemma model_as_Inl: "model_as c v = Inl e \<Longrightarrow> e = raises c"
  by (auto simp: model_as_def catchE_def split: sum.splits dest!: ModelIdentifier_Inl)

lemma metadata_item_Inl: "metadata_item u kv = Inl e \<Longrightarrow> e = lvf"
  by (auto simp: metadata_item_def split: prod.splits pykey.splits pyval.splits option.splits if_splits)

lemma check_metadata_Inl: "check_metadata u v n = Inl e \<Longrightarrow> e = lvf"
  by (auto simp: check_metadata_def bindE_eq_Inl dest!: iterE_Inl_member metadata_item_Inl)

lemma require_canonical_Inl: "require_canonical v = Inl e \<Longrightarrow> \<exists>c. e = raises c"
  by (auto simp: require_canonical_def split: pyval.splits if_splits dest: ToolCallId_Inl)

lemma canonical_correlation_id_Inl: "canonical_correlation_id v = Inl e \<Longrightarrow> e = lvf"
  by (auto simp: canonical_correlation_id_def split: pyval.splits if_splits)

lemma check_retry_byte_Inl: "check_retry_flag v = Inl e \<Longrightarrow> e = lvf" "check_byte_count w = Inl e \<Longrightarrow> e = lvf"
  by (auto simp: check_retry_flag_def check_byte_count_def split: pyval.splits if_splits)

lemma TranscriptEvent_Inl: "TranscriptEvent u ev ad md cid prov ids fc retry bytes mt = Inl e \<Longrightarrow> e = lvf"
  unfolding TranscriptEvent_def
  by (auto simp: bindE_eq_Inl dest!: safe_identity_Inl model_as_Inl check_retry_byte_Inl check_metadata_Inl)

lemma parse_event_fields_Inl: "parse_event_fields u kvs l = Inl e \<Longrightarrow> local_handled e"
  unfolding parse_event_fields_def Let_def
  by (auto simp: bindE_eq_Inl split: option.splits pyval.splits
      dest!: check_metadata_Inl mapE_Inl_member require_canonical_Inl canonical_correlation_id_Inl TranscriptEvent_Inl)

lemma parse_transcript_Inl:
  assumes "parse_transcript rd u raw l = Inl e"
  shows "\<exists>c. e = raises c"
proof -
  have "parse_closed_json rd (PBytes b) l n None = Inl e' \<Longrightarrow> local_handled e'" for b n e'
    using parse_closed_json_Inl by fastforce
  with assms show ?thesis
    by (auto simp: parse_transcript_def bindE_eq_Inl catchE_def local_handled_def split: pyval.splits option.splits sum.splits
        dest!: parse_event_fields_Inl)
qed

text \<open>What holds of an event that was read.\<close>

definition wf_transcript_event :: "limits \<Rightarrow> transcript_event \<Rightarrow> bool" where
  "wf_transcript_event l e \<longleftrightarrow> 0 \<le> byte_count e \<and> byte_count e \<le> 524288
     \<and> int (length (proposal_ids e)) \<le> proposed_tool_call_count l \<and> distinct (proposal_ids e)
     \<and> list_all (fullmatch CANONICAL_CALL_ID) (proposal_ids e)
     \<and> deep_frozen (metadata e) \<and> keyset_within (items_of (metadata e)) SAFE_METADATA_KEYS"

lemma check_metadata_Inr:
  assumes "check_metadata u v n = Inr r"
  shows "deep_frozen r \<and> keyset_within (items_of r) SAFE_METADATA_KEYS"
proof -
  have item: "\<exists>k s. x = (SKey (py k), PStr s) \<and> k \<in> set SAFE_METADATA_KEYS" if "metadata_item u x = Inr ()" for x
    using that by (auto simp: metadata_item_def split: prod.splits pykey.splits pyval.splits option.splits if_splits)
  from assms have "r = PDict Frozen (items_of v)" "\<forall>x \<in> set (items_of v). metadata_item u x = Inr ()"
    by (auto simp: check_metadata_def bindE_eq_Inr iterE_eq_Inr)
  then show ?thesis using item by (fastforce simp: keyset_within_def list_all_iff)
qed

lemma parse_event_fields_Inr:
  assumes "parse_event_fields u kvs l = Inr e"
  shows "wf_transcript_event l e"
proof -
  from assms obtain ids ps fc cid prov count mt where
    ids: "int (length (elems ids)) \<le> proposed_tool_call_count l" "mapE require_canonical (elems ids) = Inr ps"
    and ev: "TranscriptEvent u (get_or kvs ''event'' PNone) (get_or kvs ''adapter'' PNone) (get_or kvs ''model'' PNone) cid prov
       ps fc (get_or kvs ''retryEligible'' PNone) count mt = Inr e"
    unfolding parse_event_fields_def Let_def bindE_eq_Inr checkE_eq_Inr by blast
  have "\<forall>p \<in> set ps. fullmatch CANONICAL_CALL_ID p"
    using mapE_all [OF ids(2), of "fullmatch CANONICAL_CALL_ID"] by (auto simp: require_canonical_Inr)
  moreover have "length ps = length (elems ids)" by (rule mapE_length [OF ids(2)])
  ultimately show ?thesis
    using ids(1) ev check_metadata_Inr [of u mt "object_array_items HARD_LIMITS"]
    by (auto simp: TranscriptEvent_def bindE_eq_Inr wf_transcript_event_def check_byte_count_def list_all_iff
        split: pyval.splits if_splits)
qed

lemma parse_transcript_Inr: "parse_transcript rd u raw l = Inr e \<Longrightarrow> wf_transcript_event l e"
  by (auto simp: parse_transcript_def bindE_eq_Inr catchE_eq_Inr intro: parse_event_fields_Inr)

definition sample_events :: "control_event list" where
  "sample_events =
     [\<lparr>ce_event = ''authorized'', ce_metadata = [(''action'', [65]), (''proposal'', [66])]\<rparr>,
      \<lparr>ce_event = ''mcp_request'', ce_metadata = [(''action'', [65]), (''response'', [51])]\<rparr>,
      \<lparr>ce_event = ''mcp_response'', ce_metadata = [(''action'', [65]), (''response'', [51])]\<rparr>,
      \<lparr>ce_event = ''evidence_validated'', ce_metadata = [(''action'', [65]), (''response'', [51])]\<rparr>]"

lemma sample_log:
  "runE add (BoundedTranscript DEFAULT_LIMITS) (map (\<lambda>e. (ce_event e, map (\<lambda>(k, s). (k, PStr s)) (ce_metadata e))) sample_events)
     = Inr \<lparr>bt_limits = DEFAULT_LIMITS, bt_events = sample_events, bt_limited = False\<rparr>"
  by (simp add: sample_events_def add_def BoundedTranscript_def schema_keys_ok_def TRANSCRIPT_SCHEMA_def encode_transcript_eq
      Let_def control_item_def control_text_def suspicious_def SUSPICIOUS_def lower_ascii_def lower_ascii_char_def
      ascii_upper_def control_dump_def control_value_def terminal_event_def obj_def key_text_def dumps_str_def
      escape_char_def py_def)

lemma sample_events_sorted: "map sorted_event sample_events = sample_events"
  by (simp add: sample_events_def sorted_event_def py_def)

lemma sample_events_correlated: "\<exists>c. runE correlate no_correlation sample_events = Inr c"
  by (simp add: sample_events_def correlate_def no_correlation_def meta_def Let_def)

lemma sample_transcript: "\<exists>b. parse_bounded_transcript 4 (PBytes b) DEFAULT_LIMITS = Inr sample_events"
proof -
  let ?t = "\<lparr>bt_limits = DEFAULT_LIMITS, bt_events = sample_events, bt_limited = False\<rparr>"
  obtain b where b: "transcript_to_json_bytes ?t = Inr b" using to_json_bytes_length by blast
  have "bt_inv DEFAULT_LIMITS ?t" by (rule control_log.run_inv [OF initial_inv sample_log])
  from parse_own_transcript [OF _ _ _ _ _ _ this b, of 4] show ?thesis
    using sample_events_correlated by (auto simp: sample_events_sorted)
qed

section \<open>Properties\<close>

text \<open>
  C15: whatever sequence of \<open>add\<close> calls a log accepts, its serialization succeeds within the
  transcript byte limit, it has no more events than the event limit, and the terminal marker is
  present exactly when the log is limited, as its last and only such event.
\<close>

theorem control_log_stays_bounded:
  assumes "wf_limits l" and "47 \<le> transcript_bytes l" and "runE add (BoundedTranscript l) calls = Inr t"
  shows "(\<exists>b. transcript_to_json_bytes t = Inr b \<and> int (length b) \<le> transcript_bytes l)
    \<and> int (length (bt_events t)) \<le> transcript_event_count l
    \<and> (if bt_limited t then terminal_indexes (bt_events t) = [length (bt_events t) - 1] else terminal_indexes (bt_events t) = [])"
proof -
  have inv: "bt_inv l t" by (rule control_log.run_inv [OF initial_inv assms(3)])
  moreover have "int (length (bt_events t)) \<le> transcript_event_count l"
    using inv wf_limits_bounds [OF assms(1)] by (auto simp: bt_inv_def split: if_splits)
  moreover have "terminal_indexes (map sorted_event (bt_events t)) = terminal_indexes (bt_events t)"
    by (auto simp: terminal_indexes_def intro!: filter_cong)
  ultimately show ?thesis
    using to_json_bytes_length [of t] inv_bytes [OF inv assms(2)] terminal_indexes_inv [OF inv] by auto
qed

theorem control_log_stays_bounded_witness:
  "\<exists>t. runE add (BoundedTranscript DEFAULT_LIMITS) [(''process_start'', []), (''transcript_limit'', [])] = Inr t
     \<and> bt_limited t \<and> terminal_indexes (bt_events t) = [1]"
proof -
  obtain t where t: "runE add (BoundedTranscript DEFAULT_LIMITS) [(''process_start'', []), (''transcript_limit'', [])] = Inr t"
    "bt_limited t" "length (bt_events t) = 2"
    by (simp add: add_def BoundedTranscript_def schema_keys_ok_def TRANSCRIPT_SCHEMA_def encode_transcript_eq Let_def
        control_dump_def control_value_def terminal_event_def obj_def key_text_def dumps_str_def escape_char_def py_def)
  with control_log_stays_bounded [OF _ _ t(1)] show ?thesis by auto
qed

text \<open>
  the log is append-only and its end is final: later calls keep every earlier event in place, and
  after the marker no call changes anything.
\<close>

theorem control_log_is_append_only:
  assumes "runE add (BoundedTranscript l) (calls @ later) = Inr t'"
  shows "\<exists>t more. runE add (BoundedTranscript l) calls = Inr t \<and> bt_events t' = bt_events t @ more
    \<and> (bt_limited t \<longrightarrow> t' = t)"
proof -
  from assms obtain t where t: "runE add (BoundedTranscript l) calls = Inr t" "runE add t later = Inr t'"
    by (auto simp: runE_append bindE_eq_Inr)
  with run_add_extends [OF t(2)] show ?thesis by blast
qed

theorem control_log_is_append_only_witness:
  "\<exists>t more. runE add (BoundedTranscript DEFAULT_LIMITS) [(''process_start'', [])] = Inr t
     \<and> [\<lparr>ce_event = ''process_start'', ce_metadata = []\<rparr>, \<lparr>ce_event = ''deadline'', ce_metadata = []\<rparr>] = bt_events t @ more"
proof -
  have "runE add (BoundedTranscript DEFAULT_LIMITS) ([(''process_start'', [])] @ [(''deadline'', [])]) =
      Inr (\<lparr>bt_limits = DEFAULT_LIMITS, bt_events = [\<lparr>ce_event = ''process_start'', ce_metadata = []\<rparr>,
         \<lparr>ce_event = ''deadline'', ce_metadata = []\<rparr>], bt_limited = False\<rparr>)"
    by (simp add: add_def BoundedTranscript_def schema_keys_ok_def TRANSCRIPT_SCHEMA_def encode_transcript_eq Let_def
        control_dump_def control_value_def terminal_event_def obj_def key_text_def dumps_str_def escape_char_def py_def)
  from control_log_is_append_only [OF this] show ?thesis by auto
qed

text \<open>
  C16: in every accepted control transcript, each validated piece of evidence is preceded by the
  response it was taken from, that response by the request with the same action and response id, and
  that request by the authorization of its action; and no two requests share an action or a response
  id.
\<close>

theorem accepted_transcripts_have_provenance:
  assumes "parse_bounded_transcript rd raw l = Inr es"
  shows "(\<forall>k < length es. \<forall>a r. is_event ''evidence_validated'' a r (es ! k) \<longrightarrow>
      (\<exists>h i j q. h < i \<and> i < j \<and> j < k \<and> is_event ''authorized'' a q (es ! h)
         \<and> is_event ''mcp_request'' a r (es ! i) \<and> is_event ''mcp_response'' a r (es ! j)))
    \<and> (\<forall>j < length es. \<forall>i < j. \<forall>a r b s. is_event ''mcp_request'' a r (es ! i) \<longrightarrow>
         is_event ''mcp_request'' b s (es ! j) \<longrightarrow> a \<noteq> b \<and> r \<noteq> s)"
proof -
  obtain c where run: "runE correlate no_correlation es = Inr c"
    using parse_bounded_transcript_Inr(1) [OF assms] by blast
  have "\<exists>h i j q. h < i \<and> i < j \<and> j < k \<and> is_event ''authorized'' a q (es ! h)
         \<and> is_event ''mcp_request'' a r (es ! i) \<and> is_event ''mcp_response'' a r (es ! j)"
    if k: "k < length es" "is_event ''evidence_validated'' a r (es ! k)" for k a r
  proof -
    from correlated_before(3) [OF run k] obtain j where j: "j < k" "is_event ''mcp_response'' a r (es ! j)" by blast
    with k correlated_before(2) [OF run _ j(2)] obtain i where i: "i < j" "is_event ''mcp_request'' a r (es ! i)" by auto
    with j k correlated_before(1) [OF run _ i(2)] obtain h q where "h < i" "is_event ''authorized'' a q (es ! h)" by auto
    with i j show ?thesis by blast
  qed
  moreover have "a \<noteq> b \<and> r \<noteq> s" if "j < length es" "i < j" "is_event ''mcp_request'' a r (es ! i)"
      "is_event ''mcp_request'' b s (es ! j)" for i j a b r s
    using that by (intro request_unique [OF run]) auto
  ultimately show ?thesis by (intro conjI allI impI) simp_all
qed

theorem accepted_transcripts_have_provenance_witness:
  "\<exists>h i j q. h < i \<and> i < j \<and> j < (3 :: nat) \<and> is_event ''authorized'' [65] q (sample_events ! h)
     \<and> is_event ''mcp_request'' [65] [51] (sample_events ! i) \<and> is_event ''mcp_response'' [65] [51] (sample_events ! j)"
proof -
  obtain b where "parse_bounded_transcript 4 (PBytes b) DEFAULT_LIMITS = Inr sample_events" using sample_transcript by blast
  note accepted_transcripts_have_provenance [OF this]
  moreover have "is_event ''evidence_validated'' [65] [51] (sample_events ! 3)" "3 < length sample_events"
    by (simp_all add: is_event_def sample_events_def meta_def)
  ultimately show ?thesis by blast
qed

text \<open>
  C17: \<open>parse_bounded_transcript\<close> reads back what \<open>BoundedTranscript\<close> wrote: on the bytes of any log
  reached by \<open>add\<close>, under limits with room for the control format, it returns the log's events (their
  metadata keys sorted) if their correlation is valid, and the correlation failure otherwise.
\<close>

theorem control_log_reads_back:
  assumes "wf_limits l" and "4 \<le> json_nesting_depth l" and "64 \<le> message_bytes l" and "3 \<le> object_array_items l"
    and "47 \<le> transcript_bytes l" and "4 \<le> rd"
    and "runE add (BoundedTranscript l) calls = Inr t" and "transcript_to_json_bytes t = Inr b"
  shows "parse_bounded_transcript rd (PBytes b) l =
    bindE (runE correlate no_correlation (bt_events t)) (\<lambda>_. Inr (map sorted_event (bt_events t)))"
  using assms by (intro parse_own_transcript control_log.run_inv [OF initial_inv]) auto

theorem control_log_reads_back_witness:
  "\<exists>b. transcript_to_json_bytes \<lparr>bt_limits = DEFAULT_LIMITS, bt_events = sample_events, bt_limited = False\<rparr> = Inr b
     \<and> parse_bounded_transcript 4 (PBytes b) DEFAULT_LIMITS = Inr sample_events"
proof -
  let ?t = "\<lparr>bt_limits = DEFAULT_LIMITS, bt_events = sample_events, bt_limited = False\<rparr>"
  obtain b where b: "transcript_to_json_bytes ?t = Inr b" using to_json_bytes_length by blast
  from control_log_reads_back [OF _ _ _ _ _ _ sample_log b, of 4] sample_events_correlated
  have "parse_bounded_transcript 4 (PBytes b) DEFAULT_LIMITS = Inr sample_events"
    by (auto simp: sample_events_sorted)
  with b show ?thesis by blast
qed

text \<open>
  the parser of control transcripts has no handler around its membership test, so a transcript
  whose event name is a JSON array makes it raise \<open>TypeError\<close> instead of a classified failure.
\<close>

theorem unhashable_event_name_escapes:
  "parse_control_step (c, es) (obj [(''event'', PList xs), (''metadata'', md)]) = Inl TypeError"
  by (simp add: parse_control_step_def parse_control_item_def obj_def get_or_def hashable_def)

text \<open>
  the transcript-event boundary: \<open>parse_transcript\<close> raises only classified failures, and an event it
  returns has a byte count within bounds, distinct canonical proposal ids within the limit, and
  immutable metadata with allowed keys only.
\<close>

theorem transcript_event_boundary:
  "case parse_transcript rd u raw l of Inl e \<Rightarrow> \<exists>c. e = raises c | Inr e \<Rightarrow> wf_transcript_event l e"
  using parse_transcript_Inl [of rd u raw l] parse_transcript_Inr [of rd u raw l]
  by (cases "parse_transcript rd u raw l") auto

end
