(* ===== verification/Orchestrator.thy ===== *)
theory Orchestrator
  imports Mcp_Client_Laws Transcript
begin

text \<open>
  \<open>Orchestrator\<close> and \<open>ScriptedProvider\<close> of \<open>mcp_orchestrator.py\<close>: the serial loop that asks the provider, validates all its
  proposals, authorises and executes them one at a time, and ends every run with a parsed control
  transcript. The provider is a parameter \<open>turn\<close>, a computation on the provider's own state and the tick of the world.
  A \<open>return\<close> in the middle of a loop is \<open>Some\<close> of the outcome.
\<close>

section \<open>Definitions\<close>

record evidence =
  ev_action :: pystr
  ev_response :: int
  ev_result :: pyval

record orchestration_outcome =
  oo_outcome :: string
  oo_evidence :: "evidence list"
  oo_order :: "pystr list"
  oo_transcript :: pybytes

text \<open>A provider answers with a final message or a sequence; \<open>None\<close> is an element that is no proposal.\<close>

datatype turn_response = Final provider_message | Proposals "tool_call_proposal option list"

record 'p orchestrator =
  o_client :: client
  o_provider :: 'p
  o_limits :: limits
  o_context :: pystr
  actions :: "pystr set"
  call_ids :: "pystr \<Rightarrow> pybytes option"
  evidence :: "evidence list"
  order :: "pystr list"
  transcript :: bounded_transcript

type_synonym 'p turn = "provider_request \<Rightarrow> evidence list \<Rightarrow> int \<Rightarrow> ('p \<times> nat, turn_response) eff"

definition fresh_orchestrator :: "client \<Rightarrow> 'p \<Rightarrow> limits \<Rightarrow> pystr \<Rightarrow> 'p orchestrator" where
  "fresh_orchestrator c p l ctx = \<lparr> o_client = c, o_provider = p, o_limits = l, o_context = ctx, actions = {}, call_ids = (\<lambda>_. None),
     evidence = [], order = [], transcript = BoundedTranscript l \<rparr>"

text \<open>The first argument: whether the provider is an instance of \<open>BoundedProvider\<close>.\<close>

definition Orchestrator :: "bool \<Rightarrow> client \<Rightarrow> 'p \<Rightarrow> limits \<Rightarrow> pystr \<Rightarrow> 'p orchestrator outcome" where
  "Orchestrator bounded_provider c p l ctx =
     bindE (checkE bounded_provider (raises LOCAL_POLICY_FAILURE)) (\<lambda>_. Inr (fresh_orchestrator c p l ctx))"

subsection \<open>Lifting\<close>

definition on_client :: "(client, 'a) eff \<Rightarrow> ('p orchestrator, 'a) eff" where
  "on_client m = (\<lambda>o1. case m (o_client o1) of None \<Rightarrow> None | Some (r, c) \<Rightarrow> Some (r, o1\<lparr>o_client := c\<rparr>))"

definition on_provider :: "('p \<times> nat, 'a) eff \<Rightarrow> ('p orchestrator, 'a) eff" where
  "on_provider m = (\<lambda>o1. case m (o_provider o1, tick (o_client o1)) of
      None \<Rightarrow> None
    | Some (r, (p, n)) \<Rightarrow> Some (r, o1\<lparr>o_provider := p, o_client := (o_client o1)\<lparr>tick := n\<rparr>\<rparr>))"

definition record_event :: "string \<Rightarrow> (string \<times> pystr) list \<Rightarrow> ('p orchestrator, unit) eff" where
  "record_event event kvs = (\<lambda>o1. case add (transcript o1) (event, map (\<lambda>(k, s). (k, PStr s)) kvs) of
      Inl e \<Rightarrow> Some (Inl e, o1)
    | Inr t \<Rightarrow> Some (Inr (), o1\<lparr>transcript := t\<rparr>))"

subsection \<open>Identity of an action\<close>

definition action_of :: "pystr \<Rightarrow> tool_call_proposal \<Rightarrow> tool_surface \<Rightarrow> pystr outcome" where
  "action_of ctx p sf =
     bindE (dumps (obj [(''surface'', PStr (surface_identity sf)), (''name'', PStr (proposal_name p)),
        (''arguments'', arguments p), (''context'', PStr ctx)])) (\<lambda>b.
     LocalActionIdentity (take 32 (sha256_hex b)))"

subsection \<open>Ending a run\<close>

definition shutdown_events :: "string \<Rightarrow> string list" where
  "shutdown_events mode =
     (if mode = ''terminate'' then [''shutdown_terminate'']
      else if mode = ''kill'' then [''shutdown_terminate'', ''shutdown_kill'']
      else if mode = ''unreaped'' then [''shutdown_terminate'', ''shutdown_kill'', ''shutdown_unreaped'']
      else [])
     @ (if mode \<noteq> ''unreaped'' then [''shutdown_complete''] else [])"

definition finish :: "world \<Rightarrow> rat \<Rightarrow> string \<Rightarrow> ('p orchestrator, orchestration_outcome) eff" where
  "finish W deadline outcome =
     bindM (record_event ''shutdown_start'' []) (\<lambda>_.
     bindM (on_client (close W (Some deadline) True)) (\<lambda>mode.
     bindM (forM (\<lambda>event. record_event event []) (shutdown_events mode)) (\<lambda>_.
     bindM (record_event ''outcome'' [(''outcome'', py outcome)]) (\<lambda>_.
     bindM (getM id) (\<lambda>o1.
     bindM (liftM (transcript_to_json_bytes (transcript o1))) (\<lambda>raw.
     bindM (liftM (parse_bounded_transcript (w_nesting W) (PBytes raw) (o_limits o1))) (\<lambda>_.
     retM \<lparr> oo_outcome = outcome, oo_evidence = evidence o1, oo_order = order o1, oo_transcript = raw \<rparr>)))))))"

subsection \<open>Validating the proposals of one turn\<close>

type_synonym prepared = "tool_call_proposal \<times> pystr \<times> pybytes \<times> pyval"

definition check_proposal :: "limits \<Rightarrow> tool_call_proposal \<Rightarrow> advertised_tool \<Rightarrow> pyval outcome" where
  "check_proposal l p tool = bindE (freeze_json l None 0 (arguments p)) (\<lambda>frozen.
     bindE (validate_schema l frozen (parameters tool)) (\<lambda>_. Inr frozen))"

definition replayed :: "'p orchestrator \<Rightarrow> prepared list \<Rightarrow> tool_call_proposal \<Rightarrow> pystr \<Rightarrow> bool" where
  "replayed o1 acc p aid \<longleftrightarrow> call_ids o1 (call_id p) \<noteq> None \<or> aid \<in> actions o1
     \<or> list_ex (\<lambda>(q, a, _). call_id q = call_id p \<or> a = aid) acc"

fun prepare :: "world \<Rightarrow> rat \<Rightarrow> tool_surface \<Rightarrow> prepared list \<Rightarrow> tool_call_proposal option list
    \<Rightarrow> ('p orchestrator, orchestration_outcome + prepared list) eff" where
  "prepare W d sf acc [] = retM (Inr acc)"
| "prepare W d sf acc (None # ps) =
     bindM (record_event ''proposal_rejected'' [(''proposal'', py ''invalid'')]) (\<lambda>_.
     bindM (finish W d ''rejected'') (\<lambda>res. retM (Inl res)))"
| "prepare W d sf acc (Some p # ps) =
     (case find (\<lambda>x. tool_name x = proposal_name p) (surface_tools sf) of
        None \<Rightarrow>
          bindM (record_event ''proposal_rejected'' [(''proposal'', call_id p)]) (\<lambda>_.
          bindM (finish W d ''rejected'') (\<lambda>res. retM (Inl res)))
      | Some tool \<Rightarrow>
          bindM (getM id) (\<lambda>o1.
          case check_proposal (o_limits o1) p tool of
            Inl e \<Rightarrow>
              if is_provider_error e then
                bindM (record_event ''proposal_rejected'' [(''proposal'', call_id p)]) (\<lambda>_.
                bindM (forM (\<lambda>later. case later of
                    None \<Rightarrow> retM () | Some q \<Rightarrow> record_event ''skipped'' [(''proposal'', call_id q)]) ps) (\<lambda>_.
                bindM (finish W d ''rejected'') (\<lambda>res. retM (Inl res))))
              else raiseM e
          | Inr frozen \<Rightarrow>
              bindM (liftM (dumps (call_params (proposal_name p) frozen))) (\<lambda>body.
              bindM (liftM (action_of (o_context o1) p sf)) (\<lambda>aid.
              if replayed o1 acc p aid then
                bindM (record_event ''proposal_duplicate'' [(''proposal'', call_id p)]) (\<lambda>_.
                bindM (finish W d ''duplicate'') (\<lambda>res. retM (Inl res)))
              else prepare W d sf (acc @ [(p, aid, body, frozen)]) ps))))"

subsection \<open>Executing them\<close>

definition perform_one :: "world \<Rightarrow> nat \<Rightarrow> rat \<Rightarrow> pystr \<Rightarrow> authorized_action \<Rightarrow> ('p orchestrator, unit) eff" where
  "perform_one W fuel d aid auth =
     bindM (getM id) (\<lambda>o1.
     bindM (record_event ''mcp_request'' [(''action'', aid), (''response'', dec_int (next_id (o_client o1)))]) (\<lambda>_.
     bindM (on_client (execute W fuel auth d)) (\<lambda>response.
     bindM (modifyM (\<lambda>o1. o1\<lparr>order := order o1 @ [aid], evidence := evidence o1 @
       [\<lparr> ev_action = aid, ev_response = request_id response, ev_result = response_result response \<rparr>]\<rparr>)) (\<lambda>_.
     bindM (record_event ''mcp_response'' [(''action'', aid), (''response'', dec_int (request_id response))]) (\<lambda>_.
     record_event ''evidence_validated'' [(''action'', aid), (''response'', dec_int (request_id response))])))))"

fun perform :: "world \<Rightarrow> nat \<Rightarrow> rat \<Rightarrow> prepared list \<Rightarrow> ('p orchestrator, orchestration_outcome option) eff" where
  "perform W fuel d [] = retM None"
| "perform W fuel d ((p, aid, body, frozen) # rest) =
     bindM (on_client (observe (w_cancelled W))) (\<lambda>cancelled.
     if cancelled then
       bindM (record_event ''cancelled'' []) (\<lambda>_.
       bindM (record_event ''skipped'' [(''proposal'', call_id p)]) (\<lambda>_.
       bindM (finish W d ''cancelled'') (\<lambda>res. retM (Some res))))
     else
       bindM (getM id) (\<lambda>o1.
       bindM (if mcp_total_calls (o_limits o1) \<le> int (length (order o1)) then retM True
              else bindM (on_client (observe (w_clock W))) (\<lambda>now. retM (remaining_ms d now \<le> 0))) (\<lambda>exhausted.
       if exhausted then
         bindM (record_event ''deadline'' []) (\<lambda>_.
         bindM (record_event ''skipped'' [(''proposal'', call_id p)]) (\<lambda>_.
         bindM (finish W d ''deadline'') (\<lambda>res. retM (Some res))))
       else
         bindM (on_client (authorize W aid (call_id p) (proposal_name p) frozen)) (\<lambda>auth.
         bindM (modifyM (\<lambda>o1. o1\<lparr>call_ids := (call_ids o1)(call_id p \<mapsto> body), actions := insert aid (actions o1)\<rparr>)) (\<lambda>_.
         bindM (record_event ''authorized'' [(''action'', aid), (''proposal'', call_id p)]) (\<lambda>_.
         bindM
           (tryM (bindM (perform_one W fuel d aid auth) (\<lambda>_. retM None))
              (\<lambda>e. case e of
                 ProviderError f \<Rightarrow>
                   bindM (record_event ''failure'' [(''failure'', py (failure_value (classification f)))]) (\<lambda>_.
                   bindM (forM (\<lambda>(later, _). record_event ''skipped'' [(''proposal'', call_id later)]) rest) (\<lambda>_.
                   bindM (finish W d (if classification f = CANCELLED then ''cancelled'' else ''failed'')) (\<lambda>res.
                   retM (Some res))))
               | _ \<Rightarrow> raiseM e)) (\<lambda>ended.
         case ended of Some res \<Rightarrow> retM (Some res) | None \<Rightarrow> perform W fuel d rest)))))))"

subsection \<open>Turns\<close>

definition provider_response_value :: "turn_response \<Rightarrow> pyval outcome" where
  "provider_response_value response = (case response of
      Final m \<Rightarrow> Inr (obj [(''kind'', PStr (py ''final'')), (''role'', PStr (py (role_value (role m)))),
        (''content'', PStr (provider_message.content m))])
    | Proposals ps \<Rightarrow>
        bindE (mapE (\<lambda>p. case p of
            None \<Rightarrow> Inl (raises INVALID_TOOL_PROPOSAL)
          | Some q \<Rightarrow> Inr (obj [(''id'', PStr (call_id q)), (''name'', PStr (proposal_name q)), (''arguments'', arguments q)])) ps) (\<lambda>calls.
        Inr (obj [(''kind'', PStr (py ''proposals'')), (''calls'', PList calls)])))"

definition encode_response :: "turn_response \<Rightarrow> pybytes outcome" where
  "encode_response response = bindE (provider_response_value response) dumps"

definition bounded_request :: "provider_request \<Rightarrow> tool_surface \<Rightarrow> provider_request outcome" where
  "bounded_request req sf = ProviderRequest (PStr (request_model req)) (messages req) (surface_tools sf)
     (PInt (max_output_tokens req)) (correlation_id req) (generation req)"

definition handle_response ::
    "world \<Rightarrow> nat \<Rightarrow> rat \<Rightarrow> tool_surface \<Rightarrow> nat \<Rightarrow> turn_response \<Rightarrow> ('p orchestrator, orchestration_outcome option) eff" where
  "handle_response W fuel d sf n response =
     bindM (getM o_limits) (\<lambda>l.
     case encode_response response of
       Inl e \<Rightarrow>
         if e = TypeError \<or> is_value_error e \<or> is_provider_error e
         then bindM (finish W d ''failed'') (\<lambda>res. retM (Some res)) else raiseM e
     | Inr encoded \<Rightarrow>
         if provider_response_bytes l < int (length encoded) then bindM (finish W d ''failed'') (\<lambda>res. retM (Some res))
         else
           bindM (record_event ''provider_turn_response'' [(''turn'', dec n), (''bytes'', dec (length encoded))]) (\<lambda>_.
           case response of
             Final m \<Rightarrow> bindM (finish W d ''final'') (\<lambda>res. retM (Some res))
           | Proposals ps \<Rightarrow>
               if proposed_tool_call_count l < int (length ps) \<or> mcp_calls_per_turn l < int (length ps)
               then bindM (finish W d ''rejected'') (\<lambda>res. retM (Some res))
               else
                 bindM (prepare W d sf [] ps) (\<lambda>ready. case ready of
                   Inl res \<Rightarrow> retM (Some res)
                 | Inr calls \<Rightarrow> perform W fuel d calls)))"

fun turns :: "world \<Rightarrow> nat \<Rightarrow> 'p turn \<Rightarrow> rat \<Rightarrow> provider_request \<Rightarrow> tool_surface \<Rightarrow> nat list
    \<Rightarrow> ('p orchestrator, orchestration_outcome) eff" where
  "turns W fuel turn d req sf [] = finish W d ''budget''"
| "turns W fuel turn d req sf (n # ns) =
     bindM (on_client (observe (w_cancelled W))) (\<lambda>cancelled.
     if cancelled then finish W d ''cancelled''
     else
       bindM (getM id) (\<lambda>o1.
       bindM (on_client (deadline_timeout W d (provider_total_timeout_ms (o_limits o1)))) (\<lambda>budget.
       bindM (liftM (bounded_request req sf)) (\<lambda>bounded.
       bindM (liftM (request_to_json_bytes bounded (o_limits o1))) (\<lambda>raw.
       bindM (record_event ''provider_turn_start'' [(''turn'', dec n), (''bytes'', dec (length raw))]) (\<lambda>_.
       bindM (on_provider (turn bounded (evidence o1) budget)) (\<lambda>response.
       bindM (on_client (observe (w_clock W))) (\<lambda>now.
       if remaining_ms d now \<le> 0 then finish W d ''deadline''
       else
         bindM (handle_response W fuel d sf n response) (\<lambda>ended. case ended of
           Some res \<Rightarrow> retM res
         | None \<Rightarrow> turns W fuel turn d req sf ns)))))))))"

subsection \<open>The run\<close>

definition last_id :: "'a mcp_response option \<Rightarrow> int \<Rightarrow> pystr" where
  "last_id r dflt = dec_int (case r of Some x \<Rightarrow> request_id x | None \<Rightarrow> dflt)"

definition session :: "world \<Rightarrow> nat \<Rightarrow> 'p turn \<Rightarrow> rat \<Rightarrow> provider_request \<Rightarrow> ('p orchestrator, orchestration_outcome) eff" where
  "session W fuel turn d req =
     bindM (record_event ''process_start'' []) (\<lambda>_.
     bindM (record_event ''initialize_request'' []) (\<lambda>_.
     bindM (on_client (initialize_and_capture W fuel d)) (\<lambda>sf.
     bindM (getM o_client) (\<lambda>c.
     bindM (record_event ''initialize_response'' [(''response'', last_id (last_initialize c) 1)]) (\<lambda>_.
     bindM (record_event ''initialized_notification'' []) (\<lambda>_.
     bindM (record_event ''tools_list_request'' []) (\<lambda>_.
     bindM (record_event ''tools_list_response'' [(''response'', last_id (last_tools_list c) 2)]) (\<lambda>_.
     bindM (record_event ''surface_captured'' [(''surface'', surface_identity sf)]) (\<lambda>_.
     bindM (getM o_limits) (\<lambda>l.
     turns W fuel turn d req sf [0..<nat (provider_turn_count l)]))))))))))"

definition recover :: "world \<Rightarrow> rat \<Rightarrow> exn \<Rightarrow> ('p orchestrator, orchestration_outcome) eff" where
  "recover W d e = (case e of
      ProviderError f \<Rightarrow>
        if classification f = CANCELLED then bindM (record_event ''cancelled'' []) (\<lambda>_. finish W d ''cancelled'')
        else if classification f \<in> {MCP_TIMEOUT, TOTAL_REQUEST_TIMEOUT} then
          bindM (record_event ''deadline'' []) (\<lambda>_. finish W d ''deadline'')
        else
          bindM (record_event ''failure'' [(''failure'', py (failure_value (classification f)))]) (\<lambda>_. finish W d ''failed'')
    | _ \<Rightarrow> raiseM e)"

definition run :: "world \<Rightarrow> nat \<Rightarrow> 'p turn \<Rightarrow> provider_request \<Rightarrow> ('p orchestrator, orchestration_outcome) eff" where
  "run W fuel turn req =
     bindM (getM o_limits) (\<lambda>l.
     bindM (on_client (observe (w_clock W))) (\<lambda>now.
     let d = fl (now + seconds (orchestration_total_timeout_ms l)) in
     finallyM (tryM (session W fuel turn d req) (recover W d))
       (bindM (on_client (close W (Some d) True)) (\<lambda>_. retM ()))))"

subsection \<open>The scripted provider\<close>

record scripted_provider =
  responses :: "turn_response list"
  script_delay :: int
  script_index :: nat

definition script_tick :: "(nat \<Rightarrow> 'a) \<Rightarrow> (scripted_provider \<times> nat, 'a) eff" where
  "script_tick f = (\<lambda>(p, n). Some (Inr (f n), (p, Suc n)))"

text \<open>
  The delay loop: the clock is read before the delay is tested, cancellation is tested, the clock is read again for the
  length of the sleep.
\<close>

function script_wait :: "world \<Rightarrow> rat \<Rightarrow> scripted_provider \<times> nat \<Rightarrow> (unit outcome \<times> scripted_provider \<times> nat) option" where
  "script_wait W limit (p, n) =
     (if w_clock W n < limit \<and> 0 < script_delay p then
        if w_cancelled W (Suc n) then Some (Inl (raises CANCELLED), (p, Suc (Suc n)))
        else script_wait W limit (p\<lparr>script_delay := script_delay p - 5\<rparr>, Suc (Suc (Suc n)))
      else Some (Inr (), (p, Suc n)))"
  by pat_completeness auto
termination
  by (relation "measure (\<lambda>(W, limit, p, n). nat (script_delay p))") auto

declare script_wait.simps [simp del]

definition scripted_turn :: "world \<Rightarrow> scripted_provider turn" where
  "scripted_turn W req ev timeout_ms =
     bindM (checkM (0 < timeout_ms) (raises TOTAL_REQUEST_TIMEOUT)) (\<lambda>_.
     bindM (script_tick (w_clock W)) (\<lambda>now.
     let limit = fl (now + seconds timeout_ms) in
     bindM (script_wait W limit) (\<lambda>_.
     bindM (script_tick (w_cancelled W)) (\<lambda>cancelled.
     bindM (checkM (\<not> cancelled) (raises CANCELLED)) (\<lambda>_.
     bindM (getM fst) (\<lambda>p.
     bindM (if 0 < script_delay p then retM True else bindM (script_tick (w_clock W)) (\<lambda>now. retM (limit \<le> now))) (\<lambda>late.
     bindM (checkM (\<not> late) (raises TOTAL_REQUEST_TIMEOUT)) (\<lambda>_.
     bindM (checkM (script_index p < length (responses p)) (raises PERMANENT_PROVIDER_FAILURE)) (\<lambda>_.
     bindM (modifyM (\<lambda>(p, n). (p\<lparr>script_index := Suc (script_index p)\<rparr>, n))) (\<lambda>_.
     retM (responses p ! script_index p)))))))))))"

end
