(* ===== verification/Orchestrator_Laws.thy ===== *)
theory Orchestrator_Laws
  imports Orchestrator
begin

text \<open>
  What \<open>Orchestrator.run\<close> guarantees. The invariant \<open>sound\<close> relates the actions, the evidence, the messages sent
  to the child and the control transcript; it is kept by every step of a run, also by one that raises. From
  it come the properties: budgets, replay protection, a transcript that agrees with the evidence, no classified failure
  that escapes, and the release of the child. The contract of a provider is the locale \<open>bounded_provider\<close>; \<open>ScriptedProvider\<close> is an interpretation.
\<close>

section \<open>Recording events\<close>

text \<open>Text of lower case hexadecimal digits is recorded as it is.\<close>

lemma hex_not_suspicious: "list_all lower_hex s \<Longrightarrow> \<not> suspicious (lower_ascii s)"
proof
  assume s: "list_all lower_hex s" and "suspicious (lower_ascii s)"
  then obtain m where m: "m \<in> set SUSPICIOUS" "has_sub (py m) (lower_ascii s)"
    by (auto simp: suspicious_def list_ex_iff)
  have "lower_ascii s = s"
    using s by (induction s) (auto simp: lower_ascii_def lower_ascii_char_def ascii_upper_def lower_hex_def ascii_digit_def)
  with m has_sub_subset [OF m(2)] s have "list_all lower_hex (py m)"
    by (auto simp: list_all_iff)
  with m(1) show False
    by (auto simp: SUSPICIOUS_def py_def lower_hex_def ascii_digit_def)
qed

lemma hex_text:
  assumes "list_all lower_hex s" and "s \<noteq> []"
  shows "control_text (PStr s) = (if length s \<le> 64 then Some s else None)"
proof -
  have chars: "c < 128 \<and> c \<noteq> 47 \<and> c \<noteq> 92" if "c \<in> set s" for c
    using assms(1) that by (auto simp: list_all_iff lower_hex_def ascii_digit_def)
  then have "isascii s" "\<not> starts_with [47] s" "92 \<notin> set s"
    using assms(2) by (auto simp: isascii_iff) (cases s; auto)
  with hex_not_suspicious [OF assms(1)] assms(2) show ?thesis by (auto simp: control_text_def)
qed

lemma dec_int_hex: "0 \<le> i \<Longrightarrow> list_all lower_hex (dec_int i) \<and> dec_int i \<noteq> []"
  by (auto simp: dec_int_def list_all_iff intro: ascii_digit_lower_hex dest: dec_digits)

lemma dec_int_inject: "0 \<le> i \<Longrightarrow> 0 \<le> j \<Longrightarrow> dec_int i = dec_int j \<longleftrightarrow> i = j"
  by (simp add: dec_int_def eq_nat_nat_iff)

lemma record_event_cases:
  assumes "record_event event kvs o1 = Some (r, o2)"
  obtains (raised) e where "r = Inl e" "o2 = o1" "add (transcript o1) (event, map (\<lambda>(k, s). (k, PStr s)) kvs) = Inl e"
    | (kept) t where "r = Inr ()" "o2 = o1\<lparr>transcript := t\<rparr>"
        "add (transcript o1) (event, map (\<lambda>(k, s). (k, PStr s)) kvs) = Inr t"
  using assms by (auto simp: record_event_def split: sum.splits)

lemma add_total:
  assumes inv: "bt_inv l t" and room: "bt_events t \<noteq> [] \<or> 88 \<le> transcript_bytes l" and "distinct (map fst kwargs)"
    and keys: "schema_keys_ok event ((\<lambda>(k, v). SKey (py k)) ` set kwargs)" and ms: "mapE control_item kwargs = Inr ms"
  shows "\<exists>t'. add t (event, kwargs) = Inr t'"
proof (cases "bt_limited t")
  case True
  with assms(3) show ?thesis by (simp add: add_def)
next
  case False
  obtain b where b: "encode_transcript (bt_events t @ [terminal_event]) True = Inr b"
    "length b = encoded_length (bt_events t @ [terminal_event]) True" by (rule encode_transcript_Inr)
  obtain b' where b': "encode_transcript (bt_events t @ [\<lparr>ce_event = event, ce_metadata = ms\<rparr>, terminal_event]) True = Inr b'"
    by (rule encode_transcript_Inr)
  have "int (encoded_length (bt_events t @ [terminal_event]) True) \<le> transcript_bytes l"
  proof (cases "bt_events t = []")
    case True
    with room show ?thesis
      by (simp add: encoded_length_eq control_dump_def control_value_def terminal_event_def obj_def key_text_def dumps_str_def
          escape_char_def py_def)
  qed (use inv False in \<open>auto simp: bt_inv_def\<close>)
  with False b b' ms assms show ?thesis by (simp add: add_def Let_def bt_inv_def)
qed

section \<open>The chain of events of an action\<close>

definition CORRELATED :: "string set" where
  "CORRELATED = {''authorized'', ''mcp_request'', ''mcp_response'', ''evidence_validated''}"

definition evidence_pairs :: "evidence list \<Rightarrow> (pystr \<times> pystr) set" where
  "evidence_pairs ev = (\<lambda>e. (ev_action e, dec_int (ev_response e))) ` set ev"

definition requested :: "bounded_transcript \<Rightarrow> (pystr \<times> pystr) set" where
  "requested t = pairs_of ''mcp_request'' (bt_events t)"

text \<open>
  The events of a log are correlated, they mention authorised actions from \<open>A\<close> only, and until the log is full the
  validated evidence they report is exactly \<open>ev\<close>.
\<close>

definition chained :: "pystr set \<Rightarrow> evidence list \<Rightarrow> bounded_transcript \<Rightarrow> bool" where
  "chained A ev t \<longleftrightarrow> (\<exists>c. runE correlate no_correlation (bt_events t) = Inr c)
     \<and> fst ` pairs_of ''authorized'' (bt_events t) \<subseteq> A
     \<and> fst ` requested t \<subseteq> fst ` pairs_of ''authorized'' (bt_events t)
     \<and> pairs_of ''mcp_response'' (bt_events t) \<subseteq> requested t
     \<and> pairs_of ''evidence_validated'' (bt_events t) \<subseteq> pairs_of ''mcp_response'' (bt_events t)
     \<and> pairs_of ''evidence_validated'' (bt_events t) \<subseteq> evidence_pairs ev
     \<and> (bt_limited t \<or> pairs_of ''evidence_validated'' (bt_events t) = evidence_pairs ev)"

lemma chained_start: "chained {} [] (BoundedTranscript l)"
  by (simp add: chained_def BoundedTranscript_def pairs_of_def evidence_pairs_def requested_def)

lemma correlate_neutral: "ce_event e \<notin> CORRELATED \<Longrightarrow> correlate c e = Inr c"
  by (simp add: correlate_def CORRELATED_def)

lemma chained_mono: "chained A ev t \<Longrightarrow> A \<subseteq> B \<Longrightarrow> chained B ev t"
  unfolding chained_def by blast

lemma chained_limited: "chained A ev t \<Longrightarrow> bt_limited t \<Longrightarrow> chained A (ev @ ev') t"
  by (auto simp: chained_def evidence_pairs_def)

text \<open>One more event of the log, recorded or replaced by the final marker.\<close>

lemma run_correlate_snoc:
  "\<exists>c. runE correlate no_correlation es = Inr c \<Longrightarrow> \<exists>d. correlate (summary es) e = Inr d \<Longrightarrow>
     \<exists>c. runE correlate no_correlation (es @ [e]) = Inr c"
  using run_correlate by (fastforce simp: runE_append)

lemma chained_neutral_event:
  assumes "chained A ev t" and "ce_event e \<notin> CORRELATED" and "bt_limited t \<longrightarrow> b"
  shows "chained A ev (t\<lparr>bt_events := bt_events t @ [e], bt_limited := b\<rparr>)"
  using assms run_correlate_snoc [of "bt_events t" e] correlate_neutral [OF assms(2)]
  by (auto simp: chained_def requested_def pairs_of_snoc CORRELATED_def)

lemma add_event:
  assumes "add t (event, kwargs) = Inr t'"
  obtains (full) "bt_limited t'" "t' = t"
    | (kept) ms where "\<not> bt_limited t" "t' = t\<lparr>bt_events := bt_events t @ [\<lparr>ce_event = event, ce_metadata = ms\<rparr>], bt_limited := False\<rparr>"
        "mapE control_item kwargs = Inr ms"
    | (marked) "bt_limited t'" "\<not> bt_limited t" "t' = t\<lparr>bt_events := bt_events t @ [terminal_event], bt_limited := True\<rparr>"
  using assms by (cases rule: add_cases) auto

lemma chained_neutral:
  assumes "chained A ev t" and "add t (event, kwargs) = Inr t'" and "event \<notin> CORRELATED"
  shows "chained A ev t' \<and> requested t' = requested t"
  using assms(2)
proof (cases rule: add_event)
  case (kept ms)
  with assms chained_neutral_event [OF assms(1), of "\<lparr>ce_event = event, ce_metadata = ms\<rparr>" False] show ?thesis
    by (auto simp: requested_def pairs_of_snoc CORRELATED_def)
next
  case marked
  with assms chained_neutral_event [OF assms(1), of terminal_event True] show ?thesis
    by (auto simp: requested_def pairs_of_snoc CORRELATED_def terminal_event_def)
qed (use assms in simp)

lemma chained_marked:
  "chained A ev t \<Longrightarrow> chained A ev (t\<lparr>bt_events := bt_events t @ [terminal_event], bt_limited := True\<rparr>)"
  by (rule chained_neutral_event) (auto simp: terminal_event_def CORRELATED_def)

lemma requested_marked [simp]: "requested (t\<lparr>bt_events := bt_events t @ [terminal_event], bt_limited := b\<rparr>) = requested t"
  by (simp add: requested_def pairs_of_snoc terminal_event_def)

text \<open>An event that names an action and a second text. The texts of an id are recorded unchanged.\<close>

lemma pair_items:
  assumes "mapE control_item [(''action'', PStr a), (k, PStr s)] = Inr ms" and "list_all lower_hex a"
  shows "meta ms ''action'' = a"
proof -
  from assms(1) obtain a' s' where a': "control_text (PStr a) = Some a'" "ms = [(''action'', a'), (k, s')]"
    by (auto simp: control_item_def split: option.splits)
  moreover have "a \<noteq> []" using a'(1) by (auto simp: control_text_def)
  ultimately show ?thesis using hex_text [OF assms(2)] by (auto simp: meta_def split: if_splits)
qed

lemma response_items:
  assumes "mapE control_item [(''action'', PStr a), (''response'', PStr s)] = Inr ms" and "list_all lower_hex a" and "list_all lower_hex s"
  shows "ms = [(''action'', a), (''response'', s)]"
proof -
  from assms(1) obtain a' s' where a': "control_text (PStr a) = Some a'" "control_text (PStr s) = Some s'"
      "ms = [(''action'', a'), (''response'', s')]"
    by (auto simp: control_item_def split: option.splits)
  moreover have "a \<noteq> []" "s \<noteq> []" using a' by (auto simp: control_text_def)
  ultimately show ?thesis using hex_text [OF assms(2)] hex_text [OF assms(3)] by (auto split: if_splits)
qed

abbreviation action_event :: "string \<Rightarrow> pystr \<Rightarrow> pystr \<Rightarrow> string \<times> (string \<times> pyval) list" where
  "action_event event a s \<equiv> (event, [(''action'', PStr a), (''response'', PStr s)])"

lemma chained_authorized:
  assumes "chained A ev t" and "a \<notin> A" and "list_all lower_hex a"
    and "add t (''authorized'', [(''action'', PStr a), (''proposal'', PStr p)]) = Inr t'"
  shows "chained (insert a A) ev t' \<and> requested t' = requested t
    \<and> (bt_limited t' \<or> a \<in> fst ` pairs_of ''authorized'' (bt_events t') \<and> a \<notin> fst ` requested t')"
  using assms(4)
proof (cases rule: add_event)
  case (kept ms)
  let ?e = "\<lparr>ce_event = ''authorized'', ce_metadata = ms\<rparr>"
  have a: "meta ms ''action'' = a" by (rule pair_items [OF kept(3) assms(3)])
  moreover have old: "a \<notin> fst ` pairs_of ''authorized'' (bt_events t)" using assms(1,2) by (auto simp: chained_def)
  ultimately have "\<exists>d. correlate (summary (bt_events t)) ?e = Inr d" by (simp add: correlate_def summary_def)
  then have "\<exists>c. runE correlate no_correlation (bt_events t @ [?e]) = Inr c"
    using assms(1) by (intro run_correlate_snoc) (simp add: chained_def)
  moreover have "a \<notin> fst ` requested t" using old assms(1) by (auto simp: chained_def)
  ultimately show ?thesis
    using assms(1) a kept(1,2) by (auto simp: chained_def requested_def pairs_of_snoc)
qed (use assms(1) chained_marked chained_mono [OF _ subset_insertI] in auto)

lemma chained_request:
  assumes ch: "chained A ev t" and ready: "bt_limited t \<or> a \<in> fst ` pairs_of ''authorized'' (bt_events t) \<and> a \<notin> fst ` requested t"
    and hex: "list_all lower_hex a" "list_all lower_hex s" and s: "s \<notin> snd ` requested t"
    and step: "add t (action_event ''mcp_request'' a s) = Inr t'"
  shows "chained A ev t' \<and> requested t' \<subseteq> insert (a, s) (requested t)
    \<and> (bt_limited t' \<or> (a, s) \<in> requested t' \<and> (a, s) \<notin> pairs_of ''mcp_response'' (bt_events t')
         \<and> bt_events t' \<noteq> [] \<and> mapE control_item (snd (action_event ''mcp_request'' a s)) = Inr [(''action'', a), (''response'', s)])"
  using step
proof (cases rule: add_event)
  case (kept ms)
  have ms: "ms = [(''action'', a), (''response'', s)]" by (rule response_items [OF kept(3) hex])
  let ?e = "\<lparr>ce_event = ''mcp_request'', ce_metadata = ms\<rparr>"
  from ready kept(1) have auth: "a \<in> fst ` pairs_of ''authorized'' (bt_events t)" "a \<notin> fst ` requested t" by auto
  have fresh: "(a, s) \<notin> requested t" using s by force
  have "\<exists>d. correlate (summary (bt_events t)) ?e = Inr d"
    using auth s fresh by (simp add: correlate_def summary_def ms meta_def Let_def requested_def)
  then have "\<exists>c. runE correlate no_correlation (bt_events t @ [?e]) = Inr c"
    using ch by (intro run_correlate_snoc) (simp add: chained_def)
  then show ?thesis
    using ch auth fresh kept ms by (auto simp: chained_def requested_def pairs_of_snoc meta_def)
qed (use ch chained_marked in auto)

lemma chained_response:
  assumes ch: "chained A ev t" and ready: "bt_limited t \<or> (a, s) \<in> requested t \<and> (a, s) \<notin> pairs_of ''mcp_response'' (bt_events t)"
    and hex: "list_all lower_hex a" "list_all lower_hex s" and step: "add t (action_event ''mcp_response'' a s) = Inr t'"
  shows "chained A ev t' \<and> requested t' = requested t
    \<and> (bt_limited t' \<or> (a, s) \<in> pairs_of ''mcp_response'' (bt_events t') \<and> (a, s) \<notin> pairs_of ''evidence_validated'' (bt_events t')
        \<and> bt_events t' \<noteq> [])"
  using step
proof (cases rule: add_event)
  case (kept ms)
  have ms: "ms = [(''action'', a), (''response'', s)]" by (rule response_items [OF kept(3) hex])
  let ?e = "\<lparr>ce_event = ''mcp_response'', ce_metadata = ms\<rparr>"
  from ready kept(1) have req: "(a, s) \<in> requested t" "(a, s) \<notin> pairs_of ''mcp_response'' (bt_events t)" by auto
  then have "\<exists>d. correlate (summary (bt_events t)) ?e = Inr d"
    by (simp add: correlate_def summary_def ms meta_def Let_def requested_def)
  then have "\<exists>c. runE correlate no_correlation (bt_events t @ [?e]) = Inr c"
    using ch by (intro run_correlate_snoc) (simp add: chained_def)
  moreover have "(a, s) \<notin> pairs_of ''evidence_validated'' (bt_events t)" using ch req(2) by (auto simp: chained_def)
  ultimately show ?thesis
    using ch req kept ms by (auto simp: chained_def requested_def pairs_of_snoc meta_def)
qed (use ch chained_marked in auto)

lemma chained_evidence:
  assumes ch: "chained A ev t"
    and ready: "bt_limited t \<or> (a, dec_int i) \<in> pairs_of ''mcp_response'' (bt_events t)
        \<and> (a, dec_int i) \<notin> pairs_of ''evidence_validated'' (bt_events t)"
    and hex: "list_all lower_hex a" "list_all lower_hex (dec_int i)"
    and step: "add t (action_event ''evidence_validated'' a (dec_int i)) = Inr t'"
  shows "chained A (ev @ [\<lparr>ev_action = a, ev_response = i, ev_result = v\<rparr>]) t' \<and> requested t' = requested t"
  using step
proof (cases rule: add_event)
  case (kept ms)
  have ms: "ms = [(''action'', a), (''response'', dec_int i)]" by (rule response_items [OF kept(3) hex])
  let ?e = "\<lparr>ce_event = ''evidence_validated'', ce_metadata = ms\<rparr>"
  from ready kept(1) have resp: "(a, dec_int i) \<in> pairs_of ''mcp_response'' (bt_events t)"
    "(a, dec_int i) \<notin> pairs_of ''evidence_validated'' (bt_events t)" by auto
  then have "\<exists>d. correlate (summary (bt_events t)) ?e = Inr d"
    by (simp add: correlate_def summary_def ms meta_def Let_def)
  then have "\<exists>c. runE correlate no_correlation (bt_events t @ [?e]) = Inr c"
    using ch by (intro run_correlate_snoc) (simp add: chained_def)
  then show ?thesis
    using ch resp kept ms by (auto simp: chained_def requested_def pairs_of_snoc meta_def evidence_pairs_def)
next
  case marked
  with ch chained_marked [OF ch] chained_limited show ?thesis by auto
qed (use ch chained_limited in auto)

section \<open>The invariant of a run\<close>

definition calls_in :: "(int \<times> string \<times> pyval) list \<Rightarrow> nat" where
  "calls_in xs = length (filter (\<lambda>x. fst (snd x) = ''tools/call'') xs)"

definition healthy :: "client \<Rightarrow> bool" where
  "healthy c \<longleftrightarrow> process c \<or> \<not> selector c"

text \<open>Every piece of evidence is the validated result of a \<open>tools/call\<close> message under the id it carries; ids increase.\<close>

definition evidence_sent :: "world \<Rightarrow> limits \<Rightarrow> (int \<times> string \<times> pyval) list \<Rightarrow> evidence list \<Rightarrow> bool" where
  "evidence_sent W cl xs ev \<longleftrightarrow> sorted_wrt (<) (map ev_response ev)
     \<and> (\<forall>e \<in> set ev. (\<exists>params. (ev_response e, ''tools/call'', params) \<in> set xs)
          \<and> (\<exists>raw schema. validate_tool_result (w_ucd W) (w_str W) raw cl schema = Inr (ev_result e)))"

definition sound :: "world \<Rightarrow> limits \<Rightarrow> limits \<Rightarrow> 'p orchestrator \<Rightarrow> bool" where
  "sound W l cl o1 \<longleftrightarrow> o_limits o1 = l \<and> client_inv cl (o_client o1) \<and> healthy (o_client o1)
     \<and> distinct (order o1) \<and> set (order o1) \<subseteq> actions o1 \<and> order o1 = map ev_action (evidence o1)
     \<and> evidence_sent W cl (sent (o_client o1)) (evidence o1)
     \<and> length (order o1) \<le> calls_in (sent (o_client o1)) \<and> int (calls_in (sent (o_client o1))) \<le> mcp_total_calls l
     \<and> bt_inv l (transcript o1) \<and> chained (actions o1) (evidence o1) (transcript o1)"

text \<open>While the run goes on, no call has failed and the next id is new to the transcript.\<close>

definition running :: "'p orchestrator \<Rightarrow> bool" where
  "running o1 \<longleftrightarrow> calls_in (sent (o_client o1)) = length (order o1)
     \<and> snd ` requested (transcript o1) \<subseteq> dec_int ` {1..<next_id (o_client o1)}"

lemma sound_start:
  assumes "McpStdioClient iss x args env cl = Inr c" and "wf_limits l" and "Orchestrator b c p l ctx = Inr o1"
  shows "sound W l cl o1" and "running o1"
proof -
  have o1: "o1 = fresh_orchestrator c p l ctx" using assms(3) by (simp add: Orchestrator_def bindE_eq_Inr)
  have "sent c = []" "\<not> selector c"
    using assms(1) by (auto simp: McpStdioClient_def bindE_eq_Inr split: pyval.splits if_splits)
  with fresh_inv [OF assms(1)] wf_limits_bounds [OF assms(2)] show "sound W l cl o1" "running o1"
    using initial_inv chained_start [of l]
    by (auto simp: o1 sound_def running_def fresh_orchestrator_def healthy_def evidence_sent_def calls_in_def BoundedTranscript_def
        requested_def pairs_of_def)
qed

subsection \<open>Steps of the client between the calls\<close>

text \<open>The child is registered with a selector only while it is a process of the client.\<close>

definition stays_healthy :: "client \<Rightarrow> client \<Rightarrow> bool" where
  "stays_healthy c c' \<longleftrightarrow> (healthy c \<longrightarrow> healthy c')"

interpretation health: step_relation stays_healthy
  by unfold_locales (auto simp: stays_healthy_def)

lemma health_observe [intro!]: "health.keeps (observe f)"
  by (rule health.keepsI) (auto simp: observe_def stays_healthy_def healthy_def)

lemma health_syscall [intro!]: "health.keeps (syscall W)"
  unfolding syscall_def by auto

lemma health_deadline_timeout [intro!]: "health.keeps (deadline_timeout W d n)"
  unfolding deadline_timeout_def by auto

lemma health_wait [intro!]: "health.keeps (wait W t)"
  unfolding wait_def by (auto simp: stays_healthy_def healthy_def)

lemma health_close [intro!]: "health.keeps (close W d b)"
  unfolding close_def shutdown_def graceful_wait_def reap_wait_def by (auto simp: stays_healthy_def healthy_def)

definition stays_alive :: "client \<Rightarrow> client \<Rightarrow> bool" where
  "stays_alive c c' \<longleftrightarrow> (process c \<longrightarrow> process c')"

interpretation alive: step_relation stays_alive
  by unfold_locales (auto simp: stays_alive_def)

lemma alive_observe [intro!]: "alive.keeps (observe f)"
  by (rule alive.keepsI) (auto simp: observe_def stays_alive_def)

lemma alive_health:
  assumes "alive.keeps m"
  shows "health.keeps (bindM (modifyM (\<lambda>c. c\<lparr>process := True\<rparr>)) (\<lambda>_. m))"
proof (rule health.keepsI)
  fix c r c' assume "bindM (modifyM (\<lambda>c. c\<lparr>process := True\<rparr>)) (\<lambda>_. m) c = Some (r, c')"
  then have "m (c\<lparr>process := True\<rparr>) = Some (r, c')" by (simp add: bindM_eq_Some)
  from alive.keepsD [OF assms this] show "stays_healthy c c'" by (simp add: stays_alive_def stays_healthy_def healthy_def)
qed

lemma health_start [intro!]: "health.keeps (start W d)"
  unfolding start_def
  by (auto intro!: alive_health) (auto simp: syscall_def deadline_timeout_def stays_alive_def)

lemma health_drain_out [intro!]: "health.keeps (drain_out n d rs)"
  by (rule health.keepsI) (auto simp: drain_out_def stays_healthy_def healthy_def Let_def split: if_splits prod.splits)

lemma health_drain_err [intro!]: "health.keeps (drain_err d)"
  unfolding drain_err_def by (auto simp: stays_healthy_def healthy_def)

lemma health_drain_ready [intro!]: "health.keeps (drain_ready n ready rs)"
  by (induction n ready rs rule: drain_ready.induct) (auto split: read_result.splits simp del: eff_simps)

lemma health_drain [intro!]: "health.keeps (drain W t n)"
  unfolding drain_def by (auto simp: stays_healthy_def healthy_def)

lemma health_startup [intro!]: "stays_healthy c (if b then c\<lparr>startup_pending := False\<rparr> else c)"
  by (simp add: stays_healthy_def healthy_def)

lemma health_await [intro!]: "health.keeps (await W fuel m i st d opr rl sl a)"
proof (induction fuel)
  case 0
  show ?case by (rule health.keepsI) simp
next
  case (Suc fuel)
  then show ?case unfolding await.simps Let_def
    by (intro health.keeps_bind health.keeps_lift health.keeps_get health_observe health_deadline_timeout health_drain)
       (auto split: list.split simp del: eff_simps)
qed

lemma health_request [intro!]: "health.keeps (request W fuel m p d opr a)"
  unfolding request_def write_child_def Let_def
  by (intro health.keeps_bind) (auto simp: stays_healthy_def healthy_def simp del: eff_simps)

lemma health_list_pages: "list_pages W fuel d l collected seen cursor c = Some (r, c') \<Longrightarrow> stays_healthy c c'"
proof (induction W fuel d l collected seen cursor c arbitrary: r c' rule: list_pages.induct)
  case (1 W fuel d l collected seen cursor c)
  have "after (list_pages W fuel d l collected seen cursor) (\<lambda>_. stays_healthy c) c"
    unfolding list_pages_unfold [of W fuel d l collected]
  proof (rule after_bindI, goal_cases)
    case (2 listed t)
    have ct: "stays_healthy c (t\<lparr>last_tools_list := Some listed\<rparr>)"
      using health.keepsD [OF health_request 2] by (simp add: stays_healthy_def healthy_def)
    show ?case
    proof (rule after_bind_modify, rule after_bind_lift, rule ct)
      fix page assume page: "tools_list_page (response_result listed) l = Inr page"
      let ?t = "t\<lparr>last_tools_list := Some listed\<rparr>"
      have "stays_healthy c u" if "list_pages W fuel d l (collected @ fst page) (seen @ [x]) (Some x) ?t = Some (q, u)"
        and "\<not> advertised_tool_count l < int (length collected + length (fst page))" "snd page = Some x"
          "\<not> (x \<in> set seen \<or> fst page = [])" for x q u
        using "1.IH" [OF 2 _ _ prod.collapse that(2-4) that(1)] page ct health.rel_trans by fastforce
      with ct show "after (if advertised_tool_count l < int (length collected + length (fst page)) then raiseM mpf
         else case snd page of None \<Rightarrow> liftM (capture_tool_surface (obj [(''tools'', PList (collected @ fst page))]) l)
           | Some t \<Rightarrow> if t \<in> set seen \<or> fst page = [] then raiseM mpf
              else list_pages W fuel d l (collected @ fst page) (seen @ [t]) (Some t)) (\<lambda>_. stays_healthy c) ?t"
        by (auto simp: after_simps split: option.split intro!: afterI)
    qed
  qed (use health.keepsD [OF health_request] in blast)
  from afterD [OF this "1.prems"] show ?case .
qed

lemma health_initialize [intro!]: "health.keeps (initialize_and_capture W fuel d)"
proof -
  have "health.keeps (list_and_capture W fuel d)"
    unfolding list_and_capture_def by (auto intro!: health.keepsI simp: bindM_eq_Some dest: health_list_pages)
  then show ?thesis
    unfolding initialize_and_capture_def
    by (intro health.keeps_bind) (auto simp: stays_healthy_def healthy_def simp del: eff_simps)
qed

lemma health_execute [intro!]: "health.keeps (execute W fuel a d)"
  unfolding execute_def
  by (intro health.keeps_bind) (auto simp: stays_healthy_def healthy_def simp del: eff_simps split: option.split)

lemma health_authorize [intro!]: "health.keeps (authorize W a p n v)"
  unfolding authorize_def
  by (intro health.keeps_bind) (auto simp: stays_healthy_def healthy_def simp del: eff_simps freeze_json.simps dumps.simps split: option.split)

text \<open>A step of the client that makes no tool call.\<close>

definition calm :: "limits \<Rightarrow> client \<Rightarrow> client \<Rightarrow> bool" where
  "calm cl c c' \<longleftrightarrow> (client_inv cl c \<longrightarrow> client_inv cl c' \<and> (healthy c \<longrightarrow> healthy c') \<and> next_id c \<le> next_id c'
     \<and> (\<exists>xs. sent c' = sent c @ xs \<and> calls_in xs = 0))"

lemma calls_in_append [simp]: "calls_in (xs @ ys) = calls_in xs + calls_in ys"
  by (simp add: calls_in_def)

lemma calls_in_Nil [simp]: "calls_in [] = 0"
  by (simp add: calls_in_def)

interpretation calm: step_relation "calm cl" for cl
  by unfold_locales (force simp: calm_def)+

lemma quiet_calm: "quiet.keeps m \<Longrightarrow> health.keeps m \<Longrightarrow> calm.keeps cl m"
proof (rule calm.keepsI)
  fix c r c' assume m: "quiet.keeps m" "health.keeps m" "m c = Some (r, c')"
  from quiet.keepsD [OF m(1,3)] health.keepsD [OF m(2,3)] show "calm cl c c'"
    using talks_inv [OF _ quiet_talks] by (auto simp: calm_def quiet_def stays_healthy_def)
qed

lemma calm_observe [intro!]: "calm.keeps cl (observe f)"
  by (rule quiet_calm) auto

lemma calm_deadline_timeout [intro!]: "calm.keeps cl (deadline_timeout W d n)"
  by (rule quiet_calm) auto

lemma calm_close [intro!]: "calm.keeps cl (close W d b)"
  by (rule quiet_calm) auto

lemma calm_initialize:
  assumes "wf_limits cl"
  shows "calm.keeps cl (initialize_and_capture W fuel d)"
proof (rule calm.keepsI)
  fix c r c' assume run: "initialize_and_capture W fuel d c = Some (r, c')"
  have "calls_in xs = 0" if "initialize_trace l xs" for l xs
    using that by (fastforce simp: initialize_trace_def calls_in_def filter_empty_conv)
  moreover have "initialize_effect c r c'" if "client_inv cl c"
    using that assms by (intro afterD [OF initialize_and_capture_effect run]) (simp add: client_inv_def)
  moreover have "client_inv cl c'" if "client_inv cl c"
    using that assms client_op_inv [OF client_op.initialize [OF run]] by blast
  ultimately show "calm cl c c'"
    using health.keepsD [OF health_initialize run]
    by (fastforce simp: calm_def initialize_effect_def evolves_def talks_def stays_healthy_def)
qed

lemma calm_authorize:
  assumes "wf_limits cl"
  shows "calm.keeps cl (authorize W a p n v)"
proof (rule calm.keepsI)
  fix c r c' assume run: "authorize W a p n v c = Some (r, c')"
  have "sent c' = sent c \<and> next_id c' = next_id c"
    using run authorize_Inl [of W a p n v c] by (cases r) (auto elim!: authorize_Inr)
  moreover have "client_inv cl c'" if "client_inv cl c"
    using that assms client_op_inv [OF client_op.authorize [OF run]] by blast
  ultimately show "calm cl c c'"
    using health.keepsD [OF health_authorize run] by (auto simp: calm_def stays_healthy_def)
qed

subsection \<open>Steps of the run between the calls\<close>

definition carries :: "world \<Rightarrow> limits \<Rightarrow> limits \<Rightarrow> 'p orchestrator \<Rightarrow> 'p orchestrator \<Rightarrow> bool" where
  "carries W l cl o1 o2 \<longleftrightarrow> actions o2 = actions o1 \<and> order o2 = order o1 \<and> evidence o2 = evidence o1 \<and> o_context o2 = o_context o1
     \<and> call_ids o2 = call_ids o1 \<and> o_limits o2 = o_limits o1
     \<and> (sound W l cl o1 \<longrightarrow> sound W l cl o2 \<and> (running o1 \<longrightarrow> running o2))"

interpretation carries: step_relation "carries W l cl" for W l cl
  by unfold_locales (auto simp: carries_def)

lemma evidence_sent_mono: "evidence_sent W cl xs ev \<Longrightarrow> set xs \<subseteq> set ys \<Longrightarrow> evidence_sent W cl ys ev"
  unfolding evidence_sent_def by blast

lemma carries_client:
  assumes "calm.keeps cl m"
  shows "carries.keeps W l cl (on_client m)"
proof (rule carries.keepsI)
  fix o1 :: "'p orchestrator" and r o2 assume run: "on_client m o1 = Some (r, o2)"
  then obtain c where c: "m (o_client o1) = Some (r, c)" "o2 = o1\<lparr>o_client := c\<rparr>"
    by (auto simp: on_client_def split: option.splits)
  from calm.keepsD [OF assms c(1)] have "calm cl (o_client o1) c" .
  then have "sound W l cl o2 \<and> (running o1 \<longrightarrow> running o2)" if sound: "sound W l cl o1"
  proof -
    from sound have "client_inv cl (o_client o1)" "healthy (o_client o1)" by (simp_all add: sound_def)
    with \<open>calm cl (o_client o1) c\<close> obtain xs where xs: "client_inv cl c" "healthy c" "next_id (o_client o1) \<le> next_id c"
      "sent c = sent (o_client o1) @ xs" "calls_in xs = 0" by (auto simp: calm_def)
    have "evidence_sent W cl (sent c) (evidence o1)"
      using sound xs(4) by (auto simp: sound_def intro: evidence_sent_mono)
    moreover have "dec_int ` {1..<next_id (o_client o1)} \<subseteq> dec_int ` {1..<next_id c}" using xs(3) by auto
    ultimately show ?thesis using sound xs c(2) by (auto simp: sound_def running_def)
  qed
  then show "carries W l cl o1 o2" using c(2) by (simp add: carries_def)
qed

lemma carries_provider [intro!]:
  fixes m :: "('p \<times> nat, 'a) eff"
  shows "carries.keeps W l cl (on_provider m)"
proof (rule carries.keepsI)
  fix o1 :: "'p orchestrator" and r o2 assume "on_provider m o1 = Some (r, o2)"
  then obtain p n where "o2 = o1\<lparr>o_provider := p, o_client := (o_client o1)\<lparr>tick := n\<rparr>\<rparr>"
    by (auto simp: on_provider_def split: option.splits)
  moreover have "client_inv cl (c\<lparr>tick := n\<rparr>) = client_inv cl c" for c by (simp add: client_inv_def)
  moreover have "healthy (c\<lparr>tick := n\<rparr>) = healthy c" for c by (simp add: healthy_def)
  ultimately show "carries W l cl o1 o2" by (clarsimp simp: carries_def sound_def running_def)
qed

lemma carries_record:
  assumes "event \<notin> CORRELATED"
  shows "carries.keeps W l cl (record_event event kvs)"
proof (rule carries.keepsI)
  fix o1 :: "'p orchestrator" and r o2 assume "record_event event kvs o1 = Some (r, o2)"
  then show "carries W l cl o1 o2"
  proof (cases rule: record_event_cases)
    case (kept t)
    have "chained A ev t \<and> requested t = requested (transcript o1)" if "chained A ev (transcript o1)" for A ev
      by (rule chained_neutral [OF that kept(3) assms])
    then show ?thesis
      unfolding carries_def sound_def running_def kept(2) using add_inv [OF _ kept(3)] by clarsimp
  qed (simp add: carries.rel_refl)
qed

lemmas carries_intros = carries.keeps_bind carries.keeps_lift carries.keeps_get carries.keeps_if carries_provider
  carries_client [OF calm_observe] carries_client [OF calm_close] carries_client [OF calm_deadline_timeout]

lemma CORRELATED_iff [simp]:
  "event \<in> CORRELATED \<longleftrightarrow> event \<in> {''authorized'', ''mcp_request'', ''mcp_response'', ''evidence_validated''}"
  by (simp add: CORRELATED_def)

lemma carries_finish: "carries.keeps W l cl (finish W d outcome)"
  unfolding finish_def
  by (intro carries_intros carries.keeps_for carries_record) (auto simp: shutdown_events_def split: if_splits)

lemma carries_skips:
  "carries.keeps W l cl (forM (\<lambda>later. case later of None \<Rightarrow> retM () | Some q \<Rightarrow> record_event ''skipped'' [(''proposal'', call_id q)]) ps)"
  by (intro carries.keeps_for) (auto intro!: carries_record simp del: eff_simps split: option.split)

text \<open>\<open>carries\<close> leaves alone everything that the validation of proposals reads.\<close>

definition fresh_calls :: "'p orchestrator \<Rightarrow> prepared list \<Rightarrow> bool" where
  "fresh_calls o1 acc \<longleftrightarrow> distinct (map (\<lambda>(q, a, b, v). a) acc)
     \<and> (\<forall>(q, a, b, v) \<in> set acc. a \<notin> actions o1 \<and> length a = 32 \<and> list_all lower_hex a)"

definition prepared_well :: "world \<Rightarrow> limits \<Rightarrow> limits \<Rightarrow> 'p orchestrator \<Rightarrow> (orchestration_outcome + prepared list) outcome \<Rightarrow> 'p orchestrator \<Rightarrow> bool" where
  "prepared_well W l cl o1 r o2 \<longleftrightarrow> carries W l cl o1 o2 \<and> (\<forall>acc. r = Inr (Inr acc) \<longrightarrow> o2 = o1 \<and> fresh_calls o1 acc)"

lemma action_of_hex:
  assumes "action_of ctx p sf = Inr aid"
  shows "length aid = 32 \<and> list_all lower_hex aid"
  using assms by (auto simp: action_of_def bindE_eq_Inr LocalActionIdentity_def split: if_splits)

lemma prepare_rejects:
  fixes m :: "('p orchestrator, unit) eff"
  assumes m: "carries.keeps W l cl m"
  shows "after (bindM m (\<lambda>_. bindM (finish W d s) (\<lambda>res. retM (Inl res)))) (prepared_well W l cl o1) o1"
proof (rule afterI)
  fix r :: "(orchestration_outcome + prepared list) outcome" and o2
  assume run: "bindM m (\<lambda>_. bindM (finish W d s) (\<lambda>res. retM (Inl res))) o1 = Some (r, o2)"
  have "carries.keeps W l cl (bindM m (\<lambda>_. bindM (finish W d s) (\<lambda>res. retM (Inl res :: orchestration_outcome + prepared list))))"
    by (intro carries_intros m carries_finish)
  from carries.keepsD [OF this run] run show "prepared_well W l cl o1 r o2"
    by (auto simp: prepared_well_def bindM_eq_Some)
qed

lemma prepare_well:
  assumes "fresh_calls o1 acc"
  shows "after (prepare W d sf acc ps) (prepared_well W l cl o1) o1"
  using assms
proof (induction ps arbitrary: acc)
  case Nil
  then show ?case by (auto intro!: afterI simp: prepared_well_def carries.rel_refl)
next
  case (Cons item ps)
  have invalid: "after (prepare W d sf acc (None # ps)) (prepared_well W l cl o1) o1"
    unfolding prepare.simps by (rule prepare_rejects) (auto intro!: carries_record)
  have "after (prepare W d sf acc (Some p # ps)) (prepared_well W l cl o1) o1" for p
  proof -
    have raise: "prepared_well W l cl o1 (Inl e) o1" for e by (simp add: prepared_well_def carries.rel_refl)
    have reject: "carries.keeps W l cl (record_event ''proposal_rejected'' [(''proposal'', call_id p)])"
      "carries.keeps W l cl (record_event ''proposal_duplicate'' [(''proposal'', call_id p)])"
      by (auto intro!: carries_record)
    show ?thesis
    proof (cases "find (\<lambda>x. tool_name x = proposal_name p) (surface_tools sf)")
      case None
      then show ?thesis by (simp add: prepare_rejects reject)
    next
      case (Some tool)
      show ?thesis
      proof (cases "check_proposal (o_limits o1) p tool")
        case (Inl e)
        have "after (bindM (bindM (record_event ''proposal_rejected'' [(''proposal'', call_id p)]) (\<lambda>_.
            forM (\<lambda>later. case later of None \<Rightarrow> retM () | Some q \<Rightarrow> record_event ''skipped'' [(''proposal'', call_id q)]) ps)) (\<lambda>_.
            bindM (finish W d ''rejected'') (\<lambda>res. retM (Inl res)))) (prepared_well W l cl o1) o1"
          by (intro prepare_rejects carries.keeps_bind reject carries_skips)
        with Some Inl raise show ?thesis by (simp add: after_get_bind after_lift bindM_assoc)
      next
        case (Inr frozen)
        have "after (prepare W d sf (acc @ [(p, aid, body, frozen)]) ps) (prepared_well W l cl o1) o1"
          if "action_of (o_context o1) p sf = Inr aid" "\<not> replayed o1 acc p aid"
            "dumps (call_params (proposal_name p) frozen) = Inr body" for aid body
        proof -
          have "fresh_calls o1 (acc @ [(p, aid, body, frozen)])"
            using Cons.prems action_of_hex [OF that(1)] that(2) by (auto simp: fresh_calls_def replayed_def list_ex_iff)
          then show ?thesis
            by (rule Cons.IH)
        qed
        with Some Inr raise prepare_rejects [OF reject(2)] show ?thesis
          by (simp add: after_get_bind) (auto intro!: after_bind_lift)
      qed
    qed
  qed
  with invalid show ?case by (cases item) simp_all
qed

section \<open>One call\<close>

lemma add_action_event:
  assumes "bt_inv l t" and "event \<in> {''mcp_response'', ''evidence_validated''}"
    and "bt_limited t \<or> bt_events t \<noteq> [] \<and> mapE control_item [(''action'', PStr a), (''response'', PStr s)] = Inr ms"
  shows "\<exists>t'. add t (action_event event a s) = Inr t'"
proof (cases "bt_limited t")
  case False
  have keys: "schema_keys_ok event ((\<lambda>(k, v). SKey (py k)) ` set [(''action'', PStr a), (''response'', PStr s)])"
    using assms(2) by (elim insertE emptyE) (simp_all add: schema_keys_ok_def TRANSCRIPT_SCHEMA_def)
  from False assms(3) have "bt_events t \<noteq> []" "mapE control_item [(''action'', PStr a), (''response'', PStr s)] = Inr ms" by simp_all
  then show ?thesis by (intro add_total [OF assms(1) _ _ keys]) simp_all
qed (simp add: add_def)

text \<open>Both events that follow a response are recorded, and then the transcript reports the new evidence.\<close>

lemma response_recorded:
  assumes inv: "bt_inv l t" and ch: "chained A ev t" and hex: "list_all lower_hex a" "list_all lower_hex (dec_int i)"
    and ready: "bt_limited t \<or> (a, dec_int i) \<in> requested t \<and> (a, dec_int i) \<notin> pairs_of ''mcp_response'' (bt_events t)
         \<and> bt_events t \<noteq> [] \<and> mapE control_item [(''action'', PStr a), (''response'', PStr (dec_int i))] = Inr ms"
  shows "\<exists>t1 t2. add t (action_event ''mcp_response'' a (dec_int i)) = Inr t1
    \<and> add t1 (action_event ''evidence_validated'' a (dec_int i)) = Inr t2
    \<and> bt_inv l t2 \<and> requested t2 = requested t \<and> chained A (ev @ [\<lparr>ev_action = a, ev_response = i, ev_result = v\<rparr>]) t2"
proof -
  obtain t1 where t1: "add t (action_event ''mcp_response'' a (dec_int i)) = Inr t1"
    using add_action_event [OF inv] ready by blast
  have inv1: "bt_inv l t1" by (rule add_inv [OF inv t1])
  have ch1: "chained A ev t1" "requested t1 = requested t"
    "bt_limited t1 \<or> (a, dec_int i) \<in> pairs_of ''mcp_response'' (bt_events t1)
        \<and> (a, dec_int i) \<notin> pairs_of ''evidence_validated'' (bt_events t1) \<and> bt_events t1 \<noteq> []"
    using chained_response [OF ch _ hex t1] ready by auto
  moreover have "bt_limited t \<Longrightarrow> bt_limited t1" using add_extends(2) [OF t1] by simp
  ultimately obtain t2 where t2: "add t1 (action_event ''evidence_validated'' a (dec_int i)) = Inr t2"
    using add_action_event [OF inv1] ready by blast
  with add_inv [OF inv1 t2] chained_evidence [OF ch1(1) _ hex t2] ch1 t1 show ?thesis by blast
qed

definition performed :: "world \<Rightarrow> limits \<Rightarrow> limits \<Rightarrow> pystr \<Rightarrow> 'p orchestrator \<Rightarrow> unit outcome \<Rightarrow> 'p orchestrator \<Rightarrow> bool" where
  "performed W l cl a o1 r o2 \<longleftrightarrow> sound W l cl o2 \<and> actions o2 = actions o1
     \<and> (\<forall>u. r = Inr u \<longrightarrow> running o2 \<and> order o2 = order o1 @ [a])"

lemma evidence_ids:
  assumes "client_inv cl c" and "evidence_sent W cl (sent c) ev" and "e \<in> set ev"
  shows "ev_response e < next_id c"
  using assms by (force simp: client_inv_def evidence_sent_def)

lemma sound_failed_call:
  assumes "sound W l cl o1" and "execute_effect W a (o_client o1) (Inl e) c" and "healthy c"
    and "int (calls_in (sent (o_client o1))) < mcp_total_calls l"
  shows "sound W l cl (o1\<lparr>o_client := c\<rparr>)"
proof -
  have "client_inv cl c" using assms(1,2) talks_inv by (auto simp: sound_def execute_effect_def)
  moreover obtain xs where "sent c = sent (o_client o1) @ xs" "calls_in xs \<le> 1"
    using assms(2) by (force simp: execute_effect_def calls_in_def)
  ultimately show ?thesis
    using assms by (auto simp: sound_def intro: evidence_sent_mono)
qed

lemma sound_call:
  assumes sound: "sound W l cl o1" and run: "running o1" and eff: "execute_effect W auth (o_client o1) (Inr resp) c" and "healthy c"
    and room: "int (length (order o1)) < mcp_total_calls l" and a: "a \<in> actions o1" "a \<notin> set (order o1)"
    and t: "bt_inv l t" "snd ` requested t \<subseteq> dec_int ` {1..<next_id (o_client o1) + 1}"
      "chained (actions o1) (evidence o1 @ [\<lparr>ev_action = a, ev_response = request_id resp, ev_result = response_result resp\<rparr>]) t"
  shows "performed W l cl a o1 (Inr ()) (o1\<lparr>o_client := c, order := order o1 @ [a],
      evidence := evidence o1 @ [\<lparr>ev_action = a, ev_response = request_id resp, ev_result = response_result resp\<rparr>], transcript := t\<rparr>)"
proof -
  have resp: "request_id resp = next_id (o_client o1)" "next_id c = next_id (o_client o1) + 1"
    and val: "\<exists>raw schema. validate_tool_result (w_ucd W) (w_str W) raw (c_limits (o_client o1)) schema = Inr (response_result resp)"
    using eff by (auto simp: execute_effect_def)
  obtain params where c: "sent c = sent (o_client o1) @ [(next_id (o_client o1), ''tools/call'', params)]"
    using eff by (auto simp: execute_effect_def)
  have inv: "client_inv cl (o_client o1)" and ev: "evidence_sent W cl (sent (o_client o1)) (evidence o1)"
    using sound by (auto simp: sound_def)
  have "client_inv cl c" using inv eff talks_inv by (auto simp: execute_effect_def)
  moreover have "evidence_sent W cl (sent c)
      (evidence o1 @ [\<lparr>ev_action = a, ev_response = request_id resp, ev_result = response_result resp\<rparr>])"
    using ev evidence_ids [OF inv ev] resp(1) val inv_limits [OF inv] c
    by (auto simp: evidence_sent_def sorted_wrt_append)
  moreover have "calls_in (sent c) = length (order o1 @ [a])"
    using run c by (simp add: running_def calls_in_def)
  ultimately show ?thesis
    using sound a room t resp(2) \<open>healthy c\<close> by (auto simp: performed_def sound_def running_def)
qed

lemma record_kept:
  "add (transcript o1) (event, map (\<lambda>(k, s). (k, PStr s)) kvs) = Inr t \<Longrightarrow> record_event event kvs o1 = Some (Inr (), o1\<lparr>transcript := t\<rparr>)"
  by (simp add: record_event_def)

definition ready_for :: "pystr \<Rightarrow> bounded_transcript \<Rightarrow> bool" where
  "ready_for a t \<longleftrightarrow> bt_limited t \<or> a \<in> fst ` pairs_of ''authorized'' (bt_events t) \<and> a \<notin> fst ` requested t"

definition callable :: "world \<Rightarrow> limits \<Rightarrow> limits \<Rightarrow> pystr \<Rightarrow> 'p orchestrator \<Rightarrow> bool" where
  "callable W l cl a o1 \<longleftrightarrow> sound W l cl o1 \<and> running o1 \<and> a \<in> actions o1 \<and> a \<notin> set (order o1) \<and> list_all lower_hex a
     \<and> ready_for a (transcript o1) \<and> int (length (order o1)) < mcp_total_calls l"

text \<open>What the \<open>mcp_request\<close> event leaves behind.\<close>

lemma request_recorded:
  assumes "callable W l cl a o1" and t: "add (transcript o1) (action_event ''mcp_request'' a (dec_int (next_id (o_client o1)))) = Inr t"
  defines "n \<equiv> next_id (o_client o1)"
  shows "sound W l cl (o1\<lparr>transcript := t\<rparr>)" and "snd ` requested t \<subseteq> dec_int ` {1..<n + 1}" and "list_all lower_hex (dec_int n)"
    and "bt_limited t \<or> (a, dec_int n) \<in> requested t \<and> (a, dec_int n) \<notin> pairs_of ''mcp_response'' (bt_events t)
         \<and> bt_events t \<noteq> [] \<and> mapE control_item [(''action'', PStr a), (''response'', PStr (dec_int n))] = Inr [(''action'', a), (''response'', dec_int n)]"
proof -
  have ok: "sound W l cl o1" "running o1" "ready_for a (transcript o1)" "list_all lower_hex a" using assms(1) by (auto simp: callable_def)
  then have inv: "client_inv cl (o_client o1)" "bt_inv l (transcript o1)" "chained (actions o1) (evidence o1) (transcript o1)"
    by (auto simp: sound_def)
  then have n: "1 \<le> n" by (simp add: client_inv_def n_def)
  then show hex: "list_all lower_hex (dec_int n)" using dec_int_hex by simp
  have new: "dec_int n \<notin> snd ` requested (transcript o1)"
    using ok(2) n by (force simp: running_def dec_int_inject n_def)
  note req = chained_request [OF inv(3) ok(3) [unfolded ready_for_def] ok(4) hex new t [folded n_def]]
  have "snd ` requested t \<subseteq> insert (dec_int n) (snd ` requested (transcript o1))" using req by force
  also have "\<dots> \<subseteq> insert (dec_int n) (dec_int ` {1..<n})" using ok(2) by (auto simp: running_def n_def)
  also have "\<dots> \<subseteq> dec_int ` {1..<n + 1}" using n by auto
  finally show "snd ` requested t \<subseteq> dec_int ` {1..<n + 1}" .
  show "sound W l cl (o1\<lparr>transcript := t\<rparr>)" using ok(1) add_inv [OF inv(2) t] req by (clarsimp simp: sound_def)
  from req show "bt_limited t \<or> (a, dec_int n) \<in> requested t \<and> (a, dec_int n) \<notin> pairs_of ''mcp_response'' (bt_events t)
         \<and> bt_events t \<noteq> [] \<and> mapE control_item [(''action'', PStr a), (''response'', PStr (dec_int n))] = Inr [(''action'', a), (''response'', dec_int n)]"
    by simp
qed

lemma perform_call:
  assumes call: "callable W l cl a o1" and wf: "wf_limits cl"
    and t: "add (transcript o1) (action_event ''mcp_request'' a (dec_int (next_id (o_client o1)))) = Inr t"
  shows "after (bindM (on_client (execute W fuel auth d)) (\<lambda>response.
       bindM (modifyM (\<lambda>o1. o1\<lparr>order := order o1 @ [a], evidence := evidence o1 @
         [\<lparr> ev_action = a, ev_response = request_id response, ev_result = response_result response \<rparr>]\<rparr>)) (\<lambda>_.
       bindM (record_event ''mcp_response'' [(''action'', a), (''response'', dec_int (request_id response))]) (\<lambda>_.
       record_event ''evidence_validated'' [(''action'', a), (''response'', dec_int (request_id response))]))))
         (performed W l cl a o1) (o1\<lparr>transcript := t\<rparr>)"
proof (rule after_bindI, goal_cases)
  let ?n = "next_id (o_client o1)"
  note req = request_recorded [OF call t]
  have ok: "sound W l cl o1" "running o1" "a \<in> actions o1" "a \<notin> set (order o1)" "list_all lower_hex a"
    "int (length (order o1)) < mcp_total_calls l" using call by (auto simp: callable_def)
  then have inv: "client_inv cl (o_client o1)" "healthy (o_client o1)" by (auto simp: sound_def)
  have eff: "execute_effect W auth (o_client o1) r c \<and> healthy c" if "execute W fuel auth d (o_client o1) = Some (r, c)" for r c
    using execute_effect [OF that] wf inv_limits [OF inv(1)] health.keepsD [OF health_execute that] inv(2) by (simp add: stays_healthy_def)
  {
    case (1 e o2)
    then obtain c where c: "execute W fuel auth d (o_client o1) = Some (Inl e, c)" "o2 = o1\<lparr>transcript := t, o_client := c\<rparr>"
      by (auto simp: on_client_def split: option.splits)
    have "int (calls_in (sent (o_client o1))) < mcp_total_calls l" using ok by (simp add: running_def)
    with sound_failed_call [OF req(1), of auth e c] eff [OF c(1)] c(2) show ?case by (simp add: performed_def)
  next
    case (2 resp o2)
    then obtain c where c: "execute W fuel auth d (o_client o1) = Some (Inr resp, c)" "o2 = o1\<lparr>transcript := t, o_client := c\<rparr>"
      by (auto simp: on_client_def split: option.splits)
    from eff [OF c(1)] have id: "request_id resp = ?n" by (simp add: execute_effect_def)
    have t': "bt_inv l t" "chained (actions o1) (evidence o1) t" using req(1) by (auto simp: sound_def)
    obtain t1 t2 where t12: "add t (action_event ''mcp_response'' a (dec_int ?n)) = Inr t1"
        "add t1 (action_event ''evidence_validated'' a (dec_int ?n)) = Inr t2" "bt_inv l t2" "requested t2 = requested t"
        "chained (actions o1) (evidence o1 @ [\<lparr>ev_action = a, ev_response = ?n, ev_result = response_result resp\<rparr>]) t2"
      using response_recorded [OF t' ok(5) req(3,4)] by blast
    have "performed W l cl a o1 (Inr ()) (o1\<lparr>o_client := c, order := order o1 @ [a],
        evidence := evidence o1 @ [\<lparr>ev_action = a, ev_response = request_id resp, ev_result = response_result resp\<rparr>], transcript := t2\<rparr>)"
      using eff [OF c(1)] by (intro sound_call ok t12(3)) (use t12 req(2) id in auto)
    then show ?case
      using t12(1,2) by (simp add: after_simps after_def bindM_def record_event_def c(2) id)
  }
qed

lemma perform_one_sound:
  assumes "callable W l cl a o1" and "wf_limits cl"
  shows "after (perform_one W fuel d a auth) (performed W l cl a o1) o1"
  unfolding perform_one_def
proof (rule after_bind_get, rule after_bindI, goal_cases)
  case (1 e o2)
  then show ?case using assms(1) by (auto simp: performed_def callable_def elim: record_event_cases)
next
  case (2 u o2)
  then show ?case using perform_call [OF assms] by (auto elim!: record_event_cases)
qed

section \<open>A whole run\<close>

definition ended :: "world \<Rightarrow> limits \<Rightarrow> limits \<Rightarrow> 'a option outcome \<Rightarrow> 'p orchestrator \<Rightarrow> bool" where
  "ended W l cl r o2 \<longleftrightarrow> sound W l cl o2 \<and> (r = Inr None \<longrightarrow> running o2)"

lemma ended_stop:
  assumes "carries.keeps W l cl m" and "sound W l cl o1"
  shows "after (bindM m (\<lambda>_. bindM (finish W d s) (\<lambda>res. retM (Some res)))) (ended W l cl) o1"
proof (rule afterI)
  fix r o2 assume run: "bindM m (\<lambda>_. bindM (finish W d s) (\<lambda>res. retM (Some res))) o1 = Some (r, o2)"
  have "carries.keeps W l cl (bindM m (\<lambda>_. bindM (finish W d s) (\<lambda>res. retM (Some res))))"
    by (intro carries_intros assms(1) carries_finish)
  from carries.keepsD [OF this run] assms(2) run show "ended W l cl r o2"
    by (auto simp: ended_def carries_def bindM_eq_Some)
qed

lemma ended_finish: "sound W l cl o1 \<Longrightarrow> after (bindM (finish W d s) (\<lambda>res. retM (Some res))) (ended W l cl) o1"
  using ended_stop [OF carries.keeps_lift [of W l cl "Inr ()"], of o1 d s] by (simp add: after_simps)

lemma after_carries:
  assumes "carries.keeps W l cl m" and "sound W l cl o1" and "running o1"
    and "\<And>e o2. sound W l cl o2 \<Longrightarrow> Q (Inl e) o2"
    and "\<And>x o2. m o1 = Some (Inr x, o2) \<Longrightarrow> sound W l cl o2 \<Longrightarrow> running o2 \<Longrightarrow> carries W l cl o1 o2 \<Longrightarrow> after (f x) Q o2"
  shows "after (bindM m f) Q o1"
proof (rule after_bindI)
  fix e o2 assume "m o1 = Some (Inl e, o2)"
  from carries.keepsD [OF assms(1) this] assms(2,4) show "Q (Inl e) o2" by (simp add: carries_def)
next
  fix x o2 assume m: "m o1 = Some (Inr x, o2)"
  from carries.keepsD [OF assms(1) m] assms(2,3,5) m show "after (f x) Q o2" by (simp add: carries_def)
qed

lemma ended_raise: "sound W l cl o2 \<Longrightarrow> ended W l cl (Inl e) o2"
  by (simp add: ended_def)

lemma fresh_calls_carries: "fresh_calls o1 acc \<Longrightarrow> carries W l cl o1 o2 \<Longrightarrow> fresh_calls o2 acc"
  by (simp add: fresh_calls_def carries_def)

text \<open>The call that an accepted proposal turns into, and its failure handler.\<close>

definition call_or_stop :: "world \<Rightarrow> nat \<Rightarrow> rat \<Rightarrow> prepared list \<Rightarrow> pystr \<Rightarrow> authorized_action \<Rightarrow> ('p orchestrator, orchestration_outcome option) eff" where
  "call_or_stop W fuel d rest aid auth = tryM (bindM (perform_one W fuel d aid auth) (\<lambda>_. retM None))
      (\<lambda>e. case e of
         ProviderError f \<Rightarrow>
           bindM (record_event ''failure'' [(''failure'', py (failure_value (classification f)))]) (\<lambda>_.
           bindM (forM (\<lambda>(later, _). record_event ''skipped'' [(''proposal'', call_id later)]) rest) (\<lambda>_.
           bindM (finish W d (if classification f = CANCELLED then ''cancelled'' else ''failed'')) (\<lambda>res.
           retM (Some res))))
       | _ \<Rightarrow> raiseM e)"

lemma call_or_stop_sound:
  assumes "callable W l cl a o1" and "wf_limits cl"
  shows "after (call_or_stop W fuel d rest a auth) (\<lambda>r o2. ended W l cl r o2 \<and> (r = Inr None \<longrightarrow> actions o2 = actions o1)) o1"
  unfolding call_or_stop_def
proof (rule after_tryI, goal_cases)
  case (1 e o2)
  then have "perform_one W fuel d a auth o1 = Some (Inl e, o2)" by (auto simp: bindM_eq_Some)
  from afterD [OF perform_one_sound [OF assms] this] have sound: "sound W l cl o2" by (simp add: performed_def)
  show ?case
  proof (cases e)
    case (ProviderError f)
    have "carries.keeps W l cl (bindM (record_event ''failure'' [(''failure'', py (failure_value (classification f)))]) (\<lambda>_.
        forM (\<lambda>(later, _). record_event ''skipped'' [(''proposal'', call_id later)]) rest))"
      by (intro carries_intros carries.keeps_for) (auto intro!: carries_record split: prod.split)
    from ended_stop [OF this sound, of d] have *: "after (bindM (record_event ''failure'' [(''failure'', py (failure_value (classification f)))]) (\<lambda>_.
        bindM (forM (\<lambda>(later, _). record_event ''skipped'' [(''proposal'', call_id later)]) rest) (\<lambda>_.
        bindM (finish W d s) (\<lambda>res. retM (Some res))))) (ended W l cl) o2" for s
      by (simp add: bindM_assoc)
    show ?thesis unfolding ProviderError exn.case
      by (rule after_mono [OF *]) (auto simp: bindM_eq_Some)
  qed (auto intro!: afterI simp: ended_raise sound)
next
  case (2 x o2)
  then have "perform_one W fuel d a auth o1 = Some (Inr (), o2)" "x = None" by (auto simp: bindM_eq_Some)
  with afterD [OF perform_one_sound [OF assms] this(1)] show ?case by (simp add: performed_def ended_def)
qed

definition authorized_call :: "world \<Rightarrow> nat \<Rightarrow> rat \<Rightarrow> prepared list \<Rightarrow> prepared \<Rightarrow> ('p orchestrator, orchestration_outcome option) eff" where
  "authorized_call W fuel d rest call = (case call of (p, aid, body, frozen) \<Rightarrow>
     bindM (on_client (authorize W aid (call_id p) (proposal_name p) frozen)) (\<lambda>auth.
     bindM (modifyM (\<lambda>o1. o1\<lparr>call_ids := (call_ids o1)(call_id p \<mapsto> body), actions := insert aid (actions o1)\<rparr>)) (\<lambda>_.
     bindM (record_event ''authorized'' [(''action'', aid), (''proposal'', call_id p)]) (\<lambda>_.
     call_or_stop W fuel d rest aid auth))))"

lemma sound_more: "sound W l cl o1 \<Longrightarrow> sound W l cl (o1\<lparr>call_ids := ids, actions := insert a (actions o1)\<rparr>)"
  unfolding sound_def using chained_mono [of "actions o1" _ _ "insert a (actions o1)"] by clarsimp blast

lemma authorized_call_sound:
  assumes sound: "sound W l cl o1" and run: "running o1" and aid: "aid \<notin> actions o1" "list_all lower_hex aid"
    and room: "int (length (order o1)) < mcp_total_calls l" and wf: "wf_limits cl"
  shows "after (authorized_call W fuel d rest (p, aid, body, frozen))
    (\<lambda>r o2. ended W l cl r o2 \<and> (r = Inr None \<longrightarrow> actions o2 = insert aid (actions o1))) o1"
  unfolding authorized_call_def prod.case
proof (rule after_carries [OF carries_client [OF calm_authorize [OF wf]] sound run], simp add: ended_raise, rule after_bind_modify, rule after_bindI, goal_cases)
  case (1 auth o3 e o4)
  then have "o4 = o3\<lparr>call_ids := (call_ids o3)(call_id p \<mapsto> body), actions := insert aid (actions o3)\<rparr>"
    by (auto elim: record_event_cases)
  with 1(2) show ?case by (simp add: ended_def sound_more)
next
  case (2 auth o3 u o5)
  then obtain t where t: "o5 = o3\<lparr>call_ids := (call_ids o3)(call_id p \<mapsto> body), actions := insert aid (actions o3), transcript := t\<rparr>"
      "add (transcript o3) (''authorized'', [(''action'', PStr aid), (''proposal'', PStr (call_id p))]) = Inr t"
    by (auto elim!: record_event_cases)
  have same: "actions o3 = actions o1" "order o3 = order o1" using 2(4) by (simp_all add: carries_def)
  have ch: "chained (actions o3) (evidence o3) (transcript o3)" "bt_inv l (transcript o3)" "set (order o3) \<subseteq> actions o3"
    using 2(2) by (auto simp: sound_def)
  have "callable W l cl aid o5"
    using 2(2,3) chained_authorized [OF ch(1) _ aid(2) t(2)] add_inv [OF ch(2) t(2)] aid room ch(3) same
    unfolding callable_def t(1) by (auto simp: sound_def running_def ready_for_def)
  from call_or_stop_sound [OF this wf] show ?case by (rule after_mono) (simp add: t(1) same)
qed

lemma perform_Cons:
  "perform W fuel d ((p, aid, body, frozen) # rest) =
     bindM (on_client (observe (w_cancelled W))) (\<lambda>cancelled.
     if cancelled then
       bindM (record_event ''cancelled'' []) (\<lambda>_.
       bindM (record_event ''skipped'' [(''proposal'', call_id p)]) (\<lambda>_.
       bindM (finish W d ''cancelled'') (\<lambda>res. retM (Some res))))
     else
       bindM (getM id) (\<lambda>o1.
       bindM (if mcp_total_calls (o_limits o1) \<le> int (length (order o1)) then retM True
              else bindM (on_client (observe (w_clock W))) (\<lambda>now. retM (remaining_ms d now \<le> 0))) (\<lambda>exhausted.
       if exhausted then
         bindM (record_event ''deadline'' []) (\<lambda>_.
         bindM (record_event ''skipped'' [(''proposal'', call_id p)]) (\<lambda>_.
         bindM (finish W d ''deadline'') (\<lambda>res. retM (Some res))))
       else
         bindM (authorized_call W fuel d rest (p, aid, body, frozen)) (\<lambda>stopped.
         case stopped of Some res \<Rightarrow> retM (Some res) | None \<Rightarrow> perform W fuel d rest))))"
  by (simp only: perform.simps authorized_call_def call_or_stop_def prod.case bindM_assoc)

lemma perform_stop:
  assumes "sound W l cl o1" and "event \<in> {''cancelled'', ''deadline''}"
  shows "after (bindM (record_event event []) (\<lambda>_. bindM (record_event ''skipped'' [(''proposal'', i)]) (\<lambda>_.
       bindM (finish W d s) (\<lambda>res. retM (Some res))))) (ended W l cl) o1"
proof -
  have "carries.keeps W l cl (bindM (record_event event []) (\<lambda>_. record_event ''skipped'' [(''proposal'', i)]))"
    using assms(2) by (intro carries_intros carries_record) auto
  from ended_stop [OF this assms(1)] show ?thesis by (simp add: bindM_assoc)
qed

lemma perform_sound:
  fixes o1 :: "'p orchestrator"
  assumes "sound W l cl o1" and "running o1" and "fresh_calls o1 calls" and wf: "wf_limits cl"
  shows "after (perform W fuel d calls) (ended W l cl) o1"
  using assms(1-3)
proof (induction calls arbitrary: o1)
  case Nil
  then show ?case by (simp add: after_def ended_def)
next
  case (Cons call calls)
  obtain p aid body frozen where call: "call = (p, aid, body, frozen)" by (cases call)
  have rest: "after (bindM (authorized_call W fuel d calls call) (\<lambda>stopped.
      case stopped of Some res \<Rightarrow> retM (Some res) | None \<Rightarrow> perform W fuel d calls)) (ended W l cl) o2"
    if o2: "sound W l cl o2" "running o2" "fresh_calls o2 (call # calls)" "int (length (order o2)) < mcp_total_calls l"
      for o2 :: "'p orchestrator"
  proof (rule after_bindI, goal_cases)
    from o2(3) have aid: "aid \<notin> actions o2" "list_all lower_hex aid" by (auto simp: fresh_calls_def call)
    note step = afterD [OF authorized_call_sound [OF o2(1,2) aid o2(4) wf]]
    {
      case (1 e o3)
      from step [OF this [unfolded call]] show ?case by (simp add: ended_def)
    next
      case (2 stopped o3)
      note o3 = step [OF this [unfolded call]]
      show ?case
      proof (cases stopped)
        case None
        with o3 o2(3) have "fresh_calls o3 calls" by (force simp: fresh_calls_def call)
        with None o3 have "after (perform W fuel d calls) (ended W l cl) o3"
          by (intro Cons.IH) (simp_all add: ended_def)
        with None show ?thesis by simp
      qed (use o3 in \<open>simp add: after_def ended_def\<close>)
    }
  qed
  show ?case
    unfolding call perform_Cons
  proof (rule after_carries [OF carries_client [OF calm_observe] Cons.prems(1,2)], simp add: ended_raise, goal_cases)
    case (1 cancelled o2)
    have limits: "o_limits o2 = l" using 1(2) by (simp add: sound_def)
    have fresh: "fresh_calls o2 (call # calls)" by (rule fresh_calls_carries [OF Cons.prems(3) 1(4)])
    have late: "after (bindM (if mcp_total_calls (o_limits o2) \<le> int (length (order o2)) then retM True
              else bindM (on_client (observe (w_clock W))) (\<lambda>now. retM (remaining_ms d now \<le> 0))) (\<lambda>exhausted.
       if exhausted then
         bindM (record_event ''deadline'' []) (\<lambda>_.
         bindM (record_event ''skipped'' [(''proposal'', call_id p)]) (\<lambda>_.
         bindM (finish W d ''deadline'') (\<lambda>res. retM (Some res))))
       else bindM (authorized_call W fuel d calls call) (\<lambda>stopped.
         case stopped of Some res \<Rightarrow> retM (Some res) | None \<Rightarrow> perform W fuel d calls))) (ended W l cl) o2"
    proof (rule after_carries [OF _ 1(2,3)], intro carries_intros, simp add: ended_raise, goal_cases)
      case (1 exhausted o3)
      have "exhausted" if "mcp_total_calls (o_limits o2) \<le> int (length (order o2))" using 1(1) that by simp
      moreover have "order o3 = order o2" using 1(4) by (simp add: carries_def)
      ultimately have o3: "exhausted \<or> int (length (order o3)) < mcp_total_calls l" using limits by fastforce
      with 1 perform_stop [of W l cl o3 "''deadline''"] rest [of o3] fresh_calls_carries [OF fresh 1(4)] show ?case by auto
    qed
    show ?case
      using perform_stop [OF 1(2), of "''cancelled''"] late [unfolded call]
      by (cases cancelled) (simp_all only: if_True if_False after_get_bind id_apply insertI1)
  qed
qed

lemma handle_response_sound:
  fixes o1 :: "'p orchestrator"
  assumes sound: "sound W l cl o1" and run: "running o1" and wf: "wf_limits cl"
  shows "after (handle_response W fuel d sf n response) (ended W l cl) o1"
proof -
  have stop: "after (bindM (finish W d s) (\<lambda>res. retM (Some res))) (ended W l cl) o2" if "sound W l cl o2"
    for o2 :: "'p orchestrator" and s by (rule ended_finish [OF that])
  have calls: "after (bindM (prepare W d sf [] ps) (\<lambda>ready. case ready of
      Inl res \<Rightarrow> retM (Some res) | Inr calls \<Rightarrow> perform W fuel d calls)) (ended W l cl) o2"
    if o2: "sound W l cl o2" "running o2" for o2 :: "'p orchestrator" and ps
  proof (rule after_bindI, goal_cases)
    have step: "prepared_well W l cl o2 r o3" if "prepare W d sf [] ps o2 = Some (r, o3)" for r o3
      by (rule afterD [OF prepare_well [of o2 "[]"] that]) (simp add: fresh_calls_def)
    {
      case (1 e o3)
      from step [OF this] o2 show ?case by (simp add: prepared_well_def carries_def ended_def)
    next
      case (2 ready o3)
      note o3 = step [OF this]
      show ?case
      proof (cases ready)
        case (Inl res)
        with o3 o2 show ?thesis by (simp add: prepared_well_def carries_def ended_def after_lift)
      next
        case (Inr calls)
        with o3 have "o3 = o2" "fresh_calls o2 calls" by (simp_all add: prepared_well_def)
        with Inr perform_sound [OF o2 _ wf] show ?thesis by simp
      qed
    }
  qed
  have accepted: "after (bindM (record_event ''provider_turn_response'' kvs) (\<lambda>_.
           case response of
             Final m \<Rightarrow> bindM (finish W d ''final'') (\<lambda>res. retM (Some res))
           | Proposals ps \<Rightarrow>
               if proposed_tool_call_count l' < int (length ps) \<or> mcp_calls_per_turn l' < int (length ps)
               then bindM (finish W d ''rejected'') (\<lambda>res. retM (Some res))
               else
                 bindM (prepare W d sf [] ps) (\<lambda>ready. case ready of
                   Inl res \<Rightarrow> retM (Some res)
                 | Inr calls \<Rightarrow> perform W fuel d calls))) (ended W l cl) o1" for kvs l'
    by (rule after_carries [OF carries_record sound run]) (auto simp: ended_raise stop calls split: turn_response.split)
  show ?thesis
    unfolding handle_response_def after_get_bind
    using stop [OF sound] accepted sound by (auto simp: after_simps(1) ended_raise split: sum.split)
qed

lemma go_on:
  assumes "carries.keeps W l cl m" and "sound W l cl o1" and "running o1"
    and "\<And>x o2. sound W l cl o2 \<Longrightarrow> running o2 \<Longrightarrow> after (f x) (\<lambda>_. sound W l cl) o2"
  shows "after (bindM m f) (\<lambda>_. sound W l cl) o1"
  by (rule after_carries [OF assms(1-3)]) (use assms(4) in auto)

lemma turns_sound:
  fixes o1 :: "'p orchestrator"
  assumes "sound W l cl o1" and "running o1" and wf: "wf_limits cl"
  shows "after (turns W fuel turn d req sf ns) (\<lambda>_. sound W l cl) o1"
  using assms(1,2)
proof (induction ns arbitrary: o1)
  case Nil
  then show ?case by (auto intro!: afterI dest!: carries.keepsD [OF carries_finish] simp: carries_def)
next
  case (Cons n ns)
  have stop: "after (finish W d s) (\<lambda>_. sound W l cl) o2" if "sound W l cl o2" for o2 :: "'p orchestrator" and s
    using that by (auto intro!: afterI dest!: carries.keepsD [OF carries_finish] simp: carries_def)
  have handled: "after (bindM (handle_response W fuel d sf n response) (\<lambda>ended. case ended of
           Some res \<Rightarrow> retM res
         | None \<Rightarrow> turns W fuel turn d req sf ns)) (\<lambda>_. sound W l cl) o2" if o2: "sound W l cl o2" "running o2"
    for o2 :: "'p orchestrator" and response
  proof (rule after_bindI, goal_cases)
    note step = afterD [OF handle_response_sound [OF o2 wf]]
    {
      case (1 e o3)
      from step [OF this] show ?case by (simp add: ended_def)
    next
      case (2 x o3)
      from step [OF this] Cons.IH [of o3] show ?case by (cases x) (auto simp: ended_def after_simps)
    }
  qed
  show ?case
    unfolding turns.simps
    by (rule go_on [OF carries_client [OF calm_observe] Cons.prems])
       (auto intro!: stop handled after_bind_get after_bind_lift go_on [OF carries_client [OF calm_observe]]
          go_on [OF carries_client [OF calm_deadline_timeout]] go_on [OF carries_record] go_on [OF carries_provider]
        simp del: eff_simps)
qed

lemma session_sound:
  fixes o1 :: "'p orchestrator"
  assumes "sound W l cl o1" and "running o1" and wf: "wf_limits cl"
  shows "after (session W fuel turn d req) (\<lambda>_. sound W l cl) o1"
  unfolding session_def
  by (intro go_on [OF carries_record] go_on [OF carries_client [OF calm_initialize [OF wf]]] after_bind_get turns_sound wf)
     (use assms in simp_all)

lemma recover_carries: "carries.keeps W l cl (recover W d e)"
  unfolding recover_def by (cases e) (auto intro!: carries_finish carries_record simp del: eff_simps)

lemma run_sound:
  fixes o1 :: "'p orchestrator"
  assumes "sound W l cl o1" and "running o1" and wf: "wf_limits cl"
  shows "after (run W fuel turn req) (\<lambda>_ o2. sound W l cl o2 \<and> released (o_client o2)) o1"
proof -
  have closed: "after (bindM (on_client (close W (Some d) True)) (\<lambda>_. retM ())) (\<lambda>_ o2. sound W l cl o2 \<and> released (o_client o2)) o2"
    if sound: "sound W l cl o2" for o2 :: "'p orchestrator" and d
  proof (rule afterI)
    fix r :: "unit outcome" and o3 assume "bindM (on_client (close W (Some d) True)) (\<lambda>_. retM ()) o2 = Some (r, o3)"
    then obtain q where q: "on_client (close W (Some d) True) o2 = Some (q, o3)" by (auto simp: bindM_eq_Some)
    then obtain c where c: "close W (Some d) True (o_client o2) = Some (q, c)" "o3 = o2\<lparr>o_client := c\<rparr>"
      by (auto simp: on_client_def split: option.splits)
    from sound have "process (o_client o2) \<or> \<not> selector (o_client o2)" by (simp add: sound_def healthy_def)
    from close_releases [OF c(1) this] carries.keepsD [OF carries_client [OF calm_close] q] sound c(2)
    show "sound W l cl o3 \<and> released (o_client o3)" by (simp add: carries_def)
  qed
  have body: "after (tryM (session W fuel turn d req) (recover W d)) (\<lambda>_. sound W l cl) o2"
    if "sound W l cl o2" "running o2" for o2 :: "'p orchestrator" and d
  proof (rule after_tryI)
    note step = afterD [OF session_sound [OF that wf]]
    fix e and o3 :: "'p orchestrator" assume "session W fuel turn d req o2 = Some (Inl e, o3)"
    from step [OF this] show "after (recover W d e) (\<lambda>_. sound W l cl) o3"
      by (auto intro!: afterI dest!: carries.keepsD [OF recover_carries] simp: carries_def)
  qed (use afterD [OF session_sound [OF that wf]] in blast)
  have "after (finallyM (tryM (session W fuel turn d req) (recover W d)) (bindM (on_client (close W (Some d) True)) (\<lambda>_. retM ())))
      (\<lambda>_ o2. sound W l cl o2 \<and> released (o_client o2)) o2" if "sound W l cl o2" "running o2" for o2 :: "'p orchestrator" and d
    unfolding after_finally
    by (rule after_mono [OF body [OF that]], rule after_mono [OF closed]) (auto split: sum.split)
  then show ?thesis
    unfolding run_def Let_def after_get_bind
  proof (intro after_bindI, goal_cases)
    case (2 now o2)
    from carries.keepsD [OF carries_client [OF calm_observe] 2(2)] assms have "sound W l cl o2" "running o2"
      by (simp_all add: carries_def)
    with 2(1) show ?case by blast
  qed (simp add: observe_def on_client_def)
qed

section \<open>The outcome\<close>

text \<open>What a returned outcome says about the state in which the run ended.\<close>

definition delivered :: "world \<Rightarrow> orchestration_outcome \<Rightarrow> 'p orchestrator \<Rightarrow> bool" where
  "delivered W res o1 \<longleftrightarrow> oo_evidence res = evidence o1 \<and> oo_order res = order o1
     \<and> transcript_to_json_bytes (transcript o1) = Inr (oo_transcript res)
     \<and> (\<exists>es. parse_bounded_transcript (w_nesting W) (PBytes (oo_transcript res)) (o_limits o1) = Inr es)"

lemma finish_delivers [intro!]: "yields (delivered W) (finish W d s)"
  unfolding finish_def
  by (rule yields_bind, rule yields_bind, rule yields_bind, rule yields_bind) (auto simp: yields_def delivered_def bindM_eq_Some)

lemma finish_Some [intro!]:
  "yields (\<lambda>r o1. \<forall>res. r = Some res \<longrightarrow> delivered W res o1) (bindM (finish W d s) (\<lambda>res. retM (Some res)))"
  using yieldsD [OF finish_delivers] by (auto simp: yields_def bindM_eq_Some)

lemma finish_Inl [intro!]:
  "yields (\<lambda>r o1. \<forall>res. r = Inl res \<longrightarrow> delivered W res o1) (bindM (finish W d s) (\<lambda>res. retM (Inl res)))"
  using yieldsD [OF finish_delivers] by (auto simp: yields_def bindM_eq_Some)

lemma prepare_delivers: "yields (\<lambda>r o1. \<forall>res. r = Inl res \<longrightarrow> delivered W res o1) (prepare W d sf acc ps)"
proof (induction ps arbitrary: acc)
  case Nil
  show ?case by (simp add: yields_def)
next
  case (Cons item ps)
  then show ?case
    by (cases item) (auto simp del: eff_simps split: option.split sum.split)
qed

abbreviation stops :: "world \<Rightarrow> ('p orchestrator, orchestration_outcome option) eff \<Rightarrow> bool" where
  "stops W \<equiv> yields (\<lambda>r o1. \<forall>res. r = Some res \<longrightarrow> delivered W res o1)"

lemma stops_None [intro!]: "stops W (retM None)"
  by (simp add: yields_def)

lemma call_or_stop_delivers: "stops W (call_or_stop W fuel d rest aid auth)"
  unfolding call_or_stop_def by (auto simp del: eff_simps split: exn.split)

lemma perform_delivers: "stops W (perform W fuel d calls :: ('p orchestrator, orchestration_outcome option) eff)"
proof (induction calls)
  case Nil
  show ?case unfolding perform.simps by (rule stops_None)
next
  case (Cons call calls)
  obtain p aid body frozen where call: "call = (p, aid, body, frozen)" by (cases call)
  have "stops W (authorized_call W fuel d calls call :: ('p orchestrator, orchestration_outcome option) eff)"
    unfolding authorized_call_def call prod.case by (intro yields_bind call_or_stop_delivers)
  then have rest: "stops W (bindM (authorized_call W fuel d calls call) (\<lambda>stopped.
      case stopped of Some res \<Rightarrow> retM (Some res) | None \<Rightarrow> perform W fuel d calls) :: ('p orchestrator, orchestration_outcome option) eff)"
    by (rule yields_rest [where S = "range Some"]) (auto simp: after_simps notin_range_Some intro!: Cons.IH)
  show ?case unfolding call perform_Cons
    by (rule rest [unfolded call] finish_Some yields_bind yields_if)+
qed

lemma handle_response_delivers: "stops W (handle_response W fuel d sf n response)"
proof -
  have rest: "stops W (bindM (prepare W d sf [] ps) (\<lambda>ready. case ready of
      Inl res \<Rightarrow> retM (Some res) | Inr calls \<Rightarrow> perform W fuel d calls))" for ps
    by (rule yields_rest [OF prepare_delivers, where S = "range Inl"])
       (auto simp: after_simps split: sum.split intro!: perform_delivers)
  have "stops W (case response of
      Final m \<Rightarrow> bindM (finish W d ''final'') (\<lambda>res. retM (Some res))
    | Proposals ps \<Rightarrow>
        if proposed_tool_call_count l < int (length ps) \<or> mcp_calls_per_turn l < int (length ps)
        then bindM (finish W d ''rejected'') (\<lambda>res. retM (Some res))
        else bindM (prepare W d sf [] ps) (\<lambda>ready. case ready of
          Inl res \<Rightarrow> retM (Some res) | Inr calls \<Rightarrow> perform W fuel d calls))" for l
    by (cases response) (simp_all add: rest finish_Some)
  then show ?thesis
    unfolding handle_response_def by (auto simp del: eff_simps split: sum.split)
qed

lemma turns_delivers: "yields (delivered W) (turns W fuel turn d req sf ns)"
proof (induction ns)
  case Nil
  show ?case unfolding turns.simps by (rule finish_delivers)
next
  case (Cons n ns)
  have rest: "yields (delivered W) (bindM (handle_response W fuel d sf n response) (\<lambda>ended. case ended of
           Some res \<Rightarrow> retM res | None \<Rightarrow> turns W fuel turn d req sf ns))" for response
    by (rule yields_rest [OF handle_response_delivers, where S = "range Some"])
       (auto simp: after_simps Cons.IH notin_range_Some)
  show ?case unfolding turns.simps by (rule rest finish_delivers yields_bind yields_if)+
qed

lemma run_delivers:
  assumes "run W fuel turn req o1 = Some (Inr res, o2)"
  shows "delivered W res o2"
proof -
  have "yields (delivered W) (session W fuel turn d req)" for d
    unfolding session_def by (intro yields_bind turns_delivers)
  moreover have "yields (delivered W) (recover W d e)" for d e
    unfolding recover_def by (auto simp del: eff_simps split: exn.split)
  ultimately have body: "yields (delivered W) (tryM (session W fuel turn d req) (recover W d))" for d by blast
  from assms obtain d o3 q where "tryM (session W fuel turn d req) (recover W d) o3 = Some (Inr res, q)"
    and "bindM (on_client (close W (Some d) True)) (\<lambda>_. retM ()) q = Some (Inr (), o2)"
    by (auto simp: run_def bindM_eq_Some Let_def finallyM_Inr)
  with yieldsD [OF body] show ?thesis
    by (fastforce simp: bindM_eq_Some on_client_def delivered_def split: option.splits)
qed

section \<open>Runs that always answer\<close>

definition adequate :: "limits \<Rightarrow> bool" where
  "adequate l \<longleftrightarrow> wf_limits l \<and> 4 \<le> json_nesting_depth l \<and> 64 \<le> message_bytes l \<and> 3 \<le> object_array_items l \<and> 88 \<le> transcript_bytes l"

lemma record_total:
  assumes "sound W l cl o1" and "adequate l" and "event \<notin> CORRELATED" and "distinct (map fst kvs)"
    and "schema_keys_ok event ((\<lambda>(k, v). SKey (py k)) ` set kvs)" and "\<forall>(k, s) \<in> set kvs. control_text (PStr s) \<noteq> None"
  shows "\<exists>o2. record_event event kvs o1 = Some (Inr (), o2) \<and> sound W l cl o2"
proof -
  let ?kws = "map (\<lambda>(k, s). (k, PStr s)) kvs"
  have inv: "bt_inv l (transcript o1)" using assms(1) by (simp add: sound_def)
  have "\<exists>ms. mapE control_item ?kws = Inr ms"
    using assms(6) by (fastforce simp: mapE_Inr_exists control_item_def)
  moreover have "distinct (map fst ?kws)" using assms(4) by (simp add: comp_def case_prod_unfold)
  moreover have "schema_keys_ok event ((\<lambda>(k, v). SKey (py k)) ` set ?kws)"
    using assms(5) by (simp add: image_image case_prod_unfold)
  ultimately obtain t where "add (transcript o1) (event, ?kws) = Inr t"
    using add_total [OF inv, of ?kws event] assms(2) by (auto simp: adequate_def)
  then have r: "record_event event kvs o1 = Some (Inr (), o1\<lparr>transcript := t\<rparr>)" by (rule record_kept)
  from carries.keepsD [OF carries_record [OF assms(3)] r] assms(1) r show ?thesis by (auto simp: carries_def)
qed

definition PLAIN_EVENTS :: "string list" where
  "PLAIN_EVENTS = [''cancelled'', ''deadline'', ''shutdown_start'', ''shutdown_terminate'', ''shutdown_kill'', ''shutdown_unreaped'',
     ''shutdown_complete'']"

lemma record_plain:
  assumes "sound W l cl o1" and "adequate l" and "event \<in> set PLAIN_EVENTS"
  shows "\<exists>o2. record_event event [] o1 = Some (Inr (), o2) \<and> sound W l cl o2"
proof (rule record_total [OF assms(1,2)])
  show "schema_keys_ok event ((\<lambda>(k, v). SKey (py k)) ` set [])"
    using assms(3) unfolding PLAIN_EVENTS_def list.set
    by (elim insertE emptyE) (simp_all add: schema_keys_ok_def TRANSCRIPT_SCHEMA_def)
qed (use assms(3) in \<open>auto simp: PLAIN_EVENTS_def\<close>)

lemma record_all_plain:
  "sound W l cl o1 \<Longrightarrow> adequate l \<Longrightarrow> set events \<subseteq> set PLAIN_EVENTS \<Longrightarrow>
     \<exists>o2. forM (\<lambda>event. record_event event []) events o1 = Some (Inr (), o2) \<and> sound W l cl o2"
proof (induction events arbitrary: o1)
  case (Cons event events)
  from record_plain [OF Cons.prems(1,2), of event] Cons.prems(3) obtain o2 where
    o2: "record_event event [] o1 = Some (Inr (), o2)" "sound W l cl o2" by auto
  with Cons show ?case by (simp add: bindM_def)
qed simp

definition OUTCOMES :: "string list" where
  "OUTCOMES = [''final'', ''rejected'', ''duplicate'', ''cancelled'', ''deadline'', ''failed'', ''budget'']"

lemma record_outcome:
  assumes "sound W l cl o1" and "adequate l" and "outcome \<in> set OUTCOMES"
  shows "\<exists>o2. record_event ''outcome'' [(''outcome'', py outcome)] o1 = Some (Inr (), o2) \<and> sound W l cl o2"
proof (rule record_total [OF assms(1,2)])
  show "\<forall>(k, s) \<in> set [(''outcome'', py outcome)]. control_text (PStr s) \<noteq> None"
    using assms(3) unfolding OUTCOMES_def list.set
    by (elim insertE emptyE) (simp_all add: control_text_def py_def isascii_iff)
qed (simp_all add: schema_keys_ok_def TRANSCRIPT_SCHEMA_def)

lemma record_failure:
  assumes "sound W l cl o1" and "adequate l"
  shows "\<exists>o2. record_event ''failure'' [(''failure'', py (failure_value c))] o1 = Some (Inr (), o2) \<and> sound W l cl o2"
proof (rule record_total [OF assms])
  show "\<forall>(k, s) \<in> set [(''failure'', py (failure_value c))]. control_text (PStr s) \<noteq> None"
    by (cases c) (simp_all add: control_text_def py_def isascii_iff)
qed (simp_all add: schema_keys_ok_def TRANSCRIPT_SCHEMA_def)

lemma shutdown_events_plain: "set (shutdown_events mode) \<subseteq> set PLAIN_EVENTS"
  by (auto simp: shutdown_events_def PLAIN_EVENTS_def)

lemma finish_total:
  assumes sound: "sound W l cl o1" and l: "adequate l" and W: "os_faults W" "4 \<le> w_nesting W" and "outcome \<in> set OUTCOMES"
  shows "\<exists>res o2. finish W d outcome o1 = Some (Inr res, o2) \<and> oo_outcome res = outcome"
proof -
  obtain o2 where o2: "record_event ''shutdown_start'' [] o1 = Some (Inr (), o2)" "sound W l cl o2"
    using record_plain [OF sound l, of "''shutdown_start''"] by (auto simp: PLAIN_EVENTS_def)
  obtain r c where c: "close W (Some d) True (o_client o2) = Some (r, c)"
    using loop_freeD [OF loop_free_close, of W "Some d" True "o_client o2"] by (auto simp: ends_def)
  with raises_onlyD [OF close_never_raises [OF W(1)]] obtain mode where r: "r = Inr mode" by (cases r) auto
  let ?o3 = "o2\<lparr>o_client := c\<rparr>"
  have close: "on_client (close W (Some d) True) o2 = Some (Inr mode, ?o3)" using c r by (simp add: on_client_def)
  from carries.keepsD [OF carries_client [OF calm_close] this] o2(2) have "sound W l cl ?o3" by (simp add: carries_def)
  from record_all_plain [OF this l shutdown_events_plain [of mode]] obtain o4 where
    o4: "forM (\<lambda>event. record_event event []) (shutdown_events mode) ?o3 = Some (Inr (), o4)" "sound W l cl o4" by blast
  from record_outcome [OF this(2) l assms(5)] obtain o5 where
    o5: "record_event ''outcome'' [(''outcome'', py outcome)] o4 = Some (Inr (), o5)" "sound W l cl o5" by blast
  obtain raw where raw: "transcript_to_json_bytes (transcript o5) = Inr raw" using to_json_bytes_length by blast
  from o5(2) have inv: "bt_inv l (transcript o5)" "o_limits o5 = l"
    "\<exists>c. runE correlate no_correlation (bt_events (transcript o5)) = Inr c" by (auto simp: sound_def chained_def)
  have "\<exists>es. parse_bounded_transcript (w_nesting W) (PBytes raw) l = Inr es"
    using l W(2) inv(3) by (subst parse_own_transcript [OF _ _ _ _ _ _ inv(1) raw]) (auto simp: adequate_def)
  then show ?thesis
    unfolding finish_def using raw inv(2) o5(1)
    by (auto simp: bindM_def o2(1) close o4(1) o5(1))
qed

lemma recover_total:
  assumes sound: "sound W l cl o1" and l: "adequate l" and W: "os_faults W" "4 \<le> w_nesting W" and e: "is_provider_error e"
  shows "\<exists>res o2. recover W d e o1 = Some (Inr res, o2)"
proof -
  from e obtain f where f: "e = ProviderError f" by (auto simp: is_provider_error_def split: exn.splits)
  have out: "\<exists>res o3. bindM m (\<lambda>_. finish W d s) o1 = Some (Inr res, o3)"
    if "\<exists>o2. m o1 = Some (Inr (), o2) \<and> sound W l cl o2" "s \<in> set OUTCOMES" for m s
    using that finish_total [OF _ l W] by (fastforce simp: bindM_def)
  show ?thesis
    unfolding f recover_def
    by (auto intro!: out record_plain [OF sound l] record_failure [OF sound l] simp: PLAIN_EVENTS_def OUTCOMES_def)
qed

lemma run_never_fails:
  fixes o1 :: "'p orchestrator"
  assumes "sound W l cl o1" and "running o1" and wf: "wf_limits cl" and l: "adequate l" and W: "os_faults W" "4 \<le> w_nesting W"
    and run: "run W fuel turn req o1 = Some (Inl e, o2)"
  shows "\<not> is_provider_error e"
proof
  assume e: "is_provider_error e"
  obtain now o3 where o3: "on_client (observe (w_clock W)) o1 = Some (Inr now, o3)" by (simp add: on_client_def observe_def)
  from carries.keepsD [OF carries_client [OF calm_observe] this] assms(1,2) have s3: "sound W l cl o3" "running o3"
    by (auto simp: carries_def)
  let ?d = "fl (now + seconds (orchestration_total_timeout_ms (o_limits o1)))"
  from run have fin: "finallyM (tryM (session W fuel turn ?d req) (recover W ?d)) (bindM (on_client (close W (Some ?d) True)) (\<lambda>_. retM ())) o3
      = Some (Inl e, o2)"
    by (simp add: run_def bindM_def o3 Let_def)
  have "\<not> (\<exists>u. bindM (on_client (close W (Some ?d) True)) (\<lambda>_. retM ()) q = Some (Inl e, u))" for q :: "'p orchestrator"
    using raises_onlyD [OF close_never_raises [OF W(1)]] by (auto simp: bindM_eq_Some on_client_def split: option.splits)
  with fin obtain q where q: "tryM (session W fuel turn ?d req) (recover W ?d) o3 = Some (Inl e, q)"
    by (auto simp: finallyM_def split: option.splits sum.splits)
  then obtain e' o4 where o4: "session W fuel turn ?d req o3 = Some (Inl e', o4)" "recover W ?d e' o4 = Some (Inl e, q)"
    by (auto simp: tryM_def split: option.splits sum.splits)
  have "sound W l cl o4" by (rule afterD [OF session_sound [OF s3 wf] o4(1)])
  from recover_total [OF this l W, where e = e' and d = ?d] o4(2) have "\<not> is_provider_error e'" by auto
  then have "e = e'" using o4(2) by (auto simp: recover_def is_provider_error_def split: exn.splits)
  with e \<open>\<not> is_provider_error e'\<close> show False by simp
qed

section \<open>Providers\<close>

text \<open>
  The contract that \<open>BoundedProvider\<close> states for its implementations, in two parts: a turn comes back, in bounded time whatever its
  state, and it fails with a classified failure only.
\<close>

locale terminating_provider =
  fixes turn :: "'p turn"
  assumes turn_ends: "loop_free (turn req known timeout_ms)"
begin

lemma loop_free_turn [intro!]: "loop_free (on_provider (turn req known timeout_ms))"
  using turn_ends by (auto simp: loop_free_def on_provider_def split: option.split)

end

locale bounded_provider = terminating_provider +
  assumes turn_fails: "raises_only is_provider_error (turn req known timeout_ms)"
begin

text \<open>Whatever a turn raises, the handler of \<open>run\<close> makes an outcome of it.\<close>

lemma turn_failure_handled:
  assumes "sound W l cl o1" and "adequate l" and "os_faults W" and "4 \<le> w_nesting W"
    and fail: "on_provider (turn req known timeout_ms) o1 = Some (Inl e, o2)"
  shows "\<exists>res o3. recover W d e o2 = Some (Inr res, o3)"
proof (rule recover_total [OF _ assms(2-4)])
  from carries.keepsD [OF carries_provider fail] assms(1) show "sound W l cl o2" by (simp add: carries_def)
  from fail show "is_provider_error e"
    using raises_onlyD [OF turn_fails] by (auto simp: on_provider_def split: option.splits)
qed

end

text \<open>Loops of a run: all are over lists, except the polling loop of a request, which has enough fuel.\<close>

lemma loop_free_client [intro!]: "loop_free m \<Longrightarrow> loop_free (on_client m)"
  by (auto simp: loop_free_def on_client_def split: option.split)

lemma loop_free_record [intro!]: "loop_free (record_event event kvs)"
  by (auto simp: loop_free_def record_event_def split: sum.split)

lemma loop_free_finish [intro!]: "loop_free (finish W d s)"
  unfolding finish_def by auto

lemma loop_free_prepare [intro!]: "loop_free (prepare W d sf acc ps)"
proof (induction ps arbitrary: acc)
  case (Cons item ps)
  then show ?case by (cases item) (auto simp del: eff_simps split: option.split sum.split)
qed (simp add: loop_free_def)

lemma loop_free_perform:
  assumes "expires W d k" and "k < fuel"
  shows "loop_free (perform W fuel d calls)"
proof (induction calls)
  case (Cons call calls)
  have ex: "loop_free (execute W fuel auth d)" for auth using execute_ends [OF assms] by (simp add: loop_free_def ends_def)
  obtain p aid body frozen where call: "call = (p, aid, body, frozen)" by (cases call)
  have "loop_free (authorized_call W fuel d calls call)"
    unfolding authorized_call_def call_or_stop_def perform_one_def call prod.case
    by (auto intro!: ex simp del: eff_simps split: exn.split)
  with Cons.IH show ?case unfolding call perform_Cons by (auto simp del: eff_simps split: option.split)
qed (simp add: loop_free_def)

context terminating_provider
begin

lemma loop_free_turns:
  assumes "expires W d k" and "k < fuel"
  shows "loop_free (turns W fuel turn d req sf ns)"
proof (induction ns)
  case (Cons n ns)
  have "loop_free (handle_response W fuel d sf n response)" for response
    unfolding handle_response_def using loop_free_perform [OF assms]
    by (auto simp del: eff_simps split: sum.split turn_response.split)
  with Cons.IH show ?case unfolding turns.simps by (auto simp del: eff_simps split: option.split)
qed auto

lemma run_ends:
  assumes "expires W (fl (w_clock W (tick (o_client o1)) + seconds (orchestration_total_timeout_ms (o_limits o1)))) k" and "k < fuel"
  shows "ends (run W fuel turn req) o1"
proof -
  let ?d = "fl (w_clock W (tick (o_client o1)) + seconds (orchestration_total_timeout_ms (o_limits o1)))"
  have ini: "loop_free (initialize_and_capture W fuel ?d)"
    using initialize_and_capture_ends [OF assms] by (simp add: loop_free_def ends_def)
  have "loop_free (session W fuel turn ?d req)"
    unfolding session_def by (intro loop_free_bind loop_free_record loop_free_client ini loop_free_turns [OF assms]) auto
  then have "loop_free (finallyM (tryM (session W fuel turn ?d req) (recover W ?d)) (bindM (on_client (close W (Some ?d) True)) (\<lambda>_. retM ())))"
    unfolding recover_def by (auto simp del: eff_simps split: exn.split)
  then show ?thesis
    by (auto simp: ends_def run_def bindM_def on_client_def observe_def Let_def loop_free_def)
qed

end

subsection \<open>The scripted provider\<close>

lemma script_wait_ends: "\<exists>r p' n'. script_wait W limit (p, n) = Some (r, (p', n')) \<and> responses p' = responses p \<and> script_index p' = script_index p
    \<and> (r = Inl (raises CANCELLED) \<or> r = Inr ())"
proof (induction W limit "(p, n)" arbitrary: p n rule: script_wait.induct)
  case (1 W limit p n)
  show ?case
  proof (cases "w_clock W n < limit \<and> 0 < script_delay p \<and> \<not> w_cancelled W (Suc n)")
    case True
    with 1 show ?thesis by (subst script_wait.simps) auto
  qed (subst script_wait.simps, auto)
qed

lemma script_wait_loop_free [intro!]: "loop_free (script_wait W limit)"
  using script_wait_ends [of W limit] by (auto simp: loop_free_def) (metis option.distinct(1))

lemma script_wait_raises [intro!]: "raises_only is_provider_error (script_wait W limit)"
proof -
  have "is_provider_error e" if "script_wait W limit s = Some (Inl e, t)" for s e t
    using that script_wait_ends [of W limit "fst s" "snd s"] by (auto simp: is_provider_error_def)
  then show ?thesis by (simp add: raises_only_def)
qed

lemma script_tick_simps [intro!]: "loop_free (script_tick f)" "raises_only P (script_tick f)"
  by (auto simp: loop_free_def raises_only_def script_tick_def)

interpretation scripted: bounded_provider "scripted_turn W" for W
proof
  show "loop_free (scripted_turn W req known timeout_ms)" for req known timeout_ms
    unfolding scripted_turn_def Let_def by (auto simp del: eff_simps)
  show "raises_only is_provider_error (scripted_turn W req known timeout_ms)" for req known timeout_ms
    unfolding scripted_turn_def Let_def by (auto simp: is_provider_error_def simp del: eff_simps)
qed

text \<open>The word filter of the transcript hides one failure class from the reader.\<close>

lemma authorization_failures_are_recorded_as_redacted:
  "control_text (PStr (py (failure_value LOCAL_AUTHORIZATION_FAILURE))) = Some (py ''redacted'')"
  by (simp add: control_text_def suspicious_def SUSPICIOUS_def py_def lower_ascii_def lower_ascii_char_def ascii_upper_def isascii_iff)

section \<open>Samples\<close>

text \<open>A host on which no process can be started, and a run there.\<close>

definition broken_world :: world where
  "broken_world = sample_world\<lparr>w_fault := (\<lambda>_. Some OSError)\<rparr>"

definition sample_script :: scripted_provider where
  "sample_script = \<lparr> responses = [], script_delay = 0, script_index = 0 \<rparr>"

abbreviation sample_orchestrator :: "scripted_provider orchestrator" where
  "sample_orchestrator \<equiv> fresh_orchestrator fresh_client sample_script DEFAULT_LIMITS (py ''offline'')"

lemma broken_start: "\<not> process c \<Longrightarrow> \<exists>e c'. start broken_world d c = Some (Inl e, c') \<and> is_provider_error e"
proof -
  assume c: "\<not> process c"
  have close: "close broken_world (Some d) True c' = Some (Inr ''none'', c')" if "\<not> process c'" for c'
    using that by (simp add: close_def bindM_def)
  show ?thesis
    using c close by (cases "timeout d (w_clock broken_world (tick c)) (process_startup_timeout_ms (c_limits c))")
      (auto simp: start_def bindM_def tryM_def deadline_timeout_def observe_def syscall_def broken_world_def is_provider_error_def is_os_error_def
        timeout_def Let_def split: if_splits)
qed

lemma broken_initialize: "\<not> process c \<Longrightarrow> \<exists>e c'. initialize_and_capture broken_world fuel d c = Some (Inl e, c') \<and> is_provider_error e"
  using broken_start [of c d] by (auto simp: initialize_and_capture_def request_def bindM_def)

lemma adequate_default: "adequate DEFAULT_LIMITS"
  by (simp add: adequate_def DEFAULT_LIMITS_wf)

lemma broken_faults: "os_faults broken_world" "w_nesting broken_world = 5"
  by (simp_all add: os_faults_def is_os_error_def broken_world_def sample_world_def)

lemma sample_orchestrator: "Orchestrator True fresh_client sample_script DEFAULT_LIMITS (py ''offline'') = Inr sample_orchestrator"
  by (simp add: Orchestrator_def)

lemma record_first:
  assumes "sound W l cl o1" and "adequate l" and "event \<in> {''process_start'', ''initialize_request''}"
  shows "\<exists>o2. record_event event [] o1 = Some (Inr (), o2) \<and> sound W l cl o2 \<and> o_client o2 = o_client o1"
proof -
  have "\<exists>o2. record_event event [] o1 = Some (Inr (), o2) \<and> sound W l cl o2"
    using assms(3) by (intro record_total [OF assms(1,2)]; elim insertE emptyE; simp add: schema_keys_ok_def TRANSCRIPT_SCHEMA_def)
  then obtain o2 where o2: "record_event event [] o1 = Some (Inr (), o2)" "sound W l cl o2" by blast
  moreover have "o_client o2 = o_client o1" using o2(1) by (auto elim: record_event_cases)
  ultimately show ?thesis by blast
qed

lemma sample_run:
  "\<exists>res o2. run broken_world fuel (scripted_turn broken_world) sample_request sample_orchestrator = Some (Inr res, o2)"
proof -
  let ?W = broken_world and ?l = DEFAULT_LIMITS
  let ?c = "fresh_client\<lparr>tick := Suc 0\<rparr>"
  define o1 where "o1 = sample_orchestrator\<lparr>o_client := ?c\<rparr>"
  have obs: "on_client (observe (w_clock ?W)) sample_orchestrator = Some (Inr (w_clock ?W 0), o1)"
    by (simp add: on_client_def observe_def fresh_orchestrator_def fresh_client_def o1_def)
  from carries.keepsD [OF carries_client [OF calm_observe] this] sound_start(1) [OF sample_fresh DEFAULT_LIMITS_wf sample_orchestrator]
  have s1: "sound ?W ?l ?l o1" by (auto simp: carries_def)
  define d where "d = fl (w_clock ?W 0 + seconds (orchestration_total_timeout_ms ?l))"
  obtain o2 where o2: "record_event ''process_start'' [] o1 = Some (Inr (), o2)" "sound ?W ?l ?l o2" "o_client o2 = o_client o1"
    using record_first [OF s1 adequate_default] by blast
  obtain o3 where o3: "record_event ''initialize_request'' [] o2 = Some (Inr (), o3)" "sound ?W ?l ?l o3" "o_client o3 = ?c"
    using record_first [OF o2(2) adequate_default] o2(3) by (auto simp: o1_def)
  have "\<not> process ?c" by (simp add: fresh_client_def)
  from broken_initialize [OF this, of fuel d] obtain e c' where
    c': "initialize_and_capture ?W fuel d ?c = Some (Inl e, c')" "is_provider_error e" by blast
  have ini: "on_client (initialize_and_capture ?W fuel d) o3 = Some (Inl e, o3\<lparr>o_client := c'\<rparr>)"
    using c' o3(3) by (simp add: on_client_def)
  from carries.keepsD [OF carries_client [OF calm_initialize [OF DEFAULT_LIMITS_wf]] this] o3(2)
  have "sound ?W ?l ?l (o3\<lparr>o_client := c'\<rparr>)" by (simp add: carries_def)
  from recover_total [OF this adequate_default broken_faults(1) _ c'(2), where d = d] obtain res o4 where
    o4: "recover ?W d e (o3\<lparr>o_client := c'\<rparr>) = Some (Inr res, o4)" by (auto simp: broken_faults)
  have ses: "session ?W fuel (scripted_turn ?W) d sample_request o1 = Some (Inl e, o3\<lparr>o_client := c'\<rparr>)"
    by (simp add: session_def bindM_def o2(1) o3(1) ini)
  obtain r c'' where cl: "close ?W (Some d) True (o_client o4) = Some (r, c'')"
    using loop_freeD [OF loop_free_close, of ?W "Some d" True "o_client o4"] by (auto simp: ends_def)
  with raises_onlyD [OF close_never_raises [OF broken_faults(1)]] obtain mode where "r = Inr mode" by (cases r) auto
  with cl have "finallyM (tryM (session ?W fuel (scripted_turn ?W) d sample_request) (recover ?W d))
      (bindM (on_client (close ?W (Some d) True)) (\<lambda>_. retM ())) o1 = Some (Inr res, o4\<lparr>o_client := c''\<rparr>)"
    by (simp add: finallyM_def tryM_def ses o4 bindM_def on_client_def)
  moreover have "o_limits sample_orchestrator = ?l" by (simp add: fresh_orchestrator_def)
  ultimately show ?thesis by (simp add: run_def bindM_def obs Let_def d_def)
qed

section \<open>Properties\<close>

text \<open>
  C1: budget and replay protection. The outcome of a run on a fresh client lists pairwise different actions, one piece of
  evidence for each in the order of execution; no more \<open>tools/call\<close> messages were sent than \<open>mcp_total_calls\<close> allows, failed ones
  included; and every piece of evidence is the validated result of a message sent under its id, with increasing ids.
\<close>

theorem runs_are_bounded_and_replay_free:
  assumes "McpStdioClient iss x args env cl = Inr c" and "wf_limits cl" and "wf_limits l"
    and "Orchestrator b c p l ctx = Inr o1" and "run W fuel turn req o1 = Some (Inr res, o2)"
  shows "distinct (oo_order res) \<and> oo_order res = map ev_action (oo_evidence res)
    \<and> length (oo_order res) \<le> calls_in (sent (o_client o2)) \<and> int (calls_in (sent (o_client o2))) \<le> mcp_total_calls l
    \<and> evidence_sent W cl (sent (o_client o2)) (oo_evidence res)"
proof -
  note start = sound_start [OF assms(1,3,4)]
  from afterD [OF run_sound [OF start assms(2)] assms(5)] run_delivers [OF assms(5)] show ?thesis
    by (clarsimp simp: sound_def delivered_def)
qed

theorem runs_are_bounded_and_replay_free_witness:
  "\<exists>res o2. run broken_world 0 (scripted_turn broken_world) sample_request sample_orchestrator = Some (Inr res, o2)
     \<and> distinct (oo_order res) \<and> int (calls_in (sent (o_client o2))) \<le> 12"
proof -
  obtain res o2 where run: "run broken_world 0 (scripted_turn broken_world) sample_request sample_orchestrator = Some (Inr res, o2)"
    using sample_run by blast
  from runs_are_bounded_and_replay_free [OF sample_fresh DEFAULT_LIMITS_wf DEFAULT_LIMITS_wf sample_orchestrator run] run show ?thesis by auto
qed

text \<open>
  C2: the transcript of an outcome is accepted by \<open>parse_bounded_transcript\<close>, reports validated evidence for the actions and
  response ids of the outcome only, and for all of them unless the log says that it was cut off.
\<close>

theorem transcripts_agree_with_the_evidence:
  assumes "McpStdioClient iss x args env cl = Inr c" and "wf_limits cl" and "adequate l" and "4 \<le> w_nesting W"
    and "Orchestrator b c p l ctx = Inr o1" and "run W fuel turn req o1 = Some (Inr res, o2)"
  shows "\<exists>es. parse_bounded_transcript (w_nesting W) (PBytes (oo_transcript res)) l = Inr es
    \<and> pairs_of ''evidence_validated'' es \<subseteq> evidence_pairs (oo_evidence res)
    \<and> (pairs_of ''evidence_validated'' es = evidence_pairs (oo_evidence res) \<or> terminal_indexes es = [length es - 1])"
proof -
  have l: "wf_limits l" using assms(3) by (simp add: adequate_def)
  note start = sound_start [OF assms(1) l assms(5)]
  from afterD [OF run_sound [OF start assms(2)] assms(6)] have inv: "bt_inv l (transcript o2)"
    "chained (actions o2) (evidence o2) (transcript o2)" by (auto simp: sound_def)
  let ?es = "bt_events (transcript o2)"
  have raw: "transcript_to_json_bytes (transcript o2) = Inr (oo_transcript res)" and ev: "oo_evidence res = evidence o2"
    using run_delivers [OF assms(6)] by (auto simp: delivered_def)
  have "parse_bounded_transcript (w_nesting W) (PBytes (oo_transcript res)) l = Inr (map sorted_event ?es)"
    using assms(3,4) inv(2) by (subst parse_own_transcript [OF _ _ _ _ _ _ inv(1) raw]) (auto simp: adequate_def chained_def)
  moreover have "pairs_of name (map sorted_event ?es) = pairs_of name ?es" for name
    using inv(1) by (auto simp: pairs_of_def is_event_def bt_inv_def sorted_event_meta)
  moreover have "bt_limited (transcript o2) \<Longrightarrow> terminal_indexes (map sorted_event ?es) = [length ?es - 1]"
    using terminal_indexes_inv [OF inv(1)] by simp
  ultimately show ?thesis using inv(2) ev by (auto simp: chained_def)
qed

theorem transcripts_agree_with_the_evidence_witness:
  "\<exists>res o2 es. run broken_world 0 (scripted_turn broken_world) sample_request sample_orchestrator = Some (Inr res, o2)
     \<and> parse_bounded_transcript 5 (PBytes (oo_transcript res)) DEFAULT_LIMITS = Inr es
     \<and> pairs_of ''evidence_validated'' es \<subseteq> evidence_pairs (oo_evidence res)"
proof -
  obtain res o2 where run: "run broken_world 0 (scripted_turn broken_world) sample_request sample_orchestrator = Some (Inr res, o2)"
    using sample_run by blast
  from transcripts_agree_with_the_evidence [OF sample_fresh DEFAULT_LIMITS_wf adequate_default _ sample_orchestrator run] run show ?thesis
    by (auto simp: broken_faults)
qed



text \<open>
  a run with the scripted provider comes to an end, in any state and against any child, as soon as the clock gets past the deadline
  that the run computes at its start; the fuel of the polling loops only has to exceed the number of readings that takes.
\<close>

theorem scripted_runs_end:
  assumes "expires W (fl (w_clock W (tick (o_client o1)) + seconds (orchestration_total_timeout_ms (o_limits o1)))) k" and "k < fuel"
  shows "\<exists>r o2. run W fuel (scripted_turn W) req o1 = Some (r, o2)"
  using scripted.run_ends [OF assms] by (auto simp: ends_def)

theorem scripted_runs_end_witness:
  "\<exists>r o2. run sample_world 16 (scripted_turn sample_world) sample_request sample_orchestrator = Some (r, o2)"
proof -
  have "expires sample_world (fl (0 + seconds 15000)) 15"
    by (simp add: expires_def sample_world_def seconds_def fl_def binary_exponent_def bit_count.simps pow2_def round_half_even_def)
  then have "expires sample_world (fl (w_clock sample_world (tick (o_client sample_orchestrator))
      + seconds (orchestration_total_timeout_ms (o_limits sample_orchestrator)))) 15"
    by (simp add: fresh_orchestrator_def fresh_client_def sample_world_def)
  from scripted_runs_end [OF this, of 16] show ?thesis by simp
qed



lemma script_wait_Inr: "script_wait W limit (p, n) = Some (Inr u, (p', n')) \<Longrightarrow> responses p' = responses p \<and> script_index p' = script_index p"
  using script_wait_ends [of W limit p n] by auto

text \<open>
  the scripted provider answers with the next response of its script, once, and only when the last reading of its clock is
  before the end of the budget it was given; its script never changes.
\<close>

theorem scripted_turns_follow_the_script:
  assumes "scripted_turn W req known timeout_ms (p, n) = Some (Inr response, (p', n'))"
  shows "script_index p < length (responses p) \<and> response = responses p ! script_index p
    \<and> responses p' = responses p \<and> script_index p' = Suc (script_index p)
    \<and> w_clock W (n' - 1) < fl (w_clock W n + seconds timeout_ms)"
  using assms
  by (auto simp: scripted_turn_def bindM_eq_Some Let_def script_tick_def split: if_splits dest!: script_wait_Inr)

theorem scripted_turns_follow_the_script_witness:
  "scripted_turn (sample_world\<lparr>w_cancelled := \<lambda>_. False\<rparr>) sample_request [] 9000
      (\<lparr>responses = [Proposals []], script_delay = 0, script_index = 0\<rparr>, 0)
     = Some (Inr (Proposals []), (\<lparr>responses = [Proposals []], script_delay = 0, script_index = 1\<rparr>, 4))
   \<and> w_clock sample_world 3 < fl (w_clock sample_world 0 + seconds 9000)"
proof -
  have "scripted_turn (sample_world\<lparr>w_cancelled := \<lambda>_. False\<rparr>) sample_request [] 9000
      (\<lparr>responses = [Proposals []], script_delay = 0, script_index = 0\<rparr>, 0)
     = Some (Inr (Proposals []), (\<lparr>responses = [Proposals []], script_delay = 0, script_index = 1\<rparr>, 4))"
    by (simp add: scripted_turn_def bindM_def script_tick_def Let_def sample_world_def seconds_def fl_def binary_exponent_def
        bit_count.simps pow2_def round_half_even_def script_wait.simps)
  with scripted_turns_follow_the_script [OF this] show ?thesis by (auto simp: sample_world_def)
qed

end
