(* ===== verification/OpenAI_Provider.thy ===== *)
theory OpenAI_Provider
  imports OpenAI_Transport Orchestrator_Laws
begin

text \<open>
  \<open>OpenAICompatibleProvider\<close> of \<open>openai_compatible.py\<close>: one turn of the orchestrator as one request to the service. The state of the
  provider holds its configuration, the authority over synthetic messages, the message objects of the request that the orchestrator passes on, and the log of
  the network.
\<close>

section \<open>Definitions\<close>

record openai_provider =
  op_config :: openai_config
  op_authority :: authority
  op_objects :: "message_object list"
  op_log :: "link_event list"

text \<open>The first argument: whether the transport is absent or an \<open>OpenAICompatibleTransport\<close>.\<close>

definition OpenAICompatibleProvider :: "bool \<Rightarrow> openai_config \<Rightarrow> authority \<Rightarrow> message_object list \<Rightarrow> openai_provider outcome" where
  "OpenAICompatibleProvider own_transport c a objs =
     bindE (checkE own_transport (raises LOCAL_POLICY_FAILURE)) (\<lambda>_.
     Inr \<lparr> op_config = c, op_authority = a, op_objects = objs, op_log = [] \<rparr>)"

definition on_link :: "(link, 'a) eff \<Rightarrow> (openai_provider \<times> nat, 'a) eff" where
  "on_link m = (\<lambda>(p, n). case m \<lparr> link_tick = n, link_log = op_log p \<rparr> of
      None \<Rightarrow> None
    | Some (r, s) \<Rightarrow> Some (r, (p\<lparr>op_log := link_log s\<rparr>, link_tick s)))"

definition check_cancelled :: "network \<Rightarrow> (openai_provider \<times> nat, unit) eff" where
  "check_cancelled N = bindM (on_link (ask (net_cancelled N))) (\<lambda>set. checkM (\<not> set) (raises CANCELLED))"

definition load_production_credential :: "network \<Rightarrow> openai_config \<Rightarrow> pyval outcome" where
  "load_production_credential N c = (case net_environ N (credential_env c) of
      None \<Rightarrow> Inl (raises CREDENTIAL_UNAVAILABLE)
    | Some s \<Rightarrow>
        bindE (checkE (s \<noteq> []) (raises CREDENTIAL_UNAVAILABLE)) (\<lambda>_.
        case utf8_encode s of
          None \<Rightarrow> Inl UnicodeEncodeError
        | Some b \<Rightarrow>
            bindE (checkE (length b \<le> 16384 \<and> \<not> list_ex (\<lambda>ch. ch < 32 \<or> ch = 127) s) (raises CREDENTIAL_UNAVAILABLE)) (\<lambda>_.
            Inr (PStr s))))"

definition transmit ::
    "network \<Rightarrow> openai_config \<Rightarrow> validated_endpoint \<Rightarrow> pybytes \<Rightarrow> pyval \<Rightarrow> pyval \<Rightarrow> (openai_provider \<times> nat, pybytes) eff" where
  "transmit N c e body correlation deadline =
     (if truthy (ve_loopback_only e) then on_link (send_loopback N e body (oc_limits c) correlation deadline)
      else bindM (liftM (load_production_credential N c)) (\<lambda>credential.
        on_link (send_production N e body credential (oc_limits c) correlation deadline)))"

definition as_turn_response :: "provider_response \<Rightarrow> turn_response" where
  "as_turn_response r = (case r of ProviderFinalMessage m \<Rightarrow> Final m | ToolCalls ps \<Rightarrow> Proposals (map Some ps))"

definition openai_turn :: "network \<Rightarrow> openai_provider turn" where
  "openai_turn N req known timeout_ms =
     bindM (checkM (0 < timeout_ms) (raises TOTAL_REQUEST_TIMEOUT)) (\<lambda>_.
     bindM (check_cancelled N) (\<lambda>_.
     bindM (checkM (known = []) (raises LOCAL_POLICY_FAILURE)) (\<lambda>_.
     bindM (getM fst) (\<lambda>p.
     bindM (on_link (ask (net_resolver N))) (\<lambda>resolver.
     bindM (liftM (config_endpoint (net_ucd N) (net_nfkc N) resolver (op_config p))) (\<lambda>e.
     bindM (liftM (openai_request_bytes (op_authority p) (op_objects p) req (op_config p))) (\<lambda>body.
     bindM (on_link (ask (net_clock N))) (\<lambda>now.
     bindM (transmit N (op_config p) e body (PStr (correlation_id req)) (PFloat (FFin (fl (now + seconds timeout_ms))))) (\<lambda>raw.
     bindM (check_cancelled N) (\<lambda>_.
     bindM (liftM (parse_openai_compatible_response (net_nesting N) (PBytes raw) (tools req) (oc_limits (op_config p)))) (\<lambda>response.
     retM (as_turn_response response))))))))))))"

section \<open>Lemmas\<close>

lemma on_link_ends [intro!]: "loop_free m \<Longrightarrow> loop_free (on_link m)"
  by (auto simp: loop_free_def on_link_def split: option.split)

lemma on_link_raises [intro!]: "raises_only P m \<Longrightarrow> raises_only P (on_link m)"
  by (auto simp: raises_only_def on_link_def split: option.splits)

lemma sends_end [intro!]: "loop_free (send_loopback N e body l correlation deadline)" "loop_free (send_production N e body credential l correlation deadline)"
  unfolding send_loopback_def send_production_def by (auto intro: openai_send_ends simp del: eff_simps)

lemma transmit_ends [intro!]: "loop_free (transmit N c e body correlation deadline)"
  unfolding transmit_def by (auto simp del: eff_simps)

interpretation openai_turns: terminating_provider "openai_turn N" for N
proof
  show "loop_free (openai_turn N req known timeout_ms)" for req known timeout_ms
    unfolding openai_turn_def check_cancelled_def by (auto simp del: eff_simps)
qed

text \<open>What a turn adds to the log: nothing, or what one send of its encoded request does.\<close>

lemma transmit_run:
  assumes "transmit N c e body correlation deadline (p, n) = Some (r, (p', n'))" and "wf_limits (oc_limits c)"
  shows "p' = p\<lparr>op_log := op_log p'\<rparr> \<and> (\<exists>es m credential. op_log p' = op_log p @ es \<and> link_run (Idle, nat (provider_attempt_count (oc_limits c))) es (Idle, m)
    \<and> (credential = PNone \<or> load_production_credential N c = Inr credential) \<and> (\<forall>ev \<in> set es. protected_event N e body credential (oc_limits c) ev))"
proof -
  have idle: ?thesis if "p' = p" using that by (auto intro!: exI [of _ "[]"] link_run.start)
  let ?s = "\<lparr> link_tick = n, link_log = op_log p \<rparr>"
  from assms(1) consider "p' = p" | t credential where "p' = p\<lparr>op_log := link_log t\<rparr>" "credential = PNone \<or> load_production_credential N c = Inr credential"
      "send_loopback N e body (oc_limits c) correlation deadline ?s = Some (r, t) \<and> credential = PNone
       \<or> send_production N e body credential (oc_limits c) correlation deadline ?s = Some (r, t)"
    by (auto simp: transmit_def on_link_def bindM_eq_Some split: if_splits option.splits)
  then show ?thesis
  proof cases
    case (2 t credential)
    from sends_run [OF assms(2) 2(3)] obtain es m where "link_log t = op_log p @ es" "link_run (Idle, nat (provider_attempt_count (oc_limits c))) es (Idle, m)"
      "\<forall>ev \<in> set es. protected_event N e body credential (oc_limits c) ev" by auto
    then show ?thesis using 2(1,2) by (intro conjI exI [of _ es] exI [of _ m] exI [of _ credential]) auto
  qed (rule idle)
qed

lemma on_link_ask [simp]: "on_link (ask f) (p, n) = Some (Inr (f n), (p, Suc n))"
  by (simp add: on_link_def ask_def)

lemma check_cancelled_state: "check_cancelled N (p, n) = Some (r, (p', n')) \<Longrightarrow> p' = p"
  by (auto simp: check_cancelled_def bindM_def checkE_def split: if_splits)

lemma openai_turn_cases:
  assumes "openai_turn N req known timeout_ms (p, n) = Some (r, (p', n'))"
  obtains "p' = p"
  | e body deadline resolver k r' k' where "known = []" and "0 < timeout_ms" and "config_endpoint (net_ucd N) (net_nfkc N) resolver (op_config p) = Inr e"
      and "openai_request_bytes (op_authority p) (op_objects p) req (op_config p) = Inr body"
      and "transmit N (op_config p) e body (PStr (correlation_id req)) deadline (p, k) = Some (r', (p', k'))"
  using assms
  by (fastforce simp: openai_turn_def bindM_eq_Some dest: check_cancelled_state)

text \<open>The shape \<open>^prefix[class]{1,n}$\<close>.\<close>

lemma fullmatch_prefix_bounded:
  "fullmatch (RSeqs [RBegin, RStr s, RRep 1 (Some n) (RChar p), REnd]) t \<longleftrightarrow> (\<exists>u. t = s @ u \<and> u \<noteq> [] \<and> length u \<le> n \<and> list_all p u)"
proof -
  have short: "length s \<le> length t" if "take (length s) t = s"
    using that by (metis length_take min.cobounded1)
  have "fullmatch (RSeqs [RBegin, RStr s, RRep 1 (Some n) (RChar p), REnd]) t \<longleftrightarrow>
      take (length s) t = s \<and> length s < length t \<and> length t \<le> length s + n \<and> list_all p (drop (length s) t)"
    using short ends_RStr [of 0 t s] ends_class_bounded [of "length s" t "length t" 1 n p]
    by (auto simp: fullmatch_def RSeqs_def simp del: ends.simps(4) split: if_splits)
  also have "\<dots> \<longleftrightarrow> (\<exists>u. t = s @ u \<and> u \<noteq> [] \<and> length u \<le> n \<and> list_all p u)"
  proof
    assume t: "take (length s) t = s \<and> length s < length t \<and> length t \<le> length s + n \<and> list_all p (drop (length s) t)"
    then have "t = s @ drop (length s) t" by (metis append_take_drop_id)
    moreover have "drop (length s) t \<noteq> []" "length (drop (length s) t) \<le> n" using t by auto
    ultimately show "\<exists>u. t = s @ u \<and> u \<noteq> [] \<and> length u \<le> n \<and> list_all p u" using t by blast
  qed auto
  finally show ?thesis .
qed

lemmas fullmatch_CREDENTIAL_ENV = fullmatch_prefix_bounded [where s = "py ''NATIVE_MCP_''" and n = 96 and p = credential_char, folded CREDENTIAL_ENV_def]

lemma config_Inr:
  assumes "OpenAICompatibleConfig ep md env tls loop flow (Some l) = Inr c"
  shows "oc_limits c = l" and "fullmatch CREDENTIAL_ENV (credential_env c)" and "oc_endpoint c \<noteq> []" and "bounded_text 2048 (oc_endpoint c)"
    and "tls = PBool True" and "flow = PStr (py ''synthetic-only'')"
  using assms
  by (cases ep; cases env; auto simp: OpenAICompatibleConfig_def bindE_eq_Inr bounded_text_def utf8_encode_def split: if_splits)+

lemma from_mapping_Inr:
  assumes "from_mapping v = Inr c"
  obtains ep md env loop l where "wf_limits l" and "keyset_within (items_of v) CONFIG_KEYS"
    and "OpenAICompatibleConfig ep md env (get_or (items_of v) ''verifyTls'' (PBool True)) loop
       (get_or (items_of v) ''dataFlow'' (PStr (py ''synthetic-only''))) (Some l) = Inr c"
proof -
  from assms obtain l where l: "(case dget (items_of v) ''limits'' of None \<Rightarrow> Inr DEFAULT_LIMITS | Some s \<Rightarrow> supplied_limits s) = Inr l"
    and "keyset_within (items_of v) CONFIG_KEYS"
    and "OpenAICompatibleConfig (get_or (items_of v) ''endpoint'' PNone) (get_or (items_of v) ''model'' PNone) (get_or (items_of v) ''credentialEnv'' PNone)
       (get_or (items_of v) ''verifyTls'' (PBool True)) (get_or (items_of v) ''allowLoopbackHttp'' (PBool False))
       (get_or (items_of v) ''dataFlow'' (PStr (py ''synthetic-only''))) (Some l) = Inr c"
    by (auto simp: from_mapping_def closed_config_def bindE_eq_Inr)
  moreover from l have "wf_limits l"
    by (auto simp: supplied_limits_def replace_limits_def bindE_eq_Inr catchE_eq_Inr split: option.splits dest: Limits_wf)
  ultimately show thesis using that by blast
qed

text \<open>A credential that is no Unicode text, as the environment may hold it, leaves a turn unclassified.\<close>

lemma undecodable_credential_escapes:
  "net_environ N (credential_env c) = Some [56448] \<Longrightarrow> load_production_credential N c = Inl UnicodeEncodeError"
  by (simp add: load_production_credential_def utf8_encode_def surrogate_def)

section \<open>Samples\<close>

definition sample_provider :: openai_provider where
  "sample_provider = \<lparr> op_config = sample_config, op_authority = sample_authority, op_objects = [sample_object], op_log = [] \<rparr>"

definition sample_mapping :: pyval where
  "sample_mapping = obj [(''endpoint'', PStr (py ''http://localhost:8080/v1'')), (''model'', PStr (py ''m'')), (''credentialEnv'', PStr (py ''NATIVE_MCP_KEY'')),
     (''allowLoopbackHttp'', PBool True)]"

lemma sample_from_mapping: "from_mapping sample_mapping = Inr sample_config"
proof -
  have "fullmatch CREDENTIAL_ENV (py ''NATIVE_MCP_KEY'')"
    unfolding fullmatch_CREDENTIAL_ENV by (intro exI [of _ "py ''KEY''"]) (simp add: py_def credential_char_def ascii_upper_def)
  moreover have "utf8_encode (py ''http://localhost:8080/v1'') = Some (py ''http://localhost:8080/v1'')" "length (py ''http://localhost:8080/v1'') \<le> 2048"
    "py ''http://localhost:8080/v1'' \<noteq> []" by (simp_all add: py_def)
  moreover have "model_as INVALID_PROVIDER_CONFIGURATION (PStr (py ''m'')) = Inr (py ''m'')" using sample_model by (simp add: model_as_def)
  moreover have "closed_config sample_mapping = Inr (items_of sample_mapping)"
    by (simp add: closed_config_def sample_mapping_def CONFIG_KEYS_def obj_def is_mapping_def keyset_within_def has_all_def dhas_def dget_def items_of_def)
  ultimately show ?thesis
    by (simp add: from_mapping_def OpenAICompatibleConfig_def sample_config_def sample_mapping_def obj_def get_or_def)
qed

section \<open>Properties\<close>

text \<open>
  C30: the adapter is contained. Whatever the orchestrator passes, one turn changes nothing but the log of the network, and what it does there is a
  run of the connection protocol within the attempt budget. It is empty unless there is no evidence yet: evidence never
  becomes input of the service. Every body sent is the encoding of messages that the authority issued with the literals of their fixtures; a credential is
  sent over verified TLS to public addresses only, and loopback connections carry none.
\<close>

theorem openai_turns_are_contained:
  assumes "openai_turn N req known timeout_ms (p, n) = Some (r, (p', n'))" and "wf_limits (oc_limits (op_config p))"
    and "authority_reaches (op_authority p) M"
  shows "\<exists>es m. p' = p\<lparr>op_log := op_log p @ es\<rparr> \<and> link_run (Idle, nat (provider_attempt_count (oc_limits (op_config p)))) es (Idle, m)
    \<and> (es \<noteq> [] \<longrightarrow> known = [] \<and> 0 < timeout_ms \<and> (\<exists>e body credential fs.
        list_all2 (\<lambda>m f. (mo_token m, f) \<in> M \<and> (role (mo_message m), content (mo_message m)) = SYNTHETIC_FIXTURES f) (op_objects p) fs
        \<and> dumps (wire_value (op_config p) req (map committed fs)) = Inr body
        \<and> (credential = PNone \<or> load_production_credential N (op_config p) = Inr credential)
        \<and> (\<forall>ev \<in> set es. protected_event N e body credential (oc_limits (op_config p)) ev)))"
  using assms(1)
proof (cases rule: openai_turn_cases)
  case 1
  then show ?thesis by (auto intro!: exI [of _ "[]"] link_run.start)
next
  case (2 e body deadline resolver k r' k')
  from transmit_run [OF 2(5) assms(2)] obtain es m credential where log: "op_log p' = op_log p @ es" "p' = p\<lparr>op_log := op_log p'\<rparr>" and run:
      "link_run (Idle, nat (provider_attempt_count (oc_limits (op_config p)))) es (Idle, m)"
      "credential = PNone \<or> load_production_credential N (op_config p) = Inr credential"
      "\<forall>ev \<in> set es. protected_event N e body credential (oc_limits (op_config p)) ev"
    by blast
  have p': "p' = p\<lparr>op_log := op_log p @ es\<rparr>" using log by simp
  from 2(4) obtain specs where specs: "mapE (\<lambda>m. case authorized_fixture (op_authority p) m of None \<Rightarrow> Inl (raises LOCAL_AUTHORIZATION_FAILURE) | Some spec \<Rightarrow> Inr spec) (op_objects p) = Inr specs"
    and body: "dumps (wire_value (op_config p) req specs) = Inr body"
    by (auto simp: openai_request_bytes_def bindE_eq_Inr)
  from authorized_messages [OF assms(3) specs] obtain fs where "specs = map committed fs"
      "list_all2 (\<lambda>m f. (mo_token m, f) \<in> M \<and> mo_synthetic m \<and> (role (mo_message m), content (mo_message m)) = SYNTHETIC_FIXTURES f) (op_objects p) fs" by blast
  then have "list_all2 (\<lambda>m f. (mo_token m, f) \<in> M \<and> (role (mo_message m), content (mo_message m)) = SYNTHETIC_FIXTURES f) (op_objects p) fs"
      "dumps (wire_value (op_config p) req (map committed fs)) = Inr body"
    using body by (auto elim: list_all2_mono)
  with run p' 2(1,2) show ?thesis by blast
qed

theorem openai_turns_are_contained_witness:
  "\<exists>r p' n' es m. openai_turn sample_network sample_request [] 1000 (sample_provider, 0) = Some (r, (p', n'))
     \<and> p' = sample_provider\<lparr>op_log := es\<rparr> \<and> link_run (Idle, 3) es (Idle, m)"
proof -
  obtain r p' n' where turn: "openai_turn sample_network sample_request [] 1000 (sample_provider, 0) = Some (r, (p', n'))"
    using openai_turns.turn_ends unfolding loop_free_def by fast
  have "wf_limits (oc_limits (op_config sample_provider))" "authority_reaches (op_authority sample_provider) {(7, TEST_PROMPT)}"
    using sample_authority_reached by (simp_all add: sample_provider_def sample_config_def)
  from openai_turns_are_contained [OF turn this] turn show ?thesis by (auto simp: sample_provider_def sample_config_def)
qed

text \<open>
  C36: a run of the orchestrator with the adapter as its provider comes to an end against any network, child and service, once the clock
  gets past the deadline of the run.
\<close>

theorem openai_runs_end:
  assumes "expires W (fl (w_clock W (tick (o_client o1)) + seconds (orchestration_total_timeout_ms (o_limits o1)))) k" and "k < fuel"
  shows "\<exists>r o2. run W fuel (openai_turn N) req o1 = Some (r, o2)"
  using openai_turns.run_ends [OF assms, of N req] by (auto simp: Effects.ends_def)

theorem openai_runs_end_witness:
  "\<exists>r o2. run sample_world 16 (openai_turn sample_network) sample_request (fresh_orchestrator fresh_client sample_provider DEFAULT_LIMITS []) = Some (r, o2)"
proof -
  have "expires sample_world (fl (0 + seconds 15000)) 15"
    by (simp add: expires_def sample_world_def seconds_def fl_def binary_exponent_def bit_count.simps pow2_def round_half_even_def)
  then have "expires sample_world (fl (w_clock sample_world (tick (o_client (fresh_orchestrator fresh_client sample_provider DEFAULT_LIMITS [])))
      + seconds (orchestration_total_timeout_ms (o_limits (fresh_orchestrator fresh_client sample_provider DEFAULT_LIMITS []))))) 15"
    by (simp add: fresh_orchestrator_def fresh_client_def sample_world_def)
  from openai_runs_end [OF this, of 16] show ?thesis by simp
qed

text \<open>
  C37: an accepted configuration is closed and safe: it has no unknown key, its limits are within the hard maxima, its credential is named by an
  environment variable of the project, certificate verification is on and only synthetic data may flow.
\<close>

theorem accepted_configurations_are_closed:
  assumes "from_mapping v = Inr c"
  shows "keyset_within (items_of v) CONFIG_KEYS \<and> wf_limits (oc_limits c)
    \<and> (\<exists>u. credential_env c = py ''NATIVE_MCP_'' @ u \<and> u \<noteq> [] \<and> length u \<le> 96 \<and> list_all credential_char u)
    \<and> oc_endpoint c \<noteq> [] \<and> bounded_text 2048 (oc_endpoint c)
    \<and> get_or (items_of v) ''verifyTls'' (PBool True) = PBool True
    \<and> get_or (items_of v) ''dataFlow'' (PStr (py ''synthetic-only'')) = PStr (py ''synthetic-only'')"
  using assms by (rule from_mapping_Inr) (auto dest: config_Inr simp: fullmatch_CREDENTIAL_ENV [symmetric])

theorem accepted_configurations_are_closed_witness:
  "from_mapping sample_mapping = Inr sample_config \<and> wf_limits (oc_limits sample_config)"
proof
  show "from_mapping sample_mapping = Inr sample_config" by (rule sample_from_mapping)
  from accepted_configurations_are_closed [OF this] show "wf_limits (oc_limits sample_config)" by simp
qed

end
