(* ===== verification/Json_Report.thy ===== *)
theory Json_Report
  imports Json_Text
begin

text \<open>
  The JSON of reports: \<open>json.loads\<close> without hooks, \<open>json.dumps\<close> with an indentation of two, and the access to
  parsed values (items, membership, length, addition) without a check of their type, with the exception that Python raises for a wrong one.
\<close>

section \<open>Access\<close>

definition getitem :: "pyval \<Rightarrow> string \<Rightarrow> pyval outcome" where
  "getitem v k = (case v of
      PDict _ kvs \<Rightarrow> (case dget kvs k of None \<Rightarrow> Inl KeyError | Some x \<Rightarrow> Inr x)
    | _ \<Rightarrow> Inl TypeError)"

definition get_default :: "pyval \<Rightarrow> string \<Rightarrow> pyval \<Rightarrow> pyval outcome" where
  "get_default v k d = (case v of
      PDict _ kvs \<Rightarrow> Inr (case dget kvs k of None \<Rightarrow> d | Some x \<Rightarrow> x)
    | _ \<Rightarrow> Inl AttributeError)"

abbreviation dict_get :: "pyval \<Rightarrow> string \<Rightarrow> pyval outcome" where
  "dict_get v k \<equiv> get_default v k PNone"

definition key_object :: "pykey \<Rightarrow> pyval" where
  "key_object k = (case k of SKey s \<Rightarrow> PStr s | OKey n \<Rightarrow> PObj n)"

definition iterate :: "pyval \<Rightarrow> pyval list outcome" where
  "iterate v = (case v of
      PList xs \<Rightarrow> Inr xs
    | PTuple xs \<Rightarrow> Inr xs
    | PDict _ kvs \<Rightarrow> Inr (map (key_object \<circ> fst) kvs)
    | PStr s \<Rightarrow> Inr (map (\<lambda>c. PStr [c]) s)
    | PBytes b \<Rightarrow> Inr (map (\<lambda>n. PInt (int n)) b)
    | _ \<Rightarrow> Inl TypeError)"

definition py_len :: "pyval \<Rightarrow> nat outcome" where
  "py_len v = bindE (iterate v) (\<lambda>xs. Inr (length xs))"

text \<open>\<open>v[0]\<close>; a dict has no key \<open>0\<close> when it comes from JSON.\<close>

definition first_item :: "pyval \<Rightarrow> pyval outcome" where
  "first_item v = (case v of
      PDict _ _ \<Rightarrow> Inl KeyError
    | _ \<Rightarrow> bindE (iterate v) (\<lambda>xs. case xs of [] \<Rightarrow> Inl IndexError | x # _ \<Rightarrow> Inr x))"

text \<open>\<open>d.get(key, default)\<close> on the items of a dict.\<close>

definition dentry :: "items \<Rightarrow> string \<Rightarrow> pyval \<Rightarrow> pyval" where
  "dentry s k d = (case dget s k of None \<Rightarrow> d | Some v \<Rightarrow> v)"

text \<open>\<open>d[key]\<close> for a key taken from another dict.\<close>

definition lookup :: "pyval \<Rightarrow> pykey \<Rightarrow> pyval outcome" where
  "lookup v k = (case v of
      PDict _ kvs \<Rightarrow> (case map_of kvs k of None \<Rightarrow> Inl KeyError | Some x \<Rightarrow> Inr x)
    | _ \<Rightarrow> Inl TypeError)"

fun hashable :: "pyval \<Rightarrow> bool" where
  "hashable (PList xs) = False"
| "hashable (PDict k kvs) = False"
| "hashable (PTuple xs) = list_all hashable xs"
| "hashable v = True"

text \<open>\<open>x in v\<close>.\<close>

definition contains :: "pyval \<Rightarrow> pyval \<Rightarrow> bool outcome" where
  "contains v x = (case v of
      PDict _ kvs \<Rightarrow> if hashable x then Inr (list_ex (\<lambda>(k, _). py_eq x (key_object k)) kvs) else Inl TypeError
    | PList xs \<Rightarrow> Inr (list_ex (py_eq x) xs)
    | PTuple xs \<Rightarrow> Inr (list_ex (py_eq x) xs)
    | PStr s \<Rightarrow> (case x of PStr t \<Rightarrow> Inr (has_sub t s) | _ \<Rightarrow> Inl TypeError)
    | _ \<Rightarrow> Inl TypeError)"

section \<open>Arithmetic\<close>

text \<open>\<open>float(v)\<close> of a number; an integer beyond the doubles raises \<open>OverflowError\<close>.\<close>

definition float_of :: "pyval \<Rightarrow> pyfloat outcome" where
  "float_of v = (case v of
      PFloat f \<Rightarrow> Inr f
    | PBool b \<Rightarrow> Inr (FFin (if b then 1 else 0))
    | PInt i \<Rightarrow> (let f = double_of_rat (of_int i) in if finite_float f then Inr f else Inl OverflowError)
    | _ \<Rightarrow> Inl TypeError)"

fun float_add :: "pyfloat \<Rightarrow> pyfloat \<Rightarrow> pyfloat" where
  "float_add FNaN y = FNaN"
| "float_add x FNaN = FNaN"
| "float_add FPosInf y = (if y = FNegInf then FNaN else FPosInf)"
| "float_add FNegInf y = (if y = FPosInf then FNaN else FNegInf)"
| "float_add x FPosInf = FPosInf"
| "float_add x FNegInf = FNegInf"
| "float_add FNegZero y = y"
| "float_add x FNegZero = x"
| "float_add (FFin a) (FFin b) = double_of_rat (a + b)"

definition integer_of :: "pyval \<Rightarrow> int option" where
  "integer_of v = (case v of PInt i \<Rightarrow> Some i | PBool b \<Rightarrow> Some (of_bool b) | _ \<Rightarrow> None)"

text \<open>\<open>a + b\<close>.\<close>

definition py_add :: "pyval \<Rightarrow> pyval \<Rightarrow> pyval outcome" where
  "py_add a b = (case (integer_of a, integer_of b) of
      (Some i, Some j) \<Rightarrow> Inr (PInt (i + j))
    | _ \<Rightarrow> (case (a, b) of
        (PStr s, PStr t) \<Rightarrow> Inr (PStr (s @ t))
      | (PBytes s, PBytes t) \<Rightarrow> Inr (PBytes (s @ t))
      | (PList s, PList t) \<Rightarrow> Inr (PList (s @ t))
      | (PTuple s, PTuple t) \<Rightarrow> Inr (PTuple (s @ t))
      | _ \<Rightarrow> if is_float a \<or> is_float b
             then bindE (float_of a) (\<lambda>x. bindE (float_of b) (\<lambda>y. Inr (PFloat (float_add x y))))
             else Inl TypeError))"

section \<open>Reading\<close>

definition last_wins :: "(pystr \<times> pyval) list \<Rightarrow> pyval" where
  "last_wins ms = PDict Plain (foldl (\<lambda>d (k, v). al_set (SKey k) v d) [] ms)"

fun scan_plain :: "nat \<Rightarrow> pystr \<Rightarrow> (pyval \<times> pystr) outcome" where
  "scan_plain rd [] = Inl ValueError"
| "scan_plain rd (c # s) =
     (if c = 34 then bindE (scan_str s) (\<lambda>(t, q). Inr (PStr t, q))
      else if c = 123 then
        (case rd of
           0 \<Rightarrow> Inl RecursionError
         | Suc rd' \<Rightarrow>
             if starts_with [125] (skip_ws s) then Inr (PDict Plain [], tl (skip_ws s))
             else bindE (scan_members (scan_plain rd') (skip_ws s)) (\<lambda>(ms, q). Inr (last_wins ms, q)))
      else if c = 91 then
        (case rd of
           0 \<Rightarrow> Inl RecursionError
         | Suc rd' \<Rightarrow>
             if starts_with [93] (skip_ws s) then Inr (PList [], tl (skip_ws s))
             else bindE (scan_elems (scan_plain rd') (skip_ws s)) (\<lambda>(vs, q). Inr (PList vs, q)))
      else if c = 110 then scan_word ''null'' PNone (c # s)
      else if c = 116 then scan_word ''true'' (PBool True) (c # s)
      else if c = 102 then scan_word ''false'' (PBool False) (c # s)
      else if c = 78 then scan_word ''NaN'' (PFloat FNaN) (c # s)
      else if c = 73 then scan_word ''Infinity'' (PFloat FPosInf) (c # s)
      else if starts_with (py ''-Infinity'') (c # s) then scan_word ''-Infinity'' (PFloat FNegInf) (c # s)
      else read_number (c # s))"

declare scan_plain.simps [simp del]

definition json_loads :: "nat \<Rightarrow> pystr \<Rightarrow> pyval outcome" where
  "json_loads rd s =
     (if starts_with [65279] s then Inl ValueError
      else bindE (scan_plain rd (skip_ws s)) (\<lambda>(v, r). if skip_ws r = [] then Inr v else Inl ValueError))"

section \<open>Writing\<close>

definition newline_indent :: "nat \<Rightarrow> pystr" where
  "newline_indent n = 10 # replicate (2 * n) 32"

definition lines_between :: "nat \<Rightarrow> nat \<Rightarrow> nat \<Rightarrow> pystr list \<Rightarrow> pystr" where
  "lines_between opening closing n ts =
     (case ts of
        [] \<Rightarrow> [opening, closing]
      | t # rest \<Rightarrow> [opening] @ newline_indent (Suc n) @ t @ concat (map (\<lambda>t. [44] @ newline_indent (Suc n) @ t) rest)
          @ newline_indent n @ [closing])"

fun dumps_indent :: "nat \<Rightarrow> pyval \<Rightarrow> pystr outcome" where
  "dumps_indent n PNone = Inr (py ''null'')"
| "dumps_indent n (PBool b) = Inr (if b then py ''true'' else py ''false'')"
| "dumps_indent n (PInt i) = dumps_int i"
| "dumps_indent n (PFloat f) = Inr (dumps_float f)"
| "dumps_indent n (PStr s) = Inr (dumps_str s)"
| "dumps_indent n (PList xs) = bindE (mapE (dumps_indent (Suc n)) xs) (\<lambda>ts. Inr (lines_between 91 93 n ts))"
| "dumps_indent n (PTuple xs) = bindE (mapE (dumps_indent (Suc n)) xs) (\<lambda>ts. Inr (lines_between 91 93 n ts))"
| "dumps_indent n (PDict k kvs) =
     (if k = OtherMapping then Inl TypeError
      else bindE (mapE (\<lambda>(key, v). bindE (key_text key) (\<lambda>t.
                          bindE (dumps_indent (Suc n) v) (\<lambda>d. Inr (t, d)))) kvs)
             (\<lambda>ts. Inr (lines_between 123 125 n (map (\<lambda>(t, d). dumps_str t @ [58, 32] @ d) (sort_key fst ts)))))"
| "dumps_indent n (PBytes b) = Inl TypeError"
| "dumps_indent n (PObj m) = Inl TypeError"

section \<open>The strict reader and the plain one\<close>

text \<open>Where the reader with the hooks of the agent accepts a text, \<open>json.loads\<close> without hooks reads the same value.\<close>

definition accepts_less :: "'a outcome \<Rightarrow> 'a outcome \<Rightarrow> bool" where
  "accepts_less m m' \<longleftrightarrow> (\<forall>x. m = Inr x \<longrightarrow> m' = Inr x)"

lemma accepts_less_basic [intro!]: "accepts_less m m" "accepts_less (Inl e) m"
  by (simp_all add: accepts_less_def)

lemma accepts_lessD: "accepts_less m m' \<Longrightarrow> m = Inr x \<Longrightarrow> m' = Inr x"
  by (simp add: accepts_less_def)

lemma accepts_less_bind: "accepts_less m m' \<Longrightarrow> (\<And>x. m = Inr x \<Longrightarrow> accepts_less (f x) (f' x)) \<Longrightarrow> accepts_less (bindE m f) (bindE m' f')"
  by (auto simp: accepts_less_def bindE_eq_Inr)

lemma accepts_less_if: "(b \<Longrightarrow> accepts_less m m') \<Longrightarrow> (\<not> b \<Longrightarrow> accepts_less n n') \<Longrightarrow> accepts_less (if b then m else n) (if b then m' else n')"
  by simp

lemma accepts_less_same: "accepts_less m m' \<Longrightarrow> accepts_less (bindE m f) (bindE m' f)"
  by (rule accepts_less_bind) auto

lemma accepts_less_elems:
  assumes "\<And>s. accepts_less (f s) (g s)"
  shows "accepts_less (scan_elems f s) (scan_elems g s)"
proof (induction s rule: length_induct)
  case (1 s)
  show ?case
  proof (cases "f s")
    case (Inl e)
    then show ?thesis by (simp add: scan_elems.simps [of f s] accepts_less_basic)
  next
    case (Inr p)
    from accepts_lessD [OF assms Inr] have "g s = Inr p" .
    with Inr 1 show ?thesis
      by (cases p; cases "skip_ws (snd p)")
        (auto simp: scan_elems.simps [of f s] scan_elems.simps [of g s] intro!: accepts_less_same)
  qed
qed

lemma accepts_less_member: "(\<And>s. accepts_less (f s) (g s)) \<Longrightarrow> accepts_less (scan_member f s) (scan_member g s)"
  by (auto simp: scan_member_def intro!: accepts_less_bind)

lemma accepts_less_members:
  assumes "\<And>s. accepts_less (f s) (g s)"
  shows "accepts_less (scan_members f s) (scan_members g s)"
proof (induction s rule: length_induct)
  case (1 s)
  show ?case
  proof (cases "scan_member f s")
    case (Inl e)
    then show ?thesis by (simp add: scan_members.simps [of f s] accepts_less_basic)
  next
    case (Inr p)
    from accepts_lessD [OF accepts_less_member [OF assms] Inr] have "scan_member g s = Inr p" .
    with Inr 1 show ?thesis
      by (cases p; cases "skip_ws (snd p)")
        (auto simp: scan_members.simps [of f s] scan_members.simps [of g s] intro!: accepts_less_same)
  qed
qed

lemma last_wins_distinct: "distinct (map fst ms) \<Longrightarrow> last_wins ms = PDict Plain (map (\<lambda>(k, v). (SKey k, v)) ms)"
proof -
  have "foldl (\<lambda>d (k, v). al_set (SKey k) v d) acc ms = acc @ map (\<lambda>(k, v). (SKey k, v)) ms"
    if "distinct (map fst ms)" "fst ` set acc \<inter> SKey ` fst ` set ms = {}" for acc
    using that
  proof (induction ms arbitrary: acc)
    case (Cons m ms)
    obtain k v where m: "m = (k, v)" by fastforce
    have "SKey k \<notin> fst ` set acc" using Cons.prems(2) m by auto
    with Cons m show ?case by (auto simp: al_set_fresh image_iff)
  qed simp
  then show "distinct (map fst ms) \<Longrightarrow> last_wins ms = PDict Plain (map (\<lambda>(k, v). (SKey k, v)) ms)"
    by (simp add: last_wins_def)
qed

lemma accepts_less_object: "accepts_less (bindE (pairs_reject_duplicates ms) (\<lambda>d. Inr (d, q))) (Inr (last_wins ms, q))"
  by (simp add: accepts_less_def bindE_eq_Inr pairs_reject_duplicates_eq last_wins_distinct)

lemma strict_number:
  assumes "c = 78 \<or> c = 73 \<or> starts_with (py ''-Infinity'') (c # s)"
  shows "\<exists>e. read_number (c # s) = Inl e"
  using assms by (auto simp: read_number_def read_unsigned_def read_int_part_def ascii_digit_def py_def)

lemma accepts_less_scan: "accepts_less (scan_once rd s) (scan_plain rd s)"
proof (induction rd arbitrary: s)
  case 0
  show ?case
  proof (cases s)
    case (Cons c s)
    then show ?thesis using strict_number [of c s] 
      by (auto simp: scan_once.simps scan_plain.simps)
  qed (simp add: scan_once.simps scan_plain.simps accepts_less_basic)
next
  case (Suc rd)
  show ?case
  proof (cases s)
    case (Cons c s)
    have "accepts_less (bindE (scan_members (scan_once rd) u) (\<lambda>(ms, q). bindE (pairs_reject_duplicates ms) (\<lambda>d. Inr (d, q))))
       (bindE (scan_members (scan_plain rd) u) (\<lambda>(ms, q). Inr (last_wins ms, q)))" for u
      by (rule accepts_less_bind [OF accepts_less_members [OF Suc]]) (auto intro: accepts_less_object)
    moreover have "accepts_less (bindE (scan_elems (scan_once rd) u) (\<lambda>(vs, q). Inr (PList vs, q))) (bindE (scan_elems (scan_plain rd) u) (\<lambda>(vs, q). Inr (PList vs, q)))" for u
      by (rule accepts_less_same [OF accepts_less_elems [OF Suc]])
    ultimately show ?thesis using Cons strict_number [of c s] by (auto simp: scan_once.simps scan_plain.simps)
  qed (simp add: scan_once.simps scan_plain.simps accepts_less_basic)
qed

lemma strict_reader_agrees: "loads rd s = Inr v \<Longrightarrow> json_loads rd s = Inr v"
  using accepts_less_scan [of rd "skip_ws s"] by (auto simp: loads_def json_loads_def accepts_less_def bindE_eq_Inr split: if_splits prod.splits)

end
