(* ===== verification/Demo.thy ===== *)
theory Demo
  imports Demo_Report
begin

text \<open>
  \<open>run_demo\<close> of \<open>demo.py\<close> and the command line of \<open>cli.py\<close>: the synthetic workspace, the run of the orchestrator with the scripted
  proposals, the projection of its evidence, and the files of the report. The file system is a state of two
  directories, the temporary workspace and the output; the record \<open>host\<close> has what comes from outside: paths as text, the fault of
  each file operation, the process id, the elapsed time, the path of a report and the Unicode data.
\<close>

section \<open>Definitions\<close>

record host =
  h_server :: pystr
  h_root :: pystr
  h_policy :: pystr
  h_fault :: "string \<Rightarrow> exn option"
  h_issuer :: nat
  h_ucd :: ucd
  h_nfkc :: "pystr \<Rightarrow> pystr"
  h_show :: "pyval \<Rightarrow> pystr"
  h_pid :: int
  h_elapsed :: pyfloat
  h_report :: "string \<Rightarrow> pystr"

record disk =
  workspace :: "(string \<times> pybytes) list"
  outputs :: "(string \<times> pybytes) list"

type_synonym 'a job = "(disk, 'a) eff"

definition operate :: "host \<Rightarrow> string \<Rightarrow> unit job" where
  "operate H name = liftM (case h_fault H name of Some e \<Rightarrow> Inl e | None \<Rightarrow> Inr ())"

definition stage :: "host \<Rightarrow> string \<Rightarrow> pybytes \<Rightarrow> unit job" where
  "stage H name b = bindM (operate H name) (\<lambda>_. modifyM (\<lambda>d. d\<lparr>workspace := workspace d @ [(name, b)]\<rparr>))"

definition publish :: "host \<Rightarrow> string \<times> pybytes outcome \<Rightarrow> unit job" where
  "publish H file = (case file of (name, made) \<Rightarrow>
     bindM (liftM made) (\<lambda>b.
     bindM (operate H name) (\<lambda>_. modifyM (\<lambda>d. d\<lparr>outputs := outputs d @ [(name, b)]\<rparr>))))"

definition SENTINEL :: string where
  "SENTINEL = ''NMS_OUTSIDE_ROOT_SENTINEL''"

definition policy_value :: "host \<Rightarrow> pyval" where
  "policy_value H = obj [(''version'', PInt 2),
     (''roots'', PList [obj [(''name'', ptext ''evidence''), (''path'', PStr (h_root H)), (''maxFileBytes'', PInt (int FIXTURE_LIMIT))]]),
     (''processes'', PList [obj [(''name'', ptext ''server''), (''pid'', ptext ''self'')]])]"

text \<open>The calls whose evidence is expected, and the turns of the provider.\<close>

definition script :: "string \<Rightarrow> (tool_call_proposal list \<times> turn_response list) outcome" where
  "script scenario =
     bindE (proposals scenario) (\<lambda>calls.
     if scenario = ''hostile'' then
       bindE (proposal ''traversal'' ''logs.search'' [(''root'', ptext ''evidence''), (''path'', ptext ''../outside.txt''), (''query'', ptext ''SENTINEL'')]) (\<lambda>traversal.
       bindE (proposal ''invented'' ''shell.exec'' [(''command'', ptext ''read outside policy'')]) (\<lambda>invented.
       Inr (calls @ [traversal], [Proposals (map Some calls), Proposals [Some traversal], Proposals [Some invented]])))
     else
       bindE (ProviderMessage ASSISTANT (ptext ''Complete.'')) (\<lambda>m.
       Inr (calls, [Proposals (map Some calls), Final m])))"

definition demo_client :: "host \<Rightarrow> client outcome" where
  "demo_client H = McpStdioClient (h_issuer H) (PStr (h_server H)) [ptext ''--policy-config'', PStr (h_policy H)]
     \<lparr> pe_ucd = h_ucd H, pe_nfkc = h_nfkc H, pe_parent = [(SKey (py ''LANG''), ptext ''C'')], pe_allowlist = [ptext ''LANG''] \<rparr> DEFAULT_LIMITS"

definition scenario_number :: "string \<Rightarrow> nat" where
  "scenario_number scenario = Suc (length (takeWhile (\<lambda>s. s \<noteq> scenario) SCENARIOS))"

definition demo_request :: "string \<Rightarrow> provider_request outcome" where
  "demo_request scenario =
     bindE (ProviderMessage USER (ptext ''Inspect synthetic incident INC-042 using the approved tools.'')) (\<lambda>m.
     bindE (canonical_correlation_id (PStr (py ''req-42-'' @ dec (scenario_number scenario)))) (\<lambda>cid.
     bindE (GenerationControls PNone PNone PNone) (\<lambda>g.
     ProviderRequest (ptext ''scripted'') [m] [] (PInt 128) cid g)))"

text \<open>The run of the orchestrator, without a cancellation token; only its outcome is kept.\<close>

definition investigate :: "host \<Rightarrow> world \<Rightarrow> nat \<Rightarrow> string \<Rightarrow> turn_response list \<Rightarrow> orchestration_outcome job" where
  "investigate H W fuel scenario replies =
     bindM (liftM (demo_client H)) (\<lambda>c.
     bindM (liftM (demo_request scenario)) (\<lambda>req.
     bindM (liftM (Orchestrator True c \<lparr> responses = replies, script_delay = 0, script_index = 0 \<rparr> DEFAULT_LIMITS (py scenario))) (\<lambda>o1.
     \<lambda>d. case run (W\<lparr>w_cancelled := (\<lambda>_. False)\<rparr>) fuel (scripted_turn (W\<lparr>w_cancelled := (\<lambda>_. False)\<rparr>)) req o1 of
        None \<Rightarrow> None
      | Some (r, _) \<Rightarrow> Some (r, d))))"

subsection \<open>Projecting the evidence\<close>

definition error_object :: "pyval \<Rightarrow> bool" where
  "error_object v \<longleftrightarrow> is_dict v \<and> fst ` set (items_of v) = {SKey (py ''error'')}
     \<and> (case dget (items_of v) ''error'' of
          Some e \<Rightarrow> is_dict e \<and> fst ` set (items_of e) = {SKey (py ''code''), SKey (py ''message'')} \<and> list_all (\<lambda>(k, x). is_str x) (items_of e)
        | None \<Rightarrow> False)"

definition native_error :: "nat \<Rightarrow> pyval \<Rightarrow> pyval outcome" where
  "native_error rd result =
     bindE (get_default result ''content'' (PList [])) (\<lambda>blocks.
     bindE (py_len blocks) (\<lambda>n.
     bindE (checkE (n = 1) DemoFailure) (\<lambda>_.
     bindE (first_item blocks) (\<lambda>b.
     bindE (dict_get b ''type'') (\<lambda>t.
     bindE (checkE (t = ptext ''text'') DemoFailure) (\<lambda>_.
     bindE (getitem b ''text'') (\<lambda>text.
     bindE (parse_closed_json rd text DEFAULT_LIMITS (Some 4096) None) (\<lambda>structured.
     bindE (checkE (error_object structured) DemoFailure) (\<lambda>_. Inr structured)))))))))"

definition projected :: "tool_call_proposal \<Rightarrow> pyval \<Rightarrow> pyval outcome" where
  "projected tool structured =
     (if proposal_name tool = py ''proc.memory'' then
        bindE (getitem structured ''process'') (\<lambda>p.
        bindE (getitem structured ''pidfdPinned'') (\<lambda>q. Inr (obj [(''process'', p), (''pidfdPinned'', q)])))
      else Inr structured)"

text \<open>One round of the loop over the evidence: the item and the observation of the process that it adds, if any.\<close>

definition project :: "nat \<Rightarrow> tool_call_proposal list \<Rightarrow> nat \<times> evidence \<Rightarrow> (demo_item \<times> pyval list) outcome" where
  "project rd calls entry = (case entry of (index, item) \<Rightarrow>
     let result = plain (ev_result item) in
     bindE (dict_get result ''structuredContent'') (\<lambda>found.
     bindE (dict_get result ''isError'') (\<lambda>failed.
     bindE (if truthy failed then native_error rd result else Inr found) (\<lambda>structured.
     bindE (checkE (is_dict structured \<and> index < length calls) DemoFailure) (\<lambda>_.
     let tool = calls ! index in
     bindE (projected tool structured) (\<lambda>shown.
     bindE (get_default result ''isError'' (PBool False)) (\<lambda>flag.
     Inr (\<lparr> de_id = py ''e'' @ dec (index + 1), de_tool = proposal_name tool, de_arguments = plain (arguments tool), de_action = ev_action item,
            de_response = ev_response item, de_error = flag, de_structured = shown \<rparr>,
          if proposal_name tool = py ''proc.memory'' then [structured] else []))))))))"

definition kept_trace :: "control_event list \<Rightarrow> control_event list" where
  "kept_trace events = filter (\<lambda>e. \<not> starts_with ''shutdown_'' (ce_event e)) events"

definition runtime_value :: "host \<Rightarrow> pyval list \<Rightarrow> pybytes \<Rightarrow> pybytes \<Rightarrow> pyval" where
  "runtime_value H observations fixture encoded = obj [(''elapsedMs'', PFloat (h_elapsed H)), (''server'', PStr (h_server H)),
     (''processObservations'', PList observations), (''fixtureSha256'', PStr (sha256_hex fixture)), (''reportSha256'', PStr (sha256_hex encoded)),
     (''pid'', PInt (h_pid H))]"

definition assemble :: "host \<Rightarrow> world \<Rightarrow> string \<Rightarrow> tool_call_proposal list \<Rightarrow> orchestration_outcome \<Rightarrow> (demo_report \<times> pyval list) outcome" where
  "assemble H W scenario calls res =
     bindE (parse_bounded_transcript (w_nesting W) (PBytes (oo_transcript res)) DEFAULT_LIMITS) (\<lambda>events.
     bindE (mapE (project (w_nesting W) calls) (zip [0..<length (oo_evidence res)] (oo_evidence res))) (\<lambda>items.
     bindE (build_report (w_nesting W) (h_show H) scenario (map fst items) (kept_trace events) (oo_outcome res)) (\<lambda>report.
     Inr (report, concat (map snd items)))))"

text \<open>The four files in the order of writing, each with its text made just before.\<close>

definition report_files ::
    "host \<Rightarrow> pybytes \<Rightarrow> orchestration_outcome \<Rightarrow> demo_report \<Rightarrow> pyval list \<Rightarrow> pybytes \<Rightarrow> (string \<times> pybytes outcome) list" where
  "report_files H fixture res report observations encoded =
     [(''report.json'', Inr encoded),
      (''report.md'', case utf8_encode (render_markdown report) of None \<Rightarrow> Inl UnicodeEncodeError | Some b \<Rightarrow> Inr b),
      (''transcript.json'', Inr (oo_transcript res)),
      (''run.json'', canonical_bytes (runtime_value H observations fixture encoded))]"

definition release_report :: "host \<Rightarrow> pybytes \<Rightarrow> orchestration_outcome \<Rightarrow> demo_report \<times> pyval list \<Rightarrow> demo_report job" where
  "release_report H fixture res made = (case made of (report, observations) \<Rightarrow>
     bindM (liftM (canonical_bytes (report_value report))) (\<lambda>encoded.
     bindM (checkM (length encoded \<le> REPORT_LIMIT \<and> \<not> has_sub (py SENTINEL) encoded) DemoFailure) (\<lambda>_.
     bindM (operate H ''output'') (\<lambda>_.
     bindM (forM (publish H) (report_files H fixture res report observations encoded)) (\<lambda>_.
     retM report)))))"

definition in_workspace :: "host \<Rightarrow> world \<Rightarrow> nat \<Rightarrow> string \<Rightarrow> pybytes \<Rightarrow> demo_report job" where
  "in_workspace H W fuel scenario fixture =
     bindM (operate H ''evidence'') (\<lambda>_.
     bindM (stage H ''outside.txt'' (py SENTINEL @ [10])) (\<lambda>_.
     bindM (stage H ''evidence/application.log'' fixture) (\<lambda>_.
     bindM (stage H ''evidence/deployment.elf'' (elf_bytes (if scenario = ''inconclusive'' then 183 else 62))) (\<lambda>_.
     bindM (liftM (canonical_bytes (policy_value H))) (\<lambda>policy.
     bindM (stage H ''policy.json'' policy) (\<lambda>_.
     bindM (liftM (script scenario)) (\<lambda>(calls, replies).
     bindM (investigate H W fuel scenario replies) (\<lambda>res.
     bindM (liftM (assemble H W scenario calls res)) (\<lambda>made.
     release_report H fixture res made)))))))))"

definition run_demo :: "host \<Rightarrow> world \<Rightarrow> nat \<Rightarrow> string \<Rightarrow> pystr option \<Rightarrow> demo_report job" where
  "run_demo H W fuel scenario log_text =
     bindM (checkM (scenario \<in> set SCENARIOS) DemoFailure) (\<lambda>_.
     let text = (case log_text of None \<Rightarrow> fixture_text scenario | Some t \<Rightarrow> t) in
     bindM (liftM (case utf8_encode text of None \<Rightarrow> Inl UnicodeEncodeError | Some b \<Rightarrow> Inr b)) (\<lambda>fixture.
     bindM (checkM (length fixture \<le> FIXTURE_LIMIT) DemoFailure) (\<lambda>_.
     bindM (operate H ''workspace'') (\<lambda>_.
     finallyM (in_workspace H W fuel scenario fixture) (modifyM (\<lambda>d. d\<lparr>workspace := []\<rparr>))))))"

subsection \<open>Command line\<close>

text \<open>
  \<open>main\<close> after the arguments are parsed: the exit status, and the printed lines of the scenarios. The scenarios run one after the
  other, each in its world; the first failure of a named class ends the command with status 1.
\<close>

definition printed :: "host \<Rightarrow> demo_report \<Rightarrow> pystr list" where
  "printed H r =
     [py (dr_scenario r @ '': '' @ dr_result r @ '' | '') @ dec (length (dr_evidence r)) @ py '' validated responses'']
     @ map (\<lambda>j. py (''  '' @ rej_layer j @ '': '' @ rej_reason j)) (dr_rejections r)
     @ [py ''  report: '' @ h_report H (dr_scenario r)]"

fun demo_command :: "host \<Rightarrow> (string \<Rightarrow> world) \<Rightarrow> nat \<Rightarrow> string list \<Rightarrow> (disk, nat \<times> pystr list) eff" where
  "demo_command H Ws fuel [] = retM (0, [])"
| "demo_command H Ws fuel (scenario # rest) =
     bindM (tryM (bindM (run_demo H (Ws scenario) fuel scenario None) (\<lambda>r. retM (Some r)))
        (\<lambda>e. if e = DemoFailure \<or> is_provider_error e \<or> is_os_error e then retM None else raiseM e)) (\<lambda>made.
     case made of
       None \<Rightarrow> retM (1, [])
     | Some r \<Rightarrow> bindM (demo_command H Ws fuel rest) (\<lambda>(status, out). retM (status, printed H r @ out)))"

definition main_demo :: "host \<Rightarrow> (string \<Rightarrow> world) \<Rightarrow> nat \<Rightarrow> string \<Rightarrow> (disk, nat \<times> pystr list) eff" where
  "main_demo H Ws fuel scenario = demo_command H Ws fuel (if scenario = ''all'' then SCENARIOS else [scenario])"

section \<open>Lemmas\<close>

text \<open>Everything before the report is released leaves the output directory alone.\<close>

definition same_outputs :: "disk \<Rightarrow> disk \<Rightarrow> bool" where
  "same_outputs d d' \<longleftrightarrow> outputs d' = outputs d"

interpretation staging: step_relation same_outputs
  by unfold_locales (auto simp: same_outputs_def)

lemma staging_steps [intro!]: "staging.keeps (operate H n)" "staging.keeps (stage H n b)" "staging.keeps (investigate H W fuel sc replies)"
proof -
  show operate: "staging.keeps (operate H n)" unfolding operate_def by (rule staging.keeps_lift)
  show "staging.keeps (stage H n b)" unfolding stage_def by (intro staging.keeps_bind operate staging.keeps_modify) (simp add: same_outputs_def)
  show "staging.keeps (investigate H W fuel sc replies)"
    unfolding investigate_def
    by (intro staging.keeps_bind staging.keeps_lift staging.keepsI) (auto simp: same_outputs_def split: option.splits)
qed

definition REPORT_FILES :: "string list" where
  "REPORT_FILES = [''report.json'', ''report.md'', ''transcript.json'', ''run.json'']"

text \<open>What a release adds to the outputs.\<close>

definition released_files :: "demo_report option \<Rightarrow> (string \<times> pybytes) list \<Rightarrow> bool" where
  "released_files made new \<longleftrightarrow> (\<exists>k. map fst new = take k REPORT_FILES)
     \<and> (\<forall>b. (''report.json'', b) \<in> set new \<longrightarrow> length b \<le> REPORT_LIMIT \<and> \<not> has_sub (py SENTINEL) b)
     \<and> (case made of None \<Rightarrow> True | Some r \<Rightarrow> length new = 4 \<and> canonical_bytes (report_value r) = Inr (snd (hd new)))"

lemma publish_Some:
  "publish H (n, made) d = Some (r, d') \<Longrightarrow>
     (\<exists>e. r = Inl e \<and> d' = d) \<or> (\<exists>b. made = Inr b \<and> r = Inr () \<and> d' = d\<lparr>outputs := outputs d @ [(n, b)]\<rparr>)"
  by (cases made) (auto simp: publish_def operate_def bindM_eq_Some split: option.splits)

lemma publish_all:
  "forM (publish H) files d = Some (r, d') \<Longrightarrow> \<exists>k new. d' = d\<lparr>outputs := outputs d @ new\<rparr> \<and> map fst new = take k (map fst files)
     \<and> (\<forall>(n, b) \<in> set new. (n, Inr b) \<in> set files) \<and> (r = Inr () \<longrightarrow> list_all2 (\<lambda>(n, b) f. f = (n, Inr b)) new files)"
proof (induction files arbitrary: d)
  case Nil
  then show ?case by (intro exI [of _ 0] exI [of _ "[]"]) auto
next
  case (Cons entry files)
  obtain n made where entry: "entry = (n, made)" by fastforce
  from Cons.prems consider e where "publish H entry d = Some (Inl e, d')" "r = Inl e"
    | d1 where "publish H entry d = Some (Inr (), d1)" "forM (publish H) files d1 = Some (r, d')"
    by (auto simp: bindM_eq_Some)
  then show ?case
  proof cases
    case 1
    then have "d' = d" using publish_Some [of H n made d] entry by blast
    with 1 show ?thesis by (intro exI [of _ 0] exI [of _ "[]"]) auto
  next
    case 2
    then obtain b where b: "made = Inr b" "d1 = d\<lparr>outputs := outputs d @ [(n, b)]\<rparr>" using publish_Some [of H n made d] entry by blast
    from Cons.IH [OF 2(2)] obtain k new where new: "d' = d1\<lparr>outputs := outputs d1 @ new\<rparr>" "map fst new = take k (map fst files)"
      "\<forall>(n, b) \<in> set new. (n, Inr b) \<in> set files" "r = Inr () \<longrightarrow> list_all2 (\<lambda>(n, b) f. f = (n, Inr b)) new files" by blast
    then show ?thesis using b entry by (intro exI [of _ "Suc k"] exI [of _ "(n, b) # new"]) auto
  qed
qed

lemma release_report_Some:
  assumes "release_report H fixture res (report, obs) d = Some (r, d')"
  shows "\<exists>new. d' = d\<lparr>outputs := outputs d @ new\<rparr> \<and> released_files (case r of Inl e \<Rightarrow> None | Inr x \<Rightarrow> Some x) new \<and> (\<forall>x. r = Inr x \<longrightarrow> x = report)"
proof -
  have none: "\<exists>new. d = d\<lparr>outputs := outputs d @ new\<rparr> \<and> released_files None new"
    by (intro exI [of _ "[]"]) (auto simp: released_files_def intro: exI [of _ 0])
  show ?thesis
  proof (cases "\<exists>encoded. canonical_bytes (report_value report) = Inr encoded \<and> length encoded \<le> REPORT_LIMIT
      \<and> \<not> has_sub (py SENTINEL) encoded \<and> h_fault H ''output'' = None")
    case False
    then have "d' = d" "\<exists>e. r = Inl e"
      using assms by (cases "canonical_bytes (report_value report)";
          force simp: release_report_def bindM_def checkE_def operate_def split: option.splits if_splits)+
    with none show ?thesis by auto
  next
    case True
    then obtain encoded where enc: "canonical_bytes (report_value report) = Inr encoded" "length encoded \<le> REPORT_LIMIT"
        "\<not> has_sub (py SENTINEL) encoded" "h_fault H ''output'' = None" by blast
    let ?files = "report_files H fixture res report obs encoded"
    from assms enc obtain r' where r': "forM (publish H) ?files d = Some (r', d')" "r = (case r' of Inl e \<Rightarrow> Inl e | Inr u \<Rightarrow> Inr report)"
      by (force simp: release_report_def bindM_def checkE_def operate_def split: option.splits sum.splits)
    from publish_all [OF r'(1)] obtain k new where new: "d' = d\<lparr>outputs := outputs d @ new\<rparr>"
      "map fst new = take k (map fst (report_files H fixture res report obs encoded))"
      "\<forall>(n, b) \<in> set new. (n, Inr b) \<in> set (report_files H fixture res report obs encoded)"
      "r' = Inr () \<longrightarrow> list_all2 (\<lambda>(n, b) f. f = (n, Inr b)) new (report_files H fixture res report obs encoded)" by blast
    have "map fst (report_files H fixture res report obs encoded) = REPORT_FILES" by (simp add: report_files_def REPORT_FILES_def)
    moreover have "b = encoded" if "(''report.json'', b) \<in> set new" for b
    proof -
      have "(''report.json'', Inr b) \<in> set ?files" using new(3) that by blast
      then show ?thesis by (simp add: report_files_def)
    qed
    moreover have "length new = 4 \<and> snd (hd new) = encoded" if "r' = Inr ()"
      using new(4) that by (auto simp: report_files_def list_all2_Cons2)
    ultimately have "released_files (case r of Inl e \<Rightarrow> None | Inr x \<Rightarrow> Some x) new \<and> (\<forall>x. r = Inr x \<longrightarrow> x = report)"
      using enc r'(2) new(2) by (cases r') (auto simp: released_files_def)
    with new(1) show ?thesis by blast
  qed
qed

text \<open>The evidence of a report: numbered, from different actions, with increasing response ids.\<close>

definition grounded :: "demo_report \<Rightarrow> bool" where
  "grounded r \<longleftrightarrow> 4 \<le> length (dr_evidence r) \<and> length (dr_evidence r) \<le> 5
     \<and> map de_id (dr_evidence r) = map (\<lambda>i. py ''e'' @ dec (i + 1)) [0..<length (dr_evidence r)]
     \<and> distinct (map de_action (dr_evidence r)) \<and> sorted_wrt (<) (map de_response (dr_evidence r))"

lemma script_length: "script scenario = Inr (calls, replies) \<Longrightarrow> length calls \<le> 5"
proof -
  assume "script scenario = Inr (calls, replies)"
  then obtain cs where "proposals scenario = Inr cs" "length calls \<le> Suc (length cs)"
    by (auto simp: script_def bindE_eq_Inr split: if_splits)
  moreover have "length cs = 4" using mapE_length calculation(1) unfolding proposals_def by fastforce
  ultimately show ?thesis by simp
qed

lemma investigate_evidence:
  assumes "investigate H W fuel scenario replies d = Some (Inr res, d')"
  shows "distinct (map ev_action (oo_evidence res)) \<and> sorted_wrt (<) (map ev_response (oo_evidence res))"
proof -
  let ?W = "W\<lparr>w_cancelled := (\<lambda>_. False)\<rparr>"
  from assms obtain c req o1 o2 where c: "demo_client H = Inr c"
    and o1: "Orchestrator True c \<lparr> responses = replies, script_delay = 0, script_index = 0 \<rparr> DEFAULT_LIMITS (py scenario) = Inr o1"
    and run: "run ?W fuel (scripted_turn ?W) req o1 = Some (Inr res, o2)"
    unfolding investigate_def bindM_eq_Some by (auto split: option.splits)
  note start = sound_start [OF c [unfolded demo_client_def] DEFAULT_LIMITS_wf o1]
  from afterD [OF run_sound [OF start DEFAULT_LIMITS_wf] run] run_delivers [OF run] show ?thesis
    by (clarsimp simp: sound_def delivered_def evidence_sent_def)
qed

lemma project_Inr:
  assumes "project rd calls (i, e) = Inr (item, obs)"
  shows "de_id item = py ''e'' @ dec (i + 1)" and "de_action item = ev_action e" and "de_response item = ev_response e" and "i < length calls"
  using assms by (auto simp: project_def Let_def bindE_eq_Inr)

lemma assemble_Inr:
  assumes "assemble H W scenario calls res = Inr (r, obs)" and "length calls \<le> 5"
    and "distinct (map ev_action (oo_evidence res)) \<and> sorted_wrt (<) (map ev_response (oo_evidence res))"
  shows "dr_scenario r = scenario" and "grounded r"
proof -
  let ?es = "oo_evidence res"
  from assms(1) obtain events items where items: "mapE (project (w_nesting W) calls) (zip [0..<length ?es] ?es) = Inr items"
    and rep: "build_report (w_nesting W) (h_show H) scenario (map fst items) (kept_trace events) (oo_outcome res) = Inr r"
    by (auto simp: assemble_def bindE_eq_Inr)
  have len: "length items = length ?es" using mapE_length [OF items] by simp
  have item: "project (w_nesting W) calls (i, ?es ! i) = Inr (items ! i)" if "i < length ?es" for i
    using items that len by (auto simp: mapE_eq_Inr_list_all2 list_all2_conv_all_nth)
  have facts: "de_id (fst (items ! i)) = py ''e'' @ dec (i + 1) \<and> de_action (fst (items ! i)) = ev_action (?es ! i)
      \<and> de_response (fst (items ! i)) = ev_response (?es ! i) \<and> i < length calls" if "i < length ?es" for i
    using project_Inr [of "w_nesting W" calls i "?es ! i" "fst (items ! i)" "snd (items ! i)"] item [OF that] by simp
  have maps: "map de_id (map fst items) = map (\<lambda>i. py ''e'' @ dec (i + 1)) [0..<length items]"
      "map de_action (map fst items) = map ev_action ?es" "map de_response (map fst items) = map ev_response ?es"
    using facts len by (auto intro!: nth_equalityI)
  have "length ?es \<le> 5"
  proof (rule ccontr)
    assume "\<not> length ?es \<le> 5"
    with facts [of 5] assms(2) show False by simp
  qed
  moreover obtain n m rec mis cap js where "4 \<le> length (map fst items)" "r = report_of scenario n m rec mis cap js (map fst items) (kept_trace events)"
    by (rule build_report_Inr [OF rep]) blast
  ultimately show "dr_scenario r = scenario" "grounded r" using maps assms(3) len by (simp_all add: grounded_def report_of_facts)
qed

text \<open>How a job ends: with an addition to the outputs that a release makes, and with a grounded report if it returns one.\<close>

definition good_end :: "string \<Rightarrow> (string \<times> pybytes) list \<Rightarrow> demo_report outcome \<Rightarrow> disk \<Rightarrow> bool" where
  "good_end scenario old r d' \<longleftrightarrow> (\<exists>new. outputs d' = old @ new \<and> released_files (case r of Inl e \<Rightarrow> None | Inr x \<Rightarrow> Some x) new)
     \<and> (case r of Inl e \<Rightarrow> True | Inr x \<Rightarrow> dr_scenario x = scenario \<and> grounded x)"

definition ends_well :: "string \<Rightarrow> demo_report job \<Rightarrow> bool" where
  "ends_well scenario m \<longleftrightarrow> (\<forall>d r d'. m d = Some (r, d') \<longrightarrow> good_end scenario (outputs d) r d')"

lemma good_end_stopped: "outputs d' = old \<Longrightarrow> good_end scenario old (Inl e) d'"
  by (auto simp: good_end_def released_files_def intro!: exI [of _ "[]"] exI [of _ 0])

lemma ends_well_bind:
  assumes "staging.keeps m" and "\<And>x d d'. m d = Some (Inr x, d') \<Longrightarrow> ends_well scenario (f x)"
  shows "ends_well scenario (bindM m f)"
  unfolding ends_well_def bindM_eq_Some
proof (intro allI impI, elim disjE exE conjE)
  fix d d' e and r :: "demo_report outcome" assume "m d = Some (Inl e, d')" "r = Inl e"
  then show "good_end scenario (outputs d) r d'"
    using staging.keepsD [OF assms(1)] by (auto simp: same_outputs_def intro!: good_end_stopped)
next
  fix d d' x u and r :: "demo_report outcome" assume "m d = Some (Inr x, u)" "f x u = Some (r, d')"
  then show "good_end scenario (outputs d) r d'"
    using staging.keepsD [OF assms(1)] assms(2) by (fastforce simp: same_outputs_def ends_well_def)
qed

lemma investigated_ends_well:
  assumes "script scenario = Inr (calls, replies)"
  shows "ends_well scenario (bindM (investigate H W fuel scenario replies) (\<lambda>res.
     bindM (liftM (assemble H W scenario calls res)) (\<lambda>made. release_report H b res made)))"
proof (intro ends_well_bind staging_steps staging.keeps_lift)
  fix res d d' made and u u' :: disk
  assume run: "investigate H W fuel scenario replies d = Some (Inr res, d')" and made: "liftM (assemble H W scenario calls res) u = Some (Inr made, u')"
  obtain report obs where m: "made = (report, obs)" by fastforce
  note good = assemble_Inr [OF _ script_length [OF assms] investigate_evidence [OF run], where H = H and W = W and r = report and obs = obs]
  show "ends_well scenario (release_report H b res made)"
    unfolding ends_well_def m
  proof (intro allI impI)
    fix d r d' assume "release_report H b res (report, obs) d = Some (r, d')"
    from release_report_Some [OF this] good made m show "good_end scenario (outputs d) r d'"
      by (auto simp: good_end_def split: sum.splits)
  qed
qed

lemma in_workspace_ends_well: "ends_well scenario (in_workspace H W fuel scenario b)"
  unfolding in_workspace_def
  by (rule ends_well_bind, blast)+ (auto intro: investigated_ends_well)

text \<open>A host whose disk fails when the ELF fixture is written.\<close>

definition sample_host :: host where
  "sample_host = \<lparr> h_server = py ''/bin/server'', h_root = py ''/tmp/e'', h_policy = py ''/tmp/p'',
     h_fault = (\<lambda>n. if n = ''evidence/deployment.elf'' then Some OSError else None), h_issuer = 7, h_ucd = plain_ucd, h_nfkc = id,
     h_show = (\<lambda>_. []), h_pid = 9, h_elapsed = FFin 1, h_report = (\<lambda>_. []) \<rparr>"

section \<open>Properties\<close>



text \<open>
  A demo run ends, against any server, as soon as the clock gets past the fifteen seconds of the orchestration; the
  fuel of the polling loops only has to exceed the number of clock readings that takes.
\<close>

theorem demo_runs_end:
  assumes "expires W (fl (w_clock W 0 + seconds (orchestration_total_timeout_ms DEFAULT_LIMITS))) k" and "k < fuel"
  shows "\<exists>r d'. run_demo H W fuel scenario log_text d = Some (r, d')"
proof -
  let ?W = "W\<lparr>w_cancelled := (\<lambda>_. False)\<rparr>"
  have "run ?W fuel (scripted_turn ?W) req o1 \<noteq> None"
    if "demo_client H = Inr c" "Orchestrator True c p DEFAULT_LIMITS ctx = Inr o1" for req o1 c p ctx
  proof -
    have "tick (o_client o1) = 0 \<and> o_limits o1 = DEFAULT_LIMITS"
      using that by (auto simp: demo_client_def Orchestrator_def McpStdioClient_def fresh_orchestrator_def bindE_eq_Inr split: if_splits)
    then show ?thesis using scripted.run_ends [where W = ?W and k = k and fuel = fuel] assms by (simp add: Effects.ends_def expires_def)
  qed
  then have run: "loop_free (investigate H W fuel scenario replies)" for replies
    unfolding loop_free_def investigate_def bindM_def by (auto split: option.splits sum.splits prod.splits) (metis option.distinct(1))
  have steps: "loop_free (operate H n)" "loop_free (stage H n b)" "loop_free (publish H f)" for n b f
    unfolding operate_def stage_def publish_def by (auto simp del: eff_simps split: prod.splits)
  have "loop_free (release_report H b res made)" for b res made
    unfolding release_report_def using steps by (auto simp del: eff_simps split: prod.splits)
  then have "loop_free (in_workspace H W fuel scenario b)" for b
    unfolding in_workspace_def using steps run by (auto simp del: eff_simps split: prod.splits)
  then have "loop_free (run_demo H W fuel scenario log_text)"
    unfolding run_demo_def Let_def using steps by (auto simp del: eff_simps)
  then show ?thesis by (auto simp: loop_free_def)
qed

theorem demo_runs_end_witness: "\<exists>r d'. run_demo sample_host sample_world 16 ''hostile'' None \<lparr> workspace = [], outputs = [] \<rparr> = Some (r, d')"
proof -
  have "expires sample_world (fl (w_clock sample_world 0 + seconds (orchestration_total_timeout_ms DEFAULT_LIMITS))) 15"
    by (simp add: expires_def sample_world_def seconds_def fl_def binary_exponent_def bit_count.simps pow2_def round_half_even_def)
  from demo_runs_end [OF this, of 16] show ?thesis by simp
qed

end
