(* ===== verification/Benchmark_Schema.thy ===== *)
theory Benchmark_Schema
  imports Json_Report Contracts
begin

text \<open>
  The offline validator of benchmark reports, \<open>scripts/validate_benchmark_report.py\<close>: a walk over the schema that refuses
  every construct the validator does not implement, a walk over the value along the schema, and the accounting rules
  of a report. \<open>fail\<close> raises \<open>ValueError\<close>. The first number of a walk is the number of nested calls that the interpreter
  still allows. \<open>re.compile\<close> of a pattern is a parameter: it raises (\<open>re.error\<close> is \<open>PatternError\<close>) or gives the search.
\<close>

section \<open>The schema\<close>

type_synonym re_engine = "pystr \<Rightarrow> (pystr \<Rightarrow> bool) outcome"

definition SUPPORTED :: "string list" where
  "SUPPORTED = [''$schema'', ''title'', ''type'', ''required'', ''properties'', ''items'', ''minItems'', ''maxItems'', ''pattern'',
     ''const'', ''additionalProperties'', ''minimum'']"

definition TYPES :: "string list" where
  "TYPES = [''object'', ''array'', ''string'', ''integer'', ''number'']"

abbreviation failV :: exn where
  "failV \<equiv> ValueError"

definition kind_ok :: "pyval \<Rightarrow> bool" where
  "kind_ok kind \<longleftrightarrow> kind = PNone \<or> kind \<in> (\<lambda>t. PStr (py t)) ` set TYPES"

definition size_ok :: "items \<Rightarrow> string \<Rightarrow> bool" where
  "size_ok s keyword = (case dget s keyword of None \<Rightarrow> True | Some (PInt i) \<Rightarrow> 0 \<le> i | Some _ \<Rightarrow> False)"

abbreviation NO_MAXIMUM :: pyval where
  "NO_MAXIMUM \<equiv> PInt (2 ^ 63 - 1)"

definition is_number :: "pyval \<Rightarrow> bool" where
  "is_number v \<longleftrightarrow> (is_int v \<or> is_float v) \<and> \<not> is_bool v"

definition check_finite :: "pyval \<Rightarrow> unit outcome" where
  "check_finite v = bindE (float_of v) (\<lambda>f. checkE (finite_float f) failV)"

definition check_pattern :: "re_engine \<Rightarrow> pyval \<Rightarrow> unit outcome" where
  "check_pattern re p = (case p of
      PStr t \<Rightarrow> catchE (bindE (re t) (\<lambda>_. Inr ())) (\<lambda>e. Inl (if e = PatternError then failV else e))
    | _ \<Rightarrow> Inl failV)"

primrec schema_walk :: "re_engine \<Rightarrow> nat \<Rightarrow> pyval \<Rightarrow> unit outcome" where
  "schema_walk re 0 spec = Inl RecursionError"
| "schema_walk re (Suc n) spec =
     (let s = items_of spec; kind = dentry s ''type'' PNone; required = dentry s ''required'' (PList []);
          properties = dentry s ''properties'' (PDict Plain []); additional = dentry s ''additionalProperties'' (PBool True)
      in bindE (checkE (is_dict spec) failV) (\<lambda>_.
         bindE (checkE (keyset_within s SUPPORTED) failV) (\<lambda>_.
         bindE (checkE (kind_ok kind) failV) (\<lambda>_.
         bindE (checkE (is_list required \<and> list_all is_str (elems required)) failV) (\<lambda>_.
         bindE (checkE (is_dict properties) failV) (\<lambda>_.
         bindE (iterE (\<lambda>(key, child). bindE (checkE (is_str (key_object key)) failV) (\<lambda>_. schema_walk re n child)) (items_of properties)) (\<lambda>_.
         bindE (case dget s ''items'' of None \<Rightarrow> Inr () | Some child \<Rightarrow> schema_walk re n child) (\<lambda>_.
         bindE (checkE (is_bool additional \<or> is_dict additional) failV) (\<lambda>_.
         bindE (if is_dict additional then schema_walk re n additional else Inr ()) (\<lambda>_.
         bindE (iterE (\<lambda>keyword. checkE (size_ok s keyword) failV) [''minItems'', ''maxItems'']) (\<lambda>_.
         bindE (checkE (\<not> num_less (dentry s ''maxItems'' NO_MAXIMUM) (dentry s ''minItems'' (PInt 0))) failV) (\<lambda>_.
         bindE (case dget s ''pattern'' of None \<Rightarrow> Inr () | Some p \<Rightarrow> check_pattern re p) (\<lambda>_.
         case dget s ''minimum'' of None \<Rightarrow> Inr ()
         | Some m \<Rightarrow> bindE (checkE (is_number m) failV) (\<lambda>_. check_finite m))))))))))))))"

section \<open>The value\<close>

definition same_json_value :: "pyval \<Rightarrow> pyval \<Rightarrow> bool" where
  "same_json_value left right \<longleftrightarrow> py_type left = py_type right \<and> py_eq left right"

text \<open>\<open>a < b\<close> where one of the two is a number.\<close>

definition less_number :: "pyval \<Rightarrow> pyval \<Rightarrow> bool outcome" where
  "less_number a b = (if number_of a \<noteq> None \<and> number_of b \<noteq> None then Inr (num_less a b) else Inl TypeError)"

definition walk_item :: "(pyval \<Rightarrow> pyval \<Rightarrow> unit outcome) \<Rightarrow> pyval \<Rightarrow> pyval \<Rightarrow> pykey \<times> pyval \<Rightarrow> unit outcome" where
  "walk_item walk properties additional = (\<lambda>(key, child).
     bindE (contains properties (key_object key)) (\<lambda>b.
     if b then bindE (lookup properties key) (walk child)
     else if additional = PBool False then Inl failV
     else if is_dict additional then walk child additional
     else Inr ()))"

definition walk_object :: "(pyval \<Rightarrow> pyval \<Rightarrow> unit outcome) \<Rightarrow> pyval \<Rightarrow> pyval \<Rightarrow> unit outcome" where
  "walk_object walk node spec =
     bindE (checkE (is_dict node) failV) (\<lambda>_.
     bindE (get_default spec ''required'' (PList [])) (\<lambda>required.
     bindE (iterate required) (\<lambda>keys.
     bindE (iterE (\<lambda>key. bindE (contains node key) (\<lambda>b. checkE b failV)) keys) (\<lambda>_.
     bindE (get_default spec ''properties'' (PDict Plain [])) (\<lambda>properties.
     bindE (get_default spec ''additionalProperties'' (PBool True)) (\<lambda>additional.
     iterE (walk_item walk properties additional) (items_of node)))))))"

definition walk_array :: "(pyval \<Rightarrow> pyval \<Rightarrow> unit outcome) \<Rightarrow> pyval \<Rightarrow> pyval \<Rightarrow> unit outcome" where
  "walk_array walk node spec =
     bindE (checkE (is_list node) failV) (\<lambda>_.
     let n = PInt (int (length (elems node)))
     in bindE (get_default spec ''minItems'' (PInt 0)) (\<lambda>lo.
        bindE (less_number n lo) (\<lambda>few.
        bindE (checkE (\<not> few) failV) (\<lambda>_.
        bindE (get_default spec ''maxItems'' NO_MAXIMUM) (\<lambda>hi.
        bindE (less_number hi n) (\<lambda>many.
        bindE (checkE (\<not> many) failV) (\<lambda>_.
        bindE (contains spec (PStr (py ''items''))) (\<lambda>b.
        if b then iterE (\<lambda>child. bindE (getitem spec ''items'') (walk child)) (elems node) else Inr ()))))))))"

definition walk_string :: "re_engine \<Rightarrow> pyval \<Rightarrow> pyval \<Rightarrow> unit outcome" where
  "walk_string re node spec =
     (case node of
        PStr text \<Rightarrow>
          bindE (contains spec (PStr (py ''pattern''))) (\<lambda>b.
          if b then bindE (getitem spec ''pattern'') (\<lambda>p. case p of
              PStr t \<Rightarrow> bindE (re t) (\<lambda>search. checkE (search text) failV)
            | _ \<Rightarrow> Inl TypeError)
          else Inr ())
      | _ \<Rightarrow> Inl failV)"

definition walk_minimum :: "pyval \<Rightarrow> pyval \<Rightarrow> unit outcome" where
  "walk_minimum node spec =
     bindE (contains spec (PStr (py ''minimum''))) (\<lambda>b.
     if b then bindE (getitem spec ''minimum'') (\<lambda>m. bindE (less_number node m) (\<lambda>low. checkE (\<not> low) failV))
     else Inr ())"

primrec value_walk :: "re_engine \<Rightarrow> nat \<Rightarrow> pyval \<Rightarrow> pyval \<Rightarrow> unit outcome" where
  "value_walk re 0 node spec = Inl RecursionError"
| "value_walk re (Suc n) node spec =
     bindE (contains spec (PStr (py ''const''))) (\<lambda>b.
     bindE (if b then bindE (getitem spec ''const'') (\<lambda>c. checkE (same_json_value node c) failV) else Inr ()) (\<lambda>_.
     bindE (dict_get spec ''type'') (\<lambda>kind.
     bindE (if kind = PStr (py ''object'') then walk_object (value_walk re n) node spec
            else if kind = PStr (py ''array'') then walk_array (value_walk re n) node spec
            else if kind = PStr (py ''string'') then walk_string re node spec
            else if kind = PStr (py ''integer'') then checkE (is_int node \<and> \<not> is_bool node) failV
            else if kind = PStr (py ''number'') then bindE (checkE (is_number node) failV) (\<lambda>_. check_finite node)
            else Inr ()) (\<lambda>_.
     bindE (checkE (hashable kind) TypeError) (\<lambda>_.
     if kind \<in> {PStr (py ''integer''), PStr (py ''number'')} then walk_minimum node spec else Inr ())))))"

section \<open>The report\<close>

definition check_availability :: "pykey \<times> pyval \<Rightarrow> unit outcome" where
  "check_availability = (\<lambda>(key, record).
     if key = SKey (py ''noiseControls'') then Inr ()
     else bindE (checkE (is_dict record \<and> is_bool (dentry (items_of record) ''available'' PNone)) failV) (\<lambda>_.
       let available = truthy (dentry (items_of record) ''available'' PNone)
       in bindE (checkE (\<not> (available \<and> \<not> dhas (items_of record) ''value'')) failV) (\<lambda>_.
          checkE (\<not> (\<not> available \<and> \<not> is_str (dentry (items_of record) ''reason'' PNone))) failV)))"

definition CASE_FIELDS :: "string list" where
  "CASE_FIELDS = [''caseId'', ''unit'', ''inputBytes'', ''operationCount'', ''concurrency'', ''timeoutMilliseconds'', ''warmupIterations'',
     ''measuredIterations'', ''sampleCount'', ''originalSampleCount'', ''retainedSampleCount'', ''excludedSampleCount'', ''exclusionClasses'',
     ''rawSamples'', ''minimum'', ''maximum'', ''median'', ''p95'', ''mean'', ''standardDeviation'', ''validationInTimedRegion'',
     ''noSamplesExcluded'', ''optimizationSink'']"

definition check_case :: "pyval \<Rightarrow> unit outcome" where
  "check_case c =
     bindE (checkE (is_dict c) failV) (\<lambda>_.
     let s = items_of c
     in bindE (checkE (keyset_within s CASE_FIELDS) failV) (\<lambda>_.
        bindE (py_len (dentry s ''rawSamples'' (PList []))) (\<lambda>n.
        bindE (checkE (py_eq (dentry s ''sampleCount'' PNone) (PInt (int n))) failV) (\<lambda>_.
        bindE (py_add (dentry s ''retainedSampleCount'' (PInt (- 1))) (dentry s ''excludedSampleCount'' (PInt (- 1)))) (\<lambda>total.
        checkE (py_eq (dentry s ''originalSampleCount'' PNone) total) failV)))))"

definition case_id_of :: "pyval \<Rightarrow> pystr option" where
  "case_id_of c = (case dentry (items_of c) ''caseId'' PNone of PStr s \<Rightarrow> Some s | _ \<Rightarrow> None)"

definition case_ids :: "pyval list \<Rightarrow> pystr list" where
  "case_ids cases = List.map_filter case_id_of cases"

definition known_case :: "pyval list \<Rightarrow> pyval \<Rightarrow> bool outcome" where
  "known_case cases v = (if hashable v then Inr (v \<in> PStr ` set (case_ids cases)) else Inl TypeError)"

definition check_group :: "pyval list \<Rightarrow> pyval \<Rightarrow> unit outcome" where
  "check_group cases grp =
     bindE (checkE (is_dict grp) failV) (\<lambda>_.
     bindE (py_len (dentry (items_of grp) ''cases'' (PList []))) (\<lambda>n.
     bindE (checkE (n = 2) failV) (\<lambda>_.
     bindE (getitem grp ''cases'') (\<lambda>named.
     bindE (iterate named) (iterE (\<lambda>v. bindE (known_case cases v) (\<lambda>known. checkE known failV)))))))"

definition check_report :: "re_engine \<Rightarrow> nat \<Rightarrow> pyval \<Rightarrow> pyval \<Rightarrow> unit outcome" where
  "check_report re frames schema value =
     bindE (schema_walk re frames schema) (\<lambda>_.
     bindE (checkE (is_dict schema) failV) (\<lambda>_.
     bindE (value_walk re frames value schema) (\<lambda>_.
     let s = items_of value; metadata = dentry s ''metadata'' PNone; cases = dentry s ''cases'' PNone;
         groups = dentry s ''comparisonGroups'' (PList [])
     in bindE (if is_dict value \<and> is_dict metadata then iterE check_availability (items_of metadata) else Inr ()) (\<lambda>_.
        if is_dict value \<and> is_list cases then
          bindE (iterE check_case (elems cases)) (\<lambda>_.
          if is_list groups then iterE (check_group (elems cases)) (elems groups) else Inr ())
        else Inr ()))))"

text \<open>
  \<open>validate\<close> on the text that \<open>read_text\<close> returns or the exception it raises (undecodable bytes are a \<open>ValueError\<close>), and \<open>main\<close>
  after the parsing of its arguments, with the exit status as its value.
\<close>

definition validate :: "re_engine \<Rightarrow> nat \<Rightarrow> nat \<Rightarrow> pystr outcome \<Rightarrow> pyval \<Rightarrow> unit outcome" where
  "validate re rd frames schema_text value =
     bindE (catchE (bindE schema_text (json_loads rd)) (\<lambda>e. Inl (if is_os_error e then failV else e))) (\<lambda>schema.
     check_report re frames schema value)"

definition main_validate :: "re_engine \<Rightarrow> nat \<Rightarrow> nat \<Rightarrow> pystr outcome \<Rightarrow> pystr outcome \<Rightarrow> nat outcome" where
  "main_validate re rd frames report_text schema_text =
     catchE (bindE (bindE report_text (json_loads rd)) (\<lambda>report.
             bindE (validate re rd frames schema_text report) (\<lambda>_. Inr 0)))
       (\<lambda>e. if is_os_error e \<or> is_value_error e then Inr 1 else Inl e)"

section \<open>The committed schema\<close>

text \<open>The value of \<open>benchmarks/schema/benchmark-report.schema.json\<close>.\<close>

definition names :: "string list \<Rightarrow> pyval" where
  "names rs = PList (map (\<lambda>r. PStr (py r)) rs)"

definition typed :: "string \<Rightarrow> pyval" where
  "typed t = obj [(''type'', PStr (py t))]"

definition const_schema :: "pyval \<Rightarrow> pyval" where
  "const_schema v = obj [(''const'', v)]"

definition matching :: "string \<Rightarrow> pyval" where
  "matching p = obj [(''type'', PStr (py ''string'')), (''pattern'', PStr (py p))]"

definition CASE_ID_PATTERN :: string where
  "CASE_ID_PATTERN = ''^(component|comparison|e2e)'' @ [CHR 0x5C] @ ''.''"

definition UNIT_PATTERN :: string where
  "UNIT_PATTERN = ''^(nanoseconds_per_operation|nanoseconds_per_scenario)$''"

definition sample_schema :: pyval where
  "sample_schema = obj [(''type'', PStr (py ''number'')), (''minimum'', PInt 0)]"

definition count_schema :: pyval where
  "count_schema = obj [(''type'', PStr (py ''integer'')), (''minimum'', PInt 1)]"

definition samples_schema :: pyval where
  "samples_schema = obj [(''type'', PStr (py ''array'')), (''minItems'', PInt 1), (''maxItems'', PInt 15), (''items'', sample_schema)]"

definition CASE_REQUIRED :: "string list" where
  "CASE_REQUIRED = [''caseId'', ''unit'', ''sampleCount'', ''rawSamples'', ''median'', ''minimum'', ''maximum'', ''mean'',
     ''standardDeviation'', ''p95'', ''originalSampleCount'', ''retainedSampleCount'', ''excludedSampleCount'', ''noSamplesExcluded'']"

definition case_properties :: "(string \<times> pyval) list" where
  "case_properties =
     [(''caseId'', matching CASE_ID_PATTERN), (''unit'', matching UNIT_PATTERN), (''rawSamples'', samples_schema),
      (''sampleCount'', count_schema), (''originalSampleCount'', count_schema), (''retainedSampleCount'', count_schema),
      (''excludedSampleCount'', const_schema (PInt 0)), (''noSamplesExcluded'', const_schema (PBool True))]"

definition case_schema :: pyval where
  "case_schema = obj [(''type'', PStr (py ''object'')), (''required'', names CASE_REQUIRED), (''additionalProperties'', PBool True),
     (''properties'', obj case_properties)]"

definition named_cases_schema :: pyval where
  "named_cases_schema = obj [(''type'', PStr (py ''array'')), (''minItems'', PInt 2), (''maxItems'', PInt 2), (''items'', typed ''string'')]"

definition GROUP_REQUIRED :: "string list" where
  "GROUP_REQUIRED = [''id'', ''question'', ''cases'', ''equivalentInput'', ''equivalentResult'', ''deploymentRecommendation'']"

definition group_properties :: "(string \<times> pyval) list" where
  "group_properties =
     [(''id'', typed ''string''), (''question'', typed ''string''), (''cases'', named_cases_schema),
      (''equivalentInput'', const_schema (PBool True)), (''equivalentResult'', const_schema (PBool True)),
      (''deploymentRecommendation'', const_schema (PStr (py ''measurement-only'')))]"

definition group_schema :: pyval where
  "group_schema = obj [(''type'', PStr (py ''object'')), (''required'', names GROUP_REQUIRED), (''additionalProperties'', PBool False),
     (''properties'', obj group_properties)]"

definition METADATA_FIELDS :: "string list" where
  "METADATA_FIELDS = [''repositoryCommit'', ''dirtyWorktree'', ''benchmarkExecutableSha256'', ''serverExecutableSha256'', ''schemaVersion'',
     ''fixtureSetVersion'', ''harnessVersion'', ''commandLineArguments'']"

definition metadata_schema :: pyval where
  "metadata_schema = obj
     [(''type'', PStr (py ''object'')), (''required'', names METADATA_FIELDS), (''additionalProperties'', PBool True),
      (''properties'', obj (map (\<lambda>f. (f, typed ''object'')) METADATA_FIELDS))]"

definition framework_schema :: pyval where
  "framework_schema = obj
     [(''type'', PStr (py ''object'')), (''required'', names [''name'', ''version'']), (''additionalProperties'', PBool False),
      (''properties'', obj [(''name'', typed ''string''), (''version'', typed ''string'')])]"

definition REPORT_REQUIRED :: "string list" where
  "REPORT_REQUIRED = [''schemaVersion'', ''fixtureSetVersion'', ''harnessVersion'', ''framework'', ''outlierPolicy'', ''metadata'',
     ''cases'', ''complete'', ''comparisonGroups'']"

definition cases_schema :: pyval where
  "cases_schema = obj [(''type'', PStr (py ''array'')), (''minItems'', PInt 1), (''maxItems'', PInt 32), (''items'', case_schema)]"

definition groups_schema :: pyval where
  "groups_schema = obj [(''type'', PStr (py ''array'')), (''maxItems'', PInt 16), (''items'', group_schema)]"

definition report_properties :: "(string \<times> pyval) list" where
  "report_properties =
     [(''schemaVersion'', const_schema (PStr (py ''1.0.0''))), (''fixtureSetVersion'', typed ''string''),
      (''harnessVersion'', typed ''string''), (''framework'', framework_schema), (''outlierPolicy'', typed ''string''),
      (''metadata'', metadata_schema), (''cases'', cases_schema), (''comparisonGroups'', groups_schema),
      (''complete'', const_schema (PBool True))]"

definition report_schema :: pyval where
  "report_schema = obj
     [(''$schema'', PStr (py ''offline-nms-schema-1'')), (''title'', PStr (py ''Native MCP Sandbox benchmark report'')),
      (''type'', PStr (py ''object'')), (''required'', names REPORT_REQUIRED), (''additionalProperties'', PBool False),
      (''properties'', obj report_properties)]"

section \<open>Lemmas\<close>

text \<open>A schema that the walk accepts.\<close>

definition walked :: "re_engine \<Rightarrow> pyval \<Rightarrow> bool" where
  "walked re spec \<longleftrightarrow> (\<exists>n. schema_walk re n spec = Inr ())"

lemma is_str_key [simp]: "is_str (key_object key) \<longleftrightarrow> (\<exists>t. key = SKey t)"
  by (cases key) (auto simp: key_object_def is_str_def)

lemma walked_dict:
  assumes "walked re spec"
  obtains k s where "spec = PDict k s" and "k \<noteq> OtherMapping"
  using assms unfolding walked_def
proof (elim exE)
  fix n assume "schema_walk re n spec = Inr ()"
  with that show thesis by (cases n) (auto simp: Let_def bindE_eq_Inr is_dict_iff)
qed

lemma walked_parts:
  assumes "walked re (PDict k s)"
  shows "kind_ok (dentry s ''type'' PNone)"
    and "\<exists>rs. dentry s ''required'' (PList []) = PList (map PStr rs)"
    and "\<exists>k' ps. dentry s ''properties'' (PDict Plain []) = PDict k' ps \<and> (\<forall>(key, child) \<in> set ps. (\<exists>t. key = SKey t) \<and> walked re child)"
    and "dget s ''items'' = Some child \<Longrightarrow> walked re child"
    and "is_dict (dentry s ''additionalProperties'' (PBool True)) \<Longrightarrow> walked re (dentry s ''additionalProperties'' (PBool True))"
    and "size_ok s ''minItems'' \<and> size_ok s ''maxItems''"
    and "dget s ''pattern'' = Some p \<Longrightarrow> \<exists>t f. p = PStr t \<and> re t = Inr f"
    and "dget s ''minimum'' = Some m \<Longrightarrow> is_number m"
proof -
  from assms obtain n where "schema_walk re n (PDict k s) = Inr ()" by (auto simp: walked_def)
  then obtain n where w: "schema_walk re (Suc n) (PDict k s) = Inr ()" by (cases n) auto
  note w' = w [simplified schema_walk.simps Let_def bindE_eq_Inr items_of_simps]
  from w' show "kind_ok (dentry s ''type'' PNone)" by auto
  from w' have "is_list (dentry s ''required'' (PList [])) \<and> list_all is_str (elems (dentry s ''required'' (PList [])))" by auto
  then show "\<exists>rs. dentry s ''required'' (PList []) = PList (map PStr rs)"
    by (cases "dentry s ''required'' (PList [])") (auto simp: is_list_def list_all_iff is_str_iff ex_map_conv)
  from w' have "is_dict (dentry s ''properties'' (PDict Plain []))"
    "\<forall>(key, child) \<in> set (items_of (dentry s ''properties'' (PDict Plain []))). is_str (key_object key) \<and> schema_walk re n child = Inr ()"
    by (auto simp: iterE_eq_Inr bindE_eq_Inr)
  then show "\<exists>k' ps. dentry s ''properties'' (PDict Plain []) = PDict k' ps \<and> (\<forall>(key, child) \<in> set ps. (\<exists>t. key = SKey t) \<and> walked re child)"
    unfolding is_dict_iff walked_def by (elim exE conjE) (simp, blast)
  show "walked re child" if "dget s ''items'' = Some child" using w' that by (auto simp: walked_def)
  show "walked re (dentry s ''additionalProperties'' (PBool True))" if "is_dict (dentry s ''additionalProperties'' (PBool True))"
    using w' that by (auto simp: walked_def)
  from w' show "size_ok s ''minItems'' \<and> size_ok s ''maxItems''" by (auto simp: bindE_eq_Inr)
  show "\<exists>t f. p = PStr t \<and> re t = Inr f" if "dget s ''pattern'' = Some p"
    using w' that by (auto simp: check_pattern_def bindE_eq_Inr catchE_eq_Inr split: pyval.splits)
  show "is_number m" if "dget s ''minimum'' = Some m" using w' that by (auto simp: bindE_eq_Inr)
qed

text \<open>Along an accepted schema a step of the value walk fails as \<open>fail\<close> does, or where the walk of a part fails.\<close>

lemma entry_get [simp]: "get_default (PDict k s) key d = Inr (dentry s key d)"
  by (simp add: get_default_def dentry_def)

lemma contains_key [simp]: "contains (PDict k s) (PStr (py key)) = Inr (dhas s key)"
proof -
  have "py_eq (PStr t) (key_object x) \<longleftrightarrow> x = SKey t" for t x by (cases x) (auto simp: key_object_def)
  then have "list_ex (\<lambda>(x, _). py_eq (PStr (py key)) (key_object x)) s \<longleftrightarrow> SKey (py key) \<in> fst ` set s"
    by (force simp: list_ex_iff)
  then show ?thesis by (simp add: contains_def dhas_def dget_def map_of_eq_None_iff del: py_eq.simps)
qed

lemma contains_str: "contains (PDict k s) (PStr t) = Inr (SKey t \<in> fst ` set s)"
proof -
  have "py_eq (PStr t) (key_object x) \<longleftrightarrow> x = SKey t" for x by (cases x) (auto simp: key_object_def)
  then show ?thesis by (force simp: contains_def list_ex_iff simp del: py_eq.simps)
qed

lemma getitem_dict [simp]: "getitem (PDict k s) key = (case dget s key of None \<Rightarrow> Inl KeyError | Some x \<Rightarrow> Inr x)"
  by (simp add: getitem_def)

lemma lookup_dict [simp]: "lookup (PDict k s) key = (case map_of s key of None \<Rightarrow> Inl KeyError | Some x \<Rightarrow> Inr x)"
  by (simp add: lookup_def)

lemma iterate_list [simp]: "iterate (PList xs) = Inr xs"
  by (simp add: iterate_def)

lemma contains_own_key: "contains (PDict k s) (key_object key) = Inr True \<Longrightarrow> \<exists>x. map_of s key = Some x"
proof -
  assume "contains (PDict k s) (key_object key) = Inr True"
  then obtain x v where "(x, v) \<in> set s" "py_eq (key_object key) (key_object x)"
    by (auto simp: contains_def list_ex_iff split: if_splits)
  then have "key \<in> fst ` set s" by (cases key; cases x) (auto simp: key_object_def intro: rev_image_eqI)
  then show ?thesis by (metis domD dom_map_of_conv_image_fst)
qed

lemma contains_own_total: "\<exists>b. contains (PDict k s) (key_object key) = Inr b"
  by (cases key) (simp_all add: contains_def key_object_def)

lemma walk_object_Inl:
  assumes "walked re (PDict k s)" and "walk_object walk node (PDict k s) = Inl e"
  shows "e = failV \<or> (\<exists>k' kvs key child spec. node = PDict k' kvs \<and> (key, child) \<in> set kvs \<and> walked re spec \<and> walk child spec = Inl e)"
proof (cases "is_dict node")
  case True
  then obtain k' kvs where node: "node = PDict k' kvs" by (auto simp: is_dict_iff)
  obtain rs where rs: "dentry s ''required'' (PList []) = PList (map PStr rs)" using walked_parts(2) [OF assms(1)] by blast
  obtain k2 ps where ps: "dentry s ''properties'' (PDict Plain []) = PDict k2 ps" "\<forall>(key, child) \<in> set ps. (\<exists>t. key = SKey t) \<and> walked re child"
    using walked_parts(3) [OF assms(1)] by blast
  let ?add = "dentry s ''additionalProperties'' (PBool True)"
  let ?need = "\<lambda>key. bindE (contains node key) (\<lambda>b. checkE b failV)"
  let ?item = "walk_item walk (PDict k2 ps) ?add"
  from assms(2) True rs ps(1) have "iterE ?need (map PStr rs) = Inl e \<or> iterE ?item kvs = Inl e"
    unfolding node by (simp add: walk_object_def bindE_eq_Inl [of "iterE _ _"]) blast
  then consider key where "?need (PStr key) = Inl e" | key child where "(key, child) \<in> set kvs" "?item (key, child) = Inl e"
    using iterE_Inl_member [of ?need "map PStr rs" e] iterE_Inl_member [of ?item kvs e] by auto
  then show ?thesis
  proof cases
    case 1
    then show ?thesis using node by (simp add: contains_str)
  next
    case (2 key child)
    obtain b where b: "contains (PDict k2 ps) (key_object key) = Inr b" using contains_own_total by blast
    show ?thesis
    proof (cases b)
      case True
      then obtain x where x: "map_of ps key = Some x" using b contains_own_key [of k2 ps key] by auto
      then have "walked re x" using ps(2) map_of_SomeD by fastforce
      with 2 b True x node show ?thesis by (auto simp: walk_item_def)
    next
      case False
      with 2 b node walked_parts(5) [OF assms(1)] show ?thesis by (auto simp: walk_item_def split: if_splits)
    qed
  qed
qed (use assms(2) in \<open>simp add: walk_object_def\<close>)

lemma size_bounds:
  assumes "walked re (PDict k s)"
  shows "\<exists>i j. dentry s ''minItems'' (PInt 0) = PInt i \<and> dentry s ''maxItems'' NO_MAXIMUM = PInt j"
  using walked_parts(6) [OF assms] by (auto simp: size_ok_def dentry_def split: option.splits pyval.splits)

lemma walk_array_Inl:
  assumes "walked re (PDict k s)" and "walk_array walk node (PDict k s) = Inl e"
  shows "e = failV \<or> (\<exists>xs child spec. node = PList xs \<and> child \<in> set xs \<and> walked re spec \<and> walk child spec = Inl e)"
proof (cases "is_list node")
  case True
  then obtain xs where node: "node = PList xs" by (cases node) (auto simp: is_list_def)
  obtain i j where ij: "dentry s ''minItems'' (PInt 0) = PInt i" "dentry s ''maxItems'' NO_MAXIMUM = PInt j"
    using size_bounds [OF assms(1)] by blast
  from assms(2) node ij have "e = failV \<or> (\<exists>spec. dget s ''items'' = Some spec \<and> iterE (\<lambda>child. walk child spec) xs = Inl e)"
    by (auto simp: walk_array_def Let_def bindE_eq_Inl less_number_def number_of_def dhas_def split: if_splits)
  with node walked_parts(4) [OF assms(1)] show ?thesis by (auto dest!: iterE_Inl_member)
qed (use assms(2) in \<open>simp add: walk_array_def\<close>)

lemma walk_string_Inl:
  assumes "walked re (PDict k s)" and "walk_string re node (PDict k s) = Inl e"
  shows "e = failV"
proof (cases "dget s ''pattern''")
  case None
  with assms(2) show ?thesis by (auto simp: walk_string_def dhas_def split: pyval.splits)
next
  case (Some p)
  with walked_parts(7) [OF assms(1)] assms(2) show ?thesis by (auto simp: walk_string_def dhas_def split: pyval.splits)
qed

lemma number_of_number: "is_number v \<Longrightarrow> \<exists>x. number_of v = Some x"
  by (cases v) (auto simp: is_number_def is_int_def is_float_def number_of_def)

lemma walk_minimum_Inl:
  assumes "walked re (PDict k s)" and "walk_minimum node (PDict k s) = Inl e" and "is_number node"
  shows "e = failV"
proof (cases "dget s ''minimum''")
  case (Some m)
  with walked_parts(8) [OF assms(1)] obtain x where "number_of m = Some x" using number_of_number by blast
  with assms(2,3) Some number_of_number show ?thesis by (fastforce simp: walk_minimum_def dhas_def less_number_def)
qed (use assms(2) in \<open>simp add: walk_minimum_def dhas_def\<close>)

lemma check_finite_Inl: "is_number v \<Longrightarrow> check_finite v = Inl e \<Longrightarrow> e \<in> {failV, OverflowError}"
  by (cases v) (auto simp: is_number_def is_int_def is_float_def check_finite_def float_of_def Let_def split: if_splits)

lemma nesting_part: "(key, child) \<in> set kvs \<Longrightarrow> nesting child < nesting (PDict k kvs)" "child \<in> set xs \<Longrightarrow> nesting child < nesting (PList xs)"
proof -
  show "child \<in> set xs \<Longrightarrow> nesting child < nesting (PList xs)" by (induction xs) (auto simp: less_Suc_eq_le le_max_iff_disj)
  show "(key, child) \<in> set kvs \<Longrightarrow> nesting child < nesting (PDict k kvs)" by (induction kvs) (auto simp: less_Suc_eq_le le_max_iff_disj)
qed

lemma value_walk_Inl:
  assumes "walked re spec" and "value_walk re n node spec = Inl e"
  shows "e \<in> {failV, OverflowError} \<or> e = RecursionError \<and> n \<le> nesting node"
  using assms
proof (induction n arbitrary: node spec)
  case (Suc n)
  from Suc.prems(1) obtain k s where spec: "spec = PDict k s" by (rule walked_dict)
  note w = Suc.prems(1) [unfolded spec]
  let ?kind = "dentry s ''type'' PNone"
  have part: ?case if "nesting child < nesting node" "walked re sp" "value_walk re n child sp = Inl e" for child sp
    using Suc.IH [OF that(2,3)] that(1) by auto
  have kinds: "?kind = PNone \<or> ?kind \<in> (\<lambda>t. PStr (py t)) ` set TYPES" using walked_parts(1) [OF w] by (simp add: kind_ok_def)
  then have hash: "hashable ?kind" by auto
  from Suc.prems(2) spec hash consider "e = failV"
    | "walk_object (value_walk re n) node (PDict k s) = Inl e" | "walk_array (value_walk re n) node (PDict k s) = Inl e"
    | "walk_string re node (PDict k s) = Inl e" | "is_number node" "check_finite node = Inl e"
    | "is_number node" "walk_minimum node (PDict k s) = Inl e"
    by (auto simp: bindE_eq_Inl bindE_eq_Inr dhas_def is_number_def split: if_splits)
  then show ?case
  proof cases
    case 2
    with walk_object_Inl [OF w 2] part nesting_part(1) show ?thesis by blast
  next
    case 3
    with walk_array_Inl [OF w 3] part nesting_part(2) show ?thesis by blast
  next
    case 5
    with check_finite_Inl show ?thesis by blast
  qed (use walk_string_Inl [OF w] walk_minimum_Inl [OF w] in auto)
qed simp

subsection \<open>What an accepted value is\<close>

lemma dget_map: "dget (map (\<lambda>(k, v). (SKey (py k), v)) xs) key = map_of xs key"
  by (induction xs) auto

lemma obj_walk: "value_walk re n node (obj S) = Inr () \<longleftrightarrow> (\<exists>m s. n = Suc m \<and> (\<forall>k. dget s k = map_of S k)
    \<and> obj S = PDict Plain s \<and> value_walk re (Suc m) node (PDict Plain s) = Inr ())"
  by (cases n) (auto simp: obj_def dget_map simp del: value_walk.simps(2))

lemma walk_object_Inr:
  assumes "walk_object walk node (PDict k' s) = Inr ()" and "dentry s ''required'' (PList []) = names rs"
    and "dentry s ''properties'' (PDict Plain []) = obj ps"
  obtains k kvs where "node = PDict k kvs" and "k \<noteq> OtherMapping" and "\<forall>r \<in> set rs. contains node (PStr (py r)) = Inr True"
    and "\<forall>x \<in> set kvs. walk_item walk (obj ps) (dentry s ''additionalProperties'' (PBool True)) x = Inr ()"
proof -
  from assms obtain k kvs where node: "node = PDict k kvs" "k \<noteq> OtherMapping"
    by (auto simp: walk_object_def bindE_eq_Inr is_dict_iff)
  with assms have "\<forall>r \<in> set rs. contains node (PStr (py r)) = Inr True"
      "\<forall>x \<in> set kvs. walk_item walk (obj ps) (dentry s ''additionalProperties'' (PBool True)) x = Inr ()"
    by (simp_all add: walk_object_def names_def bindE_eq_Inr iterE_eq_Inr)
  with node that show thesis by blast
qed

lemma object_accepts:
  assumes "value_walk re n node (obj S) = Inr ()" and "map_of S ''type'' = Some (PStr (py ''object''))"
    and "map_of S ''required'' = Some (names rs)" and "map_of S ''properties'' = Some (obj ps)"
  shows "\<exists>m k kvs. node = PDict k kvs \<and> k \<noteq> OtherMapping \<and> (\<forall>r \<in> set rs. \<exists>v. dget kvs r = Some v
    \<and> (\<forall>spec. map_of ps r = Some spec \<longrightarrow> value_walk re m v spec = Inr ()))"
proof -
  from assms(1) obtain m s where s: "\<And>k. dget s k = map_of S k" "value_walk re (Suc m) node (PDict Plain s) = Inr ()"
    by (auto simp: obj_walk)
  then have "walk_object (value_walk re m) node (PDict Plain s) = Inr ()"
    using assms(2) by (auto simp: bindE_eq_Inr dentry_def split: if_splits)
  moreover have "dentry s ''required'' (PList []) = names rs" "dentry s ''properties'' (PDict Plain []) = obj ps"
    using assms(3,4) s(1) by (simp_all add: dentry_def)
  ultimately obtain k kvs where node: "node = PDict k kvs" "k \<noteq> OtherMapping"
    and need: "\<forall>r \<in> set rs. contains node (PStr (py r)) = Inr True"
    and part: "\<forall>x \<in> set kvs. walk_item (value_walk re m) (obj ps) (dentry s ''additionalProperties'' (PBool True)) x = Inr ()"
    by (rule walk_object_Inr)
  have "value_walk re m v spec = Inr ()" if "dget kvs r = Some v" "map_of ps r = Some spec" for r v spec
    using bspec [OF part dget_member [OF that(1)]] that(2)
    by (simp add: walk_item_def key_object_def obj_def dhas_def dget_map) (simp add: dget_map [symmetric] dget_def)
  moreover have "\<exists>v. dget kvs r = Some v" if "r \<in> set rs" for r using need that node by (auto simp: dhas_def)
  ultimately have "\<forall>r \<in> set rs. \<exists>v. dget kvs r = Some v \<and> (\<forall>spec. map_of ps r = Some spec \<longrightarrow> value_walk re m v spec = Inr ())"
    by blast
  with node show ?thesis by (intro exI conjI)
qed

lemma array_accepts:
  assumes "value_walk re n node (obj S) = Inr ()" and "map_of S ''type'' = Some (PStr (py ''array''))" and "map_of S ''items'' = Some spec"
  shows "\<exists>m xs. node = PList xs \<and> (\<forall>x \<in> set xs. value_walk re m x spec = Inr ())
    \<and> (\<forall>i. map_of S ''minItems'' = Some (PInt i) \<longrightarrow> i \<le> int (length xs)) \<and> (\<forall>i. map_of S ''maxItems'' = Some (PInt i) \<longrightarrow> int (length xs) \<le> i)"
proof -
  from assms(1) obtain m s where s: "\<And>k. dget s k = map_of S k" "value_walk re (Suc m) node (PDict Plain s) = Inr ()"
    by (auto simp: obj_walk)
  then have w: "walk_array (value_walk re m) node (PDict Plain s) = Inr ()"
    using assms(2) by (auto simp: bindE_eq_Inr dentry_def split: if_splits)
  then obtain xs where node: "node = PList xs" by (cases node) (auto simp: walk_array_def bindE_eq_Inr is_list_def)
  have "value_walk re m x spec = Inr ()" if "x \<in> set xs" for x
    using w that assms(3) s(1) node by (auto simp: walk_array_def Let_def bindE_eq_Inr iterE_eq_Inr dhas_def)
  moreover have "i \<le> int (length xs)" if "map_of S ''minItems'' = Some (PInt i)" for i
    using w that s(1) node by (auto simp: walk_array_def Let_def bindE_eq_Inr less_number_def num_less_def number_of_def dentry_def split: if_splits)
  moreover have "int (length xs) \<le> i" if "map_of S ''maxItems'' = Some (PInt i)" for i
    using w that s(1) node by (auto simp: walk_array_def Let_def bindE_eq_Inr less_number_def num_less_def number_of_def dentry_def split: if_splits)
  ultimately show ?thesis using node by (intro exI [of _ m] exI [of _ xs]) blast
qed

lemma const_accepts: "value_walk re n node (const_schema c) = Inr () \<Longrightarrow> same_json_value node c"
  by (cases n) (auto simp: const_schema_def obj_def dhas_def bindE_eq_Inr)

lemma string_accepts:
  assumes "value_walk re n node (obj S) = Inr ()" and "map_of S ''type'' = Some (PStr (py ''string''))"
  shows "\<exists>t. node = PStr t"
proof -
  from assms(1) obtain m s where s: "\<And>k. dget s k = map_of S k" "value_walk re (Suc m) node (PDict Plain s) = Inr ()"
    by (auto simp: obj_walk)
  then have "walk_string re node (PDict Plain s) = Inr ()"
    using assms(2) by (auto simp: bindE_eq_Inr dentry_def split: if_splits)
  then show ?thesis by (cases node) (auto simp: walk_string_def)
qed

lemma count_accepts: "value_walk re n node count_schema = Inr () \<Longrightarrow> \<exists>i. node = PInt i \<and> 1 \<le> i"
proof (cases n)
  case (Suc m)
  moreover assume "value_walk re n node count_schema = Inr ()"
  ultimately have w: "is_int node \<and> \<not> is_bool node" "walk_minimum node count_schema = Inr ()"
    by (auto simp: count_schema_def obj_def dhas_def bindE_eq_Inr dentry_def)
  from w(1) obtain i where "node = PInt i" by (auto simp: is_int_iff)
  with w(2) show ?thesis
    by (auto simp: walk_minimum_def count_schema_def obj_def dhas_def bindE_eq_Inr less_number_def num_less_def number_of_def)
qed simp

text \<open>A sample: a number with a finite value that is not below zero.\<close>

definition sample_ok :: "pyval \<Rightarrow> bool" where
  "sample_ok v \<longleftrightarrow> is_number v \<and> (\<exists>f. float_of v = Inr f \<and> finite_float f) \<and> \<not> num_less v (PInt 0)"

lemma sample_accepts: "value_walk re n node sample_schema = Inr () \<Longrightarrow> sample_ok node"
proof (cases n)
  case (Suc m)
  moreover assume "value_walk re n node sample_schema = Inr ()"
  ultimately have w: "is_number node" "check_finite node = Inr ()" "walk_minimum node sample_schema = Inr ()"
    by (auto simp: sample_schema_def obj_def dhas_def bindE_eq_Inr dentry_def)
  then show ?thesis
    by (auto simp: sample_ok_def check_finite_def walk_minimum_def sample_schema_def obj_def dhas_def bindE_eq_Inr less_number_def split: if_splits)
qed simp

subsection \<open>Cases, groups and metadata\<close>

text \<open>A case that accounts for its samples: none is missing, none is excluded, and all are finite.\<close>

definition accounted :: "pyval \<Rightarrow> bool" where
  "accounted c \<longleftrightarrow> (\<exists>k cs samples r. c = PDict k cs \<and> keyset_within cs CASE_FIELDS \<and> case_id_of c \<noteq> None
     \<and> dget cs ''rawSamples'' = Some (PList samples) \<and> 1 \<le> length samples \<and> length samples \<le> 15 \<and> (\<forall>x \<in> set samples. sample_ok x)
     \<and> dget cs ''sampleCount'' = Some (PInt (int (length samples)))
     \<and> dget cs ''retainedSampleCount'' = Some (PInt r) \<and> dget cs ''originalSampleCount'' = Some (PInt r)
     \<and> dget cs ''excludedSampleCount'' = Some (PInt 0))"

lemma same_zero: "same_json_value v (PInt 0) \<Longrightarrow> v = PInt 0"
  by (cases v) (auto simp: same_json_value_def py_type_def number_of_def)

lemma samples_accepts:
  assumes "value_walk re n node samples_schema = Inr ()"
  shows "\<exists>xs. node = PList xs \<and> 1 \<le> length xs \<and> length xs \<le> 15 \<and> (\<forall>x \<in> set xs. sample_ok x)"
  using array_accepts [OF assms [unfolded samples_schema_def], of sample_schema] sample_accepts by fastforce

lemma matching_accepts: "value_walk re n node (matching p) = Inr () \<Longrightarrow> \<exists>t. node = PStr t"
  unfolding matching_def by (auto dest: string_accepts)

lemma check_case_walked:
  assumes "value_walk re n c case_schema = Inr ()"
  shows "case check_case c of Inr u \<Rightarrow> accounted c | Inl e \<Rightarrow> e = failV"
proof -
  from object_accepts [OF assms [unfolded case_schema_def], of CASE_REQUIRED case_properties] obtain m k cs
    where c: "c = PDict k cs" "k \<noteq> OtherMapping"
      and need: "\<forall>r \<in> set CASE_REQUIRED. \<exists>v. dget cs r = Some v \<and> (\<forall>spec. map_of case_properties r = Some spec \<longrightarrow> value_walk re m v spec = Inr ())"
    by auto
  note field = need [unfolded CASE_REQUIRED_def case_properties_def, simplified]
  obtain samples where samples: "dget cs ''rawSamples'' = Some (PList samples)" "1 \<le> length samples" "length samples \<le> 15" "\<forall>x \<in> set samples. sample_ok x"
    using field samples_accepts by metis
  obtain i j l where counts: "dget cs ''sampleCount'' = Some (PInt i)" "dget cs ''originalSampleCount'' = Some (PInt j)" "dget cs ''retainedSampleCount'' = Some (PInt l)"
    using field count_accepts by metis
  have excluded: "dget cs ''excludedSampleCount'' = Some (PInt 0)"
    using field const_accepts same_zero by metis
  obtain t where "dget cs ''caseId'' = Some (PStr t)"
    using field matching_accepts by metis
  then have ident: "case_id_of c \<noteq> None" using c by (simp add: case_id_of_def dentry_def)
  show ?thesis
    using samples counts excluded ident c
    by (auto simp: check_case_def Let_def dentry_def py_len_def py_add_def integer_of_def number_of_def bindE_eq_Inr bindE_eq_Inl accounted_def split: sum.splits)
qed

text \<open>A comparison group names two cases of the report.\<close>

definition compares :: "pyval list \<Rightarrow> pyval \<Rightarrow> bool" where
  "compares cases g \<longleftrightarrow> (\<exists>k gs a b. g = PDict k gs \<and> dget gs ''cases'' = Some (PList [PStr a, PStr b])
     \<and> a \<in> set (case_ids cases) \<and> b \<in> set (case_ids cases))"

lemma named_cases_accepts:
  assumes "value_walk re n node named_cases_schema = Inr ()"
  shows "\<exists>a b. node = PList [PStr a, PStr b]"
proof -
  obtain m xs where "node = PList xs" "\<forall>x \<in> set xs. value_walk re m x (typed ''string'') = Inr ()" "length xs = 2"
    using array_accepts [OF assms [unfolded named_cases_schema_def], of "typed ''string''"] by auto
  then have "node = PList xs" "\<forall>x \<in> set xs. \<exists>t. x = PStr t" "length xs = 2"
    unfolding typed_def by (auto dest!: string_accepts)
  then show ?thesis by (auto simp: numeral_2_eq_2 length_Suc_conv)
qed

lemma check_group_walked:
  assumes "value_walk re n g group_schema = Inr ()"
  shows "case check_group cases g of Inr u \<Rightarrow> compares cases g | Inl e \<Rightarrow> e = failV"
proof -
  from object_accepts [OF assms [unfolded group_schema_def], of GROUP_REQUIRED group_properties] obtain m k gs
    where g: "g = PDict k gs" "k \<noteq> OtherMapping"
      and need: "\<forall>r \<in> set GROUP_REQUIRED. \<exists>v. dget gs r = Some v \<and> (\<forall>spec. map_of group_properties r = Some spec \<longrightarrow> value_walk re m v spec = Inr ())"
    by auto
  from need obtain a b where v: "dget gs ''cases'' = Some (PList [PStr a, PStr b])"
    by (auto simp: GROUP_REQUIRED_def group_properties_def dest!: named_cases_accepts)
  then show ?thesis
    using g by (auto simp: check_group_def dentry_def py_len_def known_case_def compares_def bindE_eq_Inr bindE_eq_Inl split: sum.splits)
qed

text \<open>A metadata record holds a value or the reason why there is none.\<close>

definition explained :: "pykey \<times> pyval \<Rightarrow> bool" where
  "explained = (\<lambda>(key, record). key = SKey (py ''noiseControls'') \<or>
     (\<exists>k kvs. record = PDict k kvs \<and> (dget kvs ''available'' = Some (PBool True) \<and> dhas kvs ''value''
        \<or> dget kvs ''available'' = Some (PBool False) \<and> (\<exists>t. dget kvs ''reason'' = Some (PStr t)))))"

lemma check_availability_walked: "case check_availability x of Inr u \<Rightarrow> explained x | Inl e \<Rightarrow> e = failV"
  by (cases x) (auto simp: check_availability_def explained_def Let_def bindE_eq_Inr bindE_eq_Inl is_dict_iff is_bool_iff is_str_iff dentry_def truthy_def
      split: sum.splits if_splits option.splits)

lemma iterE_classified:
  assumes "\<And>x. x \<in> set xs \<Longrightarrow> case f x of Inr u \<Rightarrow> P x | Inl e \<Rightarrow> e = E"
  shows "case iterE f xs of Inr u \<Rightarrow> \<forall>x \<in> set xs. P x | Inl e \<Rightarrow> e = E"
  using assms by (force simp: iterE_eq_Inr dest!: iterE_Inl_member split: sum.splits)

subsection \<open>A whole report\<close>

definition report_ok :: "pyval \<Rightarrow> bool" where
  "report_ok value \<longleftrightarrow> (\<exists>k kvs k' ms cases groups. value = PDict k kvs
     \<and> dget kvs ''metadata'' = Some (PDict k' ms) \<and> (\<forall>x \<in> set ms. explained x)
     \<and> dget kvs ''cases'' = Some (PList cases) \<and> 1 \<le> length cases \<and> length cases \<le> 32 \<and> (\<forall>c \<in> set cases. accounted c)
     \<and> dget kvs ''comparisonGroups'' = Some (PList groups) \<and> (\<forall>g \<in> set groups. compares cases g))"

lemma small_finite: "check_finite (PInt 0) = Inr ()" "check_finite (PInt 1) = Inr ()"
  by (simp_all add: check_finite_def float_of_def double_of_rat_def finite_float_def binary_exponent_def bit_count.simps pow2_def round_half_even_def Let_def)

lemmas schema_parts = typed_def const_schema_def matching_def sample_schema_def count_schema_def samples_schema_def case_schema_def
  case_properties_def named_cases_schema_def group_schema_def group_properties_def metadata_schema_def framework_schema_def
  cases_schema_def groups_schema_def report_properties_def report_schema_def

lemmas walk_simps = obj_def dentry_def kind_ok_def TYPES_def SUPPORTED_def size_ok_def num_less_def number_of_def is_dict_def

lemma leaf_walks [simp]:
  "schema_walk re (Suc n) (typed ''string'') = Inr ()" "schema_walk re (Suc n) (typed ''object'') = Inr ()"
  "schema_walk re (Suc n) (const_schema v) = Inr ()" "schema_walk re (Suc n) sample_schema = Inr ()" "schema_walk re (Suc n) count_schema = Inr ()"
  by (simp_all add: schema_parts walk_simps is_number_def is_float_def small_finite [simplified])

lemma matching_walk: "re (py p) = Inr f \<Longrightarrow> schema_walk re (Suc n) (matching p) = Inr ()"
  by (simp add: matching_def walk_simps check_pattern_def)

lemma array_walk:
  "schema_walk re n spec = Inr () \<Longrightarrow> 0 \<le> i \<Longrightarrow> i \<le> j \<Longrightarrow>
     schema_walk re (Suc n) (obj [(''type'', PStr (py ''array'')), (''minItems'', PInt i), (''maxItems'', PInt j), (''items'', spec)]) = Inr ()"
  "schema_walk re n spec = Inr () \<Longrightarrow> 0 \<le> j \<Longrightarrow>
     schema_walk re (Suc n) (obj [(''type'', PStr (py ''array'')), (''maxItems'', PInt j), (''items'', spec)]) = Inr ()"
  by (simp_all add: walk_simps)

lemma object_walk:
  assumes "list_all (\<lambda>(k, child). schema_walk re n child = Inr ()) ps"
  shows "schema_walk re (Suc n) (obj [(''type'', PStr (py ''object'')), (''required'', names rs), (''additionalProperties'', PBool b),
      (''properties'', obj ps)]) = Inr ()"
    and "schema_walk re (Suc n) (obj [(''$schema'', v), (''title'', w), (''type'', PStr (py ''object'')), (''required'', names rs),
      (''additionalProperties'', PBool b), (''properties'', obj ps)]) = Inr ()"
proof -
  have "iterE (\<lambda>(key, child). bindE (checkE (is_str (key_object key)) failV) (\<lambda>_. schema_walk re n child)) (map (\<lambda>(k, v). (SKey (py k), v)) ps) = Inr ()"
    using assms by (auto simp: iterE_eq_Inr list_all_iff)
  then show "schema_walk re (Suc n) (obj [(''type'', PStr (py ''object'')), (''required'', names rs), (''additionalProperties'', PBool b),
      (''properties'', obj ps)]) = Inr ()"
    and "schema_walk re (Suc n) (obj [(''$schema'', v), (''title'', w), (''type'', PStr (py ''object'')), (''required'', names rs),
      (''additionalProperties'', PBool b), (''properties'', obj ps)]) = Inr ()"
    by (simp_all add: names_def walk_simps list_all_iff del: is_str_key)
qed

definition engine_ok :: "re_engine \<Rightarrow> bool" where
  "engine_ok re \<longleftrightarrow> (\<exists>f g. re (py CASE_ID_PATTERN) = Inr f \<and> re (py UNIT_PATTERN) = Inr g)"

lemma committed_schema_walk:
  assumes "engine_ok re"
  shows "schema_walk re (Suc (Suc (Suc (Suc (Suc n))))) report_schema = Inr ()"
proof -
  have patterns: "schema_walk re (Suc m) (matching CASE_ID_PATTERN) = Inr ()" "schema_walk re (Suc m) (matching UNIT_PATTERN) = Inr ()" for m
    using assms matching_walk by (auto simp: engine_ok_def simp del: schema_walk.simps)
  have arrays: "schema_walk re (Suc (Suc m)) samples_schema = Inr ()" "schema_walk re (Suc (Suc m)) named_cases_schema = Inr ()" for m
    unfolding samples_schema_def named_cases_schema_def by (simp_all add: array_walk del: schema_walk.simps)
  have items: "schema_walk re (Suc (Suc (Suc m))) case_schema = Inr ()" "schema_walk re (Suc (Suc (Suc m))) group_schema = Inr ()" for m
    unfolding case_schema_def group_schema_def by (rule object_walk, simp add: case_properties_def group_properties_def patterns arrays del: schema_walk.simps)+
  have "schema_walk re (Suc (Suc (Suc (Suc m)))) cases_schema = Inr ()" "schema_walk re (Suc (Suc (Suc (Suc m)))) groups_schema = Inr ()" for m
    unfolding cases_schema_def groups_schema_def by (simp_all add: array_walk items del: schema_walk.simps)
  moreover have "schema_walk re (Suc (Suc m)) framework_schema = Inr ()" "schema_walk re (Suc (Suc m)) metadata_schema = Inr ()" for m
    unfolding framework_schema_def metadata_schema_def by (rule object_walk, simp add: METADATA_FIELDS_def del: schema_walk.simps)+
  ultimately show ?thesis
    unfolding report_schema_def by (intro object_walk) (simp add: report_properties_def del: schema_walk.simps)
qed

lemma report_accepts:
  assumes "value_walk re n value report_schema = Inr ()"
  shows "\<exists>m k kvs metadata cases groups. value = PDict k kvs \<and> k \<noteq> OtherMapping
    \<and> dget kvs ''metadata'' = Some metadata \<and> is_dict metadata
    \<and> dget kvs ''cases'' = Some (PList cases) \<and> 1 \<le> length cases \<and> length cases \<le> 32 \<and> (\<forall>c \<in> set cases. value_walk re m c case_schema = Inr ())
    \<and> dget kvs ''comparisonGroups'' = Some (PList groups) \<and> (\<forall>g \<in> set groups. \<exists>m. value_walk re m g group_schema = Inr ())"
proof -
  from object_accepts [OF assms [unfolded report_schema_def], of REPORT_REQUIRED report_properties] obtain m k kvs
    where v: "value = PDict k kvs" "k \<noteq> OtherMapping"
      and need: "\<forall>r \<in> set REPORT_REQUIRED. \<exists>v. dget kvs r = Some v \<and> (\<forall>spec. map_of report_properties r = Some spec \<longrightarrow> value_walk re m v spec = Inr ())"
    by auto
  then obtain metadata cs gs where parts: "dget kvs ''metadata'' = Some metadata" "value_walk re m metadata metadata_schema = Inr ()"
      "dget kvs ''cases'' = Some cs" "value_walk re m cs cases_schema = Inr ()"
      "dget kvs ''comparisonGroups'' = Some gs" "value_walk re m gs groups_schema = Inr ()"
    by (auto simp: REPORT_REQUIRED_def report_properties_def)
  have "is_dict metadata"
    using object_accepts [OF parts(2) [unfolded metadata_schema_def]] by fastforce
  moreover obtain m1 cases where "cs = PList cases" "1 \<le> length cases \<and> length cases \<le> 32" "\<forall>c \<in> set cases. value_walk re m1 c case_schema = Inr ()"
    using array_accepts [OF parts(4) [unfolded cases_schema_def], of case_schema] by auto
  moreover obtain m2 groups where "gs = PList groups" "\<forall>g \<in> set groups. value_walk re m2 g group_schema = Inr ()"
    using array_accepts [OF parts(6) [unfolded groups_schema_def], of group_schema] by auto
  ultimately show ?thesis using v parts by blast
qed

text \<open>Two limits of the validator: an integer beyond the doubles raises \<open>OverflowError\<close>, which \<open>main\<close> does not catch, and a constant is compared by type at its top only.\<close>

lemma bit_count_power: "bit_count (2 ^ n) = Suc n"
proof (induction n)
  case (Suc n)
  have "bit_count (2 ^ Suc n) = Suc (bit_count (2 ^ Suc n div 2))" by (subst bit_count.simps) simp
  with Suc show ?case by simp
qed (simp add: bit_count.simps)

lemma huge_sample_overflows: "value_walk re (Suc n) (PInt (2 ^ 1024)) sample_schema = Inl OverflowError"
proof -
  have "quotient_of (2 ^ 1024) = (2 ^ 1024, 1)" by simp
  moreover have "nat (2 ^ 1024) = 2 ^ 1024" by (simp only: nat_power_eq nat_numeral zero_le_numeral)
  ultimately have e: "binary_exponent (2 ^ 1024) = 1024"
    by (simp only: binary_exponent_def prod.case bit_count_power) (simp add: bit_count.simps pow2_def)
  have "round_half_even 4503599627370496 = 4503599627370496" by (simp add: round_half_even_def)
  then have "double_of_rat (2 ^ 1024) = FPosInf"
    by (simp add: double_of_rat_def e Let_def del: power_numeral) (simp add: pow2_def)
  then have "float_of (PInt (2 ^ 1024)) = Inl OverflowError" by (simp add: float_of_def finite_float_def)
  then show ?thesis by (simp add: sample_schema_def obj_def dhas_def dentry_def is_number_def is_bool_def check_finite_def)
qed

lemma shallow_constant: "same_json_value (PList [PInt 1]) (PList [PBool True])"
  by (simp add: same_json_value_def py_type_def number_of_def)

section \<open>Properties\<close>

text \<open>
  C29: A schema that the schema walk accepts makes the value walk safe: whatever the value is, the walk accepts it or raises
  the \<open>ValueError\<close> of \<open>fail\<close>, never a \<open>TypeError\<close>, \<open>KeyError\<close>, \<open>AttributeError\<close> or pattern error. Two other exceptions remain:
  \<open>OverflowError\<close> for an integer beyond the doubles, and \<open>RecursionError\<close> for a value nested deeper than the call stack.
\<close>

theorem accepted_schemas_make_the_walk_safe:
  assumes "schema_walk re m spec = Inr ()" and "value_walk re n node spec = Inl e"
  shows "e \<in> {ValueError, OverflowError} \<or> e = RecursionError \<and> n \<le> nesting node"
  using value_walk_Inl [OF _ assms(2)] assms(1) by (auto simp: walked_def)

theorem accepted_schemas_make_the_walk_safe_witness:
  "schema_walk (\<lambda>_. Inl PatternError) 5 (typed ''object'') = Inr ()
   \<and> (\<exists>e. value_walk (\<lambda>_. Inl PatternError) 5 (PInt 3) (typed ''object'') = Inl e \<and> e \<in> {ValueError, OverflowError})"
proof -
  have "schema_walk (\<lambda>_. Inl PatternError) (Suc 4) (typed ''object'') = Inr ()" by (rule leaf_walks)
  then have s: "schema_walk (\<lambda>_. Inl PatternError) 5 (typed ''object'') = Inr ()" by simp
  have v: "value_walk (\<lambda>_. Inl PatternError) 5 (PInt 3) (typed ''object'') = Inl ValueError"
    by (simp add: eval_nat_numeral typed_def obj_def dhas_def dentry_def walk_object_def is_dict_def)
  from accepted_schemas_make_the_walk_safe [OF s v] s v show ?thesis by simp
qed

text \<open>
  C28: Against the committed schema an accepted report accounts for its samples: it has 1 to 32 cases, each with 1 to 15 finite
  samples that are not negative, as many as its count says, none excluded and none lost; every comparison group names two cases of the
  report; every metadata record has a value or a reason. A refused report is a \<open>ValueError\<close>, or an \<open>OverflowError\<close> for a number
  beyond the doubles, when the call stack has room for the nesting of the report.
\<close>

theorem accepted_reports_account_for_their_samples:
  assumes "engine_ok re" and "5 \<le> frames" and "nesting value < frames"
  shows "case check_report re frames report_schema value of Inr u \<Rightarrow> report_ok value | Inl e \<Rightarrow> e \<in> {ValueError, OverflowError}"
proof -
  obtain n where frames: "frames = Suc (Suc (Suc (Suc (Suc n))))" using le_Suc_ex [OF assms(2)] by (auto simp: eval_nat_numeral)
  have s: "schema_walk re frames report_schema = Inr ()" unfolding frames by (rule committed_schema_walk [OF assms(1)])
  show ?thesis
  proof (cases "value_walk re frames value report_schema")
    case (Inl e)
    with value_walk_Inl [OF _ Inl] assms(3) s show ?thesis by (auto simp: check_report_def walked_def report_schema_def obj_def)
  next
    case (Inr u)
    then obtain m k kvs metadata cases groups where v: "value = PDict k kvs" "k \<noteq> OtherMapping"
        "dget kvs ''metadata'' = Some metadata" "is_dict metadata" "dget kvs ''cases'' = Some (PList cases)" "1 \<le> length cases" "length cases \<le> 32"
        "dget kvs ''comparisonGroups'' = Some (PList groups)"
      and cs: "\<forall>c \<in> set cases. value_walk re m c case_schema = Inr ()" and gs: "\<forall>g \<in> set groups. \<exists>m. value_walk re m g group_schema = Inr ()"
      by (auto dest!: report_accepts)
    have checks: "case iterE check_availability (items_of metadata) of Inr u \<Rightarrow> \<forall>x \<in> set (items_of metadata). explained x | Inl e \<Rightarrow> e = failV"
        "case iterE check_case cases of Inr u \<Rightarrow> \<forall>c \<in> set cases. accounted c | Inl e \<Rightarrow> e = failV"
        "case iterE (check_group cases) groups of Inr u \<Rightarrow> \<forall>g \<in> set groups. compares cases g | Inl e \<Rightarrow> e = failV"
      using cs gs by (auto intro!: iterE_classified check_availability_walked dest: check_case_walked check_group_walked)
    have run: "check_report re frames report_schema value = bindE (iterE check_availability (items_of metadata)) (\<lambda>_.
        bindE (iterE check_case cases) (\<lambda>_. iterE (check_group cases) groups))"
      using s Inr v by (simp add: check_report_def dentry_def) (simp add: report_schema_def obj_def)
    have "report_ok value" if "check_report re frames report_schema value = Inr u" for u
      using that checks v unfolding run report_ok_def is_dict_iff by (auto simp: bindE_eq_Inr)
    moreover have "e = failV" if "check_report re frames report_schema value = Inl e" for e
      using that checks unfolding run by (auto simp: bindE_eq_Inl)
    ultimately show ?thesis by (auto split: sum.splits)
  qed
qed

text \<open>A concrete engine for the two committed patterns, and a report with one case and one comparison group.\<close>

definition re_search :: "regex \<Rightarrow> pystr \<Rightarrow> bool" where
  "re_search r s \<longleftrightarrow> list_ex (\<lambda>i. Py_Regex.ends r s i \<noteq> []) [0..<Suc (length s)]"

definition committed_engine :: re_engine where
  "committed_engine p =
     (if p = py CASE_ID_PATTERN then
        Inr (re_search (RSeqs [RBegin, RAlts [RStr (py ''component''), RStr (py ''comparison''), RStr (py ''e2e'')], RStr (py ''.'')]))
      else if p = py UNIT_PATTERN then
        Inr (re_search (RSeqs [RBegin, RAlts [RStr (py ''nanoseconds_per_operation''), RStr (py ''nanoseconds_per_scenario'')], REnd]))
      else Inl PatternError)"

definition sample_case :: pyval where
  "sample_case = obj
     [(''caseId'', PStr (py ''e2e.a'')), (''unit'', PStr (py ''nanoseconds_per_scenario'')), (''sampleCount'', PInt 1), (''rawSamples'', PList [PInt 1]),
      (''median'', PInt 1), (''minimum'', PInt 1), (''maximum'', PInt 1), (''mean'', PInt 1), (''standardDeviation'', PInt 0), (''p95'', PInt 1),
      (''originalSampleCount'', PInt 1), (''retainedSampleCount'', PInt 1), (''excludedSampleCount'', PInt 0), (''noSamplesExcluded'', PBool True)]"

definition sample_report :: pyval where
  "sample_report = obj
     [(''schemaVersion'', PStr (py ''1.0.0'')), (''fixtureSetVersion'', PStr []), (''harnessVersion'', PStr []),
      (''framework'', obj [(''name'', PStr []), (''version'', PStr [])]), (''outlierPolicy'', PStr []),
      (''metadata'', obj (map (\<lambda>f. (f, obj [(''available'', PBool False), (''reason'', PStr [])])) METADATA_FIELDS)),
      (''cases'', PList [sample_case]), (''comparisonGroups'', PList []), (''complete'', PBool True)]"

lemmas value_simps = obj_def dhas_def dentry_def walk_object_def walk_array_def walk_string_def walk_minimum_def walk_item_def names_def contains_str
  key_object_def is_dict_def less_number_def num_less_def number_of_def same_json_value_def py_type_def is_number_def is_float_def Let_def

lemma sample_case_text:
  "committed_engine (py CASE_ID_PATTERN) = Inr f \<Longrightarrow> f (py ''e2e.a'')"
  "committed_engine (py UNIT_PATTERN) = Inr g \<Longrightarrow> g (py ''nanoseconds_per_scenario'')"
proof -
  have "re_search (RSeqs [RBegin, RAlts [RStr (py ''component''), RStr (py ''comparison''), RStr (py ''e2e'')], RStr (py ''.'')]) (py ''e2e.a'')"
    "re_search (RSeqs [RBegin, RAlts [RStr (py ''nanoseconds_per_operation''), RStr (py ''nanoseconds_per_scenario'')], REnd]) (py ''nanoseconds_per_scenario'')"
    by (simp_all add: re_search_def RSeqs_def RAlts_def RStr_def py_def upt_conv_Cons)
  then show "committed_engine (py CASE_ID_PATTERN) = Inr f \<Longrightarrow> f (py ''e2e.a'')"
    "committed_engine (py UNIT_PATTERN) = Inr g \<Longrightarrow> g (py ''nanoseconds_per_scenario'')"
    by (auto simp: committed_engine_def CASE_ID_PATTERN_def UNIT_PATTERN_def)
qed

lemma sample_engine: "\<exists>f g. committed_engine (py CASE_ID_PATTERN) = Inr f \<and> committed_engine (py UNIT_PATTERN) = Inr g"
  by (simp add: committed_engine_def CASE_ID_PATTERN_def UNIT_PATTERN_def)

lemma sample_case_walk: "value_walk committed_engine 7 sample_case case_schema = Inr ()"
proof -
  obtain f g where fg: "committed_engine (py CASE_ID_PATTERN) = Inr f" "committed_engine (py UNIT_PATTERN) = Inr g"
    using sample_engine by blast
  with sample_case_text show ?thesis
    by (simp add: eval_nat_numeral sample_case_def schema_parts value_simps CASE_REQUIRED_def small_finite [simplified])
qed

theorem accepted_reports_account_for_their_samples_witness:
  "check_report committed_engine 9 report_schema sample_report = Inr () \<and> report_ok sample_report"
proof -
  have engine: "engine_ok committed_engine" using sample_engine by (simp add: engine_ok_def)
  have nest: "nesting sample_report < 9"
    by (simp add: sample_report_def sample_case_def METADATA_FIELDS_def obj_def)
  have "schema_walk committed_engine 9 report_schema = Inr ()"
    using committed_schema_walk [OF engine, of 4] by (simp del: schema_walk.simps)
  moreover have "value_walk committed_engine 9 sample_report report_schema = Inr ()"
    using sample_case_walk
    by (simp add: eval_nat_numeral sample_report_def report_schema_def report_properties_def cases_schema_def groups_schema_def framework_schema_def
        metadata_schema_def METADATA_FIELDS_def typed_def const_schema_def value_simps REPORT_REQUIRED_def)
  ultimately have run: "check_report committed_engine 9 report_schema sample_report = Inr ()"
    by (simp add: check_report_def) (simp add: report_schema_def sample_report_def obj_def dentry_def check_availability_def METADATA_FIELDS_def is_dict_def truthy_def dhas_def
        sample_case_def check_case_def CASE_FIELDS_def py_len_def py_add_def integer_of_def number_of_def)
  with accepted_reports_account_for_their_samples [OF engine _ nest] show ?thesis by simp
qed

end
