(* ===== verification/Bounded_Child.thy ===== *)
theory Bounded_Child
  imports Mcp_Client_Laws "HOL-Library.Sublist"
begin

text \<open>
  Reading a child process under fixed bounds, as the scripts do it: \<open>read_streams_bounded\<close> and \<open>terminate_child\<close> of
  \<open>run_agent_investigation_demo.py\<close>, and \<open>bounded_run\<close> of \<open>run_benchmarks.py\<close>. Both poll two pipes under a deadline with the
  same loop, \<open>pump\<close>, and differ in what they do with an event, with an empty \<open>select\<close> and with a failure. The operating system is a record of
  arbitrary streams, read at the counter of the child. A killed child can be waited for, and \<open>kill\<close> on a child that
  was not waited for does not fail. Signals to the parent are not modelled.
\<close>

section \<open>Definitions\<close>

datatype stream = Out | Err

record child_world =
  cw_clock :: "nat \<Rightarrow> rat"
  cw_exit :: "nat \<Rightarrow> int option"
  cw_reaped :: "nat \<Rightarrow> int"
  cw_ready :: "nat \<Rightarrow> (stream \<times> read_result) list"
  cw_fault :: "nat \<Rightarrow> exn option"

text \<open>
  The parent's side: open pipes, streams registered with the selector, the buffers, and the return code once it is known.
  \<open>k_selects\<close> records each \<open>select\<close>: how many streams it watched and for how long it may block.
\<close>

record child =
  k_tick :: nat
  k_stdin :: bool
  k_open :: "stream list"
  k_watched :: "stream list"
  k_out :: pybytes
  k_err :: pybytes
  k_status :: "int option"
  k_selects :: "(nat \<times> rat) list"

definition spawned :: "nat \<Rightarrow> child" where
  "spawned t = \<lparr> k_tick = t, k_stdin = True, k_open = [Out, Err], k_watched = [], k_out = [], k_err = [], k_status = None, k_selects = [] \<rparr>"

definition seeK :: "(nat \<Rightarrow> 'a) \<Rightarrow> (child, 'a) eff" where
  "seeK f = (\<lambda>c. Some (Inr (f (k_tick c)), c\<lparr>k_tick := Suc (k_tick c)\<rparr>))"

definition callK :: "child_world \<Rightarrow> (child, unit) eff" where
  "callK W = bindM (seeK (cw_fault W)) (\<lambda>fault. case fault of None \<Rightarrow> retM () | Some e \<Rightarrow> raiseM e)"

text \<open>\<open>Popen.poll\<close> keeps a return code that it has seen.\<close>

definition poll :: "child_world \<Rightarrow> (child, int option) eff" where
  "poll W = bindM (getM k_status) (\<lambda>known. case known of
      Some r \<Rightarrow> retM (Some r)
    | None \<Rightarrow> bindM (seeK (cw_exit W)) (\<lambda>r. bindM (modifyM (\<lambda>c. c\<lparr>k_status := r\<rparr>)) (\<lambda>_. retM r)))"

text \<open>\<open>process.kill()\<close> and \<open>process.wait()\<close> without a limit.\<close>

definition kill_and_wait :: "child_world \<Rightarrow> (child, unit) eff" where
  "kill_and_wait W = bindM (getM k_status) (\<lambda>known. case known of
      Some r \<Rightarrow> retM ()
    | None \<Rightarrow> bindM (seeK (cw_reaped W)) (\<lambda>r. modifyM (\<lambda>c. c\<lparr>k_status := Some r\<rparr>)))"

text \<open>\<open>terminate_child\<close>: kill, wait for one second, kill and wait again if that was not enough, close the pipes.\<close>

definition terminate_child :: "child_world \<Rightarrow> (child, unit) eff" where
  "terminate_child W =
     bindM (poll W) (\<lambda>r.
     bindM (if r = None then kill_and_wait W else retM ()) (\<lambda>_.
     modifyM (\<lambda>c. c\<lparr>k_stdin := False, k_open := []\<rparr>)))"

definition buffer :: "stream \<Rightarrow> child \<Rightarrow> pybytes" where
  "buffer s c = (case s of Out \<Rightarrow> k_out c | Err \<Rightarrow> k_err c)"

definition extend :: "stream \<Rightarrow> pybytes \<Rightarrow> (child, unit) eff" where
  "extend s chunk = modifyM (\<lambda>c. case s of Out \<Rightarrow> c\<lparr>k_out := k_out c @ chunk\<rparr> | Err \<Rightarrow> c\<lparr>k_err := k_err c @ chunk\<rparr>)"

text \<open>The end of a stream: it leaves the selector and is closed.\<close>

definition drop_stream :: "stream \<Rightarrow> (child, unit) eff" where
  "drop_stream s = modifyM (\<lambda>c. c\<lparr>k_watched := removeAll s (k_watched c), k_open := removeAll s (k_open c)\<rparr>)"

text \<open>\<open>process.stdin.write(...)\<close> and \<open>process.stdin.close()\<close>.\<close>

definition write_input :: "child_world \<Rightarrow> (child, unit) eff" where
  "write_input W = bindM (callK W) (\<lambda>_. bindM (callK W) (\<lambda>_. modifyM (\<lambda>c. c\<lparr>k_stdin := False\<rparr>)))"

text \<open>Each pipe is made non-blocking and registered.\<close>

definition watch :: "child_world \<Rightarrow> stream \<Rightarrow> (child, unit) eff" where
  "watch W s = bindM (callK W) (\<lambda>_. bindM (callK W) (\<lambda>_. modifyM (\<lambda>c. c\<lparr>k_watched := k_watched c @ [s]\<rparr>)))"

text \<open>
  The loop \<open>while selector.get_map() or process.poll() is None\<close> with the deadline test and the \<open>select\<close> in front of its body;
  \<open>idle\<close> is what follows an empty \<open>select\<close>, \<open>handle\<close> the body for one event.
\<close>

definition pump_round ::
    "child_world \<Rightarrow> exn \<Rightarrow> (child, unit) eff \<Rightarrow> (stream \<times> read_result \<Rightarrow> (child, unit) eff) \<Rightarrow> rat \<Rightarrow> stream list \<Rightarrow> (child, unit) eff" where
  "pump_round W late idle handle deadline watched =
     bindM (seeK (cw_clock W)) (\<lambda>now.
     bindM (checkM (0 < fl (deadline - now)) late) (\<lambda>_.
     bindM (modifyM (\<lambda>c. c\<lparr>k_selects := k_selects c @ [(length watched, fl (deadline - now))]\<rparr>)) (\<lambda>_.
     bindM (seeK (cw_ready W)) (\<lambda>ready.
     let events = filter (\<lambda>(s, _). s \<in> set watched) ready in
     if events = [] then idle else forM handle events))))"

fun pump :: "child_world \<Rightarrow> exn \<Rightarrow> (child, unit) eff \<Rightarrow> (stream \<times> read_result \<Rightarrow> (child, unit) eff) \<Rightarrow> rat \<Rightarrow> nat \<Rightarrow> (child, unit) eff" where
  "pump W late idle handle deadline 0 = (\<lambda>c. None)"
| "pump W late idle handle deadline (Suc fuel) =
     bindM (getM k_watched) (\<lambda>watched.
     bindM (if watched \<noteq> [] then retM True else bindM (poll W) (\<lambda>r. retM (r = None))) (\<lambda>more.
     if \<not> more then retM ()
     else bindM (pump_round W late idle handle deadline watched) (\<lambda>_. pump W late idle handle deadline fuel)))"

subsection \<open>The investigation\<close>

definition PROTOCOL_OUTPUT_LIMIT :: nat where
  "PROTOCOL_OUTPUT_LIMIT = 256 * 1024"

definition STDERR_LIMIT :: nat where
  "STDERR_LIMIT = 64 * 1024"

definition TIMEOUT_SECONDS :: rat where
  "TIMEOUT_SECONDS = 20"

definition stream_limit :: "stream \<Rightarrow> nat" where
  "stream_limit s = (case s of Out \<Rightarrow> PROTOCOL_OUTPUT_LIMIT | Err \<Rightarrow> STDERR_LIMIT)"

definition read_event :: "stream \<times> read_result \<Rightarrow> (child, unit) eff" where
  "read_event = (\<lambda>(s, result).
     bindM (getM (buffer s)) (\<lambda>current.
     let read_size = min 8192 (max 1 (int (stream_limit s) - int (length current) + 1)) in
     case result of
       WouldBlock \<Rightarrow> retM ()
     | ReadError \<Rightarrow> raiseM OSError
     | Data bytes \<Rightarrow>
         let chunk = take (nat read_size) bytes in
         if chunk = [] then drop_stream s
         else
           bindM (checkM (length current + length chunk \<le> stream_limit s) DemoError) (\<lambda>_.
           bindM (extend s chunk) (\<lambda>_.
           checkM (s \<noteq> Err) DemoError))))"

definition idle_check :: "child_world \<Rightarrow> (child, unit) eff" where
  "idle_check W = bindM (poll W) (\<lambda>r. checkM (r \<noteq> None) DemoError)"

definition read_streams_bounded :: "child_world \<Rightarrow> nat \<Rightarrow> (child, pybytes \<times> pybytes) eff" where
  "read_streams_bounded W fuel =
     bindM (tryM (write_input W)
              (\<lambda>e. if is_os_error e then bindM (terminate_child W) (\<lambda>_. raiseM DemoError) else raiseM e)) (\<lambda>_.
     bindM (callK W) (\<lambda>_.
     finallyM
       (tryM
         (bindM (forM (watch W) [Out, Err]) (\<lambda>_.
          bindM (seeK (cw_clock W)) (\<lambda>now.
          bindM (pump W DemoError (idle_check W) read_event (fl (now + TIMEOUT_SECONDS)) fuel) (\<lambda>_.
          getM (\<lambda>c. (k_out c, k_err c))))))
         (\<lambda>e. if e = DemoError \<or> is_os_error e then bindM (terminate_child W) (\<lambda>_. raiseM e) else raiseM e))
       (modifyM (\<lambda>c. c\<lparr>k_watched := []\<rparr>))))"

subsection \<open>The benchmarks\<close>

definition OUTPUT_LIMIT :: nat where
  "OUTPUT_LIMIT = 256 * 1024"

definition PROCESS_TIMEOUT :: rat where
  "PROCESS_TIMEOUT = 10"

definition bench_limit :: "stream \<Rightarrow> nat" where
  "bench_limit s = (case s of Out \<Rightarrow> OUTPUT_LIMIT | Err \<Rightarrow> STDERR_LIMIT)"

definition bench_event :: "stream \<times> read_result \<Rightarrow> (child, unit) eff" where
  "bench_event = (\<lambda>(s, result).
     case result of
       WouldBlock \<Rightarrow> raiseM OSError
     | ReadError \<Rightarrow> raiseM OSError
     | Data bytes \<Rightarrow>
         let chunk = take 8192 bytes in
         if chunk = [] then drop_stream s
         else bindM (extend s chunk) (\<lambda>_. bindM (getM (buffer s)) (\<lambda>b. checkM (length b \<le> bench_limit s) RuntimeError)))"

definition bench_read :: "child_world \<Rightarrow> nat \<Rightarrow> bool \<Rightarrow> rat \<Rightarrow> (child, pybytes) eff" where
  "bench_read W fuel strict_stderr deadline =
     bindM (pump W RuntimeError (retM ()) bench_event deadline fuel) (\<lambda>_.
     bindM (getM k_status) (\<lambda>status.
     bindM (checkM (status = Some 0) RuntimeError) (\<lambda>_.
     bindM (getM k_err) (\<lambda>err.
     bindM (checkM (\<not> (strict_stderr \<and> err \<noteq> [])) RuntimeError) (\<lambda>_.
     getM k_out)))))"

text \<open>\<open>bounded_run\<close> after \<open>Popen\<close>; writing the input and registering the pipes come before its \<open>try\<close>.\<close>

definition bounded_run :: "child_world \<Rightarrow> nat \<Rightarrow> bool \<Rightarrow> (child, pybytes) eff" where
  "bounded_run W fuel strict_stderr =
     bindM (write_input W) (\<lambda>_.
     bindM (callK W) (\<lambda>_.
     bindM (forM (watch W) [Out, Err]) (\<lambda>_.
     bindM (seeK (cw_clock W)) (\<lambda>now.
     finallyM
       (tryM (bench_read W fuel strict_stderr (fl (now + PROCESS_TIMEOUT))) (\<lambda>e. bindM (kill_and_wait W) (\<lambda>_. raiseM e)))
       (modifyM (\<lambda>c. c\<lparr>k_watched := []\<rparr>))))))"

section \<open>Lemmas\<close>

subsection \<open>What every step keeps\<close>

text \<open>Time goes on, a known return code stays, and the buffers only grow.\<close>

definition advances :: "child \<Rightarrow> child \<Rightarrow> bool" where
  "advances c c' \<longleftrightarrow> k_tick c \<le> k_tick c' \<and> (\<forall>r. k_status c = Some r \<longrightarrow> k_status c' = Some r)
     \<and> prefix (k_out c) (k_out c') \<and> prefix (k_err c) (k_err c')"

interpretation advances: step_relation advances
  by unfold_locales (auto simp: advances_def)

lemma advances_basic [intro!]:
  "advances.keeps (seeK f)" "advances.keeps (extend s b)" "advances.keeps (drop_stream s)"
  by (rule advances.keepsI, auto simp: seeK_def extend_def drop_stream_def advances_def split: stream.splits)+

lemma advances_notes [intro!]:
  "advances.keeps (modifyM (k_selects_update f))" "advances.keeps (modifyM (k_watched_update g))"
  "advances.keeps (modifyM (\<lambda>c. c\<lparr>k_selects := k_selects c @ x\<rparr>))" "advances.keeps (modifyM (\<lambda>c. c\<lparr>k_watched := k_watched c @ y\<rparr>))"
  "advances.keeps (modifyM (k_stdin_update h))" "advances.keeps (modifyM (\<lambda>c. c\<lparr>k_stdin := b, k_open := z\<rparr>))"
  by (rule advances.keeps_modify, simp add: advances_def)+

lemma advances_call [intro!]: "advances.keeps (callK W)"
  unfolding callK_def by auto

lemma advances_watch [intro!]: "advances.keeps (watch W s)"
  unfolding watch_def by (auto simp del: eff_simps)

lemma advances_poll [intro!]: "advances.keeps (poll W)"
  by (rule advances.keepsI) (auto simp: poll_def seeK_def bindM_def advances_def split: option.splits)

lemma advances_kill [intro!]: "advances.keeps (kill_and_wait W)"
  by (rule advances.keepsI) (auto simp: kill_and_wait_def seeK_def bindM_def advances_def split: option.splits)

lemma advances_terminate [intro!]: "advances.keeps (terminate_child W)"
  unfolding terminate_child_def by (auto simp del: eff_simps)

lemma loop_free_steps [intro!]:
  "loop_free (seeK f)" "loop_free (callK W)" "loop_free (poll W)" "loop_free (kill_and_wait W)" "loop_free (terminate_child W)"
  "loop_free (watch W s)" "loop_free (extend s b)" "loop_free (drop_stream s)"
proof -
  show see: "loop_free (seeK f)" for f :: "nat \<Rightarrow> 'b" by (simp add: loop_free_def seeK_def)
  show call: "loop_free (callK W)" unfolding callK_def using see by (auto simp del: eff_simps)
  show poll: "loop_free (poll W)" unfolding poll_def using see by (auto simp del: eff_simps)
  show kill: "loop_free (kill_and_wait W)" unfolding kill_and_wait_def using see by (auto simp del: eff_simps)
  show "loop_free (terminate_child W)" unfolding terminate_child_def using poll kill by (auto simp del: eff_simps)
  show "loop_free (watch W s)" unfolding watch_def using call by (auto simp del: eff_simps)
qed (auto simp: extend_def drop_stream_def simp del: eff_simps)

lemma poll_result: "poll W c = Some (Inr r, c') \<Longrightarrow> k_status c' = r \<and> k_watched c' = k_watched c \<and> k_open c' = k_open c \<and> k_stdin c' = k_stdin c"
  by (auto simp: poll_def seeK_def bindM_def split: option.splits)

text \<open>The part of a child that waiting and looking leave alone.\<close>

definition pipes :: "child \<Rightarrow> pybytes \<times> pybytes \<times> stream list \<times> stream list \<times> bool" where
  "pipes c = (k_out c, k_err c, k_watched c, k_open c, k_stdin c)"

lemma poll_frame: "poll W c = Some (r, c') \<Longrightarrow> pipes c' = pipes c"
  by (auto simp: poll_def seeK_def bindM_def pipes_def split: option.splits)

lemma poll_total: "\<exists>r c'. poll W c = Some (Inr r, c')"
  by (auto simp: poll_def seeK_def bindM_def split: option.splits)

lemma kill_total: "\<exists>c' r. kill_and_wait W c = Some (Inr (), c') \<and> k_status c' = Some r \<and> k_watched c' = k_watched c \<and> k_open c' = k_open c \<and> k_stdin c' = k_stdin c"
  by (auto simp: kill_and_wait_def seeK_def bindM_def split: option.splits)

lemma kill_never_raises [simp]: "kill_and_wait W c \<noteq> Some (Inl e, c')"
  using kill_total [of W c] by auto

lemma terminate_total: "\<exists>c' r. terminate_child W c = Some (Inr (), c') \<and> k_status c' = Some r \<and> k_stdin c' = False \<and> k_open c' = []"
proof -
  obtain r c1 where c1: "poll W c = Some (Inr r, c1)" using poll_total by blast
  from kill_total [of W c1] show ?thesis
    using poll_result [OF c1] by (cases r) (auto simp: terminate_child_def bindM_def c1)
qed

subsection \<open>The loop\<close>

lemma pump_round_Inr:
  assumes "pump_round W late idle handle d w c = Some (Inr u, c')"
  obtains c1 events where "pipes c1 = pipes c" and "k_tick c1 = k_tick c + 2" and "0 < fl (d - cw_clock W (k_tick c))"
    and "events = [] \<and> idle c1 = Some (Inr (), c') \<or> forM handle events c1 = Some (Inr (), c')"
proof -
  let ?c1 = "c\<lparr>k_selects := k_selects c @ [(length w, fl (d - cw_clock W (k_tick c)))], k_tick := Suc (Suc (k_tick c))\<rparr>"
  let ?events = "filter (\<lambda>(s, _). s \<in> set w) (cw_ready W (Suc (k_tick c)))"
  have "pump_round W late idle handle d w c =
      (if 0 < fl (d - cw_clock W (k_tick c)) then (if ?events = [] then idle else forM handle ?events) ?c1
       else Some (Inl late, c\<lparr>k_tick := Suc (k_tick c)\<rparr>))"
    by (simp add: pump_round_def bindM_def seeK_def Let_def)
  with assms have "0 < fl (d - cw_clock W (k_tick c))" "(if ?events = [] then idle else forM handle ?events) ?c1 = Some (Inr (), c')"
    by (auto split: if_splits)
  with that [of ?c1 ?events] show thesis by (simp add: pipes_def split: if_splits)
qed

text \<open>
  The contract of a reader: its reactions to events and to an empty \<open>select\<close> end, only add to the buffers, and leave buffers that fit, unless they raise.
\<close>

locale stream_reader =
  fixes idle :: "(child, unit) eff" and handle :: "stream \<times> read_result \<Rightarrow> (child, unit) eff" and fits :: "child \<Rightarrow> bool"
  assumes idle_advances: "step_relation.keeps advances idle" and handle_advances: "step_relation.keeps advances (handle ev)"
    and idle_ends: "loop_free idle" and handle_ends: "loop_free (handle ev)"
    and idle_fits: "fits c \<Longrightarrow> idle c = Some (Inr u, c') \<Longrightarrow> fits c'"
    and handle_fits: "fits c \<Longrightarrow> handle ev c = Some (Inr u, c') \<Longrightarrow> fits c'"
    and fits_frame: "fits c \<Longrightarrow> pipes c' = pipes c \<Longrightarrow> fits c'"
begin

lemma events_fit: "fits c \<Longrightarrow> forM handle events c = Some (Inr u, c') \<Longrightarrow> fits c'"
  by (induction events arbitrary: c) (auto simp: bindM_eq_Some intro: handle_fits)

lemma round_advances: "step_relation.keeps advances (pump_round W late idle handle d watched)"
  unfolding pump_round_def Let_def by (auto intro!: idle_advances handle_advances simp del: eff_simps)

lemma round_ends: "loop_free (pump_round W late idle handle d watched)"
  unfolding pump_round_def Let_def by (auto intro!: idle_ends handle_ends simp del: eff_simps)

lemma round_fits: "fits c \<Longrightarrow> pump_round W late idle handle d watched c = Some (Inr u, c') \<Longrightarrow> fits c'"
  by (erule pump_round_Inr) (auto intro: idle_fits events_fit dest: fits_frame)

lemma round_time:
  assumes "pump_round W late idle handle d watched c = Some (Inr u, c')"
  shows "Suc (k_tick c) \<le> k_tick c' \<and> 0 < fl (d - cw_clock W (k_tick c))"
  using assms
proof (rule pump_round_Inr)
  fix c1 events assume c1: "k_tick c1 = k_tick c + 2" "0 < fl (d - cw_clock W (k_tick c))"
    and run: "events = [] \<and> idle c1 = Some (Inr (), c') \<or> forM handle events c1 = Some (Inr (), c')"
  from run have "advances c1 c'"
    using advances.keepsD [OF idle_advances] advances.keepsD [OF advances.keeps_for [of events handle, OF handle_advances]] by blast
  with c1 show ?thesis by (simp add: advances_def)
qed

lemma pump_advances: "step_relation.keeps advances (pump W late idle handle d fuel)"
proof (induction fuel)
  case 0
  show ?case by (rule advances.keepsI) simp
next
  case (Suc fuel)
  then show ?case by (auto intro!: round_advances simp del: eff_simps)
qed

text \<open>The loop ends normally only when both pipes are at their end and the return code of the child is known.\<close>

lemma pump_result:
  assumes "fits c" and "pump W late idle handle d fuel c = Some (Inr u, c')"
  shows "fits c' \<and> k_watched c' = [] \<and> (\<exists>r. k_status c' = Some r)"
  using assms
proof (induction fuel arbitrary: c)
  case (Suc fuel)
  from Suc.prems(2) consider
      r where "k_watched c = []" "poll W c = Some (Inr (Some r), c')"
    | c1 c2 w where "c1 = c \<or> (\<exists>r. poll W c = Some (Inr r, c1))" "pump_round W late idle handle d w c1 = Some (Inr (), c2)"
        "pump W late idle handle d fuel c2 = Some (Inr u, c')"
    by (auto simp: bindM_eq_Some split: if_splits) blast+
  then show ?case
  proof cases
    case 1
    from fits_frame [OF Suc.prems(1)] poll_frame [OF 1(2)] poll_result [OF 1(2)] 1(1) show ?thesis by simp
  next
    case 2
    then have "fits c1" using Suc.prems(1) poll_frame fits_frame by metis
    from round_fits [OF this 2(2)] Suc.IH 2(3) show ?thesis by blast
  qed
qed simp

text \<open>Every round reads the clock, so enough fuel for the readings before the deadline lets the loop end.\<close>

lemma pump_ends:
  assumes "\<forall>n \<ge> k. d \<le> cw_clock W n" and "k < k_tick c + fuel" and "0 < fuel"
  shows "Effects.ends (pump W late idle handle d fuel) c"
  using assms(2,3)
proof (induction fuel arbitrary: c)
  case (Suc fuel)
  have round: "Effects.ends (bindM (pump_round W late idle handle d w) (\<lambda>_. pump W late idle handle d fuel)) c1" if "k_tick c \<le> k_tick c1" for c1 w
  proof (rule ends_bind [OF loop_freeD [OF round_ends]])
    fix x c2 assume run: "pump_round W late idle handle d w c1 = Some (Inr x, c2)"
    from round_time [OF run] have time: "Suc (k_tick c1) \<le> k_tick c2" "0 < fl (d - cw_clock W (k_tick c1))" by auto
    then have "\<not> d \<le> cw_clock W (k_tick c1)" using fl_nonpos [of "d - cw_clock W (k_tick c1)"] by auto
    then have "k_tick c1 < k" using assms(1) by (meson not_le)
    then show "Effects.ends (pump W late idle handle d fuel) c2" using Suc time that by auto
  qed
  obtain r c1 where poll: "poll W c = Some (Inr r, c1)" using poll_total by blast
  then have "k_tick c \<le> k_tick c1" using advances.keepsD [OF advances_poll poll] by (simp add: advances_def)
  from round [OF this] round [OF order_refl] poll show ?case
    by (simp add: Effects.ends_def bindM_def split: option.splits sum.splits)
qed simp

end

subsection \<open>The two readers\<close>

text \<open>Buffers within the limits, no standard error, and open pipes only while they are watched.\<close>

definition silent_fit :: "child \<Rightarrow> bool" where
  "silent_fit c \<longleftrightarrow> length (k_out c) \<le> PROTOCOL_OUTPUT_LIMIT \<and> k_err c = [] \<and> set (k_open c) \<subseteq> set (k_watched c) \<and> \<not> k_stdin c"

definition bench_fit :: "child \<Rightarrow> bool" where
  "bench_fit c \<longleftrightarrow> length (k_out c) \<le> OUTPUT_LIMIT \<and> length (k_err c) \<le> STDERR_LIMIT \<and> set (k_open c) \<subseteq> set (k_watched c) \<and> \<not> k_stdin c"

lemma read_event_keeps [intro!]: "advances.keeps (read_event ev)" "loop_free (read_event ev)"
  unfolding read_event_def Let_def by (auto simp del: eff_simps split: prod.split read_result.split)

lemma bench_event_keeps [intro!]: "advances.keeps (bench_event ev)" "loop_free (bench_event ev)"
  unfolding bench_event_def Let_def by (auto simp del: eff_simps split: prod.split read_result.split)

lemma read_event_fits: "silent_fit c \<Longrightarrow> read_event ev c = Some (Inr u, c') \<Longrightarrow> silent_fit c'"
  by (auto simp: read_event_def silent_fit_def Let_def bindM_def extend_def drop_stream_def buffer_def stream_limit_def checkE_def
      split: prod.splits read_result.splits stream.splits if_splits)

lemma bench_event_fits: "bench_fit c \<Longrightarrow> bench_event ev c = Some (Inr u, c') \<Longrightarrow> bench_fit c'"
  by (auto simp: bench_event_def bench_fit_def Let_def bindM_def extend_def drop_stream_def buffer_def bench_limit_def checkE_def
      split: prod.splits read_result.splits stream.splits if_splits)

lemma fit_frames: "silent_fit c \<Longrightarrow> pipes c' = pipes c \<Longrightarrow> silent_fit c'" "bench_fit c \<Longrightarrow> pipes c' = pipes c \<Longrightarrow> bench_fit c'"
  by (simp_all add: silent_fit_def bench_fit_def pipes_def)

interpretation investigation_reader: stream_reader "idle_check W" read_event silent_fit for W
proof unfold_locales
  show "advances.keeps (idle_check W)" "loop_free (idle_check W)" unfolding idle_check_def by (auto simp del: eff_simps)
  show "silent_fit c'" if "silent_fit c" "idle_check W c = Some (Inr u, c')" for c u c'
    using that poll_frame fit_frames(1) unfolding idle_check_def bindM_eq_Some by auto
qed (auto intro: read_event_fits fit_frames)

interpretation benchmark_reader: stream_reader "retM ()" bench_event bench_fit
proof unfold_locales
  show "bench_fit c'" if "bench_fit c" "retM () c = Some (Inr u, c')" for c u c' using that by simp
qed (auto simp del: eff_simps intro: bench_event_fits fit_frames)

lemma spawned_sel [simp]: "k_tick (spawned t) = t" "k_status (spawned t) = None" "k_out (spawned t) = []" "k_err (spawned t) = []"
  by (simp_all add: spawned_def)

lemma bindM_seeK: "bindM (seeK f) g c = g (f (k_tick c)) (c\<lparr>k_tick := Suc (k_tick c)\<rparr>)"
  by (simp add: bindM_def seeK_def)

lemma callK_eq: "callK W c = (case cw_fault W (k_tick c) of None \<Rightarrow> Some (Inr (), c\<lparr>k_tick := Suc (k_tick c)\<rparr>)
    | Some e \<Rightarrow> Some (Inl e, c\<lparr>k_tick := Suc (k_tick c)\<rparr>))"
  by (simp add: callK_def seeK_def bindM_def split: option.splits)

lemma watch_Inr: "forM (watch W) [Out, Err] c = Some (Inr u, c') \<Longrightarrow>
    c' = c\<lparr>k_tick := k_tick c + 4, k_watched := k_watched c @ [Out, Err]\<rparr>"
  by (auto simp: watch_def callK_eq bindM_def numeral_eq_Suc split: option.splits)

lemma watch_Inl: "forM (watch W) [Out, Err] c = Some (Inl e, c') \<Longrightarrow>
    (\<exists>n < 4. cw_fault W (k_tick c + n) = Some e) \<and> k_status c' = k_status c"
  by (auto simp: watch_def callK_eq bindM_def numeral_eq_Suc Ex_less_Suc split: option.splits)

text \<open>The child with its input written and both pipes watched.\<close>

definition listening :: "nat \<Rightarrow> child" where
  "listening t = \<lparr> k_tick = t, k_stdin = False, k_open = [Out, Err], k_watched = [Out, Err], k_out = [], k_err = [], k_status = None, k_selects = [] \<rparr>"

lemma listening_fits: "silent_fit (listening t)" "bench_fit (listening t)"
  by (auto simp: silent_fit_def bench_fit_def listening_def)

lemma write_input_Inr: "write_input W c = Some (Inr u, c') \<Longrightarrow> c' = c\<lparr>k_tick := k_tick c + 2, k_stdin := False\<rparr>"
  by (auto simp: write_input_def callK_eq bindM_def numeral_eq_Suc split: option.splits)

lemma write_input_Inl: "write_input W c = Some (Inl e, c') \<Longrightarrow> (\<exists>n < 2. cw_fault W (k_tick c + n) = Some e) \<and> k_status c' = k_status c"
  by (auto simp: write_input_def callK_eq bindM_def numeral_eq_Suc Ex_less_Suc split: option.splits)

lemma setup_cases:
  assumes "bindM (write_input W) (\<lambda>_. bindM (callK W) (\<lambda>_. bindM (forM (watch W) [Out, Err]) (\<lambda>_. m))) (spawned t) = Some (r, c')"
  shows "(\<exists>e n. r = Inl e \<and> n < 7 \<and> cw_fault W (t + n) = Some e)
    \<or> m (listening (t + 7)) = Some (r, c')"
proof -
  from assms consider e where "write_input W (spawned t) = Some (Inl e, c')" "r = Inl e"
    | c1 where "write_input W (spawned t) = Some (Inr (), c1)" "bindM (callK W) (\<lambda>_. bindM (forM (watch W) [Out, Err]) (\<lambda>_. m)) c1 = Some (r, c')"
    unfolding bindM_eq_Some [of "write_input W"] by auto
  then show ?thesis
  proof cases
    case 1
    then obtain n where "n < 2" "cw_fault W (t + n) = Some e" using write_input_Inl [OF 1(1)] by auto
    with 1 show ?thesis by (intro disjI1 exI [of _ e] exI [of _ n]) simp
  next
    case (2 c1)
    then have c1: "c1 = (spawned t)\<lparr>k_tick := t + 2, k_stdin := False\<rparr>" using write_input_Inr by fastforce
    from 2(2) consider e where "cw_fault W (t + 2) = Some e" "r = Inl e"
      | c2 e where "forM (watch W) [Out, Err] (c1\<lparr>k_tick := t + 3\<rparr>) = Some (Inl e, c2)" "r = Inl e"
      | c2 where "forM (watch W) [Out, Err] (c1\<lparr>k_tick := t + 3\<rparr>) = Some (Inr (), c2)" "m c2 = Some (r, c')"
      unfolding bindM_eq_Some [of "callK W"] bindM_eq_Some [of "forM _ _"] c1
      by (auto simp: callK_eq numeral_eq_Suc simp del: forM.simps split: option.splits)
    then show ?thesis
    proof cases
      case 1
      then show ?thesis by (intro disjI1 exI [of _ e] exI [of _ 2]) simp
    next
      case (2 c2 e)
      from watch_Inl [OF 2(1)] obtain n where "n < 4" "cw_fault W (t + (3 + n)) = Some e" by (auto simp: add.assoc)
      with 2 show ?thesis by (intro disjI1 exI [of _ e] exI [of _ "3 + n"]) simp
    next
      case (3 c2)
      from watch_Inr [OF 3(1)] c1 have "c2 = listening (t + 7)"
        by (simp add: spawned_def listening_def)
      with 3 show ?thesis by simp
    qed
  qed
qed

subsection \<open>The reader of the investigation\<close>

definition os_calls :: "child_world \<Rightarrow> bool" where
  "os_calls W \<longleftrightarrow> (\<forall>n e. cw_fault W n = Some e \<longrightarrow> is_os_error e)"

definition demo_exn :: "exn \<Rightarrow> bool" where
  "demo_exn e \<longleftrightarrow> e = DemoError \<or> is_os_error e"

lemma raises_call: "os_calls W \<Longrightarrow> raises_only demo_exn (callK W)"
  by (auto simp: raises_only_def callK_eq os_calls_def demo_exn_def split: option.splits)

lemma raises_nothing [intro!]: "raises_only P (seeK f)" "raises_only P (poll W)" "raises_only P (kill_and_wait W)" "raises_only P (terminate_child W)"
proof -
  show "raises_only P (seeK f)" by (simp add: raises_only_def seeK_def)
  show "raises_only P (poll W)" unfolding raises_only_def using poll_total by (metis Inl_Inr_False option.inject prod.inject)
  show "raises_only P (kill_and_wait W)" by (simp add: raises_only_def)
  show "raises_only P (terminate_child W)" unfolding raises_only_def using terminate_total by (metis Inl_Inr_False option.inject prod.inject)
qed

lemma raises_pump:
  assumes "raises_only P idle" and "\<And>ev. raises_only P (handle ev)" and "P late"
  shows "raises_only P (pump W late idle handle d fuel)"
proof (induction fuel)
  case (Suc fuel)
  have "raises_only P (pump_round W late idle handle d w)" for w
    unfolding pump_round_def Let_def using assms by (auto simp: checkE_def split: if_splits simp del: eff_simps)
  with Suc show ?case by (auto simp del: eff_simps)
qed (simp add: raises_only_def)

lemma raises_read_event: "raises_only demo_exn (read_event ev)"
  unfolding read_event_def Let_def
  by (auto simp: checkE_def demo_exn_def is_os_error_def extend_def drop_stream_def split: prod.split read_result.split if_splits simp del: eff_simps)

lemma raises_read: "os_calls W \<Longrightarrow> raises_only demo_exn (read_streams_bounded W fuel)"
  unfolding read_streams_bounded_def write_input_def watch_def idle_check_def
  by (intro raises_only_bind raises_only_try [where Q = demo_exn] raises_only_finally raises_only_for raises_pump raises_call raises_read_event raises_only_if
      raises_only_basic raises_nothing raises_only_lift) (auto simp: checkE_def demo_exn_def split: if_splits)

lemma try_raise_Inr: "tryM m (\<lambda>e. if P e then bindM (f e) (\<lambda>_. raiseM (g e)) else raiseM e) s = Some (Inr x, t) \<Longrightarrow> m s = Some (Inr x, t)"
  by (auto simp: tryM_def bindM_def split: option.splits sum.splits prod.splits if_splits)

lemma read_result:
  assumes "read_streams_bounded W fuel (spawned t) = Some (Inr (data, errors), c')"
  shows "data = k_out c' \<and> errors = [] \<and> silent_fit c' \<and> k_open c' = [] \<and> k_status c' \<noteq> None"
proof -
  let ?late = "\<lambda>now. pump W DemoError (idle_check W) read_event (fl (now + TIMEOUT_SECONDS)) fuel"
  from assms obtain c1 c2 where
      "tryM (write_input W) (\<lambda>e. if is_os_error e then bindM (terminate_child W) (\<lambda>_. raiseM DemoError) else raiseM e) (spawned t) = Some (Inr (), c1)"
      "callK W c1 = Some (Inr (), c2)" and rest: "finallyM (tryM
         (bindM (forM (watch W) [Out, Err]) (\<lambda>_. bindM (seeK (cw_clock W)) (\<lambda>now. bindM (?late now) (\<lambda>_. getM (\<lambda>c. (k_out c, k_err c))))))
         (\<lambda>e. if e = DemoError \<or> is_os_error e then bindM (terminate_child W) (\<lambda>_. raiseM e) else raiseM e))
       (modifyM (\<lambda>c. c\<lparr>k_watched := []\<rparr>)) c2 = Some (Inr (data, errors), c')"
    unfolding read_streams_bounded_def bindM_eq_Some by auto
  then have c2: "c2 = (spawned t)\<lparr>k_tick := t + 3, k_stdin := False\<rparr>"
    using try_raise_Inr [where f = "\<lambda>_. terminate_child W" and g = "\<lambda>_. DemoError"] write_input_Inr by (fastforce simp: callK_eq split: option.splits)
  let ?body = "bindM (forM (watch W) [Out, Err]) (\<lambda>_. bindM (seeK (cw_clock W)) (\<lambda>now. bindM (?late now) (\<lambda>_. getM (\<lambda>c. (k_out c, k_err c)))))"
  from rest obtain c5 where "tryM ?body (\<lambda>e. if e = DemoError \<or> is_os_error e then bindM (terminate_child W) (\<lambda>_. raiseM e) else raiseM e) c2
      = Some (Inr (data, errors), c5)" and c': "c' = c5\<lparr>k_watched := []\<rparr>"
    by (auto simp: finallyM_Inr)
  from this(1) have body: "?body c2 = Some (Inr (data, errors), c5)"
    by (rule try_raise_Inr [where P = "\<lambda>e. e = DemoError \<or> is_os_error e" and f = "\<lambda>_. terminate_child W" and g = "\<lambda>e. e"])
  from body obtain u c3 where w: "forM (watch W) [Out, Err] c2 = Some (Inr u, c3)"
    and "bindM (seeK (cw_clock W)) (\<lambda>now. bindM (?late now) (\<lambda>_. getM (\<lambda>c. (k_out c, k_err c)))) c3 = Some (Inr (data, errors), c5)"
    by (rule bindM_Inr)
  then have "bindM (?late (cw_clock W (k_tick c3))) (\<lambda>_. getM (\<lambda>c. (k_out c, k_err c))) (c3\<lparr>k_tick := Suc (k_tick c3)\<rparr>) = Some (Inr (data, errors), c5)"
    by (simp only: bindM_seeK)
  then obtain c4 where pump: "?late (cw_clock W (k_tick c3)) (c3\<lparr>k_tick := Suc (k_tick c3)\<rparr>) = Some (Inr (), c4)" and out: "data = k_out c4" "errors = k_err c4" "c5 = c4"
    unfolding bindM_eq_Some by auto
  from watch_Inr [OF w] c2 have "c3 = listening (t + 7)" by (simp add: spawned_def listening_def)
  then have "silent_fit (c3\<lparr>k_tick := Suc (k_tick c3)\<rparr>)" using listening_fits(1) by (simp add: silent_fit_def)
  from investigation_reader.pump_result [OF this pump] show ?thesis using out c' by (auto simp: silent_fit_def)
qed

text \<open>Reading ends: the fuel only has to exceed the number of clock readings before the deadline.\<close>

lemma bench_read_ends:
  assumes "\<forall>n \<ge> k. d \<le> cw_clock W n" and "k < k_tick c + fuel" and "0 < fuel"
  shows "Effects.ends (bench_read W fuel strict d) c"
  unfolding bench_read_def
  by (rule ends_bind [OF benchmark_reader.pump_ends [OF assms]], rule loop_freeD) (auto simp del: eff_simps)

lemma setup_ends:
  assumes "Effects.ends m (listening (t + 7))"
  shows "Effects.ends (bindM (write_input W) (\<lambda>_. bindM (callK W) (\<lambda>_. bindM (forM (watch W) [Out, Err]) (\<lambda>_. m)))) (spawned t)"
proof (intro ends_bind)
  show "Effects.ends (write_input W) (spawned t)" unfolding write_input_def by (auto intro!: loop_freeD simp del: eff_simps)
  fix u v w c1 c2 c3
  assume "write_input W (spawned t) = Some (Inr u, c1)" and "callK W c1 = Some (Inr v, c2)"
  then have c2: "c2 = (spawned t)\<lparr>k_tick := t + 3, k_stdin := False\<rparr>"
    by (auto dest!: write_input_Inr simp: callK_eq split: option.splits)
  assume "forM (watch W) [Out, Err] c2 = Some (Inr w, c3)"
  from watch_Inr [OF this] c2 have "c3 = listening (t + 7)" by (simp add: spawned_def listening_def)
  with assms show "Effects.ends m c3" by simp
qed (auto intro!: loop_freeD simp del: eff_simps forM.simps)

lemma bounded_run_ends:
  assumes "\<And>n. k \<le> n \<Longrightarrow> fl (cw_clock W (t + 7) + PROCESS_TIMEOUT) \<le> cw_clock W n" and "k < t + fuel" and "0 < fuel"
  shows "Effects.ends (bounded_run W fuel strict) (spawned t)"
  unfolding bounded_run_def
proof (rule setup_ends, rule ends_bind)
  fix now c assume "seeK (cw_clock W) (listening (t + 7)) = Some (Inr now, c)"
  then have c: "now = cw_clock W (t + 7)" "k_tick c = t + 8" by (auto simp: seeK_def listening_def)
  show "Effects.ends (finallyM (tryM (bench_read W fuel strict (fl (now + PROCESS_TIMEOUT))) (\<lambda>e. bindM (kill_and_wait W) (\<lambda>_. raiseM e)))
     (modifyM (\<lambda>c. c\<lparr>k_watched := []\<rparr>))) c"
    using assms c by (intro ends_finally ends_try bench_read_ends) (auto intro!: loop_freeD simp del: eff_simps)
qed (simp add: Effects.ends_def seeK_def)

lemma read_ends:
  assumes "\<And>n. k \<le> n \<Longrightarrow> fl (cw_clock W (t + 7) + TIMEOUT_SECONDS) \<le> cw_clock W n" and "k < t + fuel" and "0 < fuel"
  shows "Effects.ends (read_streams_bounded W fuel) (spawned t)"
  unfolding read_streams_bounded_def
proof (intro ends_bind ends_finally ends_try)
  show "Effects.ends (write_input W) (spawned t)" unfolding write_input_def by (auto intro!: loop_freeD simp del: eff_simps)
  fix u v w now c1 c2 c3 c4
  assume w: "tryM (write_input W) (\<lambda>e. if is_os_error e then bindM (terminate_child W) (\<lambda>_. raiseM DemoError) else raiseM e) (spawned t) = Some (Inr u, c1)"
    and v: "callK W c1 = Some (Inr v, c2)" and f: "forM (watch W) [Out, Err] c2 = Some (Inr w, c3)" and s: "seeK (cw_clock W) c3 = Some (Inr now, c4)"
  have "write_input W (spawned t) = Some (Inr u, c1)"
    by (rule try_raise_Inr [where P = is_os_error and f = "\<lambda>_. terminate_child W" and g = "\<lambda>_. DemoError", OF w])
  then have "c2 = (spawned t)\<lparr>k_tick := t + 3, k_stdin := False\<rparr>" using v by (auto dest!: write_input_Inr simp: callK_eq split: option.splits)
  then have "c3 = listening (t + 7)" using watch_Inr [OF f] by (simp add: spawned_def listening_def)
  then have c4: "now = cw_clock W (t + 7)" "k_tick c4 = t + 8" using s by (auto simp: seeK_def listening_def)
  show "Effects.ends (pump W DemoError (idle_check W) read_event (fl (now + TIMEOUT_SECONDS)) fuel) c4"
    using assms c4 by (intro investigation_reader.pump_ends) auto
qed (auto intro!: loop_freeD simp del: eff_simps forM.simps)

section \<open>Properties\<close>

text \<open>
  C27: A benchmark child that \<open>bounded_run\<close> reports as successful has ended with status 0, both its pipes were read to
  their end and closed, its output is at most 256 KiB, and in strict mode it wrote nothing to standard error. After every failure the child has been waited for,
  with one exception: a system call that fails while the input is written and the pipes are registered.
\<close>

theorem benchmark_children_are_bounded:
  assumes "bounded_run W fuel strict (spawned t) = Some (r, c')"
  shows "case r of
      Inr data \<Rightarrow> length data \<le> OUTPUT_LIMIT \<and> data = k_out c' \<and> k_status c' = Some 0 \<and> k_open c' = [] \<and> (strict \<longrightarrow> k_err c' = [])
    | Inl e \<Rightarrow> k_status c' \<noteq> None \<or> (\<exists>n < 7. cw_fault W (t + n) = Some e)"
proof -
  let ?ready = "listening (t + 8)"
  let ?d = "fl (cw_clock W (t + 7) + PROCESS_TIMEOUT)"
  consider e n where "r = Inl e" "n < 7" "cw_fault W (t + n) = Some e"
    | c1 r1 where "bench_read W fuel strict ?d ?ready = Some (r1, c1)"
        "case r1 of Inr x \<Rightarrow> r = Inr x \<and> c' = c1\<lparr>k_watched := []\<rparr>
         | Inl e \<Rightarrow> r = Inl e \<and> (\<exists>c2. kill_and_wait W c1 = Some (Inr (), c2) \<and> c' = c2\<lparr>k_watched := []\<rparr>)"
    using setup_cases [OF assms [unfolded bounded_run_def]]
    by (auto simp: bindM_def seeK_def finallyM_def tryM_def listening_def numeral_eq_Suc split: option.splits sum.splits prod.splits)
  then show ?thesis
  proof cases
    case 2
    show ?thesis
    proof (cases r1)
      case (Inl e)
      with 2 kill_total [of W c1] show ?thesis by auto
    next
      case (Inr x)
      with 2(1) obtain c0 where pump: "pump W RuntimeError (retM ()) bench_event ?d fuel ?ready = Some (Inr (), c0)"
        and rest: "c1 = c0" "x = k_out c0" "k_status c0 = Some 0" "strict \<longrightarrow> k_err c0 = []"
        unfolding bench_read_def bindM_eq_Some by (auto simp: checkE_def split: if_splits)
      from benchmark_reader.pump_result [OF listening_fits(2) pump] have "bench_fit c0" "k_watched c0 = []" by auto
      then have "length (k_out c0) \<le> OUTPUT_LIMIT" "k_open c0 = []" by (auto simp: bench_fit_def)
      with rest 2(2) Inr show ?thesis by auto
    qed
  qed auto
qed

text \<open>A child that closes its pipes at once and has ended by then.\<close>

definition sample_child :: child_world where
  "sample_child = \<lparr> cw_clock = (\<lambda>n. if n < 20 then 0 else 64), cw_exit = (\<lambda>_. Some 0), cw_reaped = (\<lambda>_. - 9), cw_ready = (\<lambda>_. [(Out, Data []), (Err, Data [])]),
     cw_fault = (\<lambda>_. None) \<rparr>"

lemma fl_small [simp]: "fl 10 = 10" "fl 20 = 20"
  by (simp_all add: fl_def binary_exponent_def bit_count.simps pow2_def round_half_even_def)

theorem benchmark_children_are_bounded_witness:
  "\<exists>c'. bounded_run sample_child 3 True (spawned 0) = Some (Inr [], c') \<and> k_status c' = Some 0 \<and> k_open c' = []"
proof -
  have "\<exists>c'. bounded_run sample_child 3 True (spawned 0) = Some (Inr [], c')"
    by (simp add: bounded_run_def write_input_def callK_eq watch_def bench_read_def bindM_def seeK_def finallyM_def tryM_def sample_child_def spawned_def
        eval_nat_numeral pump_round_def bench_event_def drop_stream_def poll_def PROCESS_TIMEOUT_def)
  then obtain c' where run: "bounded_run sample_child 3 True (spawned 0) = Some (Inr [], c')" by blast
  from benchmark_children_are_bounded [OF run] run show ?thesis by auto
qed

end
