(* ===== verification/Json_Lines.thy ===== *)
theory Json_Lines
  imports Json_Report Contracts
begin

text \<open>
  Lines of JSON: \<open>str.splitlines\<close>, and the reading of a sequence of canonical texts, each followed by a newline, as the scripts and the server
  exchange them. Canonical JSON is one line of printable ASCII, so that such a sequence splits into its texts.
\<close>

section \<open>Definitions\<close>

text \<open>\<open>str.splitlines\<close>.\<close>

definition line_break :: "nat \<Rightarrow> bool" where
  "line_break c \<longleftrightarrow> c \<in> {10, 11, 12, 13, 28, 29, 30, 133, 8232, 8233}"

fun lines_from :: "pystr \<Rightarrow> pystr \<Rightarrow> pystr list" where
  "lines_from current [] = (if current = [] then [] else [current])"
| "lines_from current (c # s) =
     (if line_break c then current # lines_from [] (if c = 13 \<and> starts_with [10] s then tl s else s)
      else lines_from (current @ [c]) s)"

definition splitlines :: "pystr \<Rightarrow> pystr list" where
  "splitlines s = lines_from [] s"

section \<open>Lemmas\<close>

definition printable :: "pystr \<Rightarrow> bool" where
  "printable t \<longleftrightarrow> (\<forall>c \<in> set t. 32 \<le> c \<and> c < 127)"

lemma printable_append [simp]: "printable (s @ t) \<longleftrightarrow> printable s \<and> printable t" "printable (c # t) \<longleftrightarrow> 32 \<le> c \<and> c < 127 \<and> printable t" "printable []"
  by (auto simp: printable_def)

lemma printable_dec: "printable (dec n)"
  by (induction n rule: dec.induct) (subst dec.simps, auto)

lemma printable_hex4: "printable (hex4 n)"
proof -
  have "32 \<le> hex_digit (m mod 16)" "hex_digit (m mod 16) < 127" for m using mod_less_divisor [of 16 m] by (auto simp: hex_digit_def)
  then show ?thesis by (simp add: hex4_def)
qed

lemma printable_escape: "printable (escape_char c)"
  by (simp add: escape_char_def escape_u_def printable_hex4)

lemma printable_join: "(\<forall>t \<in> set ts. printable t) \<Longrightarrow> printable (join ts)"
  by (induction ts rule: join.induct) auto

lemma printable_str: "printable (dumps_str s)"
  by (induction s) (simp_all add: dumps_str_def printable_escape)

lemma dumps_printable: "exact_json v \<Longrightarrow> dumps v = Inr t \<Longrightarrow> printable t"
proof (induction v arbitrary: t)
  case (PDict k kvs)
  let ?f = "\<lambda>(key, v). bindE (key_text key) (\<lambda>t. bindE (dumps v) (\<lambda>d. Inr (t, d)))"
  from PDict.prems(2) obtain ts where ts: "mapE ?f kvs = Inr ts"
    and t: "t = [123] @ join (map (\<lambda>(t, d). dumps_str t @ 58 # d) (sort_key fst ts)) @ [125]"
    by (auto simp: bindE_eq_Inr split: if_splits)
  have "printable (snd y)" if "y \<in> set ts" for y
  proof (rule mapE_all [OF ts _ that])
    fix x z assume x: "x \<in> set kvs" and "?f x = Inr z"
    moreover obtain key w where "x = (key, w)" by (cases x)
    ultimately have "dumps w = Inr (snd z)" "exact_json w" using PDict.prems(1) by (auto simp: bindE_eq_Inr)
    with PDict.IH [OF x, of w] \<open>x = (key, w)\<close> show "printable (snd z)" by (auto simp: snds.simps)
  qed
  then show ?case unfolding t by (auto intro!: printable_join simp: printable_str)
next
  case (PList xs)
  then obtain ts where ts: "mapE dumps xs = Inr ts" "t = [91] @ join ts @ [93]" by (auto simp: bindE_eq_Inr)
  have "printable y" if "y \<in> set ts" for y
    by (rule mapE_all [OF ts(1) _ that]) (use PList in auto)
  with ts(2) show ?case by (auto intro!: printable_join)
next
  case (PTuple xs)
  then obtain ts where ts: "mapE dumps xs = Inr ts" "t = [91] @ join ts @ [93]" by (auto simp: bindE_eq_Inr)
  have "printable y" if "y \<in> set ts" for y
    by (rule mapE_all [OF ts(1) _ that]) (use PTuple in auto)
  with ts(2) show ?case by (auto intro!: printable_join)
qed (auto simp: dumps_int_def dec_int_def printable_str printable_dec py_def split: if_splits)

lemma lines_from_line: "printable l \<Longrightarrow> lines_from current (l @ 10 # rest) = (current @ l) # lines_from [] rest"
  by (induction l arbitrary: current) (auto simp: line_break_def)

lemma splitlines_texts: "(\<forall>l \<in> set ls. printable l) \<Longrightarrow> splitlines (concat (map (\<lambda>l. l @ [10]) ls)) = ls"
  by (induction ls) (simp_all add: splitlines_def lines_from_line)

text \<open>The bytes of texts in UTF-8 are the texts, when they are ASCII.\<close>

lemma decode_ascii: "isascii s \<Longrightarrow> utf8_decode s = Some s"
  by (induction s) (simp_all add: utf8_head_def isascii_iff)

lemma decode_texts: "(\<forall>l \<in> set ls. printable l) \<Longrightarrow> utf8_decode (concat (map (\<lambda>l. l @ [10]) ls)) = Some (concat (map (\<lambda>l. l @ [10]) ls))"
  by (rule decode_ascii) (induction ls, auto simp: isascii_iff printable_def list_all_iff)

text \<open>A value and its canonical text.\<close>

definition text_of_json :: "pyval \<Rightarrow> pystr" where
  "text_of_json v = (case dumps v of Inl e \<Rightarrow> [] | Inr s \<Rightarrow> s)"

lemma text_of_json:
  assumes "exact_json v"
  shows "dumps v = Inr (text_of_json v)" "printable (text_of_json v)" "nesting v \<le> rd \<Longrightarrow> json_loads rd (text_of_json v) = Inr (canonical v)"
proof -
  obtain t where t: "dumps v = Inr t" using dumps_total [OF assms] by blast
  then show "dumps v = Inr (text_of_json v)" by (simp add: text_of_json_def)
  with dumps_printable [OF assms] show "printable (text_of_json v)" by simp
  show "json_loads rd (text_of_json v) = Inr (canonical v)" if "nesting v \<le> rd"
    using strict_reader_agrees [OF loads_dumps [OF t assms that]] t by (simp add: text_of_json_def)
qed

subsection \<open>Objects and values that read back unchanged\<close>

lemma py_same: "py s = py t \<longleftrightarrow> s = t"
  by (auto simp: py_def inj_map_eq_map inj_on_def)

lemma dget_obj: "dget (items_of (obj kvs)) k = map_of kvs k"
  by (induction kvs) (auto simp: obj_def dget_def py_same)

lemma is_dict_obj [simp]: "is_dict (obj kvs)"
  by (simp add: obj_def)

lemma getitem_obj [simp]: "getitem (obj kvs) k = (case map_of kvs k of None \<Rightarrow> Inl KeyError | Some v \<Rightarrow> Inr v)"
  by (simp add: getitem_def dget_obj [symmetric]) (simp add: obj_def)

text \<open>A value that the reader gives back as it was written.\<close>

definition settled :: "nat \<Rightarrow> pyval \<Rightarrow> bool" where
  "settled n v \<longleftrightarrow> exact_json v \<and> nesting v \<le> n \<and> canonical v = v \<and> py_eq v v"

lemma scalar_py: "list_all scalar (py s)"
  by (induction s) (auto simp: py_def scalar_def surrogate_def of_char_def)

lemma settled_leaf [intro!]:
  "settled n PNone" "settled n (PBool b)" "settled n (PStr (py s))"
  "length (dec (nat \<bar>i\<bar>)) \<le> MAX_STR_DIGITS \<Longrightarrow> settled n (PInt i)"
  by (auto simp: settled_def scalar_py number_of_def)

lemma settled_list:
  assumes "list_all (settled (n - 1)) xs" and "0 < n"
  shows "settled n (PList xs)"
  using assms by (induction xs) (auto simp: settled_def)

lemma py_eq_items_self:
  "(\<forall>(k, v) \<in> set kvs. map_of kvs' k = Some v \<and> py_eq v v) \<Longrightarrow> py_eq_items kvs kvs'"
  by (induction kvs) auto

lemma settled_obj:
  assumes "sorted_wrt (<) (map (\<lambda>(k, v). py k) kvs)" and "list_all (\<lambda>(k, v). settled (n - 1) v) kvs" and "0 < n"
  shows "settled n (obj kvs)"
proof -
  have dist: "distinct (map fst (map (\<lambda>(k, v). (SKey (py k), v)) kvs))" and sorted: "sorted (map fst (map (\<lambda>(k, v). (py k, v)) kvs))"
    using assms(1) by (auto simp: strict_sorted_iff case_prod_unfold comp_def distinct_map inj_on_def)
  have settled: "\<forall>(k, v) \<in> set kvs. settled (n - 1) v" using assms(2) by (simp add: list_all_iff)
  have "exact_json (obj kvs)" using dist settled scalar_py by (auto simp: obj_def settled_def)
  moreover have "nesting (obj kvs) \<le> n"
  proof -
    have "foldr max (map (\<lambda>(k, v). nesting v) kvs) 0 \<le> n - 1" using settled by (induction kvs) (auto simp: settled_def)
    with assms(3) show ?thesis by (simp add: obj_def comp_def case_prod_unfold)
  qed
  moreover have "canonical (obj kvs) = obj kvs"
  proof -
    have kept: "map (\<lambda>(k, v). (key_str k, canonical v)) (map (\<lambda>(k, v). (SKey (py k), v)) kvs) = map (\<lambda>(k, v). (py k, v)) kvs"
      using settled by (auto simp: settled_def key_str_def)
    show ?thesis unfolding obj_def canonical.simps kept sort_key_id_if_sorted [OF sorted] by (simp add: comp_def case_prod_unfold)
  qed
  moreover have "py_eq_items (items_of (obj kvs)) (items_of (obj kvs))"
    using settled dist by (intro py_eq_items_self) (auto simp: obj_def settled_def intro!: map_of_is_SomeI)
  then have "py_eq (obj kvs) (obj kvs)" by (simp add: obj_def)
  ultimately show ?thesis by (simp add: settled_def)
qed

lemma settled_text:
  assumes "settled n v" and "n \<le> rd"
  shows "dumps v = Inr (text_of_json v)" "printable (text_of_json v)" "json_loads rd (text_of_json v) = Inr v"
  using text_of_json [of v] assms by (simp_all add: settled_def)

end
