(* ===== verification/Investigation_Checks.thy ===== *)
theory Investigation_Checks
  imports Demo_Report Bounded_Child Json_Lines
begin

text \<open>
  The reference investigation, \<open>scripts/run_agent_investigation_demo.py\<close>: the messages it sends, the checks on the answers of the
  server, and the report. \<open>require\<close> raises \<open>DemoError\<close>. A \<open>JSONDecodeError\<close> is a \<open>ValueError\<close> here, so the refusal of an
  integer text above 4300 digits, a plain \<open>ValueError\<close>, counts as malformed JSON.
\<close>

section \<open>Definitions\<close>

abbreviation require :: "bool \<Rightarrow> unit outcome" where
  "require ok \<equiv> checkE ok DemoError"

text \<open>\<open>is_integer(v) and v >= n\<close>.\<close>

definition at_least :: "int \<Rightarrow> pyval \<Rightarrow> bool" where
  "at_least n v \<longleftrightarrow> (case v of PInt i \<Rightarrow> n \<le> i | _ \<Rightarrow> False)"

abbreviation is_nonnegative_integer :: "pyval \<Rightarrow> bool" where
  "is_nonnegative_integer v \<equiv> at_least 0 v"

definition VERSION :: string where "VERSION = ''0.13.0''"
definition INVESTIGATION_ID :: string where "INVESTIGATION_ID = ''INC-042''"
definition EXPECTED_TOOLS :: "string list" where "EXPECTED_TOOLS = [''logs.search'', ''logs.tail'', ''elf.inspect'', ''proc.memory'']"
definition FIXTURE_SIZE_LIMIT :: nat where "FIXTURE_SIZE_LIMIT = 64 * 1024"
definition ELF_NAME :: string where "ELF_NAME = ''sample.elf''"
definition LOG_NAME :: string where "LOG_NAME = ''application.log''"
definition ROOT_NAME :: string where "ROOT_NAME = ''evidence''"

subsection \<open>Fixtures and messages\<close>

text \<open>The header that \<open>struct.pack\<close> builds: sixteen bytes of identity, then the fields in little endian order.\<close>

definition minimal_elf :: pybytes where
  "minimal_elf =
     [127, 69, 76, 70, 2, 1, 1, 3] @ replicate 8 0
     @ concat (map (\<lambda>(w, n). little_endian w n)
         [(2, 2), (2, 62), (4, 1), (8, 0), (8, 0), (8, 0), (4, 0), (2, 64), (2, 56), (2, 0), (2, 0), (2, 0), (2, 0)])"

definition request_message :: "int \<Rightarrow> string \<Rightarrow> pyval \<Rightarrow> pyval" where
  "request_message rid m params = obj [(''jsonrpc'', ptext ''2.0''), (''id'', PInt rid), (''method'', ptext m), (''params'', params)]"

definition tool_request :: "int \<Rightarrow> string \<Rightarrow> pyval \<Rightarrow> pyval" where
  "tool_request rid name args = request_message rid ''tools/call'' (obj [(''name'', ptext name), (''arguments'', args)])"

definition search_arguments :: "string \<Rightarrow> pyval" where
  "search_arguments q = obj [(''root'', ptext ROOT_NAME), (''path'', ptext LOG_NAME), (''query'', ptext q), (''caseSensitive'', PBool True), (''maxMatches'', PInt 10)]"

definition tool_calls :: "pyval list" where
  "tool_calls =
     [tool_request 10 ''logs.search'' (search_arguments INVESTIGATION_ID),
      tool_request 11 ''logs.search'' (search_arguments ''ERROR''),
      tool_request 12 ''logs.tail'' (obj [(''root'', ptext ROOT_NAME), (''path'', ptext LOG_NAME), (''maxLines'', PInt 3)]),
      tool_request 13 ''elf.inspect'' (obj [(''root'', ptext ROOT_NAME), (''path'', ptext ELF_NAME)]),
      tool_request 14 ''proc.memory'' (obj [(''process'', ptext ''server'')])]"

definition protocol_messages :: "pyval list" where
  "protocol_messages =
     [request_message 1 ''initialize'' (obj [(''protocolVersion'', ptext ''2025-11-25''), (''capabilities'', obj []),
        (''clientInfo'', obj [(''name'', ptext ''deterministic-demo''), (''version'', ptext VERSION)])]),
      obj [(''jsonrpc'', ptext ''2.0''), (''method'', ptext ''notifications/initialized'')],
      request_message 2 ''tools/list'' (obj [])] @ tool_calls"

definition protocol_input :: "pystr outcome" where
  "protocol_input = bindE (mapE dumps protocol_messages) (\<lambda>ts. Inr (join_with 10 ts @ [10]))"

definition investigation_policy :: "pystr \<Rightarrow> pyval" where
  "investigation_policy path = obj [(''version'', PInt 2),
     (''roots'', PList [obj [(''name'', ptext ROOT_NAME), (''path'', PStr path), (''maxFileBytes'', PInt (int FIXTURE_SIZE_LIMIT))]]),
     (''processes'', PList [obj [(''name'', ptext ''server''), (''pid'', ptext ''self'')]])]"

subsection \<open>The answers of the server\<close>

definition expected_ids :: "int list" where
  "expected_ids = [1, 2, 10, 11, 12, 13, 14]"

type_synonym responses = "(int \<times> pyval) list"

definition json_or_fail :: "nat \<Rightarrow> pystr \<Rightarrow> pyval outcome" where
  "json_or_fail rd s = catchE (json_loads rd s) (\<lambda>e. Inl (if e = ValueError then DemoError else e))"

definition accept_line :: "nat \<Rightarrow> responses \<Rightarrow> pystr \<Rightarrow> responses outcome" where
  "accept_line rd seen line =
     bindE (json_or_fail rd line) (\<lambda>message.
     bindE (require (is_dict message)) (\<lambda>_.
     case dentry (items_of message) ''id'' PNone of
       PInt i \<Rightarrow>
         bindE (require (i \<notin> fst ` set seen)) (\<lambda>_.
         bindE (require (i \<in> set expected_ids)) (\<lambda>_.
         bindE (require (\<not> dhas (items_of message) ''error'')) (\<lambda>_.
         Inr (seen @ [(i, message)]))))
     | _ \<Rightarrow> Inl DemoError))"

fun accept_lines :: "nat \<Rightarrow> responses \<Rightarrow> pystr list \<Rightarrow> responses outcome" where
  "accept_lines rd seen [] = Inr seen"
| "accept_lines rd seen (line # rest) = bindE (accept_line rd seen line) (\<lambda>seen'. accept_lines rd seen' rest)"

definition server_answers :: "nat \<Rightarrow> pybytes \<Rightarrow> responses outcome" where
  "server_answers rd data = (case utf8_decode data of
      None \<Rightarrow> Inl DemoError
    | Some decoded \<Rightarrow>
        bindE (require (ends_with [10] decoded)) (\<lambda>_.
        bindE (require ([] \<notin> set (splitlines decoded))) (\<lambda>_.
        bindE (accept_lines rd [] (splitlines decoded)) (\<lambda>rs.
        bindE (require (set (map fst rs) = set expected_ids)) (\<lambda>_. Inr rs)))))"

definition has_keys :: "pyval \<Rightarrow> string list \<Rightarrow> bool" where
  "has_keys v ks \<longleftrightarrow> is_dict v \<and> fst ` set (items_of v) = (\<lambda>k. SKey (py k)) ` set ks"

definition result_content :: "nat \<Rightarrow> pyval \<Rightarrow> pyval outcome" where
  "result_content rd response =
     bindE (require (has_keys response [''id'', ''jsonrpc'', ''result''])) (\<lambda>_.
     bindE (getitem response ''jsonrpc'') (\<lambda>version.
     bindE (require (version = ptext ''2.0'')) (\<lambda>_.
     bindE (getitem response ''result'') (\<lambda>result.
     bindE (require (has_keys result [''content'', ''isError'', ''structuredContent''])) (\<lambda>_.
     bindE (getitem result ''isError'') (\<lambda>flag.
     bindE (require (flag = PBool False)) (\<lambda>_.
     bindE (getitem result ''content'') (\<lambda>blocks.
     bindE (getitem result ''structuredContent'') (\<lambda>structured.
     case blocks of
       PList [block] \<Rightarrow>
         bindE (require (is_dict block \<and> dentry (items_of block) ''type'' PNone = ptext ''text'')) (\<lambda>_.
         case dentry (items_of block) ''text'' PNone of
           PStr text \<Rightarrow>
             bindE (json_or_fail rd text) (\<lambda>parsed.
             bindE (require (py_eq parsed structured)) (\<lambda>_.
             bindE (require (is_dict structured)) (\<lambda>_. Inr structured)))
         | _ \<Rightarrow> Inl DemoError)
     | _ \<Rightarrow> Inl DemoError)))))))))"

subsection \<open>The checks\<close>

definition field :: "pyval \<Rightarrow> string \<Rightarrow> pyval" where
  "field v k = dentry (items_of v) k PNone"

definition log_common_ok :: "pyval \<Rightarrow> nat \<Rightarrow> bool" where
  "log_common_ok v expected_bytes \<longleftrightarrow>
     field v ''root'' = ptext ROOT_NAME \<and> field v ''path'' = ptext LOG_NAME
     \<and> is_nonnegative_integer (field v ''bytesScanned'') \<and> field v ''bytesScanned'' = PInt (int expected_bytes)
     \<and> is_nonnegative_integer (field v ''linesScanned'') \<and> field v ''linesScanned'' = PInt 5
     \<and> field v ''fileChangedDuringRead'' = PBool False"

definition match_ok :: "pyval \<times> int \<times> pystr \<Rightarrow> bool" where
  "match_ok = (\<lambda>(m, line_number, preview).
     is_dict m \<and> py_eq (field m ''line'') (PInt line_number) \<and> is_nonnegative_integer (field m ''byteOffset'') \<and> field m ''preview'' = PStr preview
     \<and> field m ''previewTruncatedStart'' = PBool False \<and> field m ''previewTruncatedEnd'' = PBool False)"

definition validate_search :: "pyval \<Rightarrow> nat \<Rightarrow> int list \<Rightarrow> pystr list \<Rightarrow> unit outcome" where
  "validate_search v expected_bytes expected_lines expected_previews =
     bindE (require (log_common_ok v expected_bytes)) (\<lambda>_.
     bindE (require (field v ''caseSensitive'' = PBool True \<and> field v ''matchLimitReached'' = PBool False)) (\<lambda>_.
     let matches = field v ''matches''
     in bindE (require (is_list matches \<and> length (elems matches) = length expected_lines)) (\<lambda>_.
        require (list_all match_ok (zip (elems matches) (zip expected_lines expected_previews))))))"

definition tail_line_ok :: "pyval \<times> int \<times> pystr \<Rightarrow> bool" where
  "tail_line_ok = (\<lambda>(m, line_number, preview).
     is_dict m \<and> py_eq (field m ''line'') (PInt line_number) \<and> is_nonnegative_integer (field m ''byteOffset'') \<and> field m ''preview'' = PStr preview
     \<and> field m ''previewTruncatedStart'' = PBool False)"

definition validate_tail :: "pyval \<Rightarrow> nat \<Rightarrow> int list \<Rightarrow> pystr list \<Rightarrow> unit outcome" where
  "validate_tail v expected_bytes expected_lines expected_previews =
     bindE (require (log_common_ok v expected_bytes)) (\<lambda>_.
     let shown = field v ''lines''
     in bindE (require (is_list shown \<and> length (elems shown) = 3)) (\<lambda>_.
        require (list_all tail_line_ok (zip (elems shown) (zip expected_lines expected_previews)))))"

definition validate_elf :: "pyval \<Rightarrow> unit outcome" where
  "validate_elf v =
     bindE (require (field v ''root'' = ptext ROOT_NAME \<and> field v ''path'' = ptext ELF_NAME \<and> field v ''class'' = ptext ''ELF64''
       \<and> field v ''endianness'' = ptext ''little'' \<and> field v ''fileType'' = ptext ''executable'' \<and> py_eq (field v ''fileTypeNumber'') (PInt 2)
       \<and> field v ''machine'' = ptext ''x86_64'' \<and> py_eq (field v ''machineNumber'') (PInt 62)
       \<and> field v ''osAbi'' = ptext ''linux'' \<and> py_eq (field v ''osAbiNumber'') (PInt 3) \<and> field v ''entryPoint'' = ptext ''0x0''
       \<and> py_eq (field v ''programHeaderCount'') (PInt 0) \<and> field v ''interpreter'' = PNone)) (\<lambda>_.
     require (field v ''neededLibraries'' = PList [] \<and> field v ''neededLibrariesTruncated'' = PBool False \<and> field v ''buildId'' = PNone
       \<and> field v ''stackPolicy'' = ptext ''unspecified'' \<and> field v ''relro'' = ptext ''none'' \<and> field v ''positionIndependent'' = PBool False
       \<and> field v ''pieExecutable'' = PBool False \<and> field v ''writableExecutableLoadSegment'' = PBool False
       \<and> field v ''fileChangedDuringRead'' = PBool False \<and> is_nonnegative_integer (field v ''metadataBytesRead'')
       \<and> field v ''segments'' = PList [] \<and> field v ''segmentSummariesTruncated'' = PBool False))"

definition nonempty_text :: "pyval \<Rightarrow> bool" where
  "nonempty_text v \<longleftrightarrow> (case v of PStr s \<Rightarrow> s \<noteq> [] | _ \<Rightarrow> False)"

definition validate_process :: "pyval \<Rightarrow> unit outcome" where
  "validate_process v =
     bindE (require (field v ''process'' = ptext ''server'' \<and> at_least 1 (field v ''pid'') \<and> at_least 0 (field v ''uid'')
       \<and> nonempty_text (field v ''name'') \<and> nonempty_text (field v ''state'') \<and> is_nonnegative_integer (field v ''threads'')
       \<and> at_least 1 (field v ''pageSizeBytes'') \<and> field v ''pidfdPinned'' = PBool True)) (\<lambda>_.
     let status = field v ''status''; statm = field v ''statm''
     in bindE (require (is_dict status \<and> list_all (\<lambda>counter. is_nonnegative_integer (field status counter))
          [''vmSizeBytes'', ''vmRssBytes'', ''rssAnonBytes'', ''rssFileBytes'', ''rssShmemBytes''])) (\<lambda>_.
        bindE (require (is_dict statm \<and> list_all (\<lambda>counter. is_nonnegative_integer (field statm counter))
          [''virtualBytes'', ''residentBytes'', ''sharedBytes'', ''textBytes'', ''dataAndStackBytes''])) (\<lambda>_.
        require (is_bool (field v ''smapsRollupAvailable'') \<and> (field v ''smapsRollupError'' = PNone \<or> is_str (field v ''smapsRollupError''))))))"

subsection \<open>The report\<close>

definition answer :: "responses \<Rightarrow> int \<Rightarrow> pyval outcome" where
  "answer rs i = (case map_of rs i of None \<Rightarrow> Inl KeyError | Some v \<Rightarrow> Inr v)"

definition check_initialize :: "responses \<Rightarrow> unit outcome" where
  "check_initialize rs =
     bindE (answer rs 1) (\<lambda>r.
     bindE (getitem r ''result'') (\<lambda>result.
     bindE (getitem result ''serverInfo'') (\<lambda>info.
     bindE (getitem info ''version'') (\<lambda>version.
     require (version = ptext VERSION)))))"

definition check_tools :: "responses \<Rightarrow> unit outcome" where
  "check_tools rs =
     bindE (answer rs 2) (\<lambda>r.
     bindE (getitem r ''result'') (\<lambda>result.
     bindE (getitem result ''tools'') (\<lambda>offered.
     bindE (iterate offered) (\<lambda>ts.
     bindE (mapE (\<lambda>tool. getitem tool ''name'') ts) (\<lambda>names.
     require (names = map ptext EXPECTED_TOOLS))))))"

text \<open>\<open>lines[1]\<close> of the log raises \<open>IndexError\<close> when there is no second line.\<close>

definition check_evidence :: "nat \<Rightarrow> responses \<Rightarrow> pybytes \<Rightarrow> pystr list \<Rightarrow> unit outcome" where
  "check_evidence rd rs log_bytes lines =
     bindE (bindE (answer rs 10) (result_content rd)) (\<lambda>correlation.
     bindE (bindE (answer rs 11) (result_content rd)) (\<lambda>errors.
     bindE (bindE (answer rs 12) (result_content rd)) (\<lambda>tail.
     bindE (bindE (answer rs 13) (result_content rd)) (\<lambda>elf.
     bindE (bindE (answer rs 14) (result_content rd)) (\<lambda>observed.
     bindE (validate_search correlation (length log_bytes) [1, 2, 3, 4, 5] lines) (\<lambda>_.
     bindE (checkE (1 < length lines) IndexError) (\<lambda>_.
     bindE (validate_search errors (length log_bytes) [2] [lines ! 1]) (\<lambda>_.
     bindE (validate_tail tail (length log_bytes) [3, 4, 5] (drop 2 lines)) (\<lambda>_.
     bindE (validate_elf elf) (\<lambda>_.
     validate_process observed))))))))))"

definition request_record :: "pyval \<Rightarrow> pyval" where
  "request_record m = obj [(''arguments'', dentry (items_of m) ''params'' (obj [])), (''method'', field m ''method''), (''requestId'', field m ''id'')]"

definition evidence_record :: "pyval \<times> (string \<times> pyval) list \<times> int \<times> string \<Rightarrow> pyval" where
  "evidence_record = (\<lambda>(call, finding, rid, tool).
     obj [(''arguments'', field (field call ''params'') ''arguments''), (''finding'', obj finding), (''requestId'', PInt rid), (''tool'', ptext tool)])"

definition findings :: "((string \<times> pyval) list \<times> int \<times> string) list" where
  "findings =
     [([(''expectedLines'', PList [PInt 1, PInt 2, PInt 3, PInt 4, PInt 5]), (''matchCount'', PInt 5)], 10, ''logs.search''),
      ([(''expectedLines'', PList [PInt 2]), (''matchCount'', PInt 1)], 11, ''logs.search''),
      ([(''expectedLines'', PList [PInt 3, PInt 4, PInt 5]), (''finalState'', ptext ''healthy'')], 12, ''logs.tail''),
      ([(''elfClass'', ptext ''ELF64''), (''machine'', ptext ''x86_64''), (''fileType'', ptext ''executable'')], 13, ''elf.inspect''),
      ([(''observed'', PBool True), (''requiredAggregateCountersPresent'', PBool True), (''strictPidfdPinning'', PBool True)], 14, ''proc.memory'')]"

definition report_body :: "pyval list \<Rightarrow> pyval list \<Rightarrow> pyval" where
  "report_body msgs calls = obj
     [(''conclusion'', ptext ''healthy_final_state_confirmed''),
      (''evidence'', PList (map evidence_record (zip calls findings))),
      (''investigation'', obj [(''correlationId'', ptext INVESTIGATION_ID), (''scenario'', ptext ''service_restart_authentication_recovery''), (''version'', ptext VERSION)]),
      (''requests'', PList (map request_record (filter (\<lambda>m. dhas (items_of m) ''id'') msgs))),
      (''schemaVersion'', PInt 1),
      (''security'', obj [(''legacyFlagsPassed'', PBool False), (''strictOpenat2'', PBool True), (''strictPidfdPinning'', PBool True)])]"

definition investigation_report :: "nat \<Rightarrow> responses \<Rightarrow> pyval list \<Rightarrow> pyval list \<Rightarrow> pybytes \<Rightarrow> pyval outcome" where
  "investigation_report rd rs msgs calls log_bytes = (case utf8_decode log_bytes of
      None \<Rightarrow> Inl ValueError
    | Some text \<Rightarrow>
        bindE (check_initialize rs) (\<lambda>_.
        bindE (check_tools rs) (\<lambda>_.
        bindE (check_evidence rd rs log_bytes (splitlines text)) (\<lambda>_.
        Inr (report_body msgs calls)))))"

definition investigation_markdown :: pystr where
  "investigation_markdown = concat (map (\<lambda>line. py line @ [10])
     [
      ''# Agent investigation report'',
      '''',
      ''## Conclusion'',
      '''',
      ''The investigation confirms a healthy final state for correlation `INC-042`.'',
      '''',
      ''## Requests'',
      '''',
      ''The client used request IDs `1` and `2` for the MCP lifecycle.'',
      ''The client used request IDs `10` through `14` for the fixed tool sequence.'',
      '''',
      ''| Request ID | Tool | Fixed arguments |'',
      ''| ---: | --- | --- |'',
      ''| 10 | `logs.search` | `root=evidence`, `path=application.log`, `query=INC-042`, `caseSensitive=true`, `maxMatches=10` |'',
      ''| 11 | `logs.search` | `root=evidence`, `path=application.log`, `query=ERROR`, `caseSensitive=true`, `maxMatches=10` |'',
      ''| 12 | `logs.tail` | `root=evidence`, `path=application.log`, `maxLines=3` |'',
      ''| 13 | `elf.inspect` | `root=evidence`, `path=sample.elf` |'',
      ''| 14 | `proc.memory` | `process=server` |'',
      '''',
      ''## Evidence'',
      '''',
      ''1. The correlation search found five expected lines.'',
      ''2. The error search found one authentication failure.'',
      ''3. The final three lines show a bounded retry, authentication recovery, and a healthy state.'',
      ''4. The ELF inspection found the expected ELF64 x86_64 executable identity.'',
      ''5. The process observation succeeded with strict pidfd pinning and the required aggregate counters.'',
      '''',
      ''## Limits'',
      '''',
      ''- The client used only the four existing MCP tools.'',
      ''- The server ran in strict mode without legacy compatibility flags.'',
      ''- The client used one committed log fixture and one generated non-executable ELF fixture.'',
      ''- The client did not execute or import the generated ELF file.'',
      ''- The reports contain stable predicates only. They do not contain runtime process values or temporary paths.'',
      ''- The JSON and Markdown output use fixed order and one final newline.'',
      '''',
      ''## Non-claims'',
      '''',
      ''- This demonstration is not autonomous incident response.'',
      ''- This demonstration is not a production agent framework.'',
      ''- This demonstration is not proof of complete correctness or security.'',
      ''- This demonstration is one bounded investigation over synthetic data.''])"

section \<open>What a report rests on\<close>

text \<open>The entry \<open>key\<close> of a result lists \<open>n\<close> lines, those expected with their numbers and previews first.\<close>

definition lists_lines :: "pyval \<Rightarrow> string \<Rightarrow> nat \<Rightarrow> (int \<times> pystr) list \<Rightarrow> bool" where
  "lists_lines v key n expected \<longleftrightarrow> (\<exists>xs. field v key = PList xs \<and> length xs = n
     \<and> (\<forall>(m, i, preview) \<in> set (zip xs expected). is_dict m \<and> py_eq (field m ''line'') (PInt i) \<and> field m ''preview'' = PStr preview))"

definition tool_result :: "nat \<Rightarrow> responses \<Rightarrow> int \<Rightarrow> pyval \<Rightarrow> bool" where
  "tool_result rd rs i v \<longleftrightarrow> bindE (answer rs i) (result_content rd) = Inr v"

definition supported :: "nat \<Rightarrow> responses \<Rightarrow> pybytes \<Rightarrow> bool" where
  "supported rd rs log_bytes \<longleftrightarrow> (\<exists>decoded correlation errors tail elf observed.
     utf8_decode log_bytes = Some decoded \<and> 1 < length (splitlines decoded)
     \<and> tool_result rd rs 10 correlation \<and> tool_result rd rs 11 errors \<and> tool_result rd rs 12 tail \<and> tool_result rd rs 13 elf \<and> tool_result rd rs 14 observed
     \<and> lists_lines correlation ''matches'' 5 (zip [1, 2, 3, 4, 5] (splitlines decoded))
     \<and> lists_lines errors ''matches'' 1 [(2, splitlines decoded ! 1)]
     \<and> lists_lines tail ''lines'' 3 (zip [3, 4, 5] (drop 2 (splitlines decoded)))
     \<and> (\<forall>v \<in> {correlation, errors, tail}. field v ''bytesScanned'' = PInt (int (length log_bytes)) \<and> field v ''fileChangedDuringRead'' = PBool False)
     \<and> field elf ''class'' = ptext ''ELF64'' \<and> field elf ''machine'' = ptext ''x86_64''
     \<and> field observed ''process'' = ptext ''server'' \<and> field observed ''pidfdPinned'' = PBool True)"

lemma search_lists: "validate_search v n is ps = Inr u \<Longrightarrow> lists_lines v ''matches'' (length is) (zip is ps) \<and> log_common_ok v n"
  by (auto simp: validate_search_def lists_lines_def Let_def bindE_eq_Inr is_list_def match_ok_def list_all_iff split: pyval.splits)

lemma tail_lists: "validate_tail v n is ps = Inr u \<Longrightarrow> lists_lines v ''lines'' 3 (zip is ps) \<and> log_common_ok v n"
  by (auto simp: validate_tail_def lists_lines_def Let_def bindE_eq_Inr is_list_def tail_line_ok_def list_all_iff split: pyval.splits)

section \<open>A supported report\<close>

text \<open>An investigation of a log of five lines by a server that answers as expected.\<close>

definition sample_reply :: "int \<Rightarrow> pyval \<Rightarrow> int \<times> pyval" where
  "sample_reply i v = (i, obj [(''id'', PInt i), (''jsonrpc'', ptext ''2.0''), (''result'', obj
     [(''content'', PList [obj [(''type'', ptext ''text''), (''text'', PStr (case dumps v of Inl e \<Rightarrow> [] | Inr s \<Rightarrow> s))]]),
      (''isError'', PBool False), (''structuredContent'', v)])])"

definition sample_log :: pybytes where
  "sample_log = [97, 10, 98, 10, 99, 10, 100, 10, 101, 10]"

definition sample_match :: "int \<Rightarrow> string \<Rightarrow> pyval" where
  "sample_match i listed = obj [(''byteOffset'', PInt (2 * i - 2)), (''line'', PInt i), (''preview'', ptext listed),
     (''previewTruncatedEnd'', PBool False), (''previewTruncatedStart'', PBool False)]"

definition sample_search :: "pyval list \<Rightarrow> pyval" where
  "sample_search found = obj [(''bytesScanned'', PInt 10), (''caseSensitive'', PBool True), (''fileChangedDuringRead'', PBool False),
     (''linesScanned'', PInt 5), (''matchLimitReached'', PBool False), (''matches'', PList found), (''path'', ptext LOG_NAME), (''root'', ptext ROOT_NAME)]"

definition sample_tail :: "pyval list \<Rightarrow> pyval" where
  "sample_tail listed = obj [(''bytesScanned'', PInt 10), (''fileChangedDuringRead'', PBool False), (''lines'', PList listed),
     (''linesScanned'', PInt 5), (''path'', ptext LOG_NAME), (''root'', ptext ROOT_NAME)]"

definition sample_elf :: pyval where
  "sample_elf = obj [(''buildId'', PNone), (''class'', ptext ''ELF64''), (''endianness'', ptext ''little''), (''entryPoint'', ptext ''0x0''),
     (''fileChangedDuringRead'', PBool False), (''fileType'', ptext ''executable''), (''fileTypeNumber'', PInt 2), (''interpreter'', PNone),
     (''machine'', ptext ''x86_64''), (''machineNumber'', PInt 62), (''metadataBytesRead'', PInt 64), (''neededLibraries'', PList []),
     (''neededLibrariesTruncated'', PBool False), (''osAbi'', ptext ''linux''), (''osAbiNumber'', PInt 3), (''path'', ptext ELF_NAME),
     (''pieExecutable'', PBool False), (''positionIndependent'', PBool False), (''programHeaderCount'', PInt 0), (''relro'', ptext ''none''),
     (''root'', ptext ROOT_NAME), (''segmentSummariesTruncated'', PBool False), (''segments'', PList []), (''stackPolicy'', ptext ''unspecified''),
     (''writableExecutableLoadSegment'', PBool False)]"

definition sample_process :: pyval where
  "sample_process = obj [(''name'', ptext ''server''), (''pageSizeBytes'', PInt 4096), (''pid'', PInt 7), (''pidfdPinned'', PBool True),
     (''process'', ptext ''server''), (''smapsRollupAvailable'', PBool False), (''smapsRollupError'', PNone), (''state'', ptext ''S''),
     (''statm'', obj [(''dataAndStackBytes'', PInt 1), (''residentBytes'', PInt 1), (''sharedBytes'', PInt 1), (''textBytes'', PInt 1), (''virtualBytes'', PInt 1)]),
     (''status'', obj [(''rssAnonBytes'', PInt 1), (''rssFileBytes'', PInt 1), (''rssShmemBytes'', PInt 1), (''vmRssBytes'', PInt 1), (''vmSizeBytes'', PInt 1)]),
     (''threads'', PInt 1), (''uid'', PInt 0)]"

definition sample_answers :: responses where
  "sample_answers =
     [(1, obj [(''result'', obj [(''serverInfo'', obj [(''version'', ptext VERSION)])])]),
      (2, obj [(''result'', obj [(''tools'', PList (map (\<lambda>name. obj [(''name'', ptext name)]) EXPECTED_TOOLS))])]),
      sample_reply 10 (sample_search [sample_match 1 ''a'', sample_match 2 ''b'', sample_match 3 ''c'', sample_match 4 ''d'', sample_match 5 ''e'']),
      sample_reply 11 (sample_search [sample_match 2 ''b'']),
      sample_reply 12 (sample_tail [sample_match 3 ''c'', sample_match 4 ''d'', sample_match 5 ''e'']),
      sample_reply 13 sample_elf, sample_reply 14 sample_process]"

lemma field_obj [simp]: "field (obj kvs) k = (case map_of kvs k of None \<Rightarrow> PNone | Some v \<Rightarrow> v)"
  by (simp add: field_def dentry_def dget_obj)

lemma has_keys_obj [simp]: "has_keys (obj kvs) ks \<longleftrightarrow> fst ` set kvs = set ks"
proof -
  have "inj (\<lambda>k. SKey (py k))" by (auto simp: inj_on_def py_same)
  moreover have "fst ` set (items_of (obj kvs)) = (\<lambda>k. SKey (py k)) ` fst ` set kvs" by (force simp: obj_def)
  ultimately show ?thesis by (simp add: has_keys_def inj_image_eq_iff)
qed

lemma result_content_sample:
  assumes "settled 8 v" and "is_dict v"
  shows "result_content 8 (snd (sample_reply i v)) = Inr v"
proof -
  from assms obtain t where t: "dumps v = Inr t" using dumps_total by (auto simp: settled_def)
  with assms have "json_loads 8 t = Inr v"
    using loads_dumps [OF t] strict_reader_agrees by (metis settled_def)
  then have "json_or_fail 8 t = Inr v" by (simp add: json_or_fail_def)
  moreover have "py_eq v v" using assms by (simp add: settled_def)
  ultimately show ?thesis using assms(2) t
    by (simp add: sample_reply_def result_content_def dentry_def dget_obj insert_commute)
qed

lemma sample_match_settled: "1 \<le> i \<Longrightarrow> i \<le> 5 \<Longrightarrow> settled 6 (sample_match i listed)"
  unfolding sample_match_def by (rule settled_obj, simp add: py_def, auto simp: dec.simps MAX_STR_DIGITS_def)

lemma sample_search_settled: "list_all (settled 6) found \<Longrightarrow> settled 8 (sample_search found)"
  unfolding sample_search_def by (rule settled_obj, simp add: py_def, auto simp: dec.simps MAX_STR_DIGITS_def intro!: settled_list)

lemma sample_elf_settled: "settled 8 sample_elf"
  unfolding sample_elf_def by (rule settled_obj, simp add: py_def, auto simp: dec.simps MAX_STR_DIGITS_def intro!: settled_list)

lemma sample_tail_settled: "list_all (settled 6) listed \<Longrightarrow> settled 8 (sample_tail listed)"
  unfolding sample_tail_def by (rule settled_obj, simp add: py_def, auto simp: dec.simps MAX_STR_DIGITS_def intro!: settled_list)

lemma sample_process_settled: "settled 8 sample_process"
  unfolding sample_process_def
  by (rule settled_obj, simp add: py_def, auto simp: dec.simps MAX_STR_DIGITS_def intro!: settled_obj) (simp_all add: py_def)

lemma sample_lines: "splitlines sample_log = map py [''a'', ''b'', ''c'', ''d'', ''e'']" "utf8_decode sample_log = Some sample_log"
    "length sample_log = 10"
  by (simp_all add: splitlines_def sample_log_def line_break_def py_def utf8_head_def)

lemma sample_dicts [simp]: "is_dict (sample_search found)" "is_dict (sample_tail found)" "is_dict sample_elf" "is_dict sample_process"
  by (simp_all add: sample_search_def sample_tail_def sample_elf_def sample_process_def)

lemma sample_results:
  "is_dict v \<Longrightarrow> settled 8 v \<Longrightarrow> map_of sample_answers i = Some (snd (sample_reply i v)) \<Longrightarrow> bindE (answer sample_answers i) (result_content 8) = Inr v"
  by (simp add: answer_def result_content_sample)

lemma sample_match_fields [simp]:
  "match_ok (sample_match i s, j, t) \<longleftrightarrow> 1 \<le> i \<and> i = j \<and> t = py s" "tail_line_ok (sample_match i s, j, t) \<longleftrightarrow> 1 \<le> i \<and> i = j \<and> t = py s"
  by (auto simp: match_ok_def tail_line_ok_def sample_match_def at_least_def number_of_def)

lemma sample_checks:
  "length found = length is \<Longrightarrow> list_all match_ok (zip found (zip is ps)) \<Longrightarrow> validate_search (sample_search found) 10 is ps = Inr ()"
  "length listed = 3 \<Longrightarrow> list_all tail_line_ok (zip listed (zip is ps)) \<Longrightarrow> validate_tail (sample_tail listed) 10 is ps = Inr ()"
  "validate_elf sample_elf = Inr ()" "validate_process sample_process = Inr ()"
  by (simp_all add: validate_search_def validate_tail_def log_common_ok_def sample_search_def sample_tail_def at_least_def
    validate_elf_def sample_elf_def number_of_def validate_process_def sample_process_def nonempty_text_def is_list_def is_bool_def is_str_def)

lemma answered_report: "investigation_report 8 sample_answers msgs calls sample_log = Inr (report_body msgs calls)"
proof -
  have all: "list_all (settled 6) (map (\<lambda>(i, s). sample_match i s) (zip [1, 2, 3, 4, 5] [''a'', ''b'', ''c'', ''d'', ''e'']))"
    by (simp add: sample_match_settled)
  have r10: "bindE (answer sample_answers 10) (result_content 8)
      = Inr (sample_search [sample_match 1 ''a'', sample_match 2 ''b'', sample_match 3 ''c'', sample_match 4 ''d'', sample_match 5 ''e''])"
    by (rule sample_results) (use all in \<open>auto intro!: sample_search_settled simp: sample_answers_def sample_reply_def\<close>)
  have r11: "bindE (answer sample_answers 11) (result_content 8) = Inr (sample_search [sample_match 2 ''b''])"
    by (rule sample_results) (use all in \<open>auto intro!: sample_search_settled simp: sample_answers_def sample_reply_def\<close>)
  have r12: "bindE (answer sample_answers 12) (result_content 8) = Inr (sample_tail [sample_match 3 ''c'', sample_match 4 ''d'', sample_match 5 ''e''])"
    by (rule sample_results) (use all in \<open>auto intro!: sample_tail_settled simp: sample_answers_def sample_reply_def\<close>)
  have r13: "bindE (answer sample_answers 13) (result_content 8) = Inr sample_elf"
    by (rule sample_results) (use sample_elf_settled in \<open>auto simp: sample_answers_def sample_reply_def\<close>)
  have r14: "bindE (answer sample_answers 14) (result_content 8) = Inr sample_process"
    by (rule sample_results) (use sample_process_settled in \<open>auto simp: sample_answers_def sample_reply_def\<close>)
  have "check_initialize sample_answers = Inr ()" "check_tools sample_answers = Inr ()"
    by (simp_all add: check_initialize_def check_tools_def answer_def sample_answers_def EXPECTED_TOOLS_def iterate_def)
  moreover have "check_evidence 8 sample_answers sample_log (splitlines sample_log) = Inr ()"
    unfolding check_evidence_def r10 r11 r12 r13 r14 sample_lines
    by (simp add: sample_checks)
  ultimately show ?thesis by (simp add: investigation_report_def sample_lines)
qed

section \<open>Properties\<close>

text \<open>
  C24: A report of the investigation is the same whatever the server answered, and it is made only from answers that support it: the search
  for the correlation id lists the five lines of the log with their numbers and texts, the search for errors its second line alone, the tail its
  last three, all over the whole unchanged file, and the ELF file and the pinned process are the expected ones.
\<close>

theorem investigation_conclusions_are_supported:
  assumes "investigation_report rd rs msgs calls log_bytes = Inr v"
  shows "v = report_body msgs calls \<and> supported rd rs log_bytes"
proof -
  from assms obtain decoded where decoded: "utf8_decode log_bytes = Some decoded" and v: "v = report_body msgs calls"
    and checked: "check_evidence rd rs log_bytes (splitlines decoded) = Inr ()"
    by (auto simp: investigation_report_def bindE_eq_Inr split: option.splits)
  from checked obtain correlation errors tail elf observed where results: "tool_result rd rs 10 correlation" "tool_result rd rs 11 errors"
      "tool_result rd rs 12 tail" "tool_result rd rs 13 elf" "tool_result rd rs 14 observed"
    and ok: "validate_search correlation (length log_bytes) [1, 2, 3, 4, 5] (splitlines decoded) = Inr ()" "1 < length (splitlines decoded)"
      "validate_search errors (length log_bytes) [2] [splitlines decoded ! 1] = Inr ()"
      "validate_tail tail (length log_bytes) [3, 4, 5] (drop 2 (splitlines decoded)) = Inr ()" "validate_elf elf = Inr ()" "validate_process observed = Inr ()"
    unfolding check_evidence_def tool_result_def by (auto simp: bindE_eq_Inr)
  have "field elf ''class'' = ptext ''ELF64''" "field elf ''machine'' = ptext ''x86_64''"
    using ok(5) by (simp_all add: validate_elf_def bindE_eq_Inr)
  moreover have "field observed ''process'' = ptext ''server''" "field observed ''pidfdPinned'' = PBool True"
    using ok(6) by (simp_all add: validate_process_def bindE_eq_Inr)
  moreover have "supported rd rs log_bytes" if "field elf ''class'' = ptext ''ELF64''" "field elf ''machine'' = ptext ''x86_64''"
      "field observed ''process'' = ptext ''server''" "field observed ''pidfdPinned'' = PBool True"
    unfolding supported_def
    by (rule exI [of _ decoded], rule exI [of _ correlation], rule exI [of _ errors], rule exI [of _ tail], rule exI [of _ elf], rule exI [of _ observed])
      (use that decoded results ok(2) search_lists [OF ok(1)] search_lists [OF ok(3)] tail_lists [OF ok(4)] in \<open>simp add: log_common_ok_def numeral_eq_Suc\<close>)
  ultimately show ?thesis using v by blast
qed

theorem investigation_conclusions_are_supported_witness:
  "investigation_report 8 sample_answers protocol_messages tool_calls sample_log = Inr (report_body protocol_messages tool_calls)
   \<and> supported 8 sample_answers sample_log"
  using investigation_conclusions_are_supported [OF answered_report] answered_report by blast

end
