(* ===== verification/Benchmark_Runs.thy ===== *)
theory Benchmark_Runs
  imports Benchmark_Schema Investigation_Checks
begin

text \<open>
  The campaigns of \<open>scripts/run_benchmarks.py\<close>: the turbo probes, the statistics of a case, the messages for the server, the checks on
  its answers, and an end-to-end case with its warm-up and five measured runs. \<open>fail\<close> raises \<open>RuntimeError\<close>. A \<open>JSONDecodeError\<close> is a
  \<open>ValueError\<close>. Samples are finite doubles, given by their exact values; the statistics of the library compute with exact
  fractions and round once.
\<close>

section \<open>Definitions\<close>

definition MAX_SAMPLES :: nat where "MAX_SAMPLES = 15"

abbreviation demand :: "bool \<Rightarrow> unit outcome" where
  "demand ok \<equiv> checkE ok RuntimeError"

subsection \<open>Turbo probes\<close>

definition available :: "pyval \<Rightarrow> pyval" where
  "available v = obj [(''available'', PBool True), (''value'', v)]"

definition unavailable :: "pystr \<Rightarrow> pyval" where
  "unavailable reason = obj [(''available'', PBool False), (''reason'', PStr reason)]"

definition TURBO_MAPPINGS :: "(string \<times> (string \<times> string) list) list" where
  "TURBO_MAPPINGS =
     [(''intel_pstate/no_turbo'', [(''0'', ''enabled''), (''1'', ''disabled'')]),
      (''cpufreq/boost'', [(''0'', ''disabled''), (''1'', ''enabled'')])]"

text \<open>\<open>quoted\<close> is \<open>repr\<close> of a string, which asks the Unicode database what is printable.\<close>

definition decode_turbo_probe :: "ucd \<Rightarrow> (pystr \<Rightarrow> pystr) \<Rightarrow> string \<Rightarrow> pystr \<Rightarrow> pyval" where
  "decode_turbo_probe u quoted source raw = (case map_of TURBO_MAPPINGS source of
      None \<Rightarrow> unavailable (py (''unsupported turbo probe source: '' @ source))
    | Some mapping \<Rightarrow>
        let normalized = py_strip u raw
        in (case map_of (map (\<lambda>(k, v). (py k, v)) mapping) normalized of
             None \<Rightarrow> unavailable (py (source @ '' returned unexpected value '') @ quoted normalized @ py ''; expected 0 or 1'')
           | Some state \<Rightarrow> available (ptext state)))"

text \<open>\<open>str(v)\<close> of a probed value that is no string is left to the parameter \<open>printed\<close>.\<close>

definition probe_text :: "(pyval \<Rightarrow> pystr) \<Rightarrow> pyval \<Rightarrow> pystr" where
  "probe_text printed v = (case v of PStr s \<Rightarrow> s | _ \<Rightarrow> printed v)"

definition select_turbo_probe :: "ucd \<Rightarrow> (pystr \<Rightarrow> pystr) \<Rightarrow> (pyval \<Rightarrow> pystr) \<Rightarrow> pyval \<Rightarrow> pyval \<Rightarrow> pyval outcome" where
  "select_turbo_probe u quoted printed primary fallback =
     bindE (dict_get primary ''available'') (\<lambda>a.
     if a = PBool True then
       bindE (getitem primary ''value'') (\<lambda>v. Inr (decode_turbo_probe u quoted ''intel_pstate/no_turbo'' (probe_text printed v)))
     else
       bindE (dict_get fallback ''available'') (\<lambda>b.
       if b = PBool True then
         bindE (getitem fallback ''value'') (\<lambda>v. Inr (decode_turbo_probe u quoted ''cpufreq/boost'' (probe_text printed v)))
       else Inr (unavailable (py ''Intel pstate no_turbo and generic cpufreq boost probes were not available''))))"

subsection \<open>Statistics\<close>

text \<open>The element at \<open>min(len - 1, int((len - 1) * rank + 0.999999))\<close> of the sorted samples.\<close>

definition percentile_index :: "nat \<Rightarrow> rat \<Rightarrow> nat" where
  "percentile_index n rank = min (n - 1) (nat (trunc (fl (fl (of_nat (n - 1) * rank) + fl (999999 / 1000000)))))"

definition percentile :: "rat list \<Rightarrow> rat \<Rightarrow> rat" where
  "percentile values rank = sort values ! percentile_index (length values) rank"

definition finite_double :: "rat \<Rightarrow> pyval" where
  "finite_double r = PFloat (FFin r)"

text \<open>\<open>statistics.median\<close>, \<open>mean\<close> and \<open>pstdev\<close>.\<close>

definition half_of :: "pyfloat \<Rightarrow> pyfloat" where
  "half_of f = (case f of FFin r \<Rightarrow> double_of_rat (r / 2) | _ \<Rightarrow> f)"

definition median :: "rat list \<Rightarrow> pyval" where
  "median values =
     (let ordered = sort values; n = length values
      in if odd n then finite_double (ordered ! (n div 2))
         else PFloat (half_of (float_add (FFin (ordered ! (n div 2 - 1))) (FFin (ordered ! (n div 2))))))"

definition exact_mean :: "rat list \<Rightarrow> rat" where
  "exact_mean values = sum_list values / of_nat (length values)"

definition mean :: "rat list \<Rightarrow> pyval" where
  "mean values = PFloat (double_of_rat (exact_mean values))"

definition variance :: "rat list \<Rightarrow> rat" where
  "variance values = sum_list (map (\<lambda>x. (x - exact_mean values) ^ 2) values) / of_nat (length values)"

fun isqrt :: "nat \<Rightarrow> nat" where
  "isqrt n = (if n = 0 then 0 else let r = 2 * isqrt (n div 4) in if (r + 1) ^ 2 \<le> n then r + 1 else r)"

declare isqrt.simps [simp del]

text \<open>The square root of \<open>n / m\<close> rounded to odd, and the square root of a fraction as a double: \<open>_float_sqrt_of_frac\<close>.\<close>

definition sqrt_to_odd :: "nat \<Rightarrow> nat \<Rightarrow> nat" where
  "sqrt_to_odd n m = (let a = isqrt (n div m) in if a * a * m \<noteq> n \<and> even a then a + 1 else a)"

definition float_sqrt :: "nat \<Rightarrow> nat \<Rightarrow> pyfloat" where
  "float_sqrt n m =
     (let q = (int (bit_count n) - int (bit_count m) - 109) div 2
      in if 0 \<le> q then double_of_rat (of_nat (sqrt_to_odd n (m * 4 ^ nat q) * 2 ^ nat q))
         else double_of_rat (of_nat (sqrt_to_odd (n * 4 ^ nat (- q)) m) / 2 ^ nat (- q)))"

definition pstdev :: "rat list \<Rightarrow> pyval" where
  "pstdev values = PFloat (case quotient_of (variance values) of (n, m) \<Rightarrow> float_sqrt (nat n) (nat m))"

definition summary_entries :: "pystr \<Rightarrow> rat list \<Rightarrow> nat \<Rightarrow> int \<Rightarrow> string \<Rightarrow> int \<Rightarrow> bool \<Rightarrow> (string \<times> pyval) list" where
  "summary_entries case_id samples input_bytes operations unit concurrency validated =
     (let ordered = sort samples; n = PInt (int (length samples))
      in [(''caseId'', PStr case_id), (''unit'', ptext unit), (''inputBytes'', PInt (int input_bytes)), (''operationCount'', PInt operations),
        (''concurrency'', PInt concurrency), (''timeoutMilliseconds'', PInt (trunc (fl (PROCESS_TIMEOUT * 1000)))), (''warmupIterations'', PInt 1),
        (''measuredIterations'', PInt operations), (''sampleCount'', n), (''originalSampleCount'', n), (''retainedSampleCount'', n),
        (''excludedSampleCount'', PInt 0), (''exclusionClasses'', PList []), (''noSamplesExcluded'', PBool True),
        (''rawSamples'', PList (map finite_double samples)), (''minimum'', finite_double (hd ordered)), (''maximum'', finite_double (last ordered)),
        (''median'', median samples), (''p95'', finite_double (percentile samples (fl (95 / 100)))), (''mean'', mean samples),
        (''standardDeviation'', pstdev samples), (''validationInTimedRegion'', PBool validated)])"

definition case_summary :: "pystr \<Rightarrow> rat list \<Rightarrow> nat \<Rightarrow> int \<Rightarrow> string \<Rightarrow> int \<Rightarrow> bool \<Rightarrow> pyval outcome" where
  "case_summary case_id samples input_bytes operations unit concurrency validated =
     bindE (demand (samples \<noteq> [] \<and> length samples \<le> MAX_SAMPLES)) (\<lambda>_.
     Inr (obj (summary_entries case_id samples input_bytes operations unit concurrency validated)))"

subsection \<open>Messages\<close>

definition benchmark_initialize :: pyval where
  "benchmark_initialize = request_message 1 ''initialize'' (obj
     [(''protocolVersion'', ptext ''2025-11-25''), (''capabilities'', obj []),
      (''clientInfo'', obj [(''name'', ptext ''benchmark-client''), (''version'', ptext ''1'')])])"

definition benchmark_calls :: "(string \<times> (string \<times> pyval) list) list" where
  "benchmark_calls =
     [(''logs.search'', [(''root'', ptext ''fixtures''), (''path'', ptext ''log.txt''), (''query'', ptext ''needle''), (''caseSensitive'', PBool True),
         (''maxMatches'', PInt 10)]),
      (''logs.tail'', [(''root'', ptext ''fixtures''), (''path'', ptext ''log.txt''), (''maxLines'', PInt 2)]),
      (''elf.inspect'', [(''root'', ptext ''fixtures''), (''path'', ptext ''minimal.elf'')]),
      (''proc.memory'', [(''process'', ptext ''server'')])]"

definition benchmark_messages :: "bool \<Rightarrow> pyval list" where
  "benchmark_messages configured =
     [benchmark_initialize, obj [(''jsonrpc'', ptext ''2.0''), (''method'', ptext ''notifications/initialized'')], request_message 2 ''tools/list'' (obj [])]
     @ (if configured then map (\<lambda>(i, name, args). tool_request i name (obj args)) (zip [10, 11, 12, 13] benchmark_calls) else [])"

definition canonical_line :: "pyval \<Rightarrow> pystr outcome" where
  "canonical_line v = bindE (dumps v) (\<lambda>t. Inr (t @ [10]))"

definition benchmark_policy :: "pystr \<Rightarrow> pyval" where
  "benchmark_policy path = obj [(''version'', PInt 2),
     (''roots'', PList [obj [(''name'', ptext ''fixtures''), (''path'', PStr path), (''maxFileBytes'', PInt 65536)]]),
     (''processes'', PList [obj [(''name'', ptext ''server''), (''pid'', ptext ''self'')]])]"

text \<open>The payload of \<open>requests\<close>; \<open>stored\<close> is what writing the policy file gives.\<close>

definition benchmark_payload :: "(pystr \<Rightarrow> unit outcome) \<Rightarrow> pystr \<Rightarrow> bool \<Rightarrow> pybytes outcome" where
  "benchmark_payload stored path configured =
     bindE (if configured then bindE (canonical_line (benchmark_policy path)) stored else Inr ()) (\<lambda>_.
     bindE (mapE canonical_line (benchmark_messages configured)) (\<lambda>ts.
     case utf8_encode (concat ts) of None \<Rightarrow> Inl UnicodeEncodeError | Some b \<Rightarrow> Inr b))"

subsection \<open>Answers\<close>

definition answer_lines :: "nat \<Rightarrow> pybytes \<Rightarrow> pyval list outcome" where
  "answer_lines rd output = (case utf8_decode output of
      None \<Rightarrow> Inl RuntimeError
    | Some t \<Rightarrow> catchE (mapE (json_loads rd) (splitlines t)) (\<lambda>e. Inl (if e = ValueError then RuntimeError else e)))"

definition benchmark_ids :: "bool \<Rightarrow> int list" where
  "benchmark_ids configured = [1, 2] @ (if configured then [10, 11, 12, 13] else [])"

text \<open>Ids are compared with \<open>==\<close>, in the list and in the set.\<close>

definition among :: "pyval \<Rightarrow> int list \<Rightarrow> bool" where
  "among v is \<longleftrightarrow> list_ex (\<lambda>i. py_eq v (PInt i)) is"

definition collect_answer :: "bool \<Rightarrow> pyval list \<Rightarrow> pyval \<Rightarrow> pyval list outcome" where
  "collect_answer configured found response =
     bindE (demand (is_dict response \<and> dhas (items_of response) ''id'')) (\<lambda>_.
     bindE (demand (\<not> list_ex (\<lambda>v. py_eq v (field response ''id'')) found)) (\<lambda>_.
     bindE (checkE (Json_Report.hashable (field response ''id'')) TypeError) (\<lambda>_.
     bindE (demand (among (field response ''id'') (benchmark_ids configured) \<and> \<not> dhas (items_of response) ''error''
       \<and> is_dict (field response ''result''))) (\<lambda>_.
     Inr (found @ [field response ''id''])))))"

fun collect_answers :: "bool \<Rightarrow> pyval list \<Rightarrow> pyval list \<Rightarrow> pyval list outcome" where
  "collect_answers configured found [] = Inr found"
| "collect_answers configured found (r # rs) = bindE (collect_answer configured found r) (\<lambda>found'. collect_answers configured found' rs)"

text \<open>The result of the response with an id, which is there once all ids are.\<close>

definition result_of :: "pyval list \<Rightarrow> int \<Rightarrow> pyval" where
  "result_of replies i = (case find (\<lambda>r. py_eq (field r ''id'') (PInt i)) replies of Some r \<Rightarrow> field r ''result'' | None \<Rightarrow> PNone)"

definition check_listing :: "bool \<Rightarrow> pyval \<Rightarrow> unit outcome" where
  "check_listing configured listing =
     bindE (demand (is_list (field listing ''tools'') \<and> (configured \<or> elems (field listing ''tools'') = []))) (\<lambda>_.
     if configured then
       bindE (mapE (\<lambda>tool. bindE (dict_get tool ''name'') (\<lambda>name. bindE (checkE (Json_Report.hashable name) TypeError) (\<lambda>_. Inr name)))
         (elems (field listing ''tools''))) (\<lambda>tool_names.
       demand (set tool_names = ptext ` fst ` set benchmark_calls))
     else Inr ())"

definition check_tool_text :: "nat \<Rightarrow> pyval \<Rightarrow> unit outcome" where
  "check_tool_text rd result = (case field result ''content'' of
      PList [block] \<Rightarrow>
        bindE (demand (is_dict (field result ''structuredContent'') \<and> is_dict block \<and> field block ''type'' = ptext ''text'')) (\<lambda>_.
        bindE (catchE (case dget (items_of block) ''text'' of None \<Rightarrow> Inl KeyError | Some (PStr t) \<Rightarrow> json_loads rd t | Some _ \<Rightarrow> Inl TypeError)
          (\<lambda>e. Inl (if e \<in> {KeyError, TypeError, ValueError} then RuntimeError else e))) (\<lambda>parsed.
        demand (py_eq parsed (field result ''structuredContent''))))
    | _ \<Rightarrow> Inl RuntimeError)"

definition check_conclusions :: "pyval list \<Rightarrow> unit outcome" where
  "check_conclusions replies =
     (let structured = (\<lambda>i. field (result_of replies i) ''structuredContent'')
      in bindE (py_len (dentry (items_of (structured 10)) ''matches'' (PList []))) (\<lambda>matches.
         bindE (demand (matches = 3)) (\<lambda>_.
         bindE (py_len (dentry (items_of (structured 11)) ''lines'' (PList []))) (\<lambda>shown.
         bindE (demand (shown = 2)) (\<lambda>_.
         bindE (demand (field (structured 12) ''class'' = ptext ''ELF64'' \<and> field (structured 12) ''machine'' = ptext ''x86_64'')) (\<lambda>_.
         demand (field (structured 13) ''process'' = ptext ''server'' \<and> field (structured 13) ''pidfdPinned'' = PBool True)))))))"

definition validate_responses :: "nat \<Rightarrow> pybytes \<Rightarrow> bool \<Rightarrow> unit outcome" where
  "validate_responses rd output configured =
     bindE (answer_lines rd output) (\<lambda>replies.
     bindE (collect_answers configured [] replies) (\<lambda>found.
     bindE (demand (list_all (\<lambda>i. list_ex (\<lambda>v. py_eq v (PInt i)) found) (benchmark_ids configured))) (\<lambda>_.
     bindE (demand (field (result_of replies 1) ''protocolVersion'' = ptext ''2025-11-25'' \<and> is_dict (field (result_of replies 1) ''capabilities''))) (\<lambda>_.
     bindE (check_listing configured (result_of replies 2)) (\<lambda>_.
     if configured then
       bindE (iterE (\<lambda>i. check_tool_text rd (result_of replies i)) [10, 11, 12, 13]) (\<lambda>_. check_conclusions replies)
     else Inr ())))))"

subsection \<open>End-to-end cases\<close>

text \<open>The children that \<open>bounded_run\<close> starts and the readings of \<open>monotonic_ns\<close>, both read at one counter, which is the state.\<close>

record campaign =
  cp_child :: "nat \<Rightarrow> child_world"
  cp_ns :: "nat \<Rightarrow> int"
  cp_fuel :: nat
  cp_nesting :: nat
  cp_stored :: "pystr \<Rightarrow> unit outcome"
  cp_fixtures :: pystr

definition nanoseconds :: "campaign \<Rightarrow> (nat, int) eff" where
  "nanoseconds K = (\<lambda>t. Some (Inr (cp_ns K t), Suc t))"

definition run_child :: "campaign \<Rightarrow> (nat, pybytes) eff" where
  "run_child K = (\<lambda>t. case bounded_run (cp_child K t) (cp_fuel K) True (spawned 0) of None \<Rightarrow> None | Some (r, c) \<Rightarrow> Some (r, Suc t))"

definition elapsed_double :: "int \<Rightarrow> rat outcome" where
  "elapsed_double ns = bindE (float_of (PInt ns)) (\<lambda>f. case f of FFin r \<Rightarrow> Inr r | _ \<Rightarrow> Inl OverflowError)"

definition measured_run :: "campaign \<Rightarrow> bool \<Rightarrow> (nat, rat) eff" where
  "measured_run K configured =
     bindM (nanoseconds K) (\<lambda>started.
     bindM (run_child K) (\<lambda>output.
     bindM (nanoseconds K) (\<lambda>ended.
     bindM (liftM (elapsed_double (ended - started))) (\<lambda>elapsed.
     bindM (liftM (validate_responses (cp_nesting K) output configured)) (\<lambda>_.
     retM elapsed)))))"

fun measured_runs :: "campaign \<Rightarrow> bool \<Rightarrow> nat \<Rightarrow> (nat, rat list) eff" where
  "measured_runs K configured 0 = retM []"
| "measured_runs K configured (Suc n) =
     bindM (measured_run K configured) (\<lambda>elapsed. bindM (measured_runs K configured n) (\<lambda>rest. retM (elapsed # rest)))"

definition e2e_case :: "campaign \<Rightarrow> pystr \<Rightarrow> bool \<Rightarrow> (nat, pyval) eff" where
  "e2e_case K case_id configured =
     bindM (liftM (benchmark_payload (cp_stored K) (cp_fixtures K) configured)) (\<lambda>payload.
     bindM (run_child K) (\<lambda>warmup.
     bindM (liftM (validate_responses (cp_nesting K) warmup configured)) (\<lambda>_.
     bindM (measured_runs K configured 5) (\<lambda>samples.
     liftM (case_summary case_id samples (length payload) 1 ''nanoseconds_per_scenario'' (if configured then 4 else 1) False)))))"

section \<open>Lemmas\<close>

subsection \<open>Statistics\<close>

text \<open>Rounding to a double changes a positive number by at most one part in \<open>2 ^ 53\<close>, or by the smallest double.\<close>

lemma bit_count_bounds: "0 < n \<Longrightarrow> 2 ^ (bit_count n - 1) \<le> n \<and> n < 2 ^ bit_count n \<and> 0 < bit_count n"
proof (induction n rule: bit_count.induct)
  case (1 n)
  show ?case
  proof (cases "n div 2 = 0")
    case True
    with 1 have "n = 1" by auto
    then show ?thesis by (simp add: bit_count.simps)
  next
    case False
    with 1 have ih: "2 ^ (bit_count (n div 2) - 1) \<le> n div 2" "n div 2 < 2 ^ bit_count (n div 2)" "0 < bit_count (n div 2)" by auto
    obtain k where k: "bit_count (n div 2) = Suc k" using ih(3) gr0_implies_Suc by blast
    have "bit_count n = Suc (Suc k)" using 1(2) k by (simp add: bit_count.simps [of n])
    with ih k show ?thesis by auto
  qed
qed

lemma pow2_diff: "pow2 (int m - int n) = 2 ^ m / 2 ^ n"
  by (auto simp: pow2_def nat_diff_distrib field_simps power_add [symmetric] simp flip: of_nat_diff)

lemma pow2_shift: "pow2 (e - int n) = pow2 e / 2 ^ n"
proof (cases "0 \<le> e")
  case True
  then show ?thesis using pow2_diff [of "nat e" n] by (simp add: pow2_def [of e])
next
  case False
  then have "nat (int n - e) = nat (- e) + n" by simp
  with False show ?thesis by (simp add: pow2_def power_add)
qed

lemma binary_exponent_le:
  assumes "0 < a"
  shows "pow2 (binary_exponent a) \<le> a"
proof -
  obtain p q where pq: "quotient_of a = (p, q)" by (cases "quotient_of a")
  with assms have pos: "0 < q" "0 < p" and a: "a = of_int p / of_int q"
    using quotient_of_denom_pos [OF pq] quotient_of_div [OF pq] by (auto simp: zero_less_divide_iff)
  have p: "2 ^ (bit_count (nat p) - 1) \<le> nat p" and q: "nat q < 2 ^ bit_count (nat q)" and bp: "0 < bit_count (nat p)"
    using bit_count_bounds [of "nat p"] bit_count_bounds [of "nat q"] pos by auto
  have "(2 ^ (bit_count (nat p) - 1) :: rat) \<le> of_int p"
    using p pos by (metis int_nat_eq less_imp_le of_int_of_nat_eq of_nat_le_iff of_nat_numeral of_nat_power)
  moreover have "(of_int q :: rat) < 2 ^ bit_count (nat q)"
    using q pos by (metis int_nat_eq less_imp_le of_int_of_nat_eq of_nat_less_iff of_nat_numeral of_nat_power)
  ultimately have "(2 ^ (bit_count (nat p) - 1) :: rat) / 2 ^ bit_count (nat q) \<le> of_int p / of_int q"
    using pos by (intro frac_le) auto
  moreover have "int (bit_count (nat p)) - int (bit_count (nat q)) - 1 = int (bit_count (nat p) - 1) - int (bit_count (nat q))"
    using bp by simp
  ultimately have "pow2 (int (bit_count (nat p)) - int (bit_count (nat q)) - 1) \<le> a"
    using pow2_diff a by metis
  then show ?thesis using pq by (auto simp: binary_exponent_def Let_def not_less)
qed

lemma round_half_even_error: "\<bar>of_int (round_half_even x) - x\<bar> \<le> 1 / 2"
  unfolding round_half_even_def Let_def using floor_correct [of x] by (auto simp: abs_le_iff split: if_splits)

lemma pow2_nonzero [simp]: "pow2 e \<noteq> 0"
  using pow2_pos [of e] by linarith

lemma fl_error:
  assumes "0 < x"
  shows "\<bar>fl x - x\<bar> \<le> max (x / 2 ^ 53) (1 / 2 ^ 1075)"
proof -
  define q where "q = max (binary_exponent x - 52) (- 1074)"
  have fl: "fl x = of_int (round_half_even (x / pow2 q)) * pow2 q" using assms by (simp add: fl_def q_def Let_def)
  have "\<bar>fl x - x\<bar> = \<bar>of_int (round_half_even (x / pow2 q)) - x / pow2 q\<bar> * pow2 q"
  proof -
    have "fl x - x = (of_int (round_half_even (x / pow2 q)) - x / pow2 q) * pow2 q" using pow2_pos [of q] by (simp add: fl left_diff_distrib)
    then show ?thesis using pow2_pos [of q] by (simp add: abs_mult abs_of_pos)
  qed
  also have "\<dots> \<le> pow2 q / 2" using mult_right_mono [OF round_half_even_error, of "pow2 q" "x / pow2 q"] pow2_pos [of q] by simp
  also have "\<dots> \<le> max (x / 2 ^ 53) (1 / 2 ^ 1075)"
  proof (cases "binary_exponent x - 52 \<le> - 1074")
    case True
    then show ?thesis by (simp add: q_def pow2_def)
  next
    case False
    have "pow2 (binary_exponent x - 52) = pow2 (binary_exponent x) / 2 ^ 52" using pow2_shift [of _ 52] by simp
    then show ?thesis using False binary_exponent_le [OF assms] by (simp add: q_def)
  qed
  finally show ?thesis .
qed

text \<open>With at most fifteen samples the 95th percentile is the largest sample.\<close>

lemma percentile_index_max:
  assumes "0 < n" and "n \<le> MAX_SAMPLES"
  shows "percentile_index n (fl (95 / 100)) = n - 1"
proof -
  have tiny: "(1 :: rat) / 2 ^ 1075 \<le> 1 / 10000" by (simp add: field_simps)
  have near: "\<bar>fl x - x\<bar> \<le> 1 / 10000" if "0 < x" "x \<le> 20" for x
    using fl_error [OF that(1)] tiny that by (auto simp: max_def split: if_splits)
  define r c where "r = fl (95 / 100)" and "c = fl (999999 / 1000000)"
  have r: "\<bar>r - 95 / 100\<bar> \<le> 1 / 10000" and c: "\<bar>c - 999999 / 1000000\<bar> \<le> 1 / 10000"
    unfolding r_def c_def using near [of "95 / 100"] near [of "999999 / 1000000"] by auto
  have r': "9499 / 10000 \<le> r" "r \<le> 9501 / 10000" using r unfolding abs_le_iff by linarith+
  consider "n = 1" | "1 < n" using assms(1) by linarith
  then show ?thesis
  proof cases
    case 2
    define k :: rat where "k = of_nat (n - 1)"
    have n: "1 \<le> n - 1" "n - 1 \<le> 14" using 2 assms(2) by (auto simp: MAX_SAMPLES_def)
    have k: "1 \<le> k" "k \<le> 14"
      using of_nat_mono [OF n(1), where ?'a = rat] of_nat_mono [OF n(2), where ?'a = rat] by (simp_all add: k_def)
    have scaled: "k * (9499 / 10000) \<le> k * r" "k * r \<le> k * (9501 / 10000)" using r' k by (auto intro!: mult_left_mono)
    moreover have "0 < k * r" "k * r \<le> 20" using scaled k by linarith+
    ultimately have kr: "\<bar>fl (k * r) - k * r\<bar> \<le> 1 / 10000" "k * (9499 / 10000) \<le> k * r" "k * r \<le> k * (9501 / 10000)"
      using near [of "k * r"] by auto
    define y where "y = fl (k * r) + c"
    have y: "k + 1 / 5000 \<le> y" "y \<le> 15" using kr c k unfolding y_def abs_le_iff by linarith+
    then have "k \<le> fl y" using near [of y] y k unfolding abs_le_iff by linarith
    then have "int (n - 1) \<le> trunc (fl y)"
      using k by (auto simp: trunc_def k_def le_floor_iff)
    then have "n - 1 \<le> nat (trunc (fl y))" by simp
    then show ?thesis unfolding percentile_index_def by (simp add: y_def k_def r_def c_def)
  qed (simp add: percentile_index_def)
qed

lemma sorted_ends:
  assumes "xs \<noteq> []"
  shows "hd (sort xs) \<in> set xs" "last (sort xs) \<in> set xs" "\<forall>x \<in> set xs. hd (sort xs) \<le> x \<and> x \<le> last (sort xs)"
proof -
  have ne: "sort xs \<noteq> []" using assms by (metis set_sort set_empty)
  show "hd (sort xs) \<in> set xs" "last (sort xs) \<in> set xs" using hd_in_set [OF ne] last_in_set [OF ne] by simp_all
  show "\<forall>x \<in> set xs. hd (sort xs) \<le> x \<and> x \<le> last (sort xs)"
  proof
    fix x assume "x \<in> set xs"
    then obtain i where i: "i < length (sort xs)" "sort xs ! i = x" by (metis in_set_conv_nth set_sort)
    with ne show "hd (sort xs) \<le> x \<and> x \<le> last (sort xs)"
      using sorted_nth_mono [OF sorted_sort, of 0 i xs] sorted_nth_mono [OF sorted_sort, of i "length (sort xs) - 1" xs]
      by (simp add: hd_conv_nth last_conv_nth)
  qed
qed

text \<open>At least half of the samples lie on each side of the middle of an odd number of them.\<close>

lemma count_low: "sorted ys \<Longrightarrow> k < length ys \<Longrightarrow> k < length (filter (\<lambda>x. x \<le> ys ! k) ys)"
proof -
  assume s: "sorted ys" and k: "k < length ys"
  have "filter (\<lambda>x. x \<le> ys ! k) (take (Suc k) ys) = take (Suc k) ys"
    using s k by (auto simp: filter_id_conv in_set_conv_nth intro!: sorted_nth_mono)
  then have "Suc k \<le> length (filter (\<lambda>x. x \<le> ys ! k) (take (Suc k) ys @ drop (Suc k) ys))"
    using k unfolding filter_append by simp
  then show ?thesis by simp
qed

lemma count_high: "sorted ys \<Longrightarrow> k < length ys \<Longrightarrow> length ys - k \<le> length (filter (\<lambda>x. ys ! k \<le> x) ys)"
proof -
  assume s: "sorted ys" and k: "k < length ys"
  have "filter (\<lambda>x. ys ! k \<le> x) (drop k ys) = drop k ys"
    using s k by (auto simp: filter_id_conv in_set_conv_nth intro!: sorted_nth_mono)
  then have "length ys - k \<le> length (filter (\<lambda>x. ys ! k \<le> x) (take k ys @ drop k ys))"
    unfolding filter_append by simp
  then show ?thesis by simp
qed

lemma middle_splits:
  fixes xs :: "rat list"
  assumes "odd (length xs)"
  shows "sort xs ! (length xs div 2) \<in> set xs"
    "length xs < 2 * length (filter (\<lambda>x. x \<le> sort xs ! (length xs div 2)) xs)"
    "length xs < 2 * length (filter (\<lambda>x. sort xs ! (length xs div 2) \<le> x) xs)"
proof -
  let ?k = "length xs div 2"
  have k: "?k < length (sort xs)" using assms by (auto elim!: oddE)
  show "sort xs ! ?k \<in> set xs" using nth_mem [OF k] by simp
  have len: "length (filter P (sort xs)) = length (filter P xs)" for P
    by (metis filter_sort length_sort)
  show "length xs < 2 * length (filter (\<lambda>x. x \<le> sort xs ! ?k) xs)"
    using count_low [OF sorted_sort k] len [of "\<lambda>x. x \<le> sort xs ! ?k"] assms by (auto elim!: oddE)
  show "length xs < 2 * length (filter (\<lambda>x. sort xs ! ?k \<le> x) xs)"
    using count_high [OF sorted_sort k] len [of "\<lambda>x. sort xs ! ?k \<le> x"] assms by (auto elim!: oddE)
qed

lemma finite_double_ok: "0 \<le> x \<Longrightarrow> sample_ok (finite_double x)"
  by (simp add: sample_ok_def finite_double_def is_number_def is_float_def is_int_def is_bool_def float_of_def finite_float_def num_less_def
      number_of_def float_extended_def)

lemma summary_Inr:
  assumes "case_summary cid samples ib ops unit conc val = Inr c"
  shows "samples \<noteq> [] \<and> length samples \<le> MAX_SAMPLES \<and> c = obj (summary_entries cid samples ib ops unit conc val)"
  using assms by (auto simp: case_summary_def bindE_eq_Inr)

lemma percentile_max: "samples \<noteq> [] \<Longrightarrow> length samples \<le> MAX_SAMPLES \<Longrightarrow> percentile samples (fl (95 / 100)) = last (sort samples)"
proof -
  assume n: "samples \<noteq> []" "length samples \<le> MAX_SAMPLES"
  have "sort samples \<noteq> []" using n(1) by (metis set_sort set_empty)
  with n percentile_index_max [of "length samples"] show ?thesis by (simp add: percentile_def last_conv_nth)
qed

lemma entry_keys: "list_all (\<lambda>(k, v). k \<in> set CASE_FIELDS) (summary_entries cid samples ib ops unit conc val)"
  by (simp add: summary_entries_def Let_def CASE_FIELDS_def)

lemma summary_fields:
  assumes "c = obj (summary_entries cid samples ib ops unit conc val)"
  shows "dget (items_of c) ''caseId'' = Some (PStr cid)" "dget (items_of c) ''rawSamples'' = Some (PList (map finite_double samples))"
    "dget (items_of c) ''minimum'' = Some (finite_double (hd (sort samples)))" "dget (items_of c) ''maximum'' = Some (finite_double (last (sort samples)))"
    "dget (items_of c) ''median'' = Some (median samples)" "dget (items_of c) ''p95'' = Some (finite_double (percentile samples (fl (95 / 100))))"
    "dget (items_of c) ''sampleCount'' = Some (PInt (int (length samples)))" "dget (items_of c) ''originalSampleCount'' = Some (PInt (int (length samples)))"
    "dget (items_of c) ''retainedSampleCount'' = Some (PInt (int (length samples)))" "dget (items_of c) ''excludedSampleCount'' = Some (PInt 0)"
  unfolding assms dget_obj summary_entries_def Let_def by simp_all

lemma summary_accounted:
  assumes "case_summary cid samples ib ops unit conc val = Inr c" and "\<forall>x \<in> set samples. 0 \<le> x"
  shows "accounted c \<and> check_case c = Inr ()"
proof -
  note s = summary_Inr [OF assms(1)]
  note f = summary_fields [OF s [THEN conjunct2, THEN conjunct2]]
  obtain cs where c: "c = PDict Plain cs" using s by (simp add: obj_def)
  then have items: "items_of c = cs" by simp
  have keys: "keyset_within cs CASE_FIELDS"
    using entry_keys [of cid samples ib ops unit conc val] s c by (auto simp: keyset_within_def obj_def list_all_iff)
  have "1 \<le> length samples \<and> length samples \<le> 15" using s by (simp add: MAX_SAMPLES_def Suc_le_eq)
  moreover have "\<forall>x \<in> set (map finite_double samples). sample_ok x" using assms(2) finite_double_ok by auto
  moreover have "case_id_of c \<noteq> None" using f(1) by (simp add: case_id_of_def dentry_def)
  ultimately have "accounted c"
    unfolding accounted_def using c keys f(2,7-10) [unfolded items]
    by (intro exI [of _ Plain] exI [of _ cs] exI [of _ "map finite_double samples"] exI [of _ "int (length samples)"]) simp
  moreover have "check_case c = Inr ()"
    unfolding check_case_def Let_def items using c keys f(2,7-10) [unfolded items]
    by (simp add: dentry_def py_len_def py_add_def integer_of_def number_of_def is_dict_def)
  ultimately show ?thesis by blast
qed

subsection \<open>Probes\<close>

text \<open>The validator finds an explanation in every turbo record, whatever the kernel shows.\<close>

lemma turbo_explained:
  "explained (key, decode_turbo_probe u quoted source raw)"
  "select_turbo_probe u quoted printed primary fallback = Inr v \<Longrightarrow> explained (key, v)"
proof -
  have parts: "explained (key, available v)" "explained (key, unavailable r)" for v r
    by (simp_all add: explained_def available_def unavailable_def obj_def dhas_def dentry_def dget_def py_same is_str_def)
  then show one: "explained (key, decode_turbo_probe u quoted source raw)" for source raw
    by (simp add: decode_turbo_probe_def Let_def split: option.split)
  show "explained (key, v)" if "select_turbo_probe u quoted printed primary fallback = Inr v"
    using that one parts(2) by (auto simp: select_turbo_probe_def bindE_eq_Inr split: if_splits)
qed

text \<open>The two kernel files have opposite polarity.\<close>

lemma turbo_polarity:
  "decode_turbo_probe u quoted ''intel_pstate/no_turbo'' (py ''1'') = available (ptext ''disabled'')"
  "decode_turbo_probe u quoted ''cpufreq/boost'' (py ''1'') = available (ptext ''enabled'')"
  "decode_turbo_probe u quoted ''intel_pstate/no_turbo'' (py ''0'') = available (ptext ''enabled'')"
  "decode_turbo_probe u quoted ''cpufreq/boost'' (py ''0'') = available (ptext ''disabled'')"
  by (simp_all add: decode_turbo_probe_def TURBO_MAPPINGS_def py_strip_def py_def py_space_def ascii_space_def)

subsection \<open>Answers\<close>

lemma py_eq_number: "number_of v = Some (Some (Fin x)) \<Longrightarrow> py_eq v w \<longleftrightarrow> number_of w = Some (Some (Fin x))"
  by (cases v) (auto simp: number_of_def float_extended_def split: pyfloat.splits option.splits)

lemma py_eq_int: "py_eq v (PInt i) \<longleftrightarrow> number_of v = Some (Some (Fin (of_int i)))"
  by (cases v) (auto simp: number_of_def float_extended_def split: pyfloat.splits)

lemma among_iff: "among v is \<longleftrightarrow> (\<exists>i \<in> set is. number_of v = Some (Some (Fin (of_int i))))"
  by (auto simp: among_def list_ex_iff py_eq_int)

definition acceptable :: "bool \<Rightarrow> pyval \<Rightarrow> bool" where
  "acceptable configured r \<longleftrightarrow> is_dict r \<and> among (field r ''id'') (benchmark_ids configured) \<and> \<not> dhas (items_of r) ''error'' \<and> is_dict (field r ''result'')"

lemma collect_answer_Inr:
  assumes "collect_answer configured found r = Inr found'" and "distinct (map number_of found)"
  shows "found' = found @ [field r ''id''] \<and> acceptable configured r \<and> distinct (map number_of found')"
proof -
  from assms(1) have r: "acceptable configured r" "found' = found @ [field r ''id'']" "\<not> list_ex (\<lambda>v. py_eq v (field r ''id'')) found"
    by (auto simp: collect_answer_def bindE_eq_Inr acceptable_def)
  from r(1) obtain i where i: "number_of (field r ''id'') = Some (Some (Fin (of_int i)))" by (auto simp: acceptable_def among_iff)
  have "number_of v \<noteq> number_of (field r ''id'')" if "v \<in> set found" for v
    using r(3) that py_eq_number [of v "of_int i" "field r ''id''"] i by (auto simp: list_ex_iff)
  with r assms(2) show ?thesis by force
qed

lemma collect_answers_Inr:
  "collect_answers configured found rs = Inr found' \<Longrightarrow> distinct (map number_of found) \<Longrightarrow>
     found' = found @ map (\<lambda>r. field r ''id'') rs \<and> (\<forall>r \<in> set rs. acceptable configured r) \<and> distinct (map number_of found')"
proof (induction rs arbitrary: found)
  case (Cons r rs)
  then obtain f where f: "collect_answer configured found r = Inr f" "collect_answers configured f rs = Inr found'" by (auto simp: bindE_eq_Inr)
  from collect_answer_Inr [OF f(1) Cons.prems(2)] have "f = found @ [field r ''id'']" "acceptable configured r" "distinct (map number_of f)" by auto
  moreover from this Cons.IH [OF f(2)] have "found' = f @ map (\<lambda>r. field r ''id'') rs" "\<forall>r \<in> set rs. acceptable configured r" "distinct (map number_of found')"
    by blast+
  ultimately show ?case by (intro conjI) simp_all
qed simp

lemma single_match: "distinct (map f xs) \<Longrightarrow> y \<in> f ` set xs \<Longrightarrow> length (filter (\<lambda>x. f x = y) xs) = 1"
  by (induction xs) (auto simp: filter_empty_conv, metis image_eqI)

text \<open>What accepted answers are: one object without an error for each id, and the results that the fixtures call for.\<close>

definition complete :: "bool \<Rightarrow> pyval list \<Rightarrow> bool" where
  "complete configured rs \<longleftrightarrow>
     (\<forall>r \<in> set rs. acceptable configured r)
     \<and> (\<forall>i \<in> set (benchmark_ids configured). length (filter (\<lambda>r. py_eq (field r ''id'') (PInt i)) rs) = 1)
     \<and> field (result_of rs 1) ''protocolVersion'' = ptext ''2025-11-25'' \<and> is_dict (field (result_of rs 1) ''capabilities'')
     \<and> is_list (field (result_of rs 2) ''tools'') \<and> (\<not> configured \<longrightarrow> elems (field (result_of rs 2) ''tools'') = [])
     \<and> (configured \<longrightarrow>
          (\<lambda>tool. field tool ''name'') ` set (elems (field (result_of rs 2) ''tools'')) = ptext ` {''logs.search'', ''logs.tail'', ''elf.inspect'', ''proc.memory''}
          \<and> py_len (dentry (items_of (field (result_of rs 10) ''structuredContent'')) ''matches'' (PList [])) = Inr 3
          \<and> py_len (dentry (items_of (field (result_of rs 11) ''structuredContent'')) ''lines'' (PList [])) = Inr 2
          \<and> field (field (result_of rs 12) ''structuredContent'') ''machine'' = ptext ''x86_64''
          \<and> field (field (result_of rs 13) ''structuredContent'') ''pidfdPinned'' = PBool True)"

lemma dict_get_field: "dict_get v k = Inr x \<Longrightarrow> field v k = x"
  by (auto simp: get_default_def field_def dentry_def split: pyval.splits option.splits)

lemma check_listing_Inr:
  assumes "check_listing configured listing = Inr u"
  shows "is_list (field listing ''tools'') \<and> (\<not> configured \<longrightarrow> elems (field listing ''tools'') = [])
    \<and> (configured \<longrightarrow> (\<lambda>tool. field tool ''name'') ` set (elems (field listing ''tools'')) = ptext ` {''logs.search'', ''logs.tail'', ''elf.inspect'', ''proc.memory''})"
proof -
  let ?f = "\<lambda>tool. bindE (dict_get tool ''name'') (\<lambda>name. bindE (checkE (Json_Report.hashable name) TypeError) (\<lambda>_. Inr name))"
  have "set ns = (\<lambda>tool. field tool ''name'') ` set ts" if "mapE ?f ts = Inr ns" for ts ns
    using that by (induction ts arbitrary: ns) (auto simp: bindE_eq_Inr dest!: dict_get_field)
  then show ?thesis using assms
    by (auto simp: check_listing_def bindE_eq_Inr benchmark_calls_def split: if_splits)
qed

lemma validated_complete:
  assumes "validate_responses rd output configured = Inr u"
  shows "\<exists>rs. answer_lines rd output = Inr rs \<and> complete configured rs"
proof -
  from assms obtain rs found where rs: "answer_lines rd output = Inr rs" "collect_answers configured [] rs = Inr found"
      "list_all (\<lambda>i. list_ex (\<lambda>v. py_eq v (PInt i)) found) (benchmark_ids configured)"
      "field (result_of rs 1) ''protocolVersion'' = ptext ''2025-11-25''" "is_dict (field (result_of rs 1) ''capabilities'')"
      "check_listing configured (result_of rs 2) = Inr ()" "configured \<Longrightarrow> check_conclusions rs = Inr ()"
    by (auto simp: validate_responses_def bindE_eq_Inr split: if_splits)
  have found: "found = map (\<lambda>r. field r ''id'') rs" "\<forall>r \<in> set rs. acceptable configured r" "distinct (map (\<lambda>r. number_of (field r ''id'')) rs)"
    using collect_answers_Inr [OF rs(2)] by (auto simp: comp_def)
  have "length (filter (\<lambda>r. py_eq (field r ''id'') (PInt i)) rs) = 1" if "i \<in> set (benchmark_ids configured)" for i
  proof -
    from rs(3) that found(1) have "Some (Some (Fin (of_int i))) \<in> (\<lambda>r. number_of (field r ''id'')) ` set rs"
      by (force simp: list_all_iff list_ex_iff py_eq_int)
    from single_match [OF found(3) this] show ?thesis by (simp add: py_eq_int)
  qed
  moreover have "configured \<Longrightarrow> py_len (dentry (items_of (field (result_of rs 10) ''structuredContent'')) ''matches'' (PList [])) = Inr 3
          \<and> py_len (dentry (items_of (field (result_of rs 11) ''structuredContent'')) ''lines'' (PList [])) = Inr 2
          \<and> field (field (result_of rs 12) ''structuredContent'') ''machine'' = ptext ''x86_64''
          \<and> field (field (result_of rs 13) ''structuredContent'') ''pidfdPinned'' = PBool True"
    using rs(7) by (auto simp: check_conclusions_def Let_def bindE_eq_Inr)
  ultimately have "complete configured rs"
    unfolding complete_def using rs(4,5) found(2) check_listing_Inr [OF rs(6)] by (intro conjI impI ballI) simp_all
  with rs(1) show ?thesis by blast
qed

subsection \<open>Measured runs\<close>

text \<open>The child started at reading \<open>t\<close> succeeded, and its answers are complete.\<close>

definition validated_run :: "campaign \<Rightarrow> bool \<Rightarrow> nat \<Rightarrow> bool" where
  "validated_run K configured t \<longleftrightarrow> (\<exists>data c rs. bounded_run (cp_child K t) (cp_fuel K) True (spawned 0) = Some (Inr data, c)
     \<and> answer_lines (cp_nesting K) data = Inr rs \<and> complete configured rs)"

lemma run_child_Inr: "run_child K t = Some (Inr data, t') \<Longrightarrow> t' = Suc t \<and> (\<exists>c. bounded_run (cp_child K t) (cp_fuel K) True (spawned 0) = Some (Inr data, c))"
  by (auto simp: run_child_def split: option.splits prod.splits)

lemma measured_run_Inr:
  assumes "measured_run K configured t = Some (Inr x, t')"
  shows "t' = t + 3 \<and> elapsed_double (cp_ns K (t + 2) - cp_ns K t) = Inr x \<and> validated_run K configured (t + 1)"
proof -
  from assms obtain data t1 where run: "run_child K (Suc t) = Some (Inr data, t1)"
    and rest: "bindM (nanoseconds K) (\<lambda>ended. bindM (liftM (elapsed_double (ended - cp_ns K t))) (\<lambda>elapsed.
        bindM (liftM (validate_responses (cp_nesting K) data configured)) (\<lambda>_. retM elapsed))) t1 = Some (Inr x, t')"
    by (auto simp: measured_run_def bindM_def nanoseconds_def split: option.splits sum.splits)
  from run_child_Inr [OF run] have t1: "t1 = t + 2" and child: "\<exists>c. bounded_run (cp_child K (t + 1)) (cp_fuel K) True (spawned 0) = Some (Inr data, c)" by auto
  from rest t1 have "elapsed_double (cp_ns K (t + 2) - cp_ns K t) = Inr x" "validate_responses (cp_nesting K) data configured = Inr ()" "t' = t + 3"
    by (auto simp: bindM_def nanoseconds_def split: option.splits sum.splits)
  with child validated_complete show ?thesis by (fastforce simp: validated_run_def)
qed

lemma measured_runs_Inr:
  "measured_runs K configured n t = Some (Inr xs, t') \<Longrightarrow> length xs = n
     \<and> (\<forall>j < n. elapsed_double (cp_ns K (t + 3 * j + 2) - cp_ns K (t + 3 * j)) = Inr (xs ! j) \<and> validated_run K configured (t + 3 * j + 1))"
proof (induction n arbitrary: t xs)
  case (Suc n)
  then obtain x t1 rest where x: "measured_run K configured t = Some (Inr x, t1)" "measured_runs K configured n t1 = Some (Inr rest, t')" "xs = x # rest"
    by (auto simp: bindM_eq_Some)
  note one = measured_run_Inr [OF x(1)]
  have "elapsed_double (cp_ns K (t + 3 * j + 2) - cp_ns K (t + 3 * j)) = Inr (xs ! j) \<and> validated_run K configured (t + 3 * j + 1)" if "j < Suc n" for j
    using that one Suc.IH [OF x(2)] x(3) by (cases j) (auto simp: algebra_simps)
  with Suc.IH [OF x(2)] x(3) show ?case by simp
qed simp

lemma double_nonneg: "0 \<le> r \<Longrightarrow> double_of_rat r = FFin x \<Longrightarrow> 0 \<le> x"
  using rounded_nonneg [of r] by (auto simp: double_of_rat_def Let_def split: if_splits)

lemma elapsed_nonneg:
  assumes "0 \<le> i" and "elapsed_double i = Inr x"
  shows "0 \<le> x"
proof -
  from assms(2) have "double_of_rat (of_int i) = FFin x"
    by (cases "double_of_rat (of_int i)") (auto simp: elapsed_double_def float_of_def finite_float_def)
  with assms(1) show ?thesis using double_nonneg [of "of_int i"] by simp
qed

lemma e2e_case_Inr:
  assumes "e2e_case K cid configured t = Some (Inr c, t')"
  shows "\<exists>payload data t1 xs. run_child K t = Some (Inr data, t1) \<and> validate_responses (cp_nesting K) data configured = Inr ()
    \<and> measured_runs K configured 5 t1 = Some (Inr xs, t')
    \<and> case_summary cid xs (length (payload :: pybytes)) 1 ''nanoseconds_per_scenario'' (if configured then 4 else 1) False = Inr c"
  using assms unfolding e2e_case_def bindM_eq_Some by (clarsimp simp del: measured_runs.simps split del: if_split) (intro exI conjI, assumption+)

section \<open>Properties\<close>

text \<open>
  C26: The record of an end-to-end case is made of five samples, each the time around one run of the server whose answers were complete, after a
  warm-up run that was checked in the same way. With a clock that does not go back, the validator accepts the accounting of the record. Its minimum, maximum and median are
  samples, at least half of the samples lie on each side of the median, and the 95th percentile of so few samples is the maximum.
\<close>

theorem end_to_end_cases_are_measured:
  assumes "e2e_case K cid configured t = Some (Inr c, t')" and "\<And>i. cp_ns K i \<le> cp_ns K (Suc i)"
  shows "accounted c \<and> check_case c = Inr () \<and> validated_run K configured t
    \<and> (\<exists>xs lo mid hi. dget (items_of c) ''rawSamples'' = Some (PList (map finite_double xs)) \<and> length xs = 5
        \<and> (\<forall>j < 5. elapsed_double (cp_ns K (t + 3 * j + 3) - cp_ns K (t + 3 * j + 1)) = Inr (xs ! j) \<and> validated_run K configured (t + 3 * j + 2))
        \<and> dget (items_of c) ''minimum'' = Some (finite_double lo) \<and> dget (items_of c) ''median'' = Some (finite_double mid)
        \<and> dget (items_of c) ''maximum'' = Some (finite_double hi) \<and> dget (items_of c) ''p95'' = Some (finite_double hi)
        \<and> {lo, mid, hi} \<subseteq> set xs \<and> (\<forall>x \<in> set xs. lo \<le> x \<and> x \<le> hi)
        \<and> 3 \<le> length (filter (\<lambda>x. x \<le> mid) xs) \<and> 3 \<le> length (filter (\<lambda>x. mid \<le> x) xs))"
proof -
  obtain payload :: pybytes and data t1 xs where run: "run_child K t = Some (Inr data, t1)" "validate_responses (cp_nesting K) data configured = Inr ()"
      "measured_runs K configured 5 t1 = Some (Inr xs, t')"
    and sum: "case_summary cid xs (length payload) 1 ''nanoseconds_per_scenario'' (if configured then 4 else 1) False = Inr c"
    using e2e_case_Inr [OF assms(1)] by blast
  have t1: "t1 = Suc t" and warm: "validated_run K configured t"
    using run_child_Inr [OF run(1)] validated_complete [OF run(2)] by (auto simp: validated_run_def)
  have xs: "length xs = 5" and each: "\<forall>j < 5. elapsed_double (cp_ns K (t + 3 * j + 3) - cp_ns K (t + 3 * j + 1)) = Inr (xs ! j) \<and> validated_run K configured (t + 3 * j + 2)"
    using measured_runs_Inr [OF run(3)] t1 by (auto simp: eval_nat_numeral)
  have ns: "cp_ns K a \<le> cp_ns K b" if "a \<le> b" for a b using lift_Suc_mono_le [of "cp_ns K", OF assms(2) that] .
  have "0 \<le> xs ! j" if "j < 5" for j
    using each that elapsed_nonneg ns [of "t + 3 * j + 1" "t + 3 * j + 3"] by (metis add_le_cancel_left diff_ge_0_iff_ge one_le_numeral)
  then have "\<forall>x \<in> set xs. 0 \<le> x" using xs by (auto simp: in_set_conv_nth)
  note acc = summary_accounted [OF sum this]
  from xs have ne: "xs \<noteq> []" and odd: "odd (length xs)" by auto
  note f = summary_fields [OF summary_Inr [OF sum, THEN conjunct2, THEN conjunct2]]
  have p95: "percentile xs (fl (95 / 100)) = last (sort xs)" using percentile_max [OF ne] xs by (simp add: MAX_SAMPLES_def)
  have mid: "median xs = finite_double (sort xs ! (length xs div 2))" using odd by (simp add: median_def Let_def)
  note m = middle_splits [OF odd]
  show ?thesis
    using acc warm each xs f(2,3,4,5,6) p95 mid sorted_ends [OF ne] m
    by (intro conjI exI [of _ xs] exI [of _ "hd (sort xs)"] exI [of _ "sort xs ! (length xs div 2)"] exI [of _ "last (sort xs)"]) simp_all
qed

text \<open>An unconfigured server that answers at once, and a clock that counts.\<close>

definition sample_replies :: "pyval list" where
  "sample_replies =
     [obj [(''id'', PInt 1), (''result'', obj [(''capabilities'', obj []), (''protocolVersion'', ptext ''2025-11-25'')])],
      obj [(''id'', PInt 2), (''result'', obj [(''tools'', PList [])])]]"

definition sample_output :: pybytes where
  "sample_output = concat (map (\<lambda>v. text_of_json v @ [10]) sample_replies)"

lemma sample_replies_settled: "v \<in> set sample_replies \<Longrightarrow> settled 3 v"
  unfolding sample_replies_def by (auto intro!: settled_obj settled_list simp: dec.simps MAX_STR_DIGITS_def) (simp_all add: py_def)

lemma sample_replies_read: "answer_lines 8 sample_output = Inr sample_replies"
proof -
  let ?texts = "map text_of_json sample_replies"
  have p: "\<forall>l \<in> set ?texts. printable l" using settled_text(2) [OF sample_replies_settled, of _ 8] by auto
  have "sample_output = concat (map (\<lambda>l. l @ [10]) ?texts)" by (simp add: sample_output_def comp_def)
  moreover have "mapE (json_loads 8) ?texts = Inr sample_replies"
    using settled_text(3) [OF sample_replies_settled, of _ 8] by (simp add: sample_replies_def)
  ultimately show ?thesis using decode_texts [OF p] splitlines_texts [OF p] by (simp add: answer_lines_def)
qed

lemma sample_validated: "validate_responses 8 sample_output False = Inr ()"
  by (simp add: validate_responses_def sample_replies_read sample_replies_def collect_answer_def among_def benchmark_ids_def dget_obj dhas_def
      number_of_def result_of_def check_listing_def is_list_def)

lemma sample_output_short: "length sample_output \<le> 8192 \<and> sample_output \<noteq> []"
  by (simp add: sample_output_def sample_replies_def text_of_json_def obj_def dumps_int_def dec_int_def dec.simps MAX_STR_DIGITS_def py_def dumps_str_def
     escape_char_def key_text_def)

definition sample_server :: child_world where
  "sample_server = \<lparr> cw_clock = (\<lambda>n. 0), cw_exit = (\<lambda>_. Some 0), cw_reaped = (\<lambda>_. - 9),
     cw_ready = (\<lambda>n. if n < 10 then [(Out, Data sample_output)] else [(Out, Data []), (Err, Data [])]), cw_fault = (\<lambda>_. None) \<rparr>"

lemma sample_events:
  "bench_event (s, Data []) = drop_stream s"
  "k_out c = [] \<Longrightarrow> bench_event (Out, Data sample_output) c = Some (Inr (), c\<lparr>k_out := sample_output\<rparr>)"
  using sample_output_short
  by (simp_all add: bench_event_def bindM_def Bounded_Child.extend_def Bounded_Child.buffer_def bench_limit_def OUTPUT_LIMIT_def)

lemma sample_server_run: "\<exists>c. bounded_run sample_server 4 True (spawned 0) = Some (Inr sample_output, c)"
  by (simp add: bounded_run_def write_input_def callK_eq watch_def bench_read_def bindM_def seeK_def finallyM_def tryM_def sample_server_def spawned_def
      eval_nat_numeral pump_round_def sample_events drop_stream_def poll_def PROCESS_TIMEOUT_def)

definition sample_campaign :: campaign where
  "sample_campaign = \<lparr> cp_child = (\<lambda>_. sample_server), cp_ns = int, cp_fuel = 4, cp_nesting = 8, cp_stored = (\<lambda>_. Inr ()), cp_fixtures = [] \<rparr>"

lemma sample_elapsed: "elapsed_double 2 = Inr 2"
  by (simp add: elapsed_double_def float_of_def double_of_rat_def finite_float_def binary_exponent_def bit_count.simps pow2_def round_half_even_def)

lemma sample_child_run: "run_child sample_campaign t = Some (Inr sample_output, Suc t)"
  using sample_server_run by (auto simp: run_child_def sample_campaign_def)

lemma sample_measured: "measured_run sample_campaign False t = Some (Inr 2, t + 3)"
  by (simp add: measured_run_def nanoseconds_def bindM_def sample_child_run) (simp add: sample_campaign_def sample_elapsed sample_validated bindM_def)

lemma exact_obj: "distinct (map fst kvs) \<Longrightarrow> \<forall>(k, v) \<in> set kvs. exact_json v \<Longrightarrow> exact_json (obj kvs)"
proof -
  assume "distinct (map fst kvs)" and each: "\<forall>(k, v) \<in> set kvs. exact_json v"
  then have "distinct (map (\<lambda>k. SKey (py k)) (map fst kvs))" unfolding distinct_map [of _ "map fst kvs"] by (auto simp: inj_on_def py_same)
  moreover have "map fst (map (\<lambda>(k, v). (SKey (py k), v)) kvs) = map (\<lambda>k. SKey (py k)) (map fst kvs)" by auto
  ultimately have "distinct (map fst (map (\<lambda>(k, v). (SKey (py k), v)) kvs))" by metis
  with each show ?thesis by (auto simp: obj_def scalar_py)
qed

lemma sample_payload: "\<exists>b. benchmark_payload stored path False = Inr b"
proof -
  have each: "\<exists>t. canonical_line v = Inr t \<and> isascii t" if "v \<in> set (benchmark_messages False)" for v
  proof -
    have "exact_json v" using that
      by (auto simp: benchmark_messages_def benchmark_initialize_def request_message_def dec.simps MAX_STR_DIGITS_def scalar_py intro!: exact_obj)
    then show ?thesis using dumps_total by (fastforce simp: canonical_line_def)
  qed
  then obtain ts where ts: "mapE canonical_line (benchmark_messages False) = Inr ts"
    using mapE_Inr_exists [of canonical_line "benchmark_messages False"] by blast
  have "isascii t" if "t \<in> set ts" for t
    using mapE_all [OF ts _ that, of isascii] each by force
  then have "isascii (concat ts)" by (induction ts) auto
  with ts show ?thesis by (simp add: benchmark_payload_def)
qed

theorem end_to_end_cases_are_measured_witness:
  "\<exists>c t'. e2e_case sample_campaign (py ''e2e'') False 0 = Some (Inr c, t') \<and> accounted c \<and> validated_run sample_campaign False 0"
proof -
  have five: "measured_runs sample_campaign False 5 1 = Some (Inr [2, 2, 2, 2, 2], 16)"
    by (simp add: eval_nat_numeral sample_measured bindM_def)
  have check: "validate_responses (cp_nesting sample_campaign) sample_output False = Inr ()" by (simp add: sample_campaign_def sample_validated)
  obtain b where b: "benchmark_payload (cp_stored sample_campaign) (cp_fixtures sample_campaign) False = Inr b" using sample_payload by blast
  have "\<exists>c t'. e2e_case sample_campaign (py ''e2e'') False 0 = Some (Inr c, t')"
    using five by (simp add: e2e_case_def bindM_def b sample_child_run check case_summary_def MAX_SAMPLES_def del: measured_runs.simps)
  then obtain c t' where run: "e2e_case sample_campaign (py ''e2e'') False 0 = Some (Inr c, t')" by blast
  have "cp_ns sample_campaign i \<le> cp_ns sample_campaign (Suc i)" for i by (simp add: sample_campaign_def)
  from end_to_end_cases_are_measured [OF run this] run show ?thesis by blast
qed

end
