(* ===== verification/Investigation.thy ===== *)
theory Investigation
  imports Investigation_Checks
begin

text \<open>
  The run of \<open>scripts/run_agent_investigation_demo.py\<close>: the server as a bounded child, the temporary directory with the fixtures,
  and the two report files, each written to a temporary file and moved into place. The files of the output directory are an association
  list; a file operation has a name, under which the outside world may let it fail. The name that \<open>mkstemp\<close> makes up, the file that \<open>copyfile\<close>
  sees and what a failed write leaves in a file come from outside too.
\<close>

section \<open>Definitions\<close>

record lab_world =
  lw_child :: child_world
  lw_nesting :: nat
  lw_fault :: "string \<Rightarrow> exn option"
  lw_output_is_dir :: bool
  lw_server_is_file :: bool
  lw_fixture_is_file :: bool
  lw_fixture_size :: nat
  lw_fixture :: pybytes
  lw_server_path :: pystr
  lw_root_path :: pystr
  lw_policy_path :: pystr
  lw_random :: "string \<Rightarrow> string"
  lw_partial :: "string \<Rightarrow> pybytes"

record lab =
  l_files :: "(string \<times> pybytes) list"
  l_root :: "(string \<times> pybytes) list option"
  l_child :: "child option"

type_synonym 'a labor = "(lab, 'a) eff"

definition doL :: "lab_world \<Rightarrow> string \<Rightarrow> unit labor" where
  "doL W name = liftM (case lw_fault W name of Some e \<Rightarrow> Inl e | None \<Rightarrow> Inr ())"

definition al_remove :: "string \<Rightarrow> (string \<times> pybytes) list \<Rightarrow> (string \<times> pybytes) list" where
  "al_remove name fs = filter (\<lambda>(n, _). n \<noteq> name) fs"

definition put_root :: "string \<Rightarrow> pybytes \<Rightarrow> unit labor" where
  "put_root name b = modifyM (\<lambda>s. s\<lparr>l_root := map_option (al_set name b) (l_root s)\<rparr>)"

subsection \<open>The server\<close>

text \<open>\<open>run_server\<close> on the child that \<open>Popen\<close> makes; the first system call is \<open>Popen\<close> itself.\<close>

definition serve :: "child_world \<Rightarrow> nat \<Rightarrow> pystr \<Rightarrow> (child, pybytes \<times> pybytes) eff" where
  "serve W fuel input =
     tryM (bindM (liftM (case utf8_encode input of None \<Rightarrow> Inl UnicodeEncodeError | Some b \<Rightarrow> Inr b)) (\<lambda>_. read_streams_bounded W fuel))
       (\<lambda>e. if e = DemoError \<or> is_os_error e then bindM (terminate_child W) (\<lambda>_. raiseM e) else raiseM e)"

definition server_command :: "pystr \<Rightarrow> pystr \<Rightarrow> pystr list" where
  "server_command server policy = [server, py ''--policy-config'', policy]"

definition run_server :: "child_world \<Rightarrow> nat \<Rightarrow> nat \<Rightarrow> pystr \<Rightarrow> pystr \<Rightarrow> pystr \<Rightarrow> (child, responses) eff" where
  "run_server W fuel rd server policy input =
     bindM (checkM (py ''--allow-legacy-descriptor-walk'' \<notin> set (server_command server policy)) DemoError) (\<lambda>_.
     bindM (checkM (py ''--allow-legacy-process-pinning'' \<notin> set (server_command server policy)) DemoError) (\<lambda>_.
     bindM (callK W) (\<lambda>_.
     bindM (serve W fuel input) (\<lambda>(data, errors).
     bindM (checkM (errors = []) DemoError) (\<lambda>_.
     bindM (getM k_status) (\<lambda>status.
     bindM (checkM (status = Some 0) DemoError) (\<lambda>_.
     liftM (server_answers rd data))))))))"

definition with_child :: "(child, 'a) eff \<Rightarrow> 'a labor" where
  "with_child m = (\<lambda>s. case m (spawned 0) of None \<Rightarrow> None | Some (r, c) \<Rightarrow> Some (r, s\<lparr>l_child := Some c\<rparr>))"

subsection \<open>Report files\<close>

definition temporary_name :: "lab_world \<Rightarrow> string \<Rightarrow> string" where
  "temporary_name W name = ''.'' @ name @ ''.'' @ lw_random W name @ ''.tmp''"

text \<open>The write, flush and sync of the temporary file.\<close>

definition fill :: "lab_world \<Rightarrow> string \<Rightarrow> string \<Rightarrow> pybytes \<Rightarrow> unit labor" where
  "fill W name temp b = (\<lambda>s. case lw_fault W (name @ '':write'') of
      Some e \<Rightarrow> Some (Inl e, s\<lparr>l_files := al_set temp (lw_partial W name) (l_files s)\<rparr>)
    | None \<Rightarrow> Some (Inr (), s\<lparr>l_files := al_set temp b (l_files s)\<rparr>))"

definition discard_temporary :: "lab_world \<Rightarrow> string \<Rightarrow> string \<Rightarrow> unit labor" where
  "discard_temporary W name temp =
     bindM (getM l_files) (\<lambda>fs.
     if temp \<in> fst ` set fs then
       bindM (doL W (name @ '':unlink'')) (\<lambda>_. modifyM (\<lambda>s. s\<lparr>l_files := al_remove temp (l_files s)\<rparr>))
     else retM ())"

definition atomic_write_text :: "lab_world \<Rightarrow> string \<Rightarrow> pybytes \<Rightarrow> unit labor" where
  "atomic_write_text W name b =
     (let temp = temporary_name W name in
      bindM (doL W (name @ '':create'')) (\<lambda>_.
      bindM (modifyM (\<lambda>s. s\<lparr>l_files := al_set temp [] (l_files s)\<rparr>)) (\<lambda>_.
      finallyM
        (bindM (fill W name temp b) (\<lambda>_.
         bindM (doL W (name @ '':replace'')) (\<lambda>_.
         modifyM (\<lambda>s. s\<lparr>l_files := al_set name b (al_remove temp (l_files s))\<rparr>))))
        (discard_temporary W name temp))))"

definition write_reports :: "lab_world \<Rightarrow> pyval \<Rightarrow> unit labor" where
  "write_reports W report =
     bindM (liftM (canonical_bytes report)) (\<lambda>json.
     bindM (atomic_write_text W ''report.json'' json) (\<lambda>_.
     atomic_write_text W ''report.md'' investigation_markdown))"

text \<open>\<open>unlink\<close> of a file that is not there is passed over.\<close>

definition remove_old :: "lab_world \<Rightarrow> string \<Rightarrow> unit labor" where
  "remove_old W name =
     bindM (getM l_files) (\<lambda>fs.
     if name \<in> fst ` set fs then
       bindM (doL W (name @ '':remove'')) (\<lambda>_. modifyM (\<lambda>s. s\<lparr>l_files := al_remove name (l_files s)\<rparr>))
     else retM ())"

definition remove_old_reports :: "lab_world \<Rightarrow> unit labor" where
  "remove_old_reports W = forM (remove_old W) [''report.json'', ''report.md'']"

subsection \<open>The run\<close>

definition copy_fixture :: "lab_world \<Rightarrow> unit labor" where
  "copy_fixture W =
     bindM (checkM (lw_fixture_is_file W) DemoError) (\<lambda>_.
     bindM (doL W ''fixture:stat'') (\<lambda>_.
     bindM (checkM (lw_fixture_size W \<le> FIXTURE_SIZE_LIMIT) DemoError) (\<lambda>_.
     bindM (doL W ''fixture:copy'') (\<lambda>_.
     bindM (put_root LOG_NAME (lw_fixture W)) (\<lambda>_.
     bindM (doL W ''fixture:chmod'') (\<lambda>_.
     bindM (doL W ''fixture:size'') (\<lambda>_.
     checkM (length (lw_fixture W) = lw_fixture_size W) DemoError)))))))"

definition write_minimal_elf :: "lab_world \<Rightarrow> unit labor" where
  "write_minimal_elf W =
     bindM (checkM (length minimal_elf = 64) DemoError) (\<lambda>_.
     bindM (doL W ''elf:write'') (\<lambda>_.
     bindM (put_root ELF_NAME minimal_elf) (\<lambda>_. doL W ''elf:chmod'')))"

definition make_policy :: "lab_world \<Rightarrow> unit labor" where
  "make_policy W =
     bindM (liftM (dumps (investigation_policy (lw_root_path W)))) (\<lambda>t.
     bindM (doL W ''policy:write'') (\<lambda>_.
     bindM (put_root ''policy.json'' (t @ [10])) (\<lambda>_. doL W ''policy:chmod'')))"

definition read_log :: "lab_world \<Rightarrow> pybytes labor" where
  "read_log W =
     bindM (doL W ''log:read'') (\<lambda>_.
     bindM (getM l_root) (\<lambda>files. liftM (case files of
       None \<Rightarrow> Inl OSError
     | Some fs \<Rightarrow> (case map_of fs LOG_NAME of None \<Rightarrow> Inl OSError | Some b \<Rightarrow> Inr b))))"

definition in_root :: "lab_world \<Rightarrow> nat \<Rightarrow> unit labor" where
  "in_root W fuel =
     bindM (copy_fixture W) (\<lambda>_.
     bindM (write_minimal_elf W) (\<lambda>_.
     bindM (make_policy W) (\<lambda>_.
     bindM (liftM protocol_input) (\<lambda>input.
     bindM (with_child (run_server (lw_child W) fuel (lw_nesting W) (lw_server_path W) (lw_policy_path W) input)) (\<lambda>answers.
     bindM (read_log W) (\<lambda>log_bytes.
     bindM (liftM (investigation_report (lw_nesting W) answers protocol_messages tool_calls log_bytes)) (\<lambda>canonical_report.
     bindM (checkM (field canonical_report ''conclusion'' = ptext ''healthy_final_state_confirmed'') DemoError) (\<lambda>_.
     write_reports W canonical_report))))))))"

text \<open>\<open>shutil.rmtree(root, ignore_errors=True)\<close> raises nothing, but leaves what it cannot remove.\<close>

definition remove_root :: "lab_world \<Rightarrow> unit labor" where
  "remove_root W = modifyM (\<lambda>s. if lw_fault W ''root:remove'' = None then s\<lparr>l_root := None\<rparr> else s)"

definition run_investigation :: "lab_world \<Rightarrow> nat \<Rightarrow> unit labor" where
  "run_investigation W fuel =
     bindM (doL W ''output:create'') (\<lambda>_.
     bindM (checkM (lw_output_is_dir W) DemoError) (\<lambda>_.
     bindM (remove_old_reports W) (\<lambda>_.
     bindM (checkM (lw_server_is_file W) DemoError) (\<lambda>_.
     bindM (doL W ''root:create'') (\<lambda>_.
     bindM (modifyM (\<lambda>s. s\<lparr>l_root := Some []\<rparr>)) (\<lambda>_.
     finallyM (in_root W fuel) (remove_root W)))))))"

text \<open>\<open>main\<close> after the parsing of its arguments: the exit status.\<close>

definition main_investigation :: "lab_world \<Rightarrow> nat \<Rightarrow> nat labor" where
  "main_investigation W fuel =
     tryM (bindM (run_investigation W fuel) (\<lambda>_. retM 0))
       (\<lambda>e. if e = DemoError \<or> is_os_error e \<or> is_value_error e then retM 1 else raiseM e)"

section \<open>Lemmas\<close>

subsection \<open>The server\<close>

lemma serve_cases:
  assumes "serve W fuel input (spawned t) = Some (r, c')" and "os_calls W" and "utf8_encode input \<noteq> None"
  shows "k_status c' \<noteq> None \<and> k_open c' = [] \<and> \<not> k_stdin c'
    \<and> (case r of Inl e \<Rightarrow> demo_exn e | Inr (data, errors) \<Rightarrow> data = k_out c' \<and> errors = [] \<and> k_err c' = [] \<and> length data \<le> PROTOCOL_OUTPUT_LIMIT)"
proof -
  let ?m = "bindM (liftM (case utf8_encode input of None \<Rightarrow> Inl UnicodeEncodeError | Some b \<Rightarrow> Inr b)) (\<lambda>_. read_streams_bounded W fuel)"
  have m: "?m = read_streams_bounded W fuel" using assms(3) by (auto simp: bindM_def fun_eq_iff)
  from assms(1) consider x where "read_streams_bounded W fuel (spawned t) = Some (Inr x, c')" "r = Inr x"
    | e c1 where "read_streams_bounded W fuel (spawned t) = Some (Inl e, c1)"
        "(if e = DemoError \<or> is_os_error e then bindM (terminate_child W) (\<lambda>_. raiseM e) else raiseM e) c1 = Some (r, c')"
    unfolding serve_def m by (auto simp: tryM_def split: option.splits sum.splits)
  then show ?thesis
  proof cases
    case (1 x)
    with read_result [of W fuel t "fst x" "snd x" c'] show ?thesis by (auto simp: silent_fit_def)
  next
    case (2 e c1)
    have e: "demo_exn e" using raises_onlyD [OF raises_read [OF assms(2)] 2(1)] .
    with 2(2) terminate_total [of W c1] show ?thesis by (auto simp: demo_exn_def bindM_def)
  qed
qed

lemma accept_line_Inr:
  assumes "accept_line rd seen line = Inr seen'"
  shows "\<exists>i m. seen' = seen @ [(i, m)] \<and> i \<notin> fst ` set seen \<and> i \<in> set expected_ids \<and> is_dict m \<and> \<not> dhas (items_of m) ''error''
    \<and> dget (items_of m) ''id'' = Some (PInt i)"
proof -
  from assms obtain m where m: "is_dict m" and id: "(case dentry (items_of m) ''id'' PNone of PInt i \<Rightarrow>
       bindE (require (i \<notin> fst ` set seen)) (\<lambda>_. bindE (require (i \<in> set expected_ids)) (\<lambda>_.
       bindE (require (\<not> dhas (items_of m) ''error'')) (\<lambda>_. Inr (seen @ [(i, m)])))) | _ \<Rightarrow> Inl DemoError) = Inr seen'"
    by (auto simp: accept_line_def bindE_eq_Inr)
  from id obtain i where i: "dentry (items_of m) ''id'' PNone = PInt i" by (cases "dentry (items_of m) ''id'' PNone") auto
  then have "dget (items_of m) ''id'' = Some (PInt i)" by (auto simp: dentry_def split: option.splits)
  with id i m show ?thesis by (auto simp: bindE_eq_Inr)
qed

text \<open>What the accepted answers are: objects without an error, each under its own expected id, no id twice.\<close>

definition answers_ok :: "responses \<Rightarrow> bool" where
  "answers_ok rs \<longleftrightarrow> distinct (map fst rs) \<and> (\<forall>(i, m) \<in> set rs. i \<in> set expected_ids \<and> is_dict m \<and> \<not> dhas (items_of m) ''error''
     \<and> dget (items_of m) ''id'' = Some (PInt i))"

lemma accept_lines_ok: "accept_lines rd seen ls = Inr rs \<Longrightarrow> answers_ok seen \<Longrightarrow> answers_ok rs"
proof (induction ls arbitrary: seen)
  case (Cons line ls)
  then obtain seen' where s: "accept_line rd seen line = Inr seen'" "accept_lines rd seen' ls = Inr rs" by (auto simp: bindE_eq_Inr)
  from accept_line_Inr [OF s(1)] Cons.prems(2) have "answers_ok seen'" by (auto simp: answers_ok_def)
  with Cons.IH s(2) show ?case by blast
qed simp

lemma server_answers_ok:
  assumes "server_answers rd data = Inr rs"
  shows "answers_ok rs \<and> set (map fst rs) = set expected_ids"
proof -
  from assms obtain ls where "accept_lines rd [] ls = Inr rs" "set (map fst rs) = set expected_ids"
    by (auto simp: server_answers_def bindE_eq_Inr split: option.splits)
  moreover have "answers_ok []" by (simp add: answers_ok_def)
  ultimately show ?thesis using accept_lines_ok by blast
qed

subsection \<open>The report files\<close>

lemma map_of_remove [simp]: "map_of (al_remove name fs) n = (if n = name then None else map_of fs n)"
  by (induction fs) (auto simp: al_remove_def)

lemma keys_remove [simp]: "fst ` set (al_remove name fs) = fst ` set fs - {name}"
  by (force simp: al_remove_def)

lemma temporary_fresh [simp]:
  "temporary_name W n \<noteq> ''report.json''" "temporary_name W n \<noteq> ''report.md''" "''report.json'' \<noteq> temporary_name W n" "''report.md'' \<noteq> temporary_name W n"
  "temporary_name W ''report.json'' \<noteq> temporary_name W ''report.md''" "temporary_name W ''report.md'' \<noteq> temporary_name W ''report.json''"
  by (simp_all add: temporary_name_def)

lemma doL_eq: "doL W name s = Some (case lw_fault W name of None \<Rightarrow> Inr () | Some e \<Rightarrow> Inl e, s)"
  by (simp add: doL_def split: option.splits)

lemma fill_and_move:
  assumes "bindM (fill W name temp b) (\<lambda>_. bindM (doL W x) (\<lambda>_. modifyM (\<lambda>s. s\<lparr>l_files := al_set name b (al_remove temp (l_files s))\<rparr>))) s = Some (r, t)"
  shows "(\<exists>e. r = Inl e) \<and> (\<forall>n. n \<noteq> temp \<longrightarrow> map_of (l_files t) n = map_of (l_files s) n) \<or> r = Inr () \<and> l_files t = al_set name b (al_remove temp (al_set temp b (l_files s)))"
  using assms by (auto simp: fill_def bindM_def doL_eq split: option.splits)

lemma discard_Some:
  assumes "discard_temporary W name temp s = Some (r, t)"
  shows "r = Inr () \<and> l_files t = al_remove temp (l_files s) \<or> l_files t = l_files s \<and> (r = Inr () \<longrightarrow> temp \<notin> fst ` set (l_files s))"
  using assms by (auto simp: discard_temporary_def bindM_def doL_eq split: option.splits if_splits)

lemma atomic_write_Some:
  assumes "atomic_write_text W name b s = Some (r, s')" and "temporary_name W name \<noteq> name"
  shows "(\<forall>n. n \<noteq> name \<and> n \<noteq> temporary_name W name \<longrightarrow> map_of (l_files s') n = map_of (l_files s) n)
    \<and> map_of (l_files s') name \<in> {map_of (l_files s) name, Some b}
    \<and> (r = Inr () \<longrightarrow> map_of (l_files s') name = Some b \<and> map_of (l_files s') (temporary_name W name) = None)"
proof -
  let ?temp = "temporary_name W name"
  let ?body = "bindM (fill W name ?temp b) (\<lambda>_. bindM (doL W (name @ '':replace'')) (\<lambda>_. modifyM (\<lambda>s. s\<lparr>l_files := al_set name b (al_remove ?temp (l_files s))\<rparr>)))"
  consider e where "r = Inl e" "s' = s"
    | "finallyM ?body (discard_temporary W name ?temp) (s\<lparr>l_files := al_set ?temp [] (l_files s)\<rparr>) = Some (r, s')"
    using assms(1) unfolding atomic_write_text_def Let_def bindM_eq_Some [of "doL _ (_ @ '':create'')"] bindM_eq_Some [of "modifyM _"]
    by (auto simp: doL_eq split: option.splits)
  then show ?thesis
  proof cases
    case 2
    then obtain rb s2 q where body: "?body (s\<lparr>l_files := al_set ?temp [] (l_files s)\<rparr>) = Some (rb, s2)"
        and out: "discard_temporary W name ?temp s2 = Some (q, s')" "r = (case q of Inl e \<Rightarrow> Inl e | Inr _ \<Rightarrow> rb)"
      by (auto simp: finallyM_def split: option.splits sum.splits prod.splits)
    from fill_and_move [OF body] have files: "(\<exists>e. rb = Inl e) \<and> (\<forall>n. n \<noteq> ?temp \<longrightarrow> map_of (l_files s2) n = map_of (l_files s) n)
        \<or> rb = Inr () \<and> l_files s2 = al_set name b (al_remove ?temp (al_set ?temp b (al_set ?temp [] (l_files s))))" by simp
    have s2: "map_of (l_files s2) n = (if n = name \<and> rb = Inr () then Some b else map_of (l_files s) n)" if "n \<noteq> ?temp" for n
      using files that by (elim disjE conjE exE) simp_all
    have s': "map_of (l_files s') n = map_of (l_files s2) n" if "n \<noteq> ?temp" for n
      using discard_Some [OF out(1)] that by auto
    have "q = Inr () \<longrightarrow> map_of (l_files s') ?temp = None"
      using discard_Some [OF out(1)] by (elim disjE conjE) (simp_all add: map_of_eq_None_iff [of "l_files s2"])
    with out(2) assms(2) show ?thesis by (cases q) (auto simp: s2 s')
  qed simp
qed

text \<open>The text of each report file: it does not depend on the server.\<close>

definition report_text :: "string \<Rightarrow> pybytes" where
  "report_text name = (if name = ''report.json'' then (case canonical_bytes (report_body protocol_messages tool_calls) of Inr b \<Rightarrow> b | Inl _ \<Rightarrow> [])
     else investigation_markdown)"

definition REPORTS :: "string set" where
  "REPORTS = {''report.json'', ''report.md''}"

text \<open>How the files change: other files stay, a report is as before or complete, and after success both are complete without a temporary file.\<close>

definition filed :: "lab_world \<Rightarrow> (string \<times> pybytes) list \<Rightarrow> unit outcome \<Rightarrow> (string \<times> pybytes) list \<Rightarrow> bool" where
  "filed W fs r fs' \<longleftrightarrow>
     (\<forall>n. n \<notin> REPORTS \<union> temporary_name W ` REPORTS \<longrightarrow> map_of fs' n = map_of fs n)
     \<and> (\<forall>n \<in> REPORTS. map_of fs' n \<in> {map_of fs n, Some (report_text n)})
     \<and> (r = Inr () \<longrightarrow> (\<forall>n \<in> REPORTS. map_of fs' n = Some (report_text n) \<and> map_of fs' (temporary_name W n) = None))"

lemma filed_refl: "filed W fs (Inl e) fs"
  by (simp add: filed_def)

lemma write_reports_filed:
  assumes "write_reports W (report_body protocol_messages tool_calls) s = Some (r, s')"
  shows "filed W (l_files s) r (l_files s')"
proof (cases "canonical_bytes (report_body protocol_messages tool_calls)")
  case (Inl e)
  with assms show ?thesis by (auto simp: write_reports_def bindM_def intro: filed_refl)
next
  case (Inr json)
  then have txt_eq: "report_text ''report.json'' = json" "report_text ''report.md'' = investigation_markdown" by (simp_all add: report_text_def)
  from assms Inr consider e where "r = Inl e" "atomic_write_text W ''report.json'' json s = Some (Inl e, s')"
    | s1 where "atomic_write_text W ''report.json'' json s = Some (Inr (), s1)" "atomic_write_text W ''report.md'' investigation_markdown s1 = Some (r, s')"
    unfolding write_reports_def bindM_eq_Some by auto
  then show ?thesis
  proof cases
    case 1
    from atomic_write_Some [OF 1(2)] 1(1) txt_eq show ?thesis by (auto simp: filed_def REPORTS_def)
  next
    case 2
    from atomic_write_Some [OF 2(1)] atomic_write_Some [OF 2(2)] txt_eq show ?thesis by (auto simp: filed_def REPORTS_def)
  qed
qed

definition same_files :: "lab \<Rightarrow> lab \<Rightarrow> bool" where
  "same_files s s' \<longleftrightarrow> l_files s' = l_files s"

interpretation filing: step_relation same_files
  by unfold_locales (auto simp: same_files_def)

lemma filing_steps [intro!]: "filing.keeps (doL W n)" "filing.keeps (put_root n b)" "filing.keeps (with_child m)" "filing.keeps (remove_root W)"
  by (rule filing.keepsI, auto simp: same_files_def doL_eq put_root_def with_child_def remove_root_def split: option.splits prod.splits)+

definition files_well :: "lab_world \<Rightarrow> unit labor \<Rightarrow> bool" where
  "files_well W m \<longleftrightarrow> (\<forall>s r s'. m s = Some (r, s') \<longrightarrow> filed W (l_files s) r (l_files s'))"

lemma files_well_bind:
  assumes "filing.keeps m" and "\<And>x s s'. m s = Some (Inr x, s') \<Longrightarrow> files_well W (f x)"
  shows "files_well W (bindM m f)"
  unfolding files_well_def bindM_eq_Some
proof (intro allI impI, elim disjE exE conjE)
  fix s s' e and r :: "unit outcome" assume "m s = Some (Inl e, s')" "r = Inl e"
  then show "filed W (l_files s) r (l_files s')" using filing.keepsD [OF assms(1)] by (auto simp: same_files_def intro: filed_refl)
next
  fix s s' x u and r :: "unit outcome" assume "m s = Some (Inr x, u)" "f x u = Some (r, s')"
  then show "filed W (l_files s) r (l_files s')"
    using filing.keepsD [OF assms(1)] assms(2) by (fastforce simp: same_files_def files_well_def)
qed

lemma report_value_fixed: "investigation_report rd rs msgs calls b = Inr v \<Longrightarrow> v = report_body msgs calls"
  by (auto simp: investigation_report_def bindE_eq_Inr split: option.splits)

lemma in_root_files: "files_well W (in_root W fuel)"
  unfolding in_root_def copy_fixture_def write_minimal_elf_def make_policy_def read_log_def
proof (intro files_well_bind filing.keeps_bind filing_steps filing.keeps_lift filing.keeps_get)
  fix v u and s s' t t' :: lab and rs b
  assume "liftM (investigation_report (lw_nesting W) rs protocol_messages tool_calls b) s = Some (Inr v, s')"
  then have "v = report_body protocol_messages tool_calls" by (auto intro: report_value_fixed)
  then show "files_well W (write_reports W v)" using write_reports_filed by (simp add: files_well_def)
qed

lemma remove_old_Some:
  assumes "remove_old W name s = Some (r, t)"
  shows "l_root t = l_root s \<and> (\<forall>n. n \<noteq> name \<longrightarrow> map_of (l_files t) n = map_of (l_files s) n)
    \<and> (if r = Inr () then map_of (l_files t) name = None else t = s \<and> lw_fault W (name @ '':remove'') \<noteq> None)"
proof (cases "name \<in> fst ` set (l_files s)")
  case False
  then have "map_of (l_files s) name = None" by (simp add: map_of_eq_None_iff)
  with False assms show ?thesis by (simp add: remove_old_def bindM_def)
qed (use assms in \<open>auto simp: remove_old_def bindM_def doL_eq split: option.splits\<close>)

lemma remove_old_reports_Some:
  assumes "remove_old_reports W s = Some (r, t)"
  shows "l_root t = l_root s \<and> (\<forall>n. n \<notin> REPORTS \<longrightarrow> map_of (l_files t) n = map_of (l_files s) n)
    \<and> (\<forall>n \<in> REPORTS. map_of (l_files t) n \<in> {map_of (l_files s) n, None})
    \<and> (if r = Inr () then \<forall>n \<in> REPORTS. map_of (l_files t) n = None else \<exists>n \<in> REPORTS. lw_fault W (n @ '':remove'') \<noteq> None)"
proof -
  from assms consider e where "remove_old W ''report.json'' s = Some (Inl e, t)" "r = Inl e"
    | u where "remove_old W ''report.json'' s = Some (Inr (), u)" "remove_old W ''report.md'' u = Some (r, t)"
    by (auto simp: remove_old_reports_def bindM_def split: option.splits sum.splits)
  then show ?thesis
  proof cases
    case 1
    from remove_old_Some [OF 1(1)] 1(2) show ?thesis by (simp add: REPORTS_def)
  next
    case 2
    from remove_old_Some [OF 2(1)] remove_old_Some [OF 2(2)] show ?thesis by (auto simp: REPORTS_def split: if_splits)
  qed
qed

text \<open>The cases of a run: it stops before the temporary directory is made, or the directory is made and removed again.\<close>

lemma run_cases:
  assumes "run_investigation W fuel s = Some (r, s')"
  obtains (refused) e where "r = Inl e" "s' = s" "lw_fault W ''output:create'' \<noteq> None \<or> \<not> lw_output_is_dir W"
  | (stuck) e where "r = Inl e" "remove_old_reports W s = Some (Inl e, s')"
  | (cleared) e where "r = Inl e" "remove_old_reports W s = Some (Inr (), s')"
  | (ran) s1 s2 where "remove_old_reports W s = Some (Inr (), s1)" "in_root W fuel (s1\<lparr>l_root := Some []\<rparr>) = Some (r, s2)"
      "s' = (if lw_fault W ''root:remove'' = None then s2\<lparr>l_root := None\<rparr> else s2)"
proof -
  let ?late = "bindM (checkM (lw_server_is_file W) DemoError) (\<lambda>_. bindM (doL W ''root:create'') (\<lambda>_.
      bindM (modifyM (\<lambda>s. s\<lparr>l_root := Some []\<rparr>)) (\<lambda>_. finallyM (in_root W fuel) (remove_root W))))"
  from assms consider e where "r = Inl e" "s' = s" "lw_fault W ''output:create'' \<noteq> None \<or> \<not> lw_output_is_dir W"
    | e where "remove_old_reports W s = Some (Inl e, s')" "r = Inl e"
    | s1 where "remove_old_reports W s = Some (Inr (), s1)" "?late s1 = Some (r, s')"
    unfolding run_investigation_def bindM_eq_Some [of "doL _ ''output:create''"] bindM_eq_Some [of "liftM _"] bindM_eq_Some [of "remove_old_reports _"]
    by (auto simp: doL_eq checkE_def split: option.splits if_splits)
  then show thesis
  proof cases
    case (3 s1)
    then consider e where "r = Inl e" "s' = s1" | "finallyM (in_root W fuel) (remove_root W) (s1\<lparr>l_root := Some []\<rparr>) = Some (r, s')"
      unfolding bindM_eq_Some [of "liftM _"] bindM_eq_Some [of "doL _ ''root:create''"] bindM_eq_Some [of "modifyM _"]
      by (auto simp: doL_eq checkE_def split: option.splits if_splits)
    then show ?thesis
    proof cases
      case 1
      with 3(1) cleared show ?thesis by simp
    next
      case 2
      then obtain s2 where "in_root W fuel (s1\<lparr>l_root := Some []\<rparr>) = Some (r, s2)"
          "s' = (if lw_fault W ''root:remove'' = None then s2\<lparr>l_root := None\<rparr> else s2)"
        by (auto simp: finallyM_def remove_root_def split: option.splits)
      with 3(1) ran show ?thesis by blast
    qed
  qed (use refused stuck in auto)
qed

subsection \<open>Runs end\<close>

lemma run_server_ends:
  assumes "\<And>n. k \<le> n \<Longrightarrow> fl (cw_clock W 8 + TIMEOUT_SECONDS) \<le> cw_clock W n" and "k \<le> fuel" and "0 < fuel"
  shows "Effects.ends (run_server W fuel rd server policy input) (spawned 0)"
proof -
  have "Effects.ends (serve W fuel input) (spawned 1)"
    unfolding serve_def
  proof (intro ends_try ends_bind)
    show "Effects.ends (read_streams_bounded W fuel) t" if "liftM x (spawned 1) = Some (Inr b, t)" for x :: "pybytes outcome" and b t
      using read_ends [of k W 1 fuel] assms that by auto
  qed (auto intro!: loop_freeD simp del: eff_simps)
  then show ?thesis
    unfolding run_server_def
  proof (intro ends_bind)
    fix u v w c1 c2 c3
    assume "liftM (checkE (py ''--allow-legacy-descriptor-walk'' \<notin> set (server_command server policy)) DemoError) (spawned 0) = Some (Inr u, c1)"
      and "liftM (checkE (py ''--allow-legacy-process-pinning'' \<notin> set (server_command server policy)) DemoError) c1 = Some (Inr v, c2)"
      and "callK W c2 = Some (Inr w, c3)"
    then have "c3 = spawned 1" by (auto simp: callK_eq spawned_def split: option.splits)
    then show "Effects.ends (serve W fuel input) c3" if "Effects.ends (serve W fuel input) (spawned 1)" using that by simp
  qed (use \<open>Effects.ends (serve W fuel input) (spawned 1)\<close> in \<open>auto intro!: loop_freeD split: prod.split simp del: eff_simps\<close>)
qed

lemma setup_loop_free [intro!]: "loop_free (doL W n)" "loop_free (put_root n b)" "loop_free (copy_fixture W)" "loop_free (write_minimal_elf W)"
    "loop_free (make_policy W)" "loop_free (read_log W)" "loop_free (remove_root W)" "loop_free (remove_old_reports W)" "loop_free (write_reports W v)"
  unfolding doL_def put_root_def copy_fixture_def write_minimal_elf_def make_policy_def read_log_def remove_root_def remove_old_reports_def remove_old_def
    write_reports_def atomic_write_text_def Let_def discard_temporary_def
  by (auto simp del: eff_simps) (auto simp: loop_free_def fill_def split: option.splits)

lemma with_child_ends: "Effects.ends m (spawned 0) \<Longrightarrow> Effects.ends (with_child m) s"
  by (auto simp: Effects.ends_def with_child_def split: option.splits)

lemma os_calls_sample: "os_calls sample_child"
  by (simp add: os_calls_def sample_child_def)

lemma no_answers: "server_answers rd [] = Inl DemoError"
  by (simp add: server_answers_def ends_with_def)

section \<open>Properties\<close>

text \<open>
  C25: However a run of the server ends, the server was not started, or it has been waited for and every pipe to it is closed. When its
  answers are accepted it ended with status 0, wrote nothing to standard error and at most 256 KiB of output, and the
  answers are one object without an error for each of the seven requests.
\<close>

theorem investigation_servers_are_contained:
  assumes "run_server W fuel rd server policy input (spawned 0) = Some (r, c')" and "os_calls W" and "utf8_encode input \<noteq> None"
  shows "(k_tick c' = 0 \<or> cw_fault W 0 \<noteq> None \<or> k_status c' \<noteq> None \<and> k_open c' = [] \<and> \<not> k_stdin c')
    \<and> (case r of Inl e \<Rightarrow> True
       | Inr rs \<Rightarrow> k_status c' = Some 0 \<and> k_err c' = [] \<and> length (k_out c') \<le> PROTOCOL_OUTPUT_LIMIT \<and> answers_ok rs \<and> set (map fst rs) = set expected_ids)"
proof -
  let ?rest = "\<lambda>(data, errors). bindM (checkM (errors = []) DemoError) (\<lambda>_. bindM (getM k_status) (\<lambda>status.
     bindM (checkM (status = Some 0) DemoError) (\<lambda>_. liftM (server_answers rd data))))"
  from assms(1) consider "c' = spawned 0" "\<exists>e. r = Inl e"
    | "cw_fault W 0 \<noteq> None" "\<exists>e. r = Inl e"
    | e where "serve W fuel input (spawned 1) = Some (Inl e, c')" "r = Inl e"
    | data errors c1 where "serve W fuel input (spawned 1) = Some (Inr (data, errors), c1)" "?rest (data, errors) c1 = Some (r, c')"
    unfolding run_server_def bindM_eq_Some [of "liftM _"] bindM_eq_Some [of "callK W"] bindM_eq_Some [of "serve _ _ _"]
    by (auto simp: checkE_def callK_eq spawned_def split: if_splits option.splits)
  then show ?thesis
  proof cases
    case 3
    from serve_cases [OF 3(1) assms(2,3)] 3(2) show ?thesis by simp
  next
    case 4
    from 4(2) have "c' = c1" by (auto simp: bindM_def checkE_def split: if_splits)
    have "k_status c' = Some 0 \<and> answers_ok rs \<and> set (map fst rs) = set expected_ids" if "r = Inr rs" for rs
      using 4(2) that server_answers_ok [of rd data rs] by (auto simp: bindM_def checkE_def split: if_splits)
    with serve_cases [OF 4(1) assms(2,3)] \<open>c' = c1\<close> show ?thesis by (cases r) auto
  qed auto
qed

theorem investigation_servers_are_contained_witness:
  "\<exists>c'. run_server sample_child 3 8 [] [] [] (spawned 0) = Some (Inl DemoError, c') \<and> k_status c' \<noteq> None \<and> k_open c' = []"
proof -
  have "\<exists>c'. run_server sample_child 3 8 [] [] [] (spawned 0) = Some (Inl DemoError, c') \<and> k_tick c' \<noteq> 0"
    by (simp add: run_server_def serve_def server_command_def read_streams_bounded_def write_input_def callK_eq watch_def bindM_def seeK_def finallyM_def tryM_def
        sample_child_def spawned_def eval_nat_numeral pump_round_def read_event_def drop_stream_def poll_def TIMEOUT_SECONDS_def idle_check_def py_def utf8_encode_def checkE_def no_answers)
  then obtain c' where run: "run_server sample_child 3 8 [] [] [] (spawned 0) = Some (Inl DemoError, c')" and "k_tick c' \<noteq> 0" by blast
  moreover have "utf8_encode [] \<noteq> None" by (simp add: utf8_encode_def)
  ultimately show ?thesis
    using investigation_servers_are_contained [OF run os_calls_sample] by (auto simp: sample_child_def)
qed

text \<open>
  C23: However the run of the investigation ends, only the two report files have changed: each is as it was before the run, or absent, or the
  complete fixed text, never a part of it. After a success both are complete and no temporary file is left. Once the output directory
  is there and old reports can be removed, a failed run leaves no report of an earlier run. The temporary directory of the run is gone
  unless the system refuses to remove it.
\<close>

theorem investigation_reports_are_atomic:
  assumes "run_investigation W fuel s = Some (r, s')"
  shows "(\<forall>n. n \<notin> REPORTS \<union> temporary_name W ` REPORTS \<longrightarrow> map_of (l_files s') n = map_of (l_files s) n)
    \<and> (\<forall>n \<in> REPORTS. map_of (l_files s') n \<in> {map_of (l_files s) n, None, Some (report_text n)})
    \<and> (r = Inr () \<longrightarrow> (\<forall>n \<in> REPORTS. map_of (l_files s') n = Some (report_text n) \<and> map_of (l_files s') (temporary_name W n) = None))
    \<and> (lw_fault W ''output:create'' = None \<and> lw_output_is_dir W \<and> (\<forall>n \<in> REPORTS. lw_fault W (n @ '':remove'') = None)
        \<longrightarrow> (\<forall>n \<in> REPORTS. map_of (l_files s') n \<in> {None, Some (report_text n)}))
    \<and> (l_root s = None \<and> lw_fault W ''root:remove'' = None \<longrightarrow> l_root s' = None)"
  using assms
proof (cases rule: run_cases)
  case (refused e)
  then show ?thesis by auto
next
  case (stuck e)
  with remove_old_reports_Some [OF stuck(2)] show ?thesis by auto
next
  case (cleared e)
  with remove_old_reports_Some [OF cleared(2)] show ?thesis by auto
next
  case (ran s1 s2)
  have old: "\<forall>n. n \<notin> REPORTS \<longrightarrow> map_of (l_files s1) n = map_of (l_files s) n" "\<forall>n \<in> REPORTS. map_of (l_files s1) n = None"
    using remove_old_reports_Some [OF ran(1)] by auto
  have new: "filed W (l_files s1) r (l_files s2)"
    using in_root_files ran(2) unfolding files_well_def by fastforce
  have s': "l_files s' = l_files s2" "lw_fault W ''root:remove'' = None \<Longrightarrow> l_root s' = None" using ran(3) by auto
  show ?thesis using old new s' unfolding filed_def by auto
qed

text \<open>A run on a log that is too large, in a directory that holds an old report and another file.\<close>

definition sample_lab :: lab_world where
  "sample_lab = \<lparr> lw_child = sample_child, lw_nesting = 8, lw_fault = (\<lambda>_. None), lw_output_is_dir = True, lw_server_is_file = True,
     lw_fixture_is_file = True, lw_fixture_size = 65537, lw_fixture = [], lw_server_path = [], lw_root_path = [], lw_policy_path = [],
     lw_random = (\<lambda>_. ''x''), lw_partial = (\<lambda>_. []) \<rparr>"

definition old_lab :: lab where
  "old_lab = \<lparr> l_files = [(''report.md'', [111, 108, 100]), (''notes'', [])], l_root = None, l_child = None \<rparr>"

theorem investigation_reports_are_atomic_witness:
  "run_investigation sample_lab 3 old_lab = Some (Inl DemoError, old_lab\<lparr>l_files := [(''notes'', [])]\<rparr>)
   \<and> map_of (l_files (old_lab\<lparr>l_files := [(''notes'', [])]\<rparr>)) ''notes'' = Some []"
proof -
  have run: "run_investigation sample_lab 3 old_lab = Some (Inl DemoError, old_lab\<lparr>l_files := [(''notes'', [])]\<rparr>)"
    by (simp add: run_investigation_def remove_old_reports_def remove_old_def bindM_def doL_eq sample_lab_def old_lab_def al_remove_def finallyM_def
        remove_root_def in_root_def copy_fixture_def checkE_def FIXTURE_SIZE_LIMIT_def)
  have "map_of (l_files old_lab) ''notes'' = Some []" "''notes'' \<notin> REPORTS \<union> temporary_name sample_lab ` REPORTS"
    by (simp_all add: old_lab_def REPORTS_def temporary_name_def)
  with investigation_reports_are_atomic [OF run] run show ?thesis by metis
qed

text \<open>
  A run of the investigation returns: it makes finitely many steps, whatever the server does, because the fuel of the read loop
  only has to exceed the number of clock readings before the deadline, 20 seconds after the server was started.
\<close>

theorem investigation_returns:
  assumes "\<And>n. k \<le> n \<Longrightarrow> fl (cw_clock (lw_child W) 8 + TIMEOUT_SECONDS) \<le> cw_clock (lw_child W) n" and "k \<le> fuel" and "0 < fuel"
  shows "\<exists>code s'. main_investigation W fuel s = Some (code, s')"
proof -
  have "Effects.ends (in_root W fuel) t" for t
    unfolding in_root_def
    by (intro ends_bind with_child_ends run_server_ends [OF assms] loop_freeD setup_loop_free loop_free_basic)
  then have "Effects.ends (main_investigation W fuel) s"
    unfolding main_investigation_def run_investigation_def
    by (intro ends_try ends_bind ends_finally) (auto intro!: loop_freeD simp del: eff_simps)
  then show ?thesis by (auto simp: Effects.ends_def)
qed

theorem investigation_returns_witness: "\<exists>code s'. main_investigation sample_lab 20 old_lab = Some (code, s')"
  by (rule investigation_returns [of 20]) (simp_all add: sample_lab_def sample_child_def TIMEOUT_SECONDS_def)

end
